(* ===== verification/Prelude.thy ===== *)
theory Prelude
  imports "HOL-Library.AList" "HOL-Library.Word" "HOL-Library.Sublist"
    "HOL-Library.List_Lexorder" "HOL-Library.Char_ord"
begin

text \<open>
  Shared vocabulary of the development: the types every component uses, Rust's \<open>str\<close> as the
  list of its UTF-8 bytes with the standard-library operations the sources call, saturating
  machine arithmetic, and the facts about association lists on which the stores rest.
  A \<open>HashMap\<close> is an association list with distinct keys (theory \<open>AList\<close>): its order stands for
  the unspecified iteration order, so a theorem over all such lists covers every order.
\<close>

named_theorems store_simps \<open>unfolding rules of the operations on stores\<close>
named_theorems str_simps \<open>evaluation of string operations on literals\<close>

type_synonym str = string
type_synonym u8 = "8 word"
type_synonym u32 = "32 word"
type_synonym u64 = "64 word"
type_synonym 'v hash_map = "(str \<times> 'v) list"

section \<open>Saturating arithmetic\<close>

text \<open>Rust's \<open>saturating_add\<close> at the width of the operands.\<close>

definition saturating_add :: "'n::len word \<Rightarrow> 'n word \<Rightarrow> 'n word" where
  "saturating_add a b = (if unat a + unat b < 2 ^ LENGTH('n) then a + b else - 1)"

lemma unat_max_word: "unat (- 1 :: 'n::len word) = 2 ^ LENGTH('n) - 1"
  by (simp add: unsigned_minus_1_eq_mask mask_eq_exp_minus_1)

lemma unat_saturating_add:
  "unat (saturating_add a (b :: 'n::len word)) = min (unat a + unat b) (2 ^ LENGTH('n) - 1)"
proof (cases "unat a + unat b < 2 ^ LENGTH('n)")
  case True
  then show ?thesis by (simp add: saturating_add_def unat_word_ariths)
next
  case False
  then show ?thesis by (simp add: saturating_add_def unat_max_word)
qed

lemma saturating_add_mono: "a \<le> saturating_add a (b :: 'n::len word)"
proof -
  have "unat a < 2 ^ LENGTH('n)" by (rule unsigned_less)
  then have "unat a \<le> 2 ^ LENGTH('n) - 1" by linarith
  then show ?thesis unfolding word_le_nat_alt unat_saturating_add by linarith
qed

lemma saturating_add_one:
  "unat (saturating_add (a :: 'n::len word) 1) = min (Suc (unat a)) (2 ^ LENGTH('n) - 1)"
  by (simp add: unat_saturating_add)

section \<open>Strings as UTF-8 bytes\<close>

text \<open>
  A string of the source is the list of its UTF-8 bytes (\<open>char\<close> is a byte in HOL), so \<open>length\<close>
  is Rust's \<open>len()\<close>. \<open>white_space\<close> lists the encodings of the characters with the Unicode
  property White\_Space, which \<open>str::trim\<close> removes.
\<close>

definition bytes :: "nat list \<Rightarrow> str" where
  "bytes ns = map char_of ns"

definition white_space :: "str list" where
  "white_space = map bytes
     [[9], [10], [11], [12], [13], [32], [0xC2, 0x85], [0xC2, 0xA0], [0xE1, 0x9A, 0x80],
      [0xE2, 0x80, 0x80], [0xE2, 0x80, 0x81], [0xE2, 0x80, 0x82], [0xE2, 0x80, 0x83],
      [0xE2, 0x80, 0x84], [0xE2, 0x80, 0x85], [0xE2, 0x80, 0x86], [0xE2, 0x80, 0x87],
      [0xE2, 0x80, 0x88], [0xE2, 0x80, 0x89], [0xE2, 0x80, 0x8A], [0xE2, 0x80, 0xA8],
      [0xE2, 0x80, 0xA9], [0xE2, 0x80, 0xAF], [0xE2, 0x81, 0x9F], [0xE3, 0x80, 0x80]]"

text \<open>\<open>strip_prefix p s\<close> is \<open>s.strip_prefix(p)\<close>; \<open>strip_suffix\<close> likewise.\<close>

fun strip_prefix :: "'a list \<Rightarrow> 'a list \<Rightarrow> 'a list option" where
  "strip_prefix [] s = Some s"
| "strip_prefix (p # ps) [] = None"
| "strip_prefix (p # ps) (c # cs) = (if p = c then strip_prefix ps cs else None)"

definition starts_with :: "'a list \<Rightarrow> 'a list \<Rightarrow> bool" where
  "starts_with s p = (strip_prefix p s \<noteq> None)"

definition strip_suffix :: "'a list \<Rightarrow> 'a list \<Rightarrow> 'a list option" where
  "strip_suffix p s = map_option rev (strip_prefix (rev p) (rev s))"

definition ends_with :: "'a list \<Rightarrow> 'a list \<Rightarrow> bool" where
  "ends_with s p = (strip_suffix p s \<noteq> None)"

lemma strip_prefix_Some_iff: "strip_prefix p s = Some r \<longleftrightarrow> s = p @ r"
  by (induction p s rule: strip_prefix.induct) auto

lemma strip_prefix_append [simp]: "strip_prefix p (p @ r) = Some r"
  by (simp add: strip_prefix_Some_iff)

lemma strip_prefix_None_iff: "strip_prefix p s = None \<longleftrightarrow> \<not> prefix p s"
  by (induction p s rule: strip_prefix.induct) auto

lemma starts_with_iff_prefix [simp]: "starts_with s p \<longleftrightarrow> prefix p s"
  by (simp add: starts_with_def strip_prefix_None_iff)

lemma ends_with_iff_suffix [simp]: "ends_with s p \<longleftrightarrow> suffix p s"
  by (simp add: ends_with_def strip_suffix_def strip_prefix_None_iff suffix_to_prefix)

text \<open>The first of a list of patterns that is a prefix, stripped (\<open>find_map strip_prefix\<close>).\<close>

fun strip_any :: "'a list list \<Rightarrow> 'a list \<Rightarrow> 'a list option" where
  "strip_any [] s = None"
| "strip_any (p # ps) s = (case strip_prefix p s of Some r \<Rightarrow> Some r | None \<Rightarrow> strip_any ps s)"

lemma strip_any_Some: "strip_any ps s = Some r \<Longrightarrow> \<exists>p \<in> set ps. s = p @ r"
  by (induction ps) (auto split: option.splits simp: strip_prefix_Some_iff)

lemma white_space_nonempty: "[] \<notin> set white_space"
  by (simp add: white_space_def bytes_def)

lemma strip_white_shorter: "strip_any white_space s = Some r \<Longrightarrow> length r < length s"
  using strip_any_Some [of white_space s r] white_space_nonempty by fastforce

text \<open>Trimming removes white-space characters from the front, from the back, from both.\<close>

function trim_start :: "str \<Rightarrow> str" where
  "trim_start s = (case strip_any white_space s of Some r \<Rightarrow> trim_start r | None \<Rightarrow> s)"
  by pat_completeness auto
termination by (relation "measure length") (auto dest: strip_white_shorter)

declare trim_start.simps [simp del]

definition white_space_rev :: "str list" where
  "white_space_rev = map rev white_space"

lemma strip_white_rev_shorter: "strip_any white_space_rev s = Some r \<Longrightarrow> length r < length s"
  using strip_any_Some [of white_space_rev s r] white_space_nonempty
  by (fastforce simp: white_space_rev_def)

function trim_rev :: "str \<Rightarrow> str" where
  "trim_rev s = (case strip_any white_space_rev s of Some r \<Rightarrow> trim_rev r | None \<Rightarrow> s)"
  by pat_completeness auto
termination by (relation "measure length") (auto dest: strip_white_rev_shorter)

declare trim_rev.simps [simp del]

definition trim_end :: "str \<Rightarrow> str" where
  "trim_end s = rev (trim_rev (rev s))"

definition trim :: "str \<Rightarrow> str" where
  "trim s = trim_end (trim_start s)"

lemma trim_start_Nil [simp]: "trim_start [] = []"
  by (subst trim_start.simps) (auto dest: strip_white_shorter split: option.splits)

lemma trim_rev_Nil [simp]: "trim_rev [] = []"
  by (subst trim_rev.simps) (auto dest: strip_white_rev_shorter split: option.splits)

lemma trim_Nil [simp]: "trim [] = []"
  by (simp add: trim_def trim_end_def)

lemma trim_start_suffix: "suffix (trim_start s) s"
proof (induction s rule: trim_start.induct)
  case (1 s)
  show ?case
  proof (cases "strip_any white_space s")
    case None
    then show ?thesis by (subst trim_start.simps) simp
  next
    case (Some r)
    then obtain p where "s = p @ r" using strip_any_Some by blast
    with Some "1.IH" [OF Some] show ?thesis
      by (subst trim_start.simps) (simp add: suffix_appendI)
  qed
qed

lemma trim_id:
  "strip_any white_space s = None \<Longrightarrow> strip_any white_space_rev (rev s) = None \<Longrightarrow> trim s = s"
  by (simp add: trim_def trim_end_def trim_start.simps [of s] trim_rev.simps [of "rev s"])

lemma white_space_bytes:
  "white_space =
    [[CHR 0x09], [CHR 0x0A], [CHR 0x0B], [CHR 0x0C], [CHR 0x0D], [CHR 0x20],
      [CHR 0xC2, CHR 0x85], [CHR 0xC2, CHR 0xA0], [CHR 0xE1, CHR 0x9A, CHR 0x80],
      [CHR 0xE2, CHR 0x80, CHR 0x80], [CHR 0xE2, CHR 0x80, CHR 0x81],
      [CHR 0xE2, CHR 0x80, CHR 0x82], [CHR 0xE2, CHR 0x80, CHR 0x83],
      [CHR 0xE2, CHR 0x80, CHR 0x84], [CHR 0xE2, CHR 0x80, CHR 0x85],
      [CHR 0xE2, CHR 0x80, CHR 0x86], [CHR 0xE2, CHR 0x80, CHR 0x87],
      [CHR 0xE2, CHR 0x80, CHR 0x88], [CHR 0xE2, CHR 0x80, CHR 0x89],
      [CHR 0xE2, CHR 0x80, CHR 0x8A], [CHR 0xE2, CHR 0x80, CHR 0xA8],
      [CHR 0xE2, CHR 0x80, CHR 0xA9], [CHR 0xE2, CHR 0x80, CHR 0xAF],
      [CHR 0xE2, CHR 0x81, CHR 0x9F], [CHR 0xE3, CHR 0x80, CHR 0x80]]"
  by code_simp

lemma white_space_prefix_free: "p \<in> set white_space \<Longrightarrow> strip_any white_space (p @ r) = Some r"
  by (auto simp: white_space_bytes)

lemma strip_any_None_iff: "strip_any ps s = None \<longleftrightarrow> (\<forall>p \<in> set ps. \<not> prefix p s)"
  by (induction ps) (auto simp: strip_prefix_None_iff strip_prefix_Some_iff split: option.splits)

text \<open>A text between two visible ASCII characters is not trimmed.\<close>

definition graphic :: "char \<Rightarrow> bool" where
  "graphic c = (33 \<le> (of_char c :: nat) \<and> (of_char c :: nat) < 127)"

lemma white_space_not_graphic:
  "p \<in> set white_space \<Longrightarrow> p \<noteq> [] \<and> \<not> graphic (hd p) \<and> \<not> graphic (last p)"
  by (auto simp: white_space_bytes graphic_def)

lemma strip_any_graphic:
  "graphic c \<Longrightarrow> strip_any white_space (c # s) = None"
  "graphic c \<Longrightarrow> strip_any white_space_rev (c # s) = None"
  using white_space_not_graphic
  by (fastforce simp: strip_any_None_iff prefix_Cons white_space_rev_def hd_rev
      dest!: arg_cong [where f = rev])+

lemma trim_graphic:
  assumes "s \<noteq> [] \<longrightarrow> graphic (hd s) \<and> graphic (last s)"
  shows "trim s = s"
proof (cases "s = []")
  case False
  with assms have "graphic (hd s)" "graphic (hd (rev s))" by (simp_all add: hd_rev)
  with False show ?thesis
    by (intro trim_id) (metis strip_any_graphic list.collapse rev_is_Nil_conv)+
qed simp

lemma strip_trim_start: "strip_any white_space (trim_start s) = None"
proof (induction s rule: trim_start.induct)
  case (1 s)
  then show ?case
    by (cases "strip_any white_space s") (simp_all add: trim_start.simps [of s])
qed

lemma strip_trim_rev: "strip_any white_space_rev (trim_rev s) = None"
proof (induction s rule: trim_rev.induct)
  case (1 s)
  then show ?case
    by (cases "strip_any white_space_rev s") (simp_all add: trim_rev.simps [of s])
qed

lemma trim_rev_suffix: "suffix (trim_rev s) s"
proof (induction s rule: trim_rev.induct)
  case (1 s)
  show ?case
  proof (cases "strip_any white_space_rev s")
    case (Some r)
    then obtain p where "s = p @ r" using strip_any_Some by blast
    with Some "1.IH" [OF Some] show ?thesis
      by (subst trim_rev.simps) (simp add: suffix_appendI)
  qed (simp add: trim_rev.simps [of s])
qed

lemma trim_trim [simp]: "trim (trim s) = trim s"
proof (rule trim_id)
  have "prefix (trim s) (trim_start s)"
    using trim_rev_suffix [of "rev (trim_start s)"]
    by (simp add: trim_def trim_end_def suffix_to_prefix)
  then show "strip_any white_space (trim s) = None"
    using strip_trim_start [of s] unfolding strip_any_None_iff by (metis prefix_order.trans)
  show "strip_any white_space_rev (rev (trim s)) = None"
    by (simp add: trim_def trim_end_def strip_trim_rev)
qed

lemma trim_nonempty_source: "trim s \<noteq> [] \<Longrightarrow> s \<noteq> []"
  by auto

text \<open>\<open>texts.join(sep)\<close>.\<close>

fun join_with :: "str \<Rightarrow> str list \<Rightarrow> str" where
  "join_with sep [] = []"
| "join_with sep [t] = t"
| "join_with sep (t # ts) = t @ sep @ join_with sep ts"

text \<open>\<open>contains_str s needle\<close> is \<open>s.contains(needle)\<close>.\<close>

fun contains_str :: "str \<Rightarrow> str \<Rightarrow> bool" where
  "contains_str [] needle = (needle = [])"
| "contains_str (c # cs) needle = (starts_with (c # cs) needle \<or> contains_str cs needle)"

lemma contains_str_iff_sublist: "contains_str s needle \<longleftrightarrow> sublist needle s"
  by (induction s) (auto simp: sublist_Cons_right)

definition newline :: str where
  "newline = [CHR 0x0A]"

text \<open>ASCII classification of a byte.\<close>

definition is_ascii_lowercase :: "char \<Rightarrow> bool" where
  "is_ascii_lowercase c = (97 \<le> (of_char c :: nat) \<and> (of_char c :: nat) \<le> 122)"

definition is_ascii_uppercase :: "char \<Rightarrow> bool" where
  "is_ascii_uppercase c = (65 \<le> (of_char c :: nat) \<and> (of_char c :: nat) \<le> 90)"

definition is_ascii_digit :: "char \<Rightarrow> bool" where
  "is_ascii_digit c = (48 \<le> (of_char c :: nat) \<and> (of_char c :: nat) \<le> 57)"

definition to_ascii_lowercase :: "str \<Rightarrow> str" where
  "to_ascii_lowercase s =
     map (\<lambda>c. if is_ascii_uppercase c then char_of ((of_char c :: nat) + 32) else c) s"

definition is_ascii_alphanumeric :: "char \<Rightarrow> bool" where
  "is_ascii_alphanumeric c = (is_ascii_lowercase c \<or> is_ascii_uppercase c \<or> is_ascii_digit c)"

text \<open>The bytes of a UTF-8 character after its first.\<close>

definition is_continuation_byte :: "char \<Rightarrow> bool" where
  "is_continuation_byte c = (0x80 \<le> (of_char c :: nat) \<and> (of_char c :: nat) < 0xC0)"

text \<open>The decimal form of a number, as \<open>format!\<close> writes it.\<close>

fun decimal :: "nat \<Rightarrow> str" where
  "decimal n = (if n < 10 then [char_of (48 + n)] else decimal (n div 10) @ [char_of (48 + n mod 10)])"

declare decimal.simps [simp del]

lemma last_decimal [simp]: "decimal n \<noteq> []" "last (decimal n) \<noteq> CHR ''n''"
proof -
  have "decimal n \<noteq> [] \<and> (\<exists>k < 10. last (decimal n) = char_of (48 + k :: nat))"
    by (cases "n < 10") (auto simp: decimal.simps [of n] intro: exI [of _ n] exI [of _ "n mod 10"])
  moreover have "char_of (48 + k) \<noteq> CHR ''n''" if "k < 10" for k :: nat
  proof
    assume "char_of (48 + k) = CHR ''n''"
    then have "(of_char (char_of (48 + k) :: char) :: nat) = of_char CHR ''n''" by simp
    with that show False by simp
  qed
  ultimately show "decimal n \<noteq> []" "last (decimal n) \<noteq> CHR ''n''" by metis+
qed

section \<open>Options and results\<close>

text \<open>\<open>ok_or\<close>, \<open>filter\<close> and \<open>or_else\<close> of Rust's \<open>Option\<close>; a \<open>Result\<close> is a sum.\<close>

definition ok_or :: "'e \<Rightarrow> 'a option \<Rightarrow> 'e + 'a" where
  "ok_or e x = (case x of Some v \<Rightarrow> Inr v | None \<Rightarrow> Inl e)"

definition opt_filter :: "('a \<Rightarrow> bool) \<Rightarrow> 'a option \<Rightarrow> 'a option" where
  "opt_filter P x = (case x of Some v \<Rightarrow> (if P v then Some v else None) | None \<Rightarrow> None)"

definition or_else :: "'a option \<Rightarrow> 'a option \<Rightarrow> 'a option" where
  "or_else x y = (case x of Some v \<Rightarrow> Some v | None \<Rightarrow> y)"

definition unwrap_or :: "'a \<Rightarrow> 'a option \<Rightarrow> 'a" where
  "unwrap_or d x = (case x of Some v \<Rightarrow> v | None \<Rightarrow> d)"

lemma ok_or_simps [simp]: "ok_or e (Some v) = Inr v" "ok_or e None = Inl e"
  by (simp_all add: ok_or_def)

lemma opt_filter_simps [simp]:
  "opt_filter P None = None" "opt_filter P (Some v) = (if P v then Some v else None)"
  by (simp_all add: opt_filter_def)

lemma or_else_simps [simp]: "or_else (Some v) y = Some v" "or_else None y = y"
  by (simp_all add: or_else_def)

lemma unwrap_or_simps [simp]: "unwrap_or d (Some v) = v" "unwrap_or d None = d"
  by (simp_all add: unwrap_or_def)

text \<open>\<open>map_err\<close>.\<close>

definition map_err :: "('e \<Rightarrow> 'f) \<Rightarrow> 'e + 'a \<Rightarrow> 'f + 'a" where
  "map_err f x = (case x of Inl e \<Rightarrow> Inl (f e) | Inr v \<Rightarrow> Inr v)"

lemma map_err_simps [simp]: "map_err f (Inl e) = Inl (f e)" "map_err f (Inr v) = Inr v"
  by (simp_all add: map_err_def)

lemma map_err_Inr_iff [simp]: "map_err f x = Inr v \<longleftrightarrow> x = Inr v"
  by (cases x) simp_all

text \<open>The \<open>?\<close> operator: continue with the value, or leave with the error.\<close>

definition res_bind :: "'e + 'a \<Rightarrow> ('a \<Rightarrow> 'e + 'b) \<Rightarrow> 'e + 'b" where
  "res_bind x f = (case x of Inl e \<Rightarrow> Inl e | Inr v \<Rightarrow> f v)"

lemma res_bind_simps [simp]: "res_bind (Inl e) f = Inl e" "res_bind (Inr v) f = f v"
  by (simp_all add: res_bind_def)

lemma res_bind_Inr_iff: "res_bind x f = Inr w \<longleftrightarrow> (\<exists>v. x = Inr v \<and> f v = Inr w)"
  by (cases x) simp_all

lemma ok_or_Inr_iff [simp]: "ok_or e x = Inr v \<longleftrightarrow> x = Some v"
  by (cases x) simp_all

section \<open>Association lists\<close>

lemma map_of_update [simp]: "map_of (AList.update k v al) = (map_of al)(k \<mapsto> v)"
  by (rule update_conv')

lemma keys_update: "set (map fst (AList.update k v al)) = insert k (set (map fst al))"
  by (simp add: dom_update)

lemma distinct_keys_update [intro]:
  "distinct (map fst al) \<Longrightarrow> distinct (map fst (AList.update k v al))"
  by (rule distinct_update)

lemma map_of_mem_iff:
  "distinct (map fst al) \<Longrightarrow> (k, v) \<in> set al \<longleftrightarrow> map_of al k = Some v"
  by (simp add: map_of_eq_Some_iff)

text \<open>Every value changed in place, as a loop over \<open>values_mut\<close> does.\<close>

definition map_values :: "('v \<Rightarrow> 'v) \<Rightarrow> ('k \<times> 'v) list \<Rightarrow> ('k \<times> 'v) list" where
  "map_values f al = map (\<lambda>(k, v). (k, f v)) al"

lemma map_of_map_values [simp]: "map_of (map_values f al) k = map_option f (map_of al k)"
  by (induction al) (auto simp: map_values_def)

lemma keys_map_values [simp]: "map fst (map_values f al) = map fst al"
  by (induction al) (auto simp: map_values_def)

end
