(* ===== verification/Json.thy ===== *)
theory Json
  imports Prelude
begin

text \<open>
  The value type of \<open>serde_json\<close> as the sources use it: the variants of \<open>Value\<close>, on which the
  code matches, and the accessors it calls (\<open>get\<close>, \<open>as_str\<close>, \<open>as_array\<close>, \<dots>), with their
  documented behaviour. The workspace builds \<open>serde_json\<close> without \<open>preserve_order\<close>, so an
  object is a \<open>BTreeMap\<close>: its entries are sorted by the bytes of the key. Parsing and printing
  of JSON text are parameters of the definitions that use them.
\<close>

datatype json_number = PosInt u64 | NegInt int | Float u64

datatype json =
    JNull
  | JBool bool
  | JNumber json_number
  | JString str
  | JArray "json list"
  | JObject "(str \<times> json) list"

type_synonym json_map = "(str \<times> json) list"

text \<open>\<open>Map::insert\<close>: replace the value of a key, or add the key at its place in the order.\<close>

fun json_insert :: "str \<Rightarrow> 'v \<Rightarrow> (str \<times> 'v) list \<Rightarrow> (str \<times> 'v) list" where
  "json_insert k v [] = [(k, v)]"
| "json_insert k v ((k', v') # m) =
     (if k = k' then (k, v) # m
      else if k < k' then (k, v) # (k', v') # m
      else (k', v') # json_insert k v m)"

definition json_remove :: "str \<Rightarrow> (str \<times> 'v) list \<Rightarrow> (str \<times> 'v) list" where
  "json_remove k m = filter (\<lambda>(k', _). k' \<noteq> k) m"

text \<open>The object built by \<open>json!({ k: v, ... })\<close>.\<close>

definition json_obj :: "(str \<times> json) list \<Rightarrow> json" where
  "json_obj kvs = JObject (fold (\<lambda>(k, v). json_insert k v) kvs [])"

fun json_get :: "json \<Rightarrow> str \<Rightarrow> json option" where
  "json_get (JObject m) k = map_of m k"
| "json_get _ k = None"

fun as_str :: "json \<Rightarrow> str option" where
  "as_str (JString s) = Some s"
| "as_str _ = None"

fun as_array :: "json \<Rightarrow> json list option" where
  "as_array (JArray xs) = Some xs"
| "as_array _ = None"

fun as_object :: "json \<Rightarrow> json_map option" where
  "as_object (JObject m) = Some m"
| "as_object _ = None"

fun as_bool :: "json \<Rightarrow> bool option" where
  "as_bool (JBool b) = Some b"
| "as_bool _ = None"

fun as_u64 :: "json \<Rightarrow> u64 option" where
  "as_u64 (JNumber (PosInt n)) = Some n"
| "as_u64 _ = None"

definition is_object :: "json \<Rightarrow> bool" where
  "is_object v = (as_object v \<noteq> None)"

definition is_null :: "json \<Rightarrow> bool" where
  "is_null v = (v = JNull)"

text \<open>
  \<open>value[k] = x\<close>: \<open>null\<close> becomes an object, an object takes the entry, any other value panics
  (\<open>None\<close>).
\<close>

fun json_set :: "str \<Rightarrow> json \<Rightarrow> json \<Rightarrow> json option" where
  "json_set k x JNull = Some (JObject [(k, x)])"
| "json_set k x (JObject m) = Some (JObject (json_insert k x m))"
| "json_set k x _ = None"

text \<open>The string under a key, through \<open>get(k).and_then(Value::as_str)\<close>.\<close>

definition get_str :: "json \<Rightarrow> str \<Rightarrow> str option" where
  "get_str v k = Option.bind (json_get v k) as_str"

definition get_array :: "json \<Rightarrow> str \<Rightarrow> json list option" where
  "get_array v k = Option.bind (json_get v k) as_array"

definition json_opt_str :: "str option \<Rightarrow> json" where
  "json_opt_str s = (case s of Some t \<Rightarrow> JString t | None \<Rightarrow> JNull)"

section \<open>Laws of objects\<close>

lemma map_of_json_insert [simp]: "map_of (json_insert k v m) = (map_of m)(k \<mapsto> v)"
  by (induction k v m rule: json_insert.induct) (auto simp: fun_eq_iff)

lemma map_of_json_remove [simp]: "map_of (json_remove k m) = (map_of m)(k := None)"
  by (induction m) (auto simp: json_remove_def fun_eq_iff)

lemma map_of_fold_json_insert:
  "map_of (fold (\<lambda>(k, v). json_insert k v) kvs m) = map_of m ++ map_of (rev kvs)"
proof (induction kvs arbitrary: m)
  case Nil
  then show ?case by simp
next
  case (Cons kv kvs)
  then show ?case by (cases kv) (simp add: map_add_def fun_eq_iff split: option.splits)
qed

lemma json_get_obj [simp]: "json_get (json_obj kvs) k = map_of (rev kvs) k"
  by (simp add: json_obj_def map_of_fold_json_insert)

text \<open>Objects stay sorted by key without repetition, as a \<open>BTreeMap\<close> is.\<close>

definition sorted_keys :: "(str \<times> 'v) list \<Rightarrow> bool" where
  "sorted_keys m = sorted_wrt (<) (map fst m)"

lemma keys_json_insert: "fst ` set (json_insert k v m) = insert k (fst ` set m)"
  by (induction k v m rule: json_insert.induct) auto

lemma sorted_json_insert: "sorted_keys m \<Longrightarrow> sorted_keys (json_insert k v m)"
proof (induction k v m rule: json_insert.induct)
  case (1 k v)
  then show ?case by (simp add: sorted_keys_def)
next
  case (2 k v k' v' m)
  have "\<forall>x \<in> fst ` set (json_insert k v m). k' < x" if "\<not> k < k'" "k \<noteq> k'"
    using 2 that by (auto simp: keys_json_insert sorted_keys_def)
  with 2 show ?case by (auto simp: sorted_keys_def)
qed

lemma json_set_object: "json_set k x (JObject m) \<noteq> None"
  by simp

lemma json_get_set:
  "json_set k x v = Some w \<Longrightarrow> json_get w k' = (if k' = k then Some x else json_get v k')"
  by (cases v) auto

end
