(* ===== verification/Core_Ids.thy ===== *)
theory Core_Ids
  imports Json
begin

text \<open>
  Identities of \<open>aifluxon-core\<close>: the UUID newtypes and their parsers (\<open>ids.rs\<close>), the FNV-1a
  content hash (\<open>hash.rs\<close>), skill identifiers (\<open>skill.rs\<close>) and the authority a host grants
  (\<open>authority.rs\<close>, \<open>capability.rs\<close>, \<open>artifact.rs\<close>). The \<open>uuid\<close> crate is not part of the
  repository: its text format and its name-based identifiers are the fields of \<open>uuid_lib\<close>.
\<close>

section \<open>Identifiers\<close>

type_synonym uuid = "128 word"

datatype session_id = SessionId uuid
datatype run_id = RunId uuid
datatype turn_id = TurnId uuid
datatype task_id = TaskId uuid
datatype tool_invocation_id = ToolInvocationId uuid
datatype operation_id = OperationId uuid

record uuid_lib =
  uuid_parse :: "str \<Rightarrow> uuid option"
  uuid_hyphenated :: "uuid \<Rightarrow> str"
  uuid_v5 :: "str \<Rightarrow> uuid"

text \<open>Documented behaviour of the crate: the hyphenated form of an identifier parses back to it.\<close>

definition uuid_lib_ok :: "uuid_lib \<Rightarrow> bool" where
  "uuid_lib_ok U = (\<forall>u. uuid_parse U (uuid_hyphenated U u) = Some u)"

lemma uuid_hyphenated_inj:
  "uuid_lib_ok U \<Longrightarrow> uuid_hyphenated U u = uuid_hyphenated U v \<longleftrightarrow> u = v"
  unfolding uuid_lib_ok_def by (metis option.inject)

fun session_hyphenated :: "uuid_lib \<Rightarrow> session_id \<Rightarrow> str" where
  "session_hyphenated U (SessionId u) = uuid_hyphenated U u"

fun run_hyphenated :: "uuid_lib \<Rightarrow> run_id \<Rightarrow> str" where
  "run_hyphenated U (RunId u) = uuid_hyphenated U u"

fun invocation_hyphenated :: "uuid_lib \<Rightarrow> tool_invocation_id \<Rightarrow> str" where
  "invocation_hyphenated U (ToolInvocationId u) = uuid_hyphenated U u"

fun operation_hyphenated :: "uuid_lib \<Rightarrow> operation_id \<Rightarrow> str" where
  "operation_hyphenated U (OperationId u) = uuid_hyphenated U u"

definition parse_uuid_id :: "uuid_lib \<Rightarrow> str \<Rightarrow> str \<Rightarrow> str + uuid" where
  "parse_uuid_id U raw label =
     (case uuid_parse U (trim raw) of
        Some u \<Rightarrow> Inr u
      | None \<Rightarrow> Inl (label @ '' must be a valid UUID.''))"

definition session_id_parse :: "uuid_lib \<Rightarrow> str \<Rightarrow> str + session_id" where
  "session_id_parse U raw = map_sum id SessionId (parse_uuid_id U raw ''SessionId'')"

definition run_id_parse :: "uuid_lib \<Rightarrow> str \<Rightarrow> str + run_id" where
  "run_id_parse U raw = map_sum id RunId (parse_uuid_id U raw ''RunId'')"

definition operation_id_parse :: "uuid_lib \<Rightarrow> str \<Rightarrow> str + operation_id" where
  "operation_id_parse U raw = map_sum id OperationId (parse_uuid_id U raw ''OperationId'')"

definition invocation_from_stable_key :: "uuid_lib \<Rightarrow> str \<Rightarrow> tool_invocation_id" where
  "invocation_from_stable_key U key = ToolInvocationId (uuid_v5 U key)"

definition session_from_stable_key :: "uuid_lib \<Rightarrow> str \<Rightarrow> session_id" where
  "session_from_stable_key U key = SessionId (uuid_v5 U key)"

definition session_parse_or_stable_key :: "uuid_lib \<Rightarrow> str \<Rightarrow> str + session_id" where
  "session_parse_or_stable_key U raw0 =
     (let raw = trim raw0 in
      if raw = [] then Inl ''Session identifiers must not be empty.''
      else Inr (case uuid_parse U raw of
                  Some u \<Rightarrow> SessionId u
                | None \<Rightarrow> session_from_stable_key U raw))"

definition canonicalize_chat_session_id :: "uuid_lib \<Rightarrow> str \<Rightarrow> str + str" where
  "canonicalize_chat_session_id U raw0 =
     (let raw = trim raw0 in
      if raw = [] then Inl ''Chat requests require a backend-owned chatSessionId.''
      else (case uuid_parse U raw of
              None \<Rightarrow> Inl ''Chat requests require a valid UUID chatSessionId.''
            | Some parsed \<Rightarrow>
                (let canonical = uuid_hyphenated U parsed in
                 if raw \<noteq> canonical
                 then Inl ''Chat requests require a canonical lowercase UUID chatSessionId.''
                 else Inr canonical)))"

text \<open>
  A concrete \<open>uuid_lib\<close> for the witnesses: identifiers are written as their 128 bits. It has the
  documented round trip and is executable.
\<close>

definition sample_uuid_lib :: uuid_lib where
  "sample_uuid_lib =
     \<lparr>uuid_parse = (\<lambda>s. if length s = 128
         then Some (horner_sum of_bool 2 (map (\<lambda>c. c = CHR ''1'') s)) else None),
      uuid_hyphenated = (\<lambda>u. map (\<lambda>i. if bit u i then CHR ''1'' else CHR ''0'') [0..<128]),
      uuid_v5 = (\<lambda>s. of_nat (length s))\<rparr>"

lemma sample_uuid_lib_ok: "uuid_lib_ok sample_uuid_lib"
proof -
  have "horner_sum of_bool 2 (map (\<lambda>i. (if bit u i then CHR ''1'' else CHR ''0'') = CHR ''1'')
          [0..<128]) = u" for u :: uuid
  proof -
    have "map (\<lambda>i. (if bit u i then CHR ''1'' else CHR ''0'') = CHR ''1'') [0..<128]
        = map (bit u) [0..<128]"
      by simp
    then have "horner_sum of_bool 2
        (map (\<lambda>i. (if bit u i then CHR ''1'' else CHR ''0'') = CHR ''1'') [0..<128])
        = (horner_sum of_bool 2 (map (bit u) [0..<128]) :: uuid)"
      by (rule arg_cong)
    also have "\<dots> = take_bit 128 u" by (rule horner_sum_bit_eq_take_bit)
    also have "\<dots> = u" by (rule bit_word_eqI) (simp add: bit_simps)
    finally show ?thesis .
  qed
  then show ?thesis by (simp add: uuid_lib_ok_def sample_uuid_lib_def comp_def)
qed

text \<open>A canonical chat session id is the hyphenated form of an identifier, and nothing else.\<close>

lemma canonicalize_ok:
  assumes "uuid_lib_ok U"
  shows "canonicalize_chat_session_id U raw = Inr c \<longleftrightarrow>
           c \<noteq> [] \<and> c = trim raw \<and> (\<exists>u. c = uuid_hyphenated U u)"
  using assms unfolding uuid_lib_ok_def canonicalize_chat_session_id_def Let_def
  by (auto split: option.splits)

section \<open>The content hash\<close>

unbundle bit_operations_syntax

definition fnv_offset :: u64 where "fnv_offset = 0xcbf29ce484222325"
definition fnv_prime :: u64 where "fnv_prime = 0x100000001b3"

definition fnv_step :: "u64 \<Rightarrow> char \<Rightarrow> u64" where
  "fnv_step hash byte = (hash XOR of_char byte) * fnv_prime"

definition hex_digit :: "nat \<Rightarrow> char" where
  "hex_digit d = (if d < 10 then char_of (48 + d) else char_of (87 + d))"

text \<open>\<open>{hash:016x}\<close>: sixteen lowercase hexadecimal digits, the most significant first.\<close>

definition hex16 :: "u64 \<Rightarrow> str" where
  "hex16 h = map (\<lambda>i. hex_digit (unat (drop_bit (4 * (15 - i)) h AND 15))) [0..<16]"

definition content_hash :: "str \<Rightarrow> str" where
  "content_hash content = ''fnv1a64:'' @ hex16 (foldl fnv_step fnv_offset content)"

lemma fnv_prime_invertible: "fnv_prime * 0xce965057aff6957b = 1"
  by (simp add: fnv_prime_def)

lemma fnv_mult_inj: 
  assumes "a * fnv_prime = b * fnv_prime" shows "a = b"
proof -
  have "x * fnv_prime * 0xce965057aff6957b = x" for x
    by (simp only: mult.assoc fnv_prime_invertible mult_1_right)
  then show ?thesis using assms by metis
qed

lemma xor_cancel_right: "x XOR z = y XOR z \<Longrightarrow> x = (y :: u64)"
proof -
  assume eq: "x XOR z = y XOR z"
  have "x = (x XOR z) XOR z" by (simp add: xor.assoc)
  also have "\<dots> = y" unfolding eq by (simp add: xor.assoc)
  finally show ?thesis .
qed

lemma xor_cancel_left: "z XOR x = z XOR y \<Longrightarrow> x = (y :: u64)"
  by (rule xor_cancel_right [of x z]) (simp only: xor.commute [of _ z])

lemma fnv_step_inj_hash: "fnv_step h b = fnv_step h' b \<Longrightarrow> h = h'"
  unfolding fnv_step_def by (drule fnv_mult_inj) (rule xor_cancel_right)

lemma of_char_less: "(of_char c :: nat) < 256"
  by (metis mod_less_divisor of_char_mod_256 zero_less_numeral)

lemma unat_of_char: "unat (of_char c :: u64) = (of_char c :: nat)"
proof -
  have "unat (of_char c :: u64) = unat (of_nat (of_char c) :: u64)"
    by (simp only: of_nat_of_char)
  also have "\<dots> = (of_char c :: nat)"
    unfolding unsigned_of_nat take_bit_eq_mod of_nat_id
    by (rule mod_less) (rule less_trans [OF of_char_less], simp)
  finally show ?thesis .
qed

lemma fnv_step_inj_byte:
  assumes "fnv_step h b = fnv_step h c" shows "b = c"
proof -
  from assms have "(of_char b :: u64) = of_char c"
    unfolding fnv_step_def by (blast dest: fnv_mult_inj xor_cancel_left)
  then have "(of_char b :: nat) = of_char c" by (metis unat_of_char)
  then show ?thesis by simp
qed

lemma foldl_fnv_inj: "foldl fnv_step h s = foldl fnv_step h' s \<Longrightarrow> h = h'"
  by (induction s arbitrary: h h') (auto dest: fnv_step_inj_hash)

lemma hex_digit_inj: "a < 16 \<Longrightarrow> b < 16 \<Longrightarrow> hex_digit a = hex_digit b \<Longrightarrow> a = b"
  by (auto simp: hex_digit_def char_of_eq_iff take_bit_eq_mod dest!: arg_cong [where f = "of_char :: char \<Rightarrow> nat"] split: if_splits)

lemma nibble_eq_imp_bit_eq:
  assumes "drop_bit (4 * j) a AND 15 = drop_bit (4 * j) (b :: u64) AND 15" "r < 4"
  shows "bit a (4 * j + r) = bit b (4 * j + r)"
proof -
  have 15: "(15 :: u64) = mask 4" by (simp add: mask_eq_exp_minus_1)
  have "bit (drop_bit (4 * j) a AND 15) r = bit (drop_bit (4 * j) b AND 15) r"
    using assms(1) by simp
  with assms(2) show ?thesis by (simp add: 15 bit_simps)
qed

lemma nibble_less: "unat (x AND 15 :: u64) < 16"
proof -
  have "x AND 15 = take_bit 4 x" by (simp add: take_bit_eq_mask mask_eq_exp_minus_1)
  then have "unat (x AND 15) = take_bit 4 (unat x)" by (simp only: unsigned_take_bit_eq)
  then show ?thesis by (simp add: take_bit_eq_mod)
qed

lemma hex16_inj: 
  assumes "hex16 a = hex16 b" shows "a = b"
proof (rule bit_word_eqI)
  fix n assume n: "n < LENGTH(64)"
  define i where "i = 15 - n div 4"
  have i: "i < 16" "15 - i = n div 4" using n by (auto simp: i_def)
  from assms i(1) have "hex16 a ! i = hex16 b ! i" by simp
  then have "unat (drop_bit (4 * (n div 4)) a AND 15) = unat (drop_bit (4 * (n div 4)) b AND 15)"
    using i hex_digit_inj [OF nibble_less nibble_less] by (simp add: hex16_def)
  then have "drop_bit (4 * (n div 4)) a AND 15 = drop_bit (4 * (n div 4)) b AND 15"
    by (rule unsigned_word_eqI)
  from nibble_eq_imp_bit_eq [OF this, of "n mod 4"] show "bit a n = bit b n" by simp
qed

text \<open>
  The content hash tells apart any two contents that differ in exactly one byte, whatever
  surrounds it: every FNV-1a step is a bijection of the 64-bit state (the prime is odd) and the
  hexadecimal form loses no digit.
\<close>

theorem content_hash_detects_one_byte:
  assumes "b \<noteq> c"
  shows "content_hash (p @ b # s) \<noteq> content_hash (p @ c # s)"
  using assms by (auto simp: content_hash_def dest!: hex16_inj foldl_fnv_inj fnv_step_inj_byte)

theorem content_hash_detects_one_byte_witness: "content_hash ''ab'' \<noteq> content_hash ''aa''"
  using content_hash_detects_one_byte [of "CHR ''b''" "CHR ''a''" "''a''" "[]"] by simp

section \<open>Skill identifiers\<close>

datatype skill_id = SkillId str

fun skill_id_str :: "skill_id \<Rightarrow> str" where
  "skill_id_str (SkillId s) = s"

definition skill_char :: "char \<Rightarrow> bool" where
  "skill_char c = (is_ascii_lowercase c \<or> is_ascii_digit c)"

definition skill_id_parse :: "str \<Rightarrow> skill_id option" where
  "skill_id_parse value =
     (if value = []
         \<or> length value > 64
         \<or> (\<not> is_ascii_lowercase (hd value) \<and> \<not> is_ascii_digit (hd value))
         \<or> \<not> list_all (\<lambda>c. is_ascii_lowercase c \<or> is_ascii_digit c \<or> c = CHR ''-'') value
         \<or> ends_with value ''-''
         \<or> contains_str value ''--''
      then None else Some (SkillId value))"

fun join_dash :: "str list \<Rightarrow> str" where
  "join_dash [] = []"
| "join_dash [g] = g"
| "join_dash (g # gs) = g @ CHR ''-'' # join_dash gs"

definition skill_segment :: "str \<Rightarrow> bool" where
  "skill_segment g = (g \<noteq> [] \<and> list_all skill_char g)"

lemma dash_not_skill_char [simp]: "\<not> skill_char CHR ''-''"
  by (simp add: skill_char_def is_ascii_lowercase_def is_ascii_digit_def)

text \<open>What the parser accepts, apart from the length.\<close>

definition skill_shape :: "str \<Rightarrow> bool" where
  "skill_shape s = (s \<noteq> [] \<and> skill_char (hd s) \<and> list_all (\<lambda>c. skill_char c \<or> c = CHR ''-'') s
     \<and> last s \<noteq> CHR ''-'' \<and> \<not> sublist ''--'' s)"

lemma suffix_singleton_iff: "suffix [c] s \<longleftrightarrow> s \<noteq> [] \<and> last s = c"
  by (metis append_butlast_last_id last_snoc snoc_eq_iff_butlast suffix_def)

lemma skill_id_parse_iff_shape:
  "skill_id_parse s = (if length s \<le> 64 \<and> skill_shape s then Some (SkillId s) else None)"
  by (auto simp: skill_id_parse_def skill_shape_def skill_char_def contains_str_iff_sublist
      suffix_singleton_iff list_all_iff)

lemma skill_shape_segment: "skill_segment g \<Longrightarrow> skill_shape g"
  unfolding skill_segment_def skill_shape_def list_all_iff
  by (auto simp: sublist_def) (metis dash_not_skill_char last_in_set)

lemma skill_shape_append:
  assumes g: "skill_segment g" and r: "skill_shape r"
  shows "skill_shape (g @ CHR ''-'' # r)"
proof -
  have "\<not> sublist ''--'' (g @ CHR ''-'' # r)"
  proof
    assume "sublist ''--'' (g @ CHR ''-'' # r)"
    then obtain ps ss where eq: "g @ CHR ''-'' # r = ps @ CHR ''-'' # CHR ''-'' # ss"
      by (auto simp: sublist_def)
    have nd: "CHR ''-'' \<notin> set g" using g by (auto simp: skill_segment_def list_all_iff)
    have hd: "hd r \<noteq> CHR ''-''" "r \<noteq> []" using r by (auto simp: skill_shape_def)
    from eq nd hd r show False
      by (auto simp: append_eq_append_conv2 Cons_eq_append_conv append_eq_Cons_conv skill_shape_def sublist_def)
  qed
  with g r show ?thesis
    by (auto simp: skill_shape_def skill_segment_def list_all_iff hd_append)
qed

lemma skill_shape_join:
  "gs \<noteq> [] \<Longrightarrow> \<forall>g \<in> set gs. skill_segment g \<Longrightarrow> skill_shape (join_dash gs)"
  by (induction gs rule: join_dash.induct) (auto intro: skill_shape_segment skill_shape_append)

lemma skill_shape_split:
  "skill_shape s \<Longrightarrow> \<exists>gs. gs \<noteq> [] \<and> (\<forall>g \<in> set gs. skill_segment g) \<and> s = join_dash gs"
proof (induction s rule: length_induct)
  case (1 s)
  define g where "g = takeWhile skill_char s"
  have seg: "skill_segment g"
    using "1.prems" by (cases s) (auto simp: g_def skill_shape_def skill_segment_def list_all_iff dest: set_takeWhileD)
  show ?case
  proof (cases "dropWhile skill_char s")
    case Nil
    then have "s = g" unfolding g_def by (metis append_Nil2 takeWhile_dropWhile_id)
    with seg show ?thesis by (intro exI [of _ "[g]"]) simp
  next
    case (Cons c r)
    have s: "s = g @ c # r" unfolding g_def using Cons by (metis takeWhile_dropWhile_id)
    have "\<not> skill_char c" using Cons by (metis hd_dropWhile list.distinct(1) list.sel(1))
    then have c: "c = CHR ''-''" using "1.prems" s by (auto simp: skill_shape_def list_all_iff)
    have r: "r \<noteq> []" using "1.prems" s c by (auto simp: skill_shape_def)
    have "hd r \<noteq> CHR ''-''"
    proof
      assume "hd r = CHR ''-''"
      then have "s = g @ ''--'' @ tl r" using s c r by (cases r) auto
      with "1.prems" show False by (auto simp: skill_shape_def sublist_def)
    qed
    moreover have "\<not> sublist ''--'' r"
    proof
      assume "sublist ''--'' r"
      moreover have "sublist r s" unfolding s by (metis append_Cons append_Nil2 append_assoc sublist_appendI self_append_conv2)
      ultimately have "sublist ''--'' s" by (rule sublist_order.order_trans)
      with "1.prems" show False by (simp add: skill_shape_def)
    qed
    ultimately have "skill_shape r"
      using "1.prems" s r by (cases r) (auto simp: skill_shape_def list_all_iff)
    moreover have "length r < length s" using s by simp
    ultimately obtain gs where gs: "gs \<noteq> []" "\<forall>g \<in> set gs. skill_segment g" "r = join_dash gs"
      using "1.IH" by blast
    then have "s = join_dash (g # gs)" using s c by (cases gs) auto
    with gs seg show ?thesis by (intro exI [of _ "g # gs"]) simp
  qed
qed

text \<open>
  The byte checks of \<open>SkillId::parse\<close> accept exactly the identifiers of the documented form:
  at most 64 bytes, made of non-empty groups of lowercase ASCII letters and digits separated by
  single hyphens.
\<close>

theorem skill_id_parse_grammar:
  "skill_id_parse s = Some (SkillId s) \<longleftrightarrow>
     length s \<le> 64 \<and> (\<exists>gs. gs \<noteq> [] \<and> list_all skill_segment gs \<and> s = join_dash gs)"
  using skill_shape_split [of s] skill_shape_join
  by (auto simp: skill_id_parse_iff_shape list_all_iff)

section \<open>Capabilities, artifacts and authority\<close>

datatype capability_id = CapabilityId str
datatype artifact_ref = ArtifactRef str

fun artifact_str :: "artifact_ref \<Rightarrow> str" where
  "artifact_str (ArtifactRef s) = s"

datatype skill_scope = ScopeProject | ScopeGlobal

fun skill_scope_as_str :: "skill_scope \<Rightarrow> str" where
  "skill_scope_as_str ScopeProject = ''project''"
| "skill_scope_as_str ScopeGlobal = ''global''"

definition skill_scope_parse :: "str \<Rightarrow> str + skill_scope" where
  "skill_scope_parse value =
     (let v = to_ascii_lowercase (trim value) in
      if v = ''project'' then Inr ScopeProject
      else if v = ''global'' then Inr ScopeGlobal
      else Inl ''Skill scope must be `project` or `global`.'')"

datatype agent_filesystem_scope = FsWorkspace | FsIsolated | FsScopedSelection | FsTrusted

datatype permission_mode = PermDefault | PermManaged | PermTrusted

record execution_authority =
  auth_permission_mode :: permission_mode
  auth_filesystem_scope :: agent_filesystem_scope
  auth_capabilities :: "capability_id set"

definition grants :: "execution_authority \<Rightarrow> capability_id \<Rightarrow> bool" where
  "grants a c = (c \<in> auth_capabilities a)"

record skill_manifest =
  manifest_id :: skill_id
  manifest_name :: str
  manifest_version :: "str option"

record skill_contribution =
  contrib_instructions :: "str list"
  contrib_tools :: "str list"
  contrib_required_capabilities :: "capability_id list"

end
