(* ===== verification/Core_Types.thy ===== *)
theory Core_Types
  imports Core_Ids
begin

text \<open>
  The data of \<open>aifluxon-core\<close> that the runtime and the providers exchange: messages
  (\<open>message.rs\<close>), tools and their validation errors (\<open>tool.rs\<close>), operations that need the host
  (\<open>operation.rs\<close>), provider turns (\<open>provider.rs\<close>), runs (\<open>run.rs\<close>) and run events
  (\<open>event.rs\<close>). Points in time are natural numbers (nanoseconds).
\<close>

section \<open>Messages\<close>

datatype message_role = RoleSystem | RoleUser | RoleAssistant | RoleTool

record image_content =
  img_artifact :: artifact_ref
  img_mime_type :: str

record tool_call =
  call_id :: tool_invocation_id
  call_name :: str
  call_arguments :: json
  call_provider_call_id :: "str option"

definition wire_call_id :: "uuid_lib \<Rightarrow> tool_call \<Rightarrow> str" where
  "wire_call_id U call =
     unwrap_or (invocation_hyphenated U (call_id call))
       (opt_filter (\<lambda>i. i \<noteq> []) (map_option trim (call_provider_call_id call)))"

datatype content_part = PartText str | PartImage image_content

record message =
  msg_role :: message_role
  msg_content :: "content_part list"
  msg_tool_calls :: "tool_call list"
  msg_tool_call_id :: "tool_invocation_id option"
  msg_provider_state :: "json option"

section \<open>Tools\<close>

definition MAX_TOOL_ARGUMENT_BYTES :: nat where
  "MAX_TOOL_ARGUMENT_BYTES = 256 * 1024"

datatype tool_effect =
    PureRead | FsRead | FsWrite | ProcessSpawn | ProcessControl | Network | SettingsWrite
  | ExternalSideEffect | UnknownEffect

record tool_descriptor =
  tool_name :: str
  tool_description :: str
  tool_input_schema :: json
  tool_effect_of :: tool_effect
  tool_required_capabilities :: "capability_id list"
  tool_parallel_safe :: bool

datatype tool_validation_error =
    InvalidJson
  | OversizedArgument
  | UnknownTool
  | MissingRequiredField str
  | WrongFieldType str
  | UnknownEnum str
  | SchemaViolation str str str
  | SchemaInvalid str

fun validation_message :: "tool_validation_error \<Rightarrow> str" where
  "validation_message InvalidJson = ''Tool arguments must be valid JSON.''"
| "validation_message OversizedArgument = ''Tool arguments exceed the 262144-byte limit.''"
| "validation_message UnknownTool = ''Unknown tool.''"
| "validation_message (MissingRequiredField f) =
     ''Tool arguments are missing required field `'' @ f @ ''`.''"
| "validation_message (WrongFieldType f) = ''Tool argument `'' @ f @ ''` has the wrong type.''"
| "validation_message (UnknownEnum f) =
     ''Tool argument `'' @ f @ ''` is not an allowed enum value.''"
| "validation_message (SchemaViolation k p m) = m"
| "validation_message (SchemaInvalid m) = m"

fun validation_kind :: "tool_validation_error \<Rightarrow> str" where
  "validation_kind InvalidJson = ''invalid_json''"
| "validation_kind OversizedArgument = ''argument_too_large''"
| "validation_kind UnknownTool = ''unknown_tool''"
| "validation_kind (MissingRequiredField f) = ''required''"
| "validation_kind (WrongFieldType f) = ''type''"
| "validation_kind (UnknownEnum f) = ''enum''"
| "validation_kind (SchemaViolation k p m) = k"
| "validation_kind (SchemaInvalid m) = ''schema''"

fun validation_path :: "tool_validation_error \<Rightarrow> str option" where
  "validation_path (MissingRequiredField f) = Some f"
| "validation_path (WrongFieldType f) = Some f"
| "validation_path (UnknownEnum f) = Some f"
| "validation_path (SchemaViolation k p m) = Some p"
| "validation_path _ = None"

definition is_argument_validation :: "tool_validation_error \<Rightarrow> bool" where
  "is_argument_validation e = (e \<noteq> UnknownTool)"

record prepared_tool_call =
  prepared_name :: str
  prepared_arguments :: json
  prepared_effect :: tool_effect

section \<open>Operations\<close>

datatype operation_mode = BlockingApproval | DeferredCommit

record pending_operation =
  op_id :: operation_id
  op_run_id :: run_id
  op_invocation_id :: "tool_invocation_id option"
  op_effect :: tool_effect
  op_mode :: operation_mode
  op_summary :: str
  op_payload :: json
  op_deadline :: "nat option"

record pending_operation_draft =
  draft_invocation_id :: "tool_invocation_id option"
  draft_effect :: tool_effect
  draft_mode :: operation_mode
  draft_summary :: str
  draft_payload :: json
  draft_deadline :: "nat option"

definition draft_bind :: "pending_operation_draft \<Rightarrow> operation_id \<Rightarrow> run_id \<Rightarrow> pending_operation"
  where
  "draft_bind d i r =
     \<lparr>op_id = i, op_run_id = r, op_invocation_id = draft_invocation_id d,
      op_effect = draft_effect d, op_mode = draft_mode d, op_summary = draft_summary d,
      op_payload = draft_payload d, op_deadline = draft_deadline d\<rparr>"

datatype operation_decision = Approve "json option" | Reject "str option"

datatype operation_state =
    OpPending | OpApproved | OpRejected | OpCommitting | OpCommitted | OpFailed str
  | OpCancelled | OpExpired

fun op_is_terminal :: "operation_state \<Rightarrow> bool" where
  "op_is_terminal OpRejected = True"
| "op_is_terminal OpCommitted = True"
| "op_is_terminal (OpFailed m) = True"
| "op_is_terminal OpCancelled = True"
| "op_is_terminal OpExpired = True"
| "op_is_terminal _ = False"

record operation_snapshot =
  snap_operation :: pending_operation
  snap_state :: operation_state

section \<open>Providers\<close>

datatype provider_id = ProviderId str

fun provider_str :: "provider_id \<Rightarrow> str" where
  "provider_str (ProviderId s) = s"

record model_ref =
  model_provider :: provider_id
  model_name :: str

datatype provider_session_key = ProviderSessionKey str

definition key_from_cache_session :: "str \<Rightarrow> provider_session_key" where
  "key_from_cache_session s = ProviderSessionKey (trim s)"

definition key_from_session_id :: "uuid_lib \<Rightarrow> session_id \<Rightarrow> provider_session_key" where
  "key_from_session_id U s = ProviderSessionKey (session_hyphenated U s)"

record provider_capabilities =
  supports_remote_conversation :: bool
  supports_prompt_cache_key :: bool
  supports_reasoning_stream :: bool
  supports_parallel_tool_calls :: bool
  supports_hosted_tools :: bool
  supports_images :: bool
  supports_web_search :: bool
  supports_session_restore :: bool

definition caps_openai_compatible :: provider_capabilities where
  "caps_openai_compatible =
     \<lparr>supports_remote_conversation = False, supports_prompt_cache_key = True,
      supports_reasoning_stream = True, supports_parallel_tool_calls = True,
      supports_hosted_tools = False, supports_images = True, supports_web_search = True,
      supports_session_restore = False\<rparr>"

definition caps_chatgpt_web :: provider_capabilities where
  "caps_chatgpt_web =
     \<lparr>supports_remote_conversation = True, supports_prompt_cache_key = False,
      supports_reasoning_stream = True, supports_parallel_tool_calls = False,
      supports_hosted_tools = True, supports_images = False, supports_web_search = True,
      supports_session_restore = True\<rparr>"

definition caps_deepseek_web :: provider_capabilities where
  "caps_deepseek_web =
     \<lparr>supports_remote_conversation = True, supports_prompt_cache_key = False,
      supports_reasoning_stream = True, supports_parallel_tool_calls = False,
      supports_hosted_tools = False, supports_images = False, supports_web_search = True,
      supports_session_restore = True\<rparr>"

record provider_feature_request =
  feat_web_search :: bool
  feat_image_generation :: bool
  feat_reasoning_effort :: "str option"
  feat_thinking_mode :: "str option"
  feat_thinking_budget :: "str option"
  feat_prompt_cache_key :: "str option"
  feat_explicit_cache :: bool

definition default_features :: provider_feature_request where
  "default_features =
     \<lparr>feat_web_search = False, feat_image_generation = False, feat_reasoning_effort = None,
      feat_thinking_mode = None, feat_thinking_budget = None, feat_prompt_cache_key = None,
      feat_explicit_cache = False\<rparr>"

record model_turn_request =
  req_model :: str
  req_messages :: "message list"
  req_tools :: "tool_descriptor list"
  req_session_key :: provider_session_key
  req_run_id :: run_id
  req_opaque_state :: "json option"
  req_features :: provider_feature_request

datatype continuation_reason = Incomplete | ProviderRequested | SummaryOnly

fun default_limit :: "continuation_reason \<Rightarrow> u32" where
  "default_limit Incomplete = 2"
| "default_limit SummaryOnly = 1"
| "default_limit ProviderRequested = 4"

datatype provider_terminal =
    TermStop | TermToolCalls | TermContinue continuation_reason | TermCancelled | TermError

fun continuation_reason_of :: "provider_terminal \<Rightarrow> continuation_reason option" where
  "continuation_reason_of (TermContinue reason) = Some reason"
| "continuation_reason_of _ = None"

record model_turn =
  turn_text :: str
  turn_reasoning :: str
  turn_tool_calls :: "tool_call list"
  turn_usage :: "json option"
  turn_terminal :: provider_terminal
  turn_opaque :: json

text \<open>A \<open>ProviderError\<close> is its message.\<close>

datatype provider_error = ProviderError str

fun provider_error_message :: "provider_error \<Rightarrow> str" where
  "provider_error_message (ProviderError m) = m"

text \<open>The calls a provider makes on its \<open>ModelEventSink\<close>.\<close>

datatype sink_event = SinkText str | SinkReasoning str | SinkUsage json

section \<open>Runs\<close>

record run_context =
  ctx_run_id :: run_id
  ctx_session_id :: "session_id option"
  ctx_parent_run_id :: "run_id option"

record run_limits =
  max_model_rounds :: u32
  max_tool_invocations :: u32

definition limits_unlimited :: run_limits where
  "limits_unlimited = \<lparr>max_model_rounds = - 1, max_tool_invocations = - 1\<rparr>"

definition is_unlimited :: "run_limits \<Rightarrow> bool" where
  "is_unlimited l = (max_model_rounds l = - 1 \<and> max_tool_invocations l = - 1)"

definition default_limits :: run_limits where
  "default_limits = \<lparr>max_model_rounds = 32, max_tool_invocations = 64\<rparr>"

record run_request =
  run_session_id :: "session_id option"
  run_messages :: "message list"
  run_model :: model_ref
  run_session_key :: "provider_session_key option"
  run_allowed_tools :: "str list option"
  run_limits_of :: run_limits
  run_features :: provider_feature_request
  run_authority :: "execution_authority option"

datatype run_state = Running | AwaitingOperation | Completed | Failed | Cancelled

section \<open>Run events\<close>

datatype run_event =
    EvRunStarted run_context
  | EvStateChanged run_state
  | EvModelDelta str
  | EvReasoningDelta str
  | EvToolStarted tool_invocation_id str json
  | EvToolFinished tool_invocation_id str json
  | EvOperationRequested pending_operation
  | EvUsageUpdated json
  | EvArtifactProduced artifact_ref
  | EvCompleted "message list"
  | EvFailed str
  | EvCancelled

fun terminal_state :: "run_event \<Rightarrow> run_state option" where
  "terminal_state (EvCompleted out) = Some Completed"
| "terminal_state (EvFailed m) = Some Failed"
| "terminal_state EvCancelled = Some Cancelled"
| "terminal_state _ = None"

record run_event_envelope =
  env_sequence :: u64
  env_run_id :: run_id
  env_event :: run_event

end
