(* ===== verification/Continuation.thy ===== *)
theory Continuation
  imports Core_Types
begin

text \<open>
  Bounded continuation of a model turn (\<open>continuation.rs\<close> of \<open>aifluxon-runtime\<close>): how often a
  provider may ask for another turn, by reason, and the request the next turn gets.
\<close>

section \<open>Continuation counts\<close>

record continuation_counts =
  cc_unlimited :: bool
  cc_incomplete :: u32
  cc_summary_only :: u32
  cc_provider_requested :: u32

definition counts_for_limits :: "run_limits \<Rightarrow> continuation_counts" where
  "counts_for_limits limits =
     \<lparr>cc_unlimited = is_unlimited limits, cc_incomplete = 0, cc_summary_only = 0,
      cc_provider_requested = 0\<rparr>"

fun slot_of :: "continuation_reason \<Rightarrow> continuation_counts \<Rightarrow> u32" where
  "slot_of Incomplete cc = cc_incomplete cc"
| "slot_of SummaryOnly cc = cc_summary_only cc"
| "slot_of ProviderRequested cc = cc_provider_requested cc"

fun set_slot :: "continuation_reason \<Rightarrow> u32 \<Rightarrow> continuation_counts \<Rightarrow> continuation_counts" where
  "set_slot Incomplete n cc = cc\<lparr>cc_incomplete := n\<rparr>"
| "set_slot SummaryOnly n cc = cc\<lparr>cc_summary_only := n\<rparr>"
| "set_slot ProviderRequested n cc = cc\<lparr>cc_provider_requested := n\<rparr>"

definition try_begin :: "continuation_reason \<Rightarrow> continuation_counts \<Rightarrow> bool \<times> continuation_counts"
  where
  "try_begin reason cc =
     (if cc_unlimited cc then (True, cc)
      else if slot_of reason cc \<ge> default_limit reason then (False, cc)
      else (True, set_slot reason (slot_of reason cc + 1) cc))"

definition reset_incomplete :: "continuation_counts \<Rightarrow> continuation_counts" where
  "reset_incomplete cc = cc\<lparr>cc_incomplete := 0\<rparr>"

section \<open>The continued request\<close>

definition assistant_continuation_message :: "model_turn \<Rightarrow> message" where
  "assistant_continuation_message turn =
     \<lparr>msg_role = RoleAssistant,
      msg_content = (if turn_text turn \<noteq> [] then [PartText (turn_text turn)] else []),
      msg_tool_calls = turn_tool_calls turn,
      msg_tool_call_id = None,
      msg_provider_state = (if is_null (turn_opaque turn) then None else Some (turn_opaque turn))\<rparr>"

definition continuation_prompt_text :: "continuation_reason \<Rightarrow> model_turn \<Rightarrow> str" where
  "continuation_prompt_text reason turn =
     (case reason of
        Incomplete \<Rightarrow> ''The previous assistant message promised or prepared to inspect, search, read, run, verify, or edit, but it did not include a tool call. Continue the same user request now by calling the necessary tool or tools. Do not restate intent and do not give a final answer until the required tool work is actually complete.''
      | SummaryOnly \<Rightarrow>
          (let hidden = trim (unwrap_or [] (get_str (turn_opaque turn) ''hidden_context''))
           in ''The previous response contained only an internal summary, not a user-facing answer. Treat the following summary as hidden context and continue the same user request by giving a concise final answer. Do not include internal recap sections in the user-visible answer.''
              @ newline @ newline @ ''Hidden summary:'' @ newline @ hidden)
      | ProviderRequested \<Rightarrow>
          ''Continue the same turn; the previous response was not terminal.'')"

definition continuation_prompt :: "continuation_reason \<Rightarrow> model_turn \<Rightarrow> message" where
  "continuation_prompt reason turn =
     \<lparr>msg_role = RoleSystem, msg_content = [PartText (continuation_prompt_text reason turn)],
      msg_tool_calls = [], msg_tool_call_id = None, msg_provider_state = None\<rparr>"

definition has_replay_items :: "model_turn \<Rightarrow> bool" where
  "has_replay_items turn =
     (case Option.bind (or_else (json_get (turn_opaque turn) ''response_items'')
                                (json_get (turn_opaque turn) ''responses_replay_items'')) as_array of
        Some items \<Rightarrow> items \<noteq> [] | None \<Rightarrow> False)"

definition apply_continuation ::
    "model_turn_request \<Rightarrow> model_turn \<Rightarrow> continuation_reason \<Rightarrow> model_turn_request" where
  "apply_continuation request0 turn reason =
     (let request = request0\<lparr>req_opaque_state := Some (turn_opaque turn)\<rparr> in
      case reason of
        Incomplete \<Rightarrow>
          request\<lparr>req_messages := req_messages request @ [assistant_continuation_message turn]
                                  @ [continuation_prompt reason turn]\<rparr>
      | SummaryOnly \<Rightarrow>
          request\<lparr>req_messages := req_messages request @ [continuation_prompt reason turn]\<rparr>
      | ProviderRequested \<Rightarrow>
          (if trim (turn_text turn) \<noteq> [] \<or> has_replay_items turn
           then request\<lparr>req_messages := req_messages request @ [assistant_continuation_message turn]\<rparr>
           else request\<lparr>req_messages := req_messages request @ [continuation_prompt reason turn]\<rparr>))"

section \<open>Laws\<close>

lemma apply_continuation_frame:
  "req_model (apply_continuation r t c) = req_model r"
  "req_tools (apply_continuation r t c) = req_tools r"
  "req_session_key (apply_continuation r t c) = req_session_key r"
  "req_run_id (apply_continuation r t c) = req_run_id r"
  "req_features (apply_continuation r t c) = req_features r"
  "req_opaque_state (apply_continuation r t c) = Some (turn_opaque t)"
  by (simp_all add: apply_continuation_def Let_def split: continuation_reason.split)

lemma apply_continuation_messages:
  "\<exists>new. req_messages (apply_continuation r t c) = req_messages r @ new \<and> new \<noteq> []
     \<and> set new \<subseteq> {assistant_continuation_message t, continuation_prompt c t}"
  by (cases c) (auto simp: apply_continuation_def Let_def)

text \<open>A history of the counts: a turn that asks to continue, or a round of tools that resets.\<close>

datatype count_event = AskContinue continuation_reason | ToolRound

fun counts_run :: "count_event list \<Rightarrow> continuation_counts \<Rightarrow> bool list" where
  "counts_run [] cc = []"
| "counts_run (ToolRound # es) cc = counts_run es (reset_incomplete cc)"
| "counts_run (AskContinue r # es) cc =
     (case try_begin r cc of (ok, cc') \<Rightarrow> ok # counts_run es cc')"

fun granted :: "continuation_reason \<Rightarrow> count_event list \<Rightarrow> continuation_counts \<Rightarrow> nat" where
  "granted q [] cc = 0"
| "granted q (ToolRound # es) cc = granted q es (reset_incomplete cc)"
| "granted q (AskContinue r # es) cc =
     (case try_begin r cc of (ok, cc') \<Rightarrow> (if ok \<and> r = q then 1 else 0) + granted q es cc')"

fun asked :: "continuation_reason \<Rightarrow> count_event list \<Rightarrow> nat" where
  "asked q [] = 0"
| "asked q (ToolRound # es) = asked q es"
| "asked q (AskContinue r # es) = (if r = q then 1 else 0) + asked q es"

fun tool_rounds :: "count_event list \<Rightarrow> nat" where
  "tool_rounds [] = 0"
| "tool_rounds (ToolRound # es) = Suc (tool_rounds es)"
| "tool_rounds (AskContinue r # es) = tool_rounds es"

lemma unat_plus_one_small: "x < (4 :: u32) \<Longrightarrow> unat (x + 1) = Suc (unat x)"
proof -
  assume "x < 4"
  then have "unat x < 4" by (simp add: word_less_nat_alt)
  then show ?thesis by (simp add: unat_word_ariths)
qed

lemma default_limit_le: "default_limit r \<le> 4"
  by (cases r) simp_all

lemma slot_of_set_slot [simp]:
  "slot_of q (set_slot r n cc) = (if q = r then n else slot_of q cc)"
  by (cases q; cases r) simp_all

lemma cc_unlimited_set_slot [simp]: "cc_unlimited (set_slot r n cc) = cc_unlimited cc"
  by (cases r) simp_all

lemma try_begin_bounded:
  assumes "\<not> cc_unlimited cc" "try_begin r cc = (ok, cc')"
  shows "\<not> cc_unlimited cc'
    \<and> ok = (unat (slot_of r cc) < unat (default_limit r))
    \<and> (\<forall>q. unat (slot_of q cc') = unat (slot_of q cc) + (if ok \<and> q = r then 1 else 0))"
proof (cases "slot_of r cc \<ge> default_limit r")
  case True
  with assms show ?thesis by (auto simp: try_begin_def word_le_nat_alt)
next
  case False
  then have "slot_of r cc < 4" using default_limit_le [of r] by (simp add: not_le)
  from unat_plus_one_small [OF this] False assms show ?thesis
    by (auto simp: try_begin_def word_le_nat_alt)
qed

lemma granted_exact:
  assumes "\<not> cc_unlimited cc" "q \<noteq> Incomplete"
  shows "granted q es cc = min (asked q es) (unat (default_limit q) - unat (slot_of q cc))"
  using assms
proof (induction es arbitrary: cc)
  case Nil
  then show ?case by simp
next
  case (Cons e es)
  show ?case
  proof (cases e)
    case ToolRound
    with Cons.IH [of "reset_incomplete cc"] Cons.prems show ?thesis
      by (cases q) (simp_all add: reset_incomplete_def)
  next
    case (AskContinue r)
    obtain ok cc' where tb: "try_begin r cc = (ok, cc')" by (metis surj_pair)
    from try_begin_bounded [OF Cons.prems(1) tb] have cc': "\<not> cc_unlimited cc'"
      and ok: "ok = (unat (slot_of r cc) < unat (default_limit r))"
      and sl: "unat (slot_of q cc') = unat (slot_of q cc) + (if ok \<and> q = r then 1 else 0)"
      by blast+
    from Cons.IH [OF cc' Cons.prems(2)] ok sl tb show ?thesis
      by (cases "q = r") (auto simp: AskContinue)
  qed
qed

lemma granted_incomplete_bound:
  "\<not> cc_unlimited cc \<Longrightarrow>
     granted Incomplete es cc + unat (cc_incomplete cc) \<le> 2 * (1 + tool_rounds es)
       + (unat (cc_incomplete cc) - 2)"
proof (induction es arbitrary: cc)
  case Nil
  then show ?case by simp
next
  case (Cons e es)
  show ?case
  proof (cases e)
    case ToolRound
    with Cons.IH [of "reset_incomplete cc"] Cons.prems show ?thesis
      by (simp add: reset_incomplete_def)
  next
    case (AskContinue r)
    obtain ok cc' where tb: "try_begin r cc = (ok, cc')" by (metis surj_pair)
    from try_begin_bounded [OF Cons.prems tb] have cc': "\<not> cc_unlimited cc'"
      and ok: "ok = (unat (slot_of r cc) < unat (default_limit r))"
      and sl: "unat (slot_of Incomplete cc') = unat (slot_of Incomplete cc)
        + (if ok \<and> Incomplete = r then 1 else 0)"
      by blast+
    from Cons.IH [OF cc'] ok sl tb show ?thesis
      by (cases "r = Incomplete") (auto simp: AskContinue)
  qed
qed

lemma granted_unlimited:
  "cc_unlimited cc \<Longrightarrow> granted q es cc = asked q es"
  by (induction q es cc rule: granted.induct) (auto simp: try_begin_def reset_incomplete_def)

text \<open>
  Continuation is bounded by reason. Over any history of turns that ask to continue and
  rounds of tools in between: a run with some limit grants exactly the first
  summary-only request and the first four requests of the provider, and at most two
  incomplete answers per round of tools; a run without limits grants every request.
\<close>

theorem continuation_is_bounded:
  "granted SummaryOnly es (counts_for_limits l)
     = (if is_unlimited l then asked SummaryOnly es else min (asked SummaryOnly es) 1)
 \<and> granted ProviderRequested es (counts_for_limits l)
     = (if is_unlimited l then asked ProviderRequested es else min (asked ProviderRequested es) 4)
 \<and> (if is_unlimited l then granted Incomplete es (counts_for_limits l) = asked Incomplete es
    else granted Incomplete es (counts_for_limits l) \<le> 2 * (1 + tool_rounds es))"
proof (cases "is_unlimited l")
  case True
  then show ?thesis by (simp add: granted_unlimited counts_for_limits_def)
next
  case False
  let ?cc = "counts_for_limits l"
  have cc: "\<not> cc_unlimited ?cc" using False by (simp add: counts_for_limits_def)
  have "granted SummaryOnly es ?cc = min (asked SummaryOnly es) 1"
    using granted_exact [OF cc, of SummaryOnly es] by (simp add: counts_for_limits_def)
  moreover have "granted ProviderRequested es ?cc = min (asked ProviderRequested es) 4"
    using granted_exact [OF cc, of ProviderRequested es] by (simp add: counts_for_limits_def)
  moreover have "granted Incomplete es ?cc \<le> 2 * (1 + tool_rounds es)"
    using granted_incomplete_bound [OF cc, of es] by (simp add: counts_for_limits_def)
  ultimately show ?thesis using False by simp
qed

end
