(* ===== verification/Context.thy ===== *)
theory Context
  imports Core_Ids Json
begin

text \<open>
  The context of a request (\<open>context.rs\<close> of \<open>aifluxon-runtime\<close>): its layers, their hash, pruning
  that keeps tool results with the calls they answer, and the fields a continuation preserves.
\<close>

section \<open>Layers\<close>

definition OPAQUE_CONTINUATION_FIELDS :: "str list" where
  "OPAQUE_CONTINUATION_FIELDS =
     [''reasoning_content'', ''responses_replay_items'', ''response_items'', ''hidden_context'',
      ''thought_signature'', ''context_signature'', ''conversation_cursor'', ''parent_message_id'',
      ''binding_generation'']"

record context_layers =
  layer_stable_prefix :: "json list"
  layer_conversation :: "json list"
  layer_dynamic :: "json list"

definition role_of :: "json \<Rightarrow> str" where
  "role_of m = unwrap_or [] (get_str m ''role'')"

text \<open>The loop over the messages; the flag says that the prefix has not ended.\<close>

fun split_loop :: "bool \<Rightarrow> json list \<Rightarrow> context_layers \<Rightarrow> context_layers" where
  "split_loop in_prefix [] l = l"
| "split_loop in_prefix (m # ms) l =
     (if in_prefix \<and> role_of m = ''system''
      then split_loop in_prefix ms (l\<lparr>layer_stable_prefix := layer_stable_prefix l @ [m]\<rparr>)
      else if role_of m = ''tool'' \<or> json_get m ''tool_call_id'' \<noteq> None
      then split_loop False ms (l\<lparr>layer_dynamic := layer_dynamic l @ [m]\<rparr>)
      else split_loop False ms (l\<lparr>layer_conversation := layer_conversation l @ [m]\<rparr>))"

definition split_context_layers :: "json list \<Rightarrow> context_layers" where
  "split_context_layers ms =
     split_loop True ms \<lparr>layer_stable_prefix = [], layer_conversation = [], layer_dynamic = []\<rparr>"

text \<open>\<open>print\<close> is \<open>serde_json::to_string\<close>, which does not fail on a value.\<close>

definition stable_prefix_hash :: "(json \<Rightarrow> str) \<Rightarrow> json list \<Rightarrow> str" where
  "stable_prefix_hash print ms =
     content_hash (print (json_obj
       [(''messages'', JArray (layer_stable_prefix (split_context_layers ms)))]))"

definition message_contains_runtime_metadata :: "json \<Rightarrow> bool" where
  "message_contains_runtime_metadata m =
     (let content = unwrap_or [] (get_str m ''content'') in
      list_ex (contains_str content)
        [''runId'', ''turnId'', ''operationId'', bytes [34] @ ''timestamp'' @ bytes [34], ''telemetry''])"

definition context_contains_runtime_metadata :: "json list \<Rightarrow> bool" where
  "context_contains_runtime_metadata ms = list_ex message_contains_runtime_metadata ms"

section \<open>Pruning\<close>

definition is_tool_result :: "json \<Rightarrow> bool" where
  "is_tool_result m = (get_str m ''role'' = Some ''tool'' \<or> json_get m ''tool_call_id'' \<noteq> None)"

definition is_assistant_tool_call :: "json \<Rightarrow> bool" where
  "is_assistant_tool_call m =
     (get_str m ''role'' = Some ''assistant''
      \<and> (case get_array m ''tool_calls'' of Some calls \<Rightarrow> calls \<noteq> [] | None \<Rightarrow> False))"

text \<open>Back over tool results, to the call they answer.\<close>

fun back_up :: "json list \<Rightarrow> nat \<Rightarrow> nat" where
  "back_up rest 0 = 0"
| "back_up rest (Suc n) =
     (if is_tool_result (rest ! Suc n)
      then (if is_assistant_tool_call (rest ! n) then n else back_up rest n)
      else Suc n)"

text \<open>Forward over the tool results of the list.\<close>

definition skip_results :: "json list \<Rightarrow> nat \<Rightarrow> nat" where
  "skip_results rest start = start + length (takeWhile is_tool_result (drop start rest))"

definition prune_start :: "json list \<Rightarrow> nat \<Rightarrow> nat" where
  "prune_start rest keep_rest =
     (let start = back_up rest (length rest - keep_rest) in
      if start < length rest \<and> is_tool_result (rest ! start)
      then skip_results rest (min (start + 1) (length rest)) else start)"

definition prune_preserving_tool_pairs :: "json list \<Rightarrow> nat \<Rightarrow> json list" where
  "prune_preserving_tool_pairs ms max_messages =
     (if length ms \<le> max_messages then ms
      else
        let layers = split_context_layers ms;
            prefix_len = length (layer_stable_prefix layers);
            rest = drop prefix_len ms in
        if length rest \<le> max_messages - prefix_len then ms
        else layer_stable_prefix layers @ drop (prune_start rest (max (max_messages - prefix_len) 1)) rest)"

section \<open>Opaque continuation state\<close>

text \<open>\<open>into[field] = value\<close> panics on a value that is no object: the whole loop is \<open>None\<close> then.\<close>

fun preserve_loop :: "json \<Rightarrow> str list \<Rightarrow> json \<Rightarrow> json option" where
  "preserve_loop source [] target = Some target"
| "preserve_loop source (f # fs) target =
     (case json_get source f of
        Some v \<Rightarrow> (case json_set f v target of
            Some t \<Rightarrow> preserve_loop source fs t | None \<Rightarrow> None)
      | None \<Rightarrow> preserve_loop source fs target)"

definition preserve_opaque_continuation :: "json \<Rightarrow> json \<Rightarrow> json option" where
  "preserve_opaque_continuation source target =
     preserve_loop source OPAQUE_CONTINUATION_FIELDS target"

section \<open>Properties\<close>

definition is_dynamic :: "json \<Rightarrow> bool" where
  "is_dynamic m = (role_of m = ''tool'' \<or> json_get m ''tool_call_id'' \<noteq> None)"

lemma split_loop_rest:
  "split_loop False ms l = l\<lparr>layer_dynamic := layer_dynamic l @ filter is_dynamic ms,
     layer_conversation := layer_conversation l @ filter (\<lambda>m. \<not> is_dynamic m) ms\<rparr>"
  by (induction ms arbitrary: l) (auto simp: is_dynamic_def)

lemma split_loop_prefix:
  "split_loop True ms l =
     (let rest = dropWhile (\<lambda>m. role_of m = ''system'') ms in
      l\<lparr>layer_stable_prefix := layer_stable_prefix l @ takeWhile (\<lambda>m. role_of m = ''system'') ms,
        layer_dynamic := layer_dynamic l @ filter is_dynamic rest,
        layer_conversation := layer_conversation l @ filter (\<lambda>m. \<not> is_dynamic m) rest\<rparr>)"
  by (induction ms arbitrary: l) (auto simp: split_loop_rest Let_def is_dynamic_def)

text \<open>
  The layers of a context. The stable prefix is the run of system messages at the front;
  of what follows, tool results go to the dynamic layer and all else to the conversation, in
  order: the layers together hold as many messages as the context.
\<close>

theorem context_layers_partition:
  "split_context_layers ms =
     \<lparr>layer_stable_prefix = takeWhile (\<lambda>m. role_of m = ''system'') ms,
      layer_conversation = filter (\<lambda>m. \<not> is_dynamic m) (dropWhile (\<lambda>m. role_of m = ''system'') ms),
      layer_dynamic = filter is_dynamic (dropWhile (\<lambda>m. role_of m = ''system'') ms)\<rparr>
   \<and> length (layer_stable_prefix (split_context_layers ms))
       + length (layer_conversation (split_context_layers ms))
       + length (layer_dynamic (split_context_layers ms)) = length ms"
proof -
  have eq: "split_context_layers ms =
     \<lparr>layer_stable_prefix = takeWhile (\<lambda>m. role_of m = ''system'') ms,
      layer_conversation = filter (\<lambda>m. \<not> is_dynamic m) (dropWhile (\<lambda>m. role_of m = ''system'') ms),
      layer_dynamic = filter is_dynamic (dropWhile (\<lambda>m. role_of m = ''system'') ms)\<rparr>"
    by (simp add: split_context_layers_def split_loop_prefix Let_def)
  have "length (filter (\<lambda>m. \<not> is_dynamic m) xs) + length (filter is_dynamic xs) = length xs" for xs
    using sum_length_filter_compl [of is_dynamic xs] by simp
  moreover have "length (takeWhile P xs) + length (dropWhile P xs) = length xs" for P and xs :: "json list"
    by (metis length_append takeWhile_dropWhile_id)
  ultimately show ?thesis by (simp add: eq add.assoc)
qed

lemma back_up_le: "back_up rest n \<le> n"
  by (induction rest n rule: back_up.induct) auto

lemma back_up_spec:
  "\<not> is_tool_result (rest ! back_up rest n) \<or> is_assistant_tool_call (rest ! back_up rest n)
     \<or> back_up rest n = 0"
  by (induction rest n rule: back_up.induct) auto

lemma skip_results_spec:
  "skip_results rest k < length rest \<Longrightarrow> \<not> is_tool_result (rest ! skip_results rest k)"
proof -
  assume less: "skip_results rest k < length rest"
  let ?n = "length (takeWhile is_tool_result (drop k rest))"
  from less have "?n < length (drop k rest)" by (simp add: skip_results_def)
  then have "\<not> is_tool_result (drop k rest ! ?n)" by (rule nth_length_takeWhile)
  then show ?thesis using less by (simp add: skip_results_def)
qed

lemma prune_start_no_orphan:
  "prune_start rest keep < length rest \<Longrightarrow> \<not> is_tool_result (rest ! prune_start rest keep)"
  using skip_results_spec [of rest "min (back_up rest (length rest - keep) + 1) (length rest)"]
  by (auto simp: prune_start_def Let_def split: if_splits)

lemma prune_start_dropped:
  "\<exists>start \<le> length rest - keep. start \<le> prune_start rest keep
     \<and> list_all is_tool_result (take (prune_start rest keep - start) (drop start rest))"
proof -
  let ?s = "back_up rest (length rest - keep)"
  have le: "?s \<le> length rest - keep" by (rule back_up_le)
  show ?thesis
  proof (cases "?s < length rest \<and> is_tool_result (rest ! ?s)")
    case False
    then have "prune_start rest keep = ?s" by (auto simp: prune_start_def Let_def)
    with le show ?thesis by (intro exI [of _ ?s]) simp
  next
    case True
    then have eq: "prune_start rest keep = Suc ?s + length (takeWhile is_tool_result (drop (Suc ?s) rest))"
      by (simp add: prune_start_def Let_def skip_results_def)
    have "drop ?s rest = rest ! ?s # drop (Suc ?s) rest" using True by (simp add: Cons_nth_drop_Suc)
    then have "take (prune_start rest keep - ?s) (drop ?s rest)
        = rest ! ?s # takeWhile is_tool_result (drop (Suc ?s) rest)"
      by (simp add: eq takeWhile_eq_take [symmetric])
    then have "list_all is_tool_result (take (prune_start rest keep - ?s) (drop ?s rest))"
      using True by (auto simp: list_all_iff dest: set_takeWhileD)
    with le eq show ?thesis by (intro exI [of _ ?s]) simp
  qed
qed

text \<open>
  Pruning keeps tool results with their calls. The result is the messages as they are, or
  the whole stable prefix followed by a tail of the rest that does not start with a tool
  result; and what is cut off beyond the window that was asked for are tool results only.
\<close>

theorem pruning_leaves_no_orphans:
  "prune_preserving_tool_pairs ms n = ms \<or>
   (\<exists>prefix rest start k. layer_stable_prefix (split_context_layers ms) = prefix
     \<and> rest = drop (length prefix) ms
     \<and> prune_preserving_tool_pairs ms n = prefix @ drop k rest
     \<and> (case drop k rest of [] \<Rightarrow> True | m # _ \<Rightarrow> \<not> is_tool_result m)
     \<and> start \<le> length rest - max (n - length prefix) 1 \<and> start \<le> k
     \<and> list_all is_tool_result (take (k - start) (drop start rest)))"
proof (cases "prune_preserving_tool_pairs ms n = ms")
  case False
  let ?p = "layer_stable_prefix (split_context_layers ms)"
  let ?rest = "drop (length ?p) ms"
  let ?keep = "max (n - length ?p) 1"
  let ?k = "prune_start ?rest ?keep"
  have eq: "prune_preserving_tool_pairs ms n = ?p @ drop ?k ?rest"
    using False by (auto simp: prune_preserving_tool_pairs_def Let_def split: if_splits)
  have orphan: "case drop ?k ?rest of [] \<Rightarrow> True | m # _ \<Rightarrow> \<not> is_tool_result m"
  proof (cases "?k < length ?rest")
    case True
    then have "drop ?k ?rest = ?rest ! ?k # drop (Suc ?k) ?rest" by (simp only: Cons_nth_drop_Suc)
    then show ?thesis using prune_start_no_orphan [OF True] by simp
  qed simp
  obtain start where "start \<le> length ?rest - ?keep" "start \<le> ?k"
    "list_all is_tool_result (take (?k - start) (drop start ?rest))"
    using prune_start_dropped [of ?rest ?keep] by blast
  with eq orphan show ?thesis by blast
qed simp

lemma preserve_loop_get:
  "preserve_loop source fs target = Some t \<Longrightarrow>
     json_get t k = (if k \<in> set fs \<and> json_get source k \<noteq> None then json_get source k
                     else json_get target k)"
proof (induction source fs target rule: preserve_loop.induct)
  case (1 source target)
  then show ?case by simp
next
  case (2 source f fs target)
  show ?case
  proof (cases "json_get source f")
    case None
    with 2 show ?thesis by auto
  next
    case (Some v)
    with "2.prems" obtain u where u: "json_set f v target = Some u"
      "preserve_loop source fs u = Some t" by (auto split: option.splits)
    from "2.IH"(2) [OF Some u] json_get_set [OF u(1), of k] Some show ?thesis by auto
  qed
qed

text \<open>
  A continuation preserves the opaque state. On a target that is an object (or null) the
  copy succeeds, and afterwards each of the nine continuation fields that the source has is the
  source's in the target, every other entry of the target as it was.
\<close>

theorem opaque_state_is_preserved:
  "\<exists>t. preserve_opaque_continuation source (JObject m) = Some t
     \<and> json_get t k = (if k \<in> set OPAQUE_CONTINUATION_FIELDS \<and> json_get source k \<noteq> None
                       then json_get source k else map_of m k)"
proof -
  have "\<exists>m'. preserve_loop source fs (JObject m) = Some (JObject m')" for fs
    by (induction fs arbitrary: m) (auto split: option.split)
  then obtain m' where "preserve_opaque_continuation source (JObject m) = Some (JObject m')"
    unfolding preserve_opaque_continuation_def by blast
  with preserve_loop_get [of source OPAQUE_CONTINUATION_FIELDS "JObject m" "JObject m'" k]
  show ?thesis by (auto simp: preserve_opaque_continuation_def)
qed

end
