(* ===== verification/Session_Stores.thy ===== *)
theory Session_Stores
  imports Core_Types "HOL-Library.Product_Lexorder"
begin

text \<open>
  The state stores of the runtime: their records and the in-memory implementations
  (\<open>state.rs\<close>). The locale \<open>session_store\<close> is the contract of \<open>SessionStore\<close>:
  optimistic concurrency by a compare-and-swap of the revision. The stores on files are in
  theory \<open>Json_Store\<close>.
\<close>

section \<open>Records\<close>

record session_record =
  ses_id :: session_id
  ses_revision :: u64
  ses_created_at :: u64
  ses_updated_at :: u64
  ses_messages :: "message list"
  ses_metadata :: "json hash_map"

definition session_record_new :: "u64 \<Rightarrow> session_id \<Rightarrow> session_record" where
  "session_record_new now i =
     \<lparr>ses_id = i, ses_revision = 0, ses_created_at = now, ses_updated_at = now, ses_messages = [],
      ses_metadata = []\<rparr>"

record session_summary =
  sum_id :: session_id
  sum_revision :: u64
  sum_created_at :: u64
  sum_updated_at :: u64
  sum_message_count :: nat

definition summary_of :: "session_record \<Rightarrow> session_summary" where
  "summary_of r =
     \<lparr>sum_id = ses_id r, sum_revision = ses_revision r, sum_created_at = ses_created_at r,
      sum_updated_at = ses_updated_at r, sum_message_count = length (ses_messages r)\<rparr>"

record provider_state_record =
  pst_session_id :: session_id
  pst_provider_id :: provider_id
  pst_state :: json

record run_checkpoint =
  chk_run_id :: run_id
  chk_session_id :: "session_id option"
  chk_state :: run_state
  chk_messages :: "message list"
  chk_provider_state :: "json option"
  chk_updated_at :: u64

datatype store_error = StUnavailable str | StConflict | StCorruptQuarantined str | StInvalidId

text \<open>The order of a listing: latest update first, then by identifier.\<close>

definition sort_summaries :: "uuid_lib \<Rightarrow> session_summary list \<Rightarrow> session_summary list" where
  "sort_summaries U = sort_key (\<lambda>s. (- int (unat (sum_updated_at s)), session_hyphenated U (sum_id s)))"

section \<open>The contract of a session store\<close>

definition expected_revision :: "session_record option \<Rightarrow> session_record \<Rightarrow> bool" where
  "expected_revision found r =
     (case found of Some e \<Rightarrow> ses_revision e = ses_revision r | None \<Rightarrow> ses_revision r = 0)"

definition bump :: "u64 \<Rightarrow> session_record \<Rightarrow> session_record" where
  "bump now r = r\<lparr>ses_revision := saturating_add (ses_revision r) 1, ses_updated_at := now\<rparr>"

locale session_store =
  fixes lookup :: "session_id \<Rightarrow> 's \<Rightarrow> session_record option"
    and save :: "u64 \<Rightarrow> session_record \<Rightarrow> 's \<Rightarrow> (store_error + session_record) \<times> 's"
    and healthy :: "'s \<Rightarrow> bool"
  assumes save_accepts: "healthy s \<Longrightarrow> expected_revision (lookup (ses_id r) s) r \<Longrightarrow>
      fst (save now r s) = Inr (bump now r)
      \<and> (\<forall>i. lookup i (snd (save now r s)) = (if i = ses_id r then Some (bump now r) else lookup i s))"
    and save_conflicts: "healthy s \<Longrightarrow> \<not> expected_revision (lookup (ses_id r) s) r \<Longrightarrow>
      fst (save now r s) = Inl StConflict \<and> (\<forall>i. lookup i (snd (save now r s)) = lookup i s)"
    and save_healthy: "healthy s \<Longrightarrow> healthy (snd (save now r s))"
begin

definition save_all :: "(u64 \<times> session_record) list \<Rightarrow> 's \<Rightarrow> 's" where
  "save_all xs s = fold (\<lambda>(now, r) t. snd (save now r t)) xs s"

definition revision_at_least :: "session_id \<Rightarrow> nat \<Rightarrow> 's \<Rightarrow> bool" where
  "revision_at_least i n s = (\<exists>e. lookup i s = Some e \<and> n \<le> unat (ses_revision e))"

lemma save_revision:
  assumes "healthy s" "revision_at_least i n s"
  shows "revision_at_least i n (snd (save now r s))"
proof (cases "expected_revision (lookup (ses_id r) s) r")
  case True
  from save_accepts [OF assms(1) True, of now] have l: "\<And>j. lookup j (snd (save now r s))
      = (if j = ses_id r then Some (bump now r) else lookup j s)" by blast
  show ?thesis
  proof (cases "i = ses_id r")
    case False
    with assms(2) l show ?thesis by (simp add: revision_at_least_def)
  next
    case same: True
    from assms(2) same True have "n \<le> unat (ses_revision r)"
      by (auto simp: revision_at_least_def expected_revision_def)
    also have "\<dots> \<le> unat (saturating_add (ses_revision r) 1)"
      using saturating_add_mono by (simp add: word_le_nat_alt)
    finally show ?thesis using same l by (simp add: revision_at_least_def bump_def)
  qed
next
  case False
  with save_conflicts [OF assms(1) False, of now] assms(2) show ?thesis
    by (simp add: revision_at_least_def)
qed

lemma save_all_revision:
  "healthy s \<Longrightarrow> revision_at_least i n s \<Longrightarrow>
     healthy (save_all xs s) \<and> revision_at_least i n (save_all xs s)"
proof (induction xs arbitrary: s)
  case Nil
  then show ?case by (simp add: save_all_def)
next
  case (Cons x xs)
  obtain now r where x: "x = (now, r)" by (metis surj_pair)
  from Cons.prems save_revision [of s i n now r] save_healthy [of s now r] Cons.IH
  show ?case by (simp add: save_all_def x)
qed

lemma no_lost_update:
  assumes s: "healthy s" and ok: "fst (save now r s) = Inr r'"
    and same: "ses_id q = ses_id r" "ses_revision q = ses_revision r"
    and small: "unat (ses_revision r) < 2 ^ 64 - 1"
  shows "fst (save later q (save_all xs (snd (save now r s)))) = Inl StConflict"
proof -
  have exp: "expected_revision (lookup (ses_id r) s) r"
  proof (rule ccontr)
    assume "\<not> expected_revision (lookup (ses_id r) s) r"
    from save_conflicts [OF s this, of now] ok show False by simp
  qed
  let ?s1 = "snd (save now r s)"
  have "unat (ses_revision (bump now r)) = Suc (unat (ses_revision r))"
    using small by (simp add: bump_def saturating_add_one)
  then have "revision_at_least (ses_id r) (Suc (unat (ses_revision r))) ?s1"
    using save_accepts [OF s exp, of now] by (simp add: revision_at_least_def)
  from save_all_revision [OF save_healthy [OF s] this, of xs] obtain e where
    h: "healthy (save_all xs ?s1)" and e: "lookup (ses_id r) (save_all xs ?s1) = Some e"
    "unat (ses_revision r) < unat (ses_revision e)" by (auto simp: revision_at_least_def)
  then have "\<not> expected_revision (lookup (ses_id q) (save_all xs ?s1)) q"
    using same by (auto simp: expected_revision_def)
  from save_conflicts [OF h this] show ?thesis by blast
qed

end

section \<open>In memory\<close>

text \<open>A map behind a mutex that is poisoned when \<open>mem_poisoned\<close>.\<close>

record ('k, 'v) memory_store =
  mem_records :: "('k \<times> 'v) list"
  mem_poisoned :: bool

definition mem_new :: "('k, 'v) memory_store" where
  "mem_new = \<lparr>mem_records = [], mem_poisoned = False\<rparr>"

definition lock_error :: store_error where
  "lock_error = StUnavailable ''state lock was poisoned''"

definition mem_load :: "'k \<Rightarrow> ('k, 'v) memory_store \<Rightarrow> store_error + 'v option" where
  "mem_load k s = (if mem_poisoned s then Inl lock_error else Inr (map_of (mem_records s) k))"

definition mem_insert :: "'k \<Rightarrow> 'v \<Rightarrow> ('k, 'v) memory_store \<Rightarrow> (store_error + unit) \<times> ('k, 'v) memory_store"
  where
  "mem_insert k v s =
     (if mem_poisoned s then (Inl lock_error, s)
      else (Inr (), s\<lparr>mem_records := AList.update k v (mem_records s)\<rparr>))"

definition mem_delete :: "'k \<Rightarrow> ('k, 'v) memory_store \<Rightarrow> (store_error + unit) \<times> ('k, 'v) memory_store"
  where
  "mem_delete k s =
     (if mem_poisoned s then (Inl lock_error, s)
      else (Inr (), s\<lparr>mem_records := AList.delete k (mem_records s)\<rparr>))"

type_synonym memory_sessions = "(session_id, session_record) memory_store"
type_synonym memory_provider_states = "(session_id \<times> provider_id, provider_state_record) memory_store"
type_synonym memory_checkpoints = "(run_id, run_checkpoint) memory_store"

definition session_load :: "session_id \<Rightarrow> memory_sessions \<Rightarrow> store_error + session_record option" where
  "session_load i s = mem_load i s"

definition session_save ::
    "u64 \<Rightarrow> session_record \<Rightarrow> memory_sessions \<Rightarrow> (store_error + session_record) \<times> memory_sessions" where
  "session_save now r s =
     (if mem_poisoned s then (Inl lock_error, s)
      else (case map_of (mem_records s) (ses_id r) of
          Some existing \<Rightarrow>
            (if ses_revision existing \<noteq> ses_revision r then (Inl StConflict, s)
             else (Inr (bump now r), s\<lparr>mem_records := AList.update (ses_id r) (bump now r) (mem_records s)\<rparr>))
        | None \<Rightarrow>
            (if ses_revision r \<noteq> 0 then (Inl StConflict, s)
             else (Inr (bump now r), s\<lparr>mem_records := AList.update (ses_id r) (bump now r) (mem_records s)\<rparr>))))"

definition session_delete :: "session_id \<Rightarrow> memory_sessions \<Rightarrow> (store_error + unit) \<times> memory_sessions" where
  "session_delete i s = mem_delete i s"

definition session_list :: "uuid_lib \<Rightarrow> memory_sessions \<Rightarrow> store_error + session_summary list" where
  "session_list U s =
     (if mem_poisoned s then Inl lock_error
      else Inr (sort_summaries U (map (\<lambda>(i, r). summary_of r) (mem_records s))))"

definition provider_state_load ::
    "session_id \<Rightarrow> provider_id \<Rightarrow> memory_provider_states \<Rightarrow> store_error + provider_state_record option" where
  "provider_state_load i p s = mem_load (i, p) s"

definition provider_state_save ::
    "provider_state_record \<Rightarrow> memory_provider_states \<Rightarrow> (store_error + unit) \<times> memory_provider_states" where
  "provider_state_save r s = mem_insert (pst_session_id r, pst_provider_id r) r s"

definition provider_state_delete ::
    "session_id \<Rightarrow> provider_id \<Rightarrow> memory_provider_states \<Rightarrow> (store_error + unit) \<times> memory_provider_states" where
  "provider_state_delete i p s = mem_delete (i, p) s"

definition checkpoint_load :: "run_id \<Rightarrow> memory_checkpoints \<Rightarrow> store_error + run_checkpoint option" where
  "checkpoint_load i s = mem_load i s"

definition checkpoint_save ::
    "run_checkpoint \<Rightarrow> memory_checkpoints \<Rightarrow> (store_error + unit) \<times> memory_checkpoints" where
  "checkpoint_save c s = mem_insert (chk_run_id c) c s"

definition checkpoint_delete :: "run_id \<Rightarrow> memory_checkpoints \<Rightarrow> (store_error + unit) \<times> memory_checkpoints" where
  "checkpoint_delete i s = mem_delete i s"

definition memory_lookup :: "session_id \<Rightarrow> memory_sessions \<Rightarrow> session_record option" where
  "memory_lookup i s = (case session_load i s of Inr x \<Rightarrow> x | Inl e \<Rightarrow> None)"

interpretation memory: session_store memory_lookup session_save "\<lambda>s. \<not> mem_poisoned s"
  by unfold_locales
    (auto simp: memory_lookup_def session_load_def mem_load_def session_save_def
      expected_revision_def split: option.splits)

text \<open>
  No update of a session is lost. After a save that was based on some revision has been
  accepted, and any further saves of any sessions, a second save based on the same revision is
  refused with \<open>Conflict\<close> (as long as the revision has not reached the end of \<open>u64\<close>).
\<close>

theorem memory_session_store_loses_no_update:
  assumes "\<not> mem_poisoned s"
    and "fst (session_save now r s) = Inr r'"
    and "ses_id q = ses_id r" "ses_revision q = ses_revision r"
    and "unat (ses_revision r) < 2 ^ 64 - 1"
  shows "fst (session_save later q (memory.save_all xs (snd (session_save now r s)))) = Inl StConflict"
  by (rule memory.no_lost_update [OF assms])

definition sample_session :: session_record where
  "sample_session = session_record_new 5 (SessionId 1)"

theorem memory_session_store_loses_no_update_witness:
  "fst (session_save 9 (sample_session\<lparr>ses_messages := []\<rparr>)
     (memory.save_all [(7, sample_session\<lparr>ses_revision := 1\<rparr>)] (snd (session_save 6 sample_session mem_new))))
   = Inl StConflict"
  by (rule memory_session_store_loses_no_update [where r' = "bump 6 sample_session"])
    (simp_all add: mem_new_def session_save_def sample_session_def session_record_new_def)

end
