(* ===== verification/Json_Store.thy ===== *)
theory Json_Store
  imports Session_Stores "HOL-Library.Countable"
begin

text \<open>
  The stores on JSON files (\<open>json_store.rs\<close>). A directory is an association list from file names
  to contents. Every operation runs under the exclusive store lock, so operations are atomic
  with respect to each other; \<open>atomic_write_json\<close> replaces a file as a whole.
\<close>

section \<open>Files\<close>

type_synonym directory = "(str \<times> str) list"

definition SCHEMA_VERSION :: u32 where
  "SCHEMA_VERSION = 1"

text \<open>\<open>serde_json\<close> on the records: pretty printing, and parsing of a file's contents.\<close>

record store_codec =
  enc_session :: "u32 \<times> session_record \<Rightarrow> str"
  dec_session :: "str \<Rightarrow> (u32 \<times> session_record) option"
  enc_index :: "u32 \<times> session_summary list \<Rightarrow> str"
  enc_provider_state :: "provider_state_record \<Rightarrow> str"
  dec_provider_state :: "str \<Rightarrow> provider_state_record option"

definition atomic_write_json :: "str \<Rightarrow> str \<Rightarrow> directory \<Rightarrow> directory" where
  "atomic_write_json name payload d = AList.update name (payload @ newline) d"

definition rename_file :: "str \<Rightarrow> str \<Rightarrow> directory \<Rightarrow> directory" where
  "rename_file old new d =
     (case map_of d old of
        None \<Rightarrow> d | Some b \<Rightarrow> AList.update new b (AList.delete old d))"

text \<open>Move a corrupt file aside; \<open>path\<close> is the displayed path of the directory.\<close>

definition quarantine_corrupt :: "u64 \<Rightarrow> str \<Rightarrow> str \<Rightarrow> directory \<Rightarrow> store_error \<times> directory" where
  "quarantine_corrupt now path name d =
     (let q = name @ ''.corrupt-'' @ decimal (unat now) in
      (StCorruptQuarantined (path @ ''/'' @ q), rename_file name q d))"

text \<open>The stem and the extension of a file name: what is before and after its last dot.\<close>

definition split_extension :: "str \<Rightarrow> (str \<times> str) option" where
  "split_extension name =
     (case dropWhile (\<lambda>c. c \<noteq> CHR ''.'') (rev name) of
        [] \<Rightarrow> None
      | dot # before \<Rightarrow>
          (if before = [] then None
           else Some (rev before, rev (takeWhile (\<lambda>c. c \<noteq> CHR ''.'') (rev name)))))"

section \<open>The session store\<close>

record session_files =
  sf_records :: directory
  sf_index :: "str option"

record session_files_env =
  sfe_uuid :: uuid_lib
  sfe_codec :: store_codec
  sfe_path :: str

definition record_name :: "session_files_env \<Rightarrow> session_id \<Rightarrow> str" where
  "record_name E i = session_hyphenated (sfe_uuid E) i @ ''.json''"

definition on_records ::
    "store_error \<times> directory \<Rightarrow> session_files \<Rightarrow> (store_error + 'a) \<times> session_files" where
  "on_records p s = (case p of (e, d) \<Rightarrow> (Inl e, s\<lparr>sf_records := d\<rparr>))"

definition load_record_sync ::
    "session_files_env \<Rightarrow> u64 \<Rightarrow> session_id \<Rightarrow> session_files
       \<Rightarrow> (store_error + session_record option) \<times> session_files" where
  "load_record_sync E now i s =
     (case map_of (sf_records s) (record_name E i) of
        None \<Rightarrow> (Inr None, s)
      | Some b \<Rightarrow>
          (case dec_session (sfe_codec E) b of
             None \<Rightarrow> on_records (quarantine_corrupt now (sfe_path E) (record_name E i) (sf_records s)) s
           | Some (version, r) \<Rightarrow>
               (if version \<noteq> SCHEMA_VERSION \<or> ses_id r \<noteq> i
                then on_records (quarantine_corrupt now (sfe_path E) (record_name E i) (sf_records s)) s
                else (Inr (Some r), s))))"

text \<open>The entries of the directory, read before the loop, in the order of their names.\<close>

fun list_loop ::
    "session_files_env \<Rightarrow> u64 \<Rightarrow> str list \<Rightarrow> session_summary list \<Rightarrow> session_files
       \<Rightarrow> (store_error + session_summary list) \<times> session_files" where
  "list_loop E now [] acc s = (Inr acc, s)"
| "list_loop E now (name # names) acc s =
     (case split_extension name of
        None \<Rightarrow> list_loop E now names acc s
      | Some (stem, extension) \<Rightarrow>
          (if extension \<noteq> ''json'' then list_loop E now names acc s
           else case uuid_parse (sfe_uuid E) stem of
               None \<Rightarrow> on_records (quarantine_corrupt now (sfe_path E) name (sf_records s)) s
             | Some u \<Rightarrow>
                 (case load_record_sync E now (SessionId u) s of
                    (Inl e, s') \<Rightarrow> (Inl e, s')
                  | (Inr None, s') \<Rightarrow> list_loop E now names acc s'
                  | (Inr (Some r), s') \<Rightarrow> list_loop E now names (acc @ [summary_of r]) s')))"

definition list_sync ::
    "session_files_env \<Rightarrow> u64 \<Rightarrow> session_files \<Rightarrow> (store_error + session_summary list) \<times> session_files"
  where
  "list_sync E now s =
     (case list_loop E now (sort (map fst (sf_records s))) [] s of
        (x, s') \<Rightarrow> (map_sum id (sort_summaries (sfe_uuid E)) x, s'))"

definition write_index_with ::
    "session_files_env \<Rightarrow> session_summary list \<Rightarrow> session_files \<Rightarrow> session_files" where
  "write_index_with E summaries s =
     s\<lparr>sf_index := Some (enc_index (sfe_codec E) (SCHEMA_VERSION, summaries) @ newline)\<rparr>"

definition write_index_sync ::
    "session_files_env \<Rightarrow> u64 \<Rightarrow> session_files \<Rightarrow> (store_error + unit) \<times> session_files" where
  "write_index_sync E now s =
     (case list_sync E now s of
        (Inl e, s') \<Rightarrow> (Inl e, s')
      | (Inr summaries, s') \<Rightarrow> (Inr (), write_index_with E summaries s'))"

definition file_load ::
    "session_files_env \<Rightarrow> u64 \<Rightarrow> session_id \<Rightarrow> session_files
       \<Rightarrow> (store_error + session_record option) \<times> session_files" where
  "file_load E now i s = load_record_sync E now i s"

definition write_record :: "session_files_env \<Rightarrow> session_record \<Rightarrow> session_files \<Rightarrow> session_files" where
  "write_record E r s =
     s\<lparr>sf_records := atomic_write_json (record_name E (ses_id r))
        (enc_session (sfe_codec E) (SCHEMA_VERSION, r)) (sf_records s)\<rparr>"

definition save_checked ::
    "session_files_env \<Rightarrow> u64 \<Rightarrow> session_record \<Rightarrow> session_files
       \<Rightarrow> (store_error + session_record) \<times> session_files" where
  "save_checked E now r s =
     (case write_index_sync E now (write_record E (bump now r) s) of
        (Inl e, s') \<Rightarrow> (Inl e, s')
      | (Inr _, s') \<Rightarrow> (Inr (bump now r), s'))"

definition file_save ::
    "session_files_env \<Rightarrow> u64 \<Rightarrow> session_record \<Rightarrow> session_files
       \<Rightarrow> (store_error + session_record) \<times> session_files" where
  "file_save E now r s0 =
     (case load_record_sync E now (ses_id r) s0 of
        (Inl e, s) \<Rightarrow> (Inl e, s)
      | (Inr (Some existing), s) \<Rightarrow>
          (if ses_revision existing \<noteq> ses_revision r then (Inl StConflict, s) else save_checked E now r s)
      | (Inr None, s) \<Rightarrow>
          (if ses_revision r \<noteq> 0 then (Inl StConflict, s) else save_checked E now r s))"

definition file_delete ::
    "session_files_env \<Rightarrow> u64 \<Rightarrow> session_id \<Rightarrow> session_files \<Rightarrow> (store_error + unit) \<times> session_files"
  where
  "file_delete E now i s =
     write_index_sync E now (s\<lparr>sf_records := AList.delete (record_name E i) (sf_records s)\<rparr>)"

definition file_list ::
    "session_files_env \<Rightarrow> u64 \<Rightarrow> session_files \<Rightarrow> (store_error + session_summary list) \<times> session_files"
  where
  "file_list E now s =
     (case list_sync E now s of
        (Inl e, s') \<Rightarrow> (Inl e, s')
      | (Inr summaries, s') \<Rightarrow> (Inr summaries, write_index_with E summaries s'))"

section \<open>The provider-state store\<close>

definition sanitize_provider_stem :: "provider_id \<Rightarrow> str" where
  "sanitize_provider_stem p =
     (let stem = concat (map (\<lambda>c. if is_ascii_alphanumeric c \<or> c \<in> {CHR ''.'', CHR ''-'', CHR ''_''}
                                  then [c] else if is_continuation_byte c then [] else ''_'')
                   (provider_str p))
      in if stem = [] then ''provider'' else stem)"

definition provider_record_name :: "session_files_env \<Rightarrow> session_id \<Rightarrow> provider_id \<Rightarrow> str" where
  "provider_record_name E i p =
     session_hyphenated (sfe_uuid E) i @ ''--'' @ sanitize_provider_stem p @ ''.json''"

definition provider_file_load ::
    "session_files_env \<Rightarrow> u64 \<Rightarrow> session_id \<Rightarrow> provider_id \<Rightarrow> directory
       \<Rightarrow> (store_error + provider_state_record option) \<times> directory" where
  "provider_file_load E now i p d =
     (let name = provider_record_name E i p in
      case map_of d name of
        None \<Rightarrow> (Inr None, d)
      | Some b \<Rightarrow>
          (case dec_provider_state (sfe_codec E) b of
             None \<Rightarrow> (case quarantine_corrupt now (sfe_path E) name d of (e, d') \<Rightarrow> (Inl e, d'))
           | Some r \<Rightarrow>
               (if pst_session_id r \<noteq> i \<or> pst_provider_id r \<noteq> p
                then (case quarantine_corrupt now (sfe_path E) name d of (e, d') \<Rightarrow> (Inl e, d'))
                else (Inr (Some r), d))))"

definition provider_file_save ::
    "session_files_env \<Rightarrow> provider_state_record \<Rightarrow> directory \<Rightarrow> (store_error + unit) \<times> directory" where
  "provider_file_save E r d =
     (Inr (), atomic_write_json (provider_record_name E (pst_session_id r) (pst_provider_id r))
        (enc_provider_state (sfe_codec E) r) d)"

definition provider_file_delete ::
    "session_files_env \<Rightarrow> session_id \<Rightarrow> provider_id \<Rightarrow> directory \<Rightarrow> (store_error + unit) \<times> directory"
  where
  "provider_file_delete E i p d = (Inr (), AList.delete (provider_record_name E i p) d)"

section \<open>The session store keeps its contract\<close>

text \<open>
  What is relied on: identifiers print to non-empty text that parses back, records print to text
  that parses back.
\<close>

definition files_env_ok :: "session_files_env \<Rightarrow> bool" where
  "files_env_ok E =
     (uuid_lib_ok (sfe_uuid E) \<and> (\<forall>u. uuid_hyphenated (sfe_uuid E) u \<noteq> []) \<and>
      (\<forall>x. dec_session (sfe_codec E) (enc_session (sfe_codec E) x @ newline) = Some x))"

text \<open>A healthy directory holds readable records only, each under the name of its session.\<close>

definition files_healthy :: "session_files_env \<Rightarrow> session_files \<Rightarrow> bool" where
  "files_healthy E s =
     (distinct (map fst (sf_records s)) \<and>
      (\<forall>(name, b) \<in> set (sf_records s). \<exists>r. name = record_name E (ses_id r)
          \<and> dec_session (sfe_codec E) b = Some (SCHEMA_VERSION, r)))"

definition file_lookup :: "session_files_env \<Rightarrow> session_id \<Rightarrow> session_files \<Rightarrow> session_record option" where
  "file_lookup E i s =
     (case map_of (sf_records s) (record_name E i) of
        None \<Rightarrow> None | Some b \<Rightarrow> map_option snd (dec_session (sfe_codec E) b))"

lemma record_name_inj:
  "files_env_ok E \<Longrightarrow> record_name E i = record_name E j \<longleftrightarrow> i = j"
  by (cases i; cases j) (auto simp: record_name_def files_env_ok_def uuid_hyphenated_inj)

lemma split_record_name:
  "files_env_ok E \<Longrightarrow> split_extension (record_name E (SessionId u)) = Some (uuid_hyphenated (sfe_uuid E) u, ''json'')"
  by (simp add: record_name_def split_extension_def files_env_ok_def)

lemma files_healthyD:
  assumes "files_healthy E s" "(name, b) \<in> set (sf_records s)"
  shows "\<exists>r. name = record_name E (ses_id r) \<and> dec_session (sfe_codec E) b = Some (SCHEMA_VERSION, r)"
  using assms unfolding files_healthy_def by fast

lemma update_subset: "set (AList.update k v al) \<subseteq> insert (k, v) (set al)"
  by (induction al) auto

lemma load_record_healthy:
  assumes "files_env_ok E" "files_healthy E s"
  shows "load_record_sync E now i s = (Inr (file_lookup E i s), s)
    \<and> (\<forall>r. file_lookup E i s = Some r \<longrightarrow> ses_id r = i)"
proof (cases "map_of (sf_records s) (record_name E i)")
  case None
  then show ?thesis by (simp add: load_record_sync_def file_lookup_def)
next
  case (Some b)
  then have "(record_name E i, b) \<in> set (sf_records s)" by (rule map_of_SomeD)
  with assms(2) obtain r where "record_name E i = record_name E (ses_id r)"
    "dec_session (sfe_codec E) b = Some (SCHEMA_VERSION, r)" using files_healthyD by blast
  with record_name_inj [OF assms(1)] Some show ?thesis
    by (simp add: load_record_sync_def file_lookup_def)
qed

lemma list_loop_healthy:
  assumes "files_env_ok E" "files_healthy E s"
  shows "set names \<subseteq> set (map fst (sf_records s)) \<Longrightarrow>
    \<exists>out. list_loop E now names acc s = (Inr out, s)"
proof (induction names arbitrary: acc)
  case Nil
  then show ?case by simp
next
  case (Cons name names)
  then obtain b where "(name, b) \<in> set (sf_records s)" by auto
  with assms(2) obtain r :: session_record where r: "name = record_name E (ses_id r)"
    using files_healthyD by blast
  obtain u where u: "ses_id r = SessionId u" by (cases "ses_id r")
  have "uuid_parse (sfe_uuid E) (uuid_hyphenated (sfe_uuid E) u) = Some u"
    using assms(1) by (simp add: files_env_ok_def uuid_lib_ok_def)
  with Cons load_record_healthy [OF assms, of now "SessionId u"] split_record_name [OF assms(1), of u] r u
  show ?case by (auto split: option.split)
qed

lemma write_index_healthy:
  assumes "files_env_ok E" "files_healthy E s"
  shows "\<exists>t. write_index_sync E now s = (Inr (), t) \<and> sf_records t = sf_records s"
proof -
  have "set (sort (map fst (sf_records s))) \<subseteq> set (map fst (sf_records s))" by simp
  from list_loop_healthy [OF assms this, of now "[]"] obtain out where
    "list_loop E now (sort (map fst (sf_records s))) [] s = (Inr out, s)" by blast
  then show ?thesis by (simp add: write_index_sync_def list_sync_def write_index_with_def)
qed

lemma healthy_cong:
  "sf_records t = sf_records s \<Longrightarrow> files_healthy E t = files_healthy E s"
  "sf_records t = sf_records s \<Longrightarrow> file_lookup E i t = file_lookup E i s"
  by (simp_all add: files_healthy_def file_lookup_def)

lemma write_record_healthy:
  assumes "files_env_ok E" "files_healthy E s"
  shows "files_healthy E (write_record E r s)"
    and "file_lookup E i (write_record E r s) = (if i = ses_id r then Some r else file_lookup E i s)"
proof -
  let ?b = "enc_session (sfe_codec E) (SCHEMA_VERSION, r) @ newline"
  have dec: "dec_session (sfe_codec E) ?b = Some (SCHEMA_VERSION, r)"
    using assms(1) by (simp add: files_env_ok_def)
  let ?d = "AList.update (record_name E (ses_id r)) ?b (sf_records s)"
  have "\<exists>q. name = record_name E (ses_id q) \<and> dec_session (sfe_codec E) b = Some (SCHEMA_VERSION, q)"
    if "(name, b) \<in> set ?d" for name b
    using that update_subset [of "record_name E (ses_id r)" ?b "sf_records s"]
      files_healthyD [OF assms(2)] dec by blast
  moreover have "distinct (map fst ?d)" using assms(2) by (simp add: files_healthy_def distinct_update)
  ultimately show "files_healthy E (write_record E r s)"
    unfolding files_healthy_def write_record_def atomic_write_json_def by auto
  show "file_lookup E i (write_record E r s) = (if i = ses_id r then Some r else file_lookup E i s)"
    using record_name_inj [OF assms(1)] dec
    by (simp add: file_lookup_def write_record_def atomic_write_json_def)
qed

lemma save_checked_healthy:
  assumes "files_env_ok E" "files_healthy E s"
  shows "\<exists>t. save_checked E now r s = (Inr (bump now r), t) \<and> files_healthy E t
    \<and> (\<forall>i. file_lookup E i t = (if i = ses_id r then Some (bump now r) else file_lookup E i s))"
proof -
  let ?s = "write_record E (bump now r) s"
  note w = write_record_healthy [OF assms, where r = "bump now r"]
  from write_index_healthy [OF assms(1) w(1), of now] obtain t where
    t: "write_index_sync E now ?s = (Inr (), t)" "sf_records t = sf_records ?s" by blast
  with w healthy_cong [OF t(2)] show ?thesis by (simp add: save_checked_def bump_def)
qed

lemma file_save_healthy:
  assumes "files_env_ok E" "files_healthy E s"
  shows "file_save E now r s = (if expected_revision (file_lookup E (ses_id r) s) r
    then save_checked E now r s else (Inl StConflict, s))"
proof -
  have "load_record_sync E now (ses_id r) s = (Inr (file_lookup E (ses_id r) s), s)"
    using load_record_healthy [OF assms] by blast
  then show ?thesis
    by (cases "file_lookup E (ses_id r) s") (simp_all add: file_save_def expected_revision_def)
qed

lemma json_files_session_store:
  assumes E: "files_env_ok E"
  shows "session_store (file_lookup E) (file_save E) (files_healthy E)"
proof
  fix s r now
  assume s: "files_healthy E s" and e: "expected_revision (file_lookup E (ses_id r) s) r"
  from save_checked_healthy [OF E s, of now r] e
  show "fst (file_save E now r s) = Inr (bump now r)
      \<and> (\<forall>i. file_lookup E i (snd (file_save E now r s))
             = (if i = ses_id r then Some (bump now r) else file_lookup E i s))"
    by (auto simp: file_save_healthy [OF E s])
next
  fix s r now
  assume s: "files_healthy E s" and e: "\<not> expected_revision (file_lookup E (ses_id r) s) r"
  then show "fst (file_save E now r s) = Inl StConflict
      \<and> (\<forall>i. file_lookup E i (snd (file_save E now r s)) = file_lookup E i s)"
    by (simp add: file_save_healthy [OF E s])
next
  fix s r now
  assume s: "files_healthy E s"
  from save_checked_healthy [OF E s, of now r] s
  show "files_healthy E (snd (file_save E now r s))"
    by (auto simp: file_save_healthy [OF E s])
qed

text \<open>
  The session store on files loses no update either: on a directory of readable records,
  after a save based on some revision was accepted, and any further saves, a second save
  based on the same revision is refused with \<open>Conflict\<close>.
\<close>

theorem file_session_store_loses_no_update:
  assumes "files_env_ok E" "files_healthy E s"
    and "fst (file_save E now r s) = Inr r'"
    and "ses_id q = ses_id r" "ses_revision q = ses_revision r"
    and "unat (ses_revision r) < 2 ^ 64 - 1"
  shows "fst (file_save E later q (session_store.save_all (file_save E) xs (snd (file_save E now r s))))
    = Inl StConflict"
  by (rule session_store.no_lost_update [OF json_files_session_store [OF assms(1)] assms(2-6)])

text \<open>
  What is saved is loaded. On a directory of readable records an accepted save is
  followed by loads that return the record with the revision it was given, and loads of other
  sessions as before; the directory stays readable.
\<close>

theorem file_session_save_load_roundtrip:
  assumes "files_env_ok E" "files_healthy E s"
    and "file_save E now r s = (Inr r', t)"
  shows "file_load E later i t =
      (Inr (if i = ses_id r then Some (r\<lparr>ses_revision := saturating_add (ses_revision r) 1,
                                         ses_updated_at := now\<rparr>)
            else file_lookup E i s), t)
    \<and> files_healthy E t"
proof -
  have "expected_revision (file_lookup E (ses_id r) s) r"
    using assms(3) file_save_healthy [OF assms(1,2), of now r] by (auto split: if_splits)
  then have t: "save_checked E now r s = (Inr r', t)"
    using assms(3) file_save_healthy [OF assms(1,2), of now r] by simp
  from save_checked_healthy [OF assms(1,2), of now r] obtain u where
    u: "save_checked E now r s = (Inr (bump now r), u)" "files_healthy E u"
      "file_lookup E i u = (if i = ses_id r then Some (bump now r) else file_lookup E i s)" by metis
  with t have ut: "u = t" by simp
  from load_record_healthy [OF assms(1) u(2), of later i]
  have "load_record_sync E later i t = (Inr (file_lookup E i t), t)" by (simp add: ut)
  with u(2,3) show ?thesis by (simp add: file_load_def bump_def ut)
qed

section \<open>Where the stores break their contract\<close>

text \<open>
  A save can report failure after it has been carried out. When the directory holds another
  file that is named as a record but is not one, a save of a healthy session writes its record,
  raises its revision, and then fails while it rebuilds the index: the caller gets an error, and
  a retry of the same save gets \<open>Conflict\<close>.
\<close>

theorem failed_save_may_be_carried_out:
  assumes E: "files_env_ok E" and x: "uuid_parse (sfe_uuid E) ''x'' = None"
  shows "let s = \<lparr>sf_records = [(''x.json'', b)], sf_index = None\<rparr>;
             r = session_record_new 0 i;
             (x, t) = file_save E now r s
         in x = Inl (StCorruptQuarantined (sfe_path E @ ''/x.json.corrupt-'' @ decimal (unat now)))
            \<and> fst (file_save E later r t) = Inl StConflict"
proof -
  let ?s = "\<lparr>sf_records = [(''x.json'', b)], sf_index = None\<rparr>"
  let ?r = "session_record_new 0 i"
  let ?rn = "record_name E i"
  let ?q = "''x.json.corrupt-'' @ decimal (unat now)"
  let ?b = "enc_session (sfe_codec E) (SCHEMA_VERSION, bump now ?r) @ newline"
  let ?s1 = "\<lparr>sf_records = [(''x.json'', b), (?rn, ?b)], sf_index = None\<rparr>"
  let ?s2 = "\<lparr>sf_records = [(?rn, ?b), (?q, b)], sf_index = None\<rparr>"
  let ?e = "StCorruptQuarantined (sfe_path E @ ''/'' @ ?q)"
  obtain u where i: "i = SessionId u" by (cases i)
  have parse: "uuid_parse (sfe_uuid E) (uuid_hyphenated (sfe_uuid E) u) = Some u"
    using E by (simp add: files_env_ok_def uuid_lib_ok_def)
  with x have "uuid_hyphenated (sfe_uuid E) u \<noteq> ''x''" by auto
  then have rn: "?rn \<noteq> ''x.json''"
    using append_same_eq [of "uuid_hyphenated (sfe_uuid E) u" "''.json''" "''x''"]
    by (simp add: record_name_def i)
  have q: "?q \<noteq> ?rn" "?rn \<noteq> ?q"
  proof -
    have "last ?q \<noteq> CHR ''n''" using last_decimal by simp
    moreover have "last ?rn = CHR ''n''" by (simp add: record_name_def)
    ultimately show "?q \<noteq> ?rn" "?rn \<noteq> ?q" by metis+
  qed
  have dec: "dec_session (sfe_codec E) ?b = Some (SCHEMA_VERSION, bump now ?r)"
    using E by (simp add: files_env_ok_def)
  have id: "ses_id (bump now ?r) = i" "ses_revision (bump now ?r) = 1"
    by (simp_all add: bump_def session_record_new_def saturating_add_def)
  have splitx: "split_extension ''x.json'' = Some (''x'', ''json'')" by (simp add: split_extension_def)
  have quar: "on_records (quarantine_corrupt now (sfe_path E) ''x.json'' (sf_records ?s1)) ?s1
      = (Inl ?e :: store_error + session_summary list, ?s2)"
  proof -
    have "map_of (sf_records ?s1) ''x.json'' = Some b"
      "AList.update ?q b (AList.delete ''x.json'' (sf_records ?s1)) = sf_records ?s2"
      using rn q by (simp_all del: append.simps append_Cons)
    then show ?thesis by (simp add: on_records_def quarantine_corrupt_def rename_file_def Let_def)
  qed
  have loopx: "list_loop E now (''x.json'' # names) acc ?s1 = (Inl ?e, ?s2)" for names acc
    using quar splitx x by simp
  have "load_record_sync E now i ?s1 = (Inr (Some (bump now ?r)), ?s1)"
    using rn dec id by (simp add: load_record_sync_def)
  then have looprn: "list_loop E now (?rn # names) acc ?s1
      = list_loop E now names (acc @ [summary_of (bump now ?r)]) ?s1" for names acc
    using split_record_name [OF E, of u] parse by (simp add: i)
  have "sort (map fst (sf_records ?s1)) \<in> {[''x.json'', ?rn], [?rn, ''x.json'']}" by simp
  then have "list_loop E now (sort (map fst (sf_records ?s1))) [] ?s1 = (Inl ?e, ?s2)"
    using loopx looprn by auto
  then have "write_index_sync E now ?s1 = (Inl ?e, ?s2)"
    by (simp add: write_index_sync_def list_sync_def)
  moreover have "write_record E (bump now ?r) ?s = ?s1"
    using rn by (simp add: write_record_def atomic_write_json_def id)
  moreover have "load_record_sync E now i ?s = (Inr None, ?s)"
    using rn by (simp add: load_record_sync_def)
  ultimately have save: "file_save E now ?r ?s = (Inl ?e, ?s2)"
    by (simp add: file_save_def save_checked_def session_record_new_def)
  have "load_record_sync E later i ?s2 = (Inr (Some (bump now ?r)), ?s2)"
    using dec id by (simp add: load_record_sync_def)
  then have "file_save E later ?r ?s2 = (Inl StConflict, ?s2)"
    using id by (simp add: file_save_def session_record_new_def)
  with save show ?thesis by (simp add: Let_def)
qed

text \<open>
  Provider states can destroy each other. Two provider identifiers that the file name does
  not tell apart, such as \<open>a/b\<close> and \<open>a_b\<close>, share a file: after a save for one, a load for the
  other reports a corrupt record and moves the file away, so the state that was saved is gone.
\<close>

theorem provider_states_collide:
  assumes "dec_provider_state (sfe_codec E) (enc_provider_state (sfe_codec E) r @ newline) = Some r"
    and "pst_session_id r = i" "pst_provider_id r = ProviderId ''a/b''"
  shows "let d = snd (provider_file_save E r []);
             (x, d') = provider_file_load E now i (ProviderId ''a_b'') d
         in provider_file_load E now i (ProviderId ''a/b'') d = (Inr (Some r), d)
            \<and> (\<exists>m. x = Inl (StCorruptQuarantined m))
            \<and> provider_file_load E later i (ProviderId ''a/b'') d' = (Inr None, d')"
proof -
  let ?n = "provider_record_name E i (ProviderId ''a/b'')"
  have same: "provider_record_name E i (ProviderId ''a_b'') = ?n"
    by (simp add: provider_record_name_def sanitize_provider_stem_def is_ascii_alphanumeric_def
        is_ascii_lowercase_def is_ascii_uppercase_def is_ascii_digit_def is_continuation_byte_def)
  let ?q = "?n @ ''.corrupt-'' @ decimal (unat now)"
  have q: "?q \<noteq> ?n" by simp
  have d: "snd (provider_file_save E r []) = [(?n, enc_provider_state (sfe_codec E) r @ newline)]"
    using assms(2,3) by (simp add: provider_file_save_def atomic_write_json_def)
  show ?thesis
    using assms q by (simp add: d Let_def provider_file_load_def same quarantine_corrupt_def rename_file_def)
qed

section \<open>Concrete instances\<close>

text \<open>
  A codec that satisfies the law: the types of the records are countable, and a record is
  written as its number in unary.
\<close>

instance json_number :: countable by countable_datatype
instance json :: countable by countable_datatype
instance session_id :: countable by countable_datatype
instance tool_invocation_id :: countable by countable_datatype
instance artifact_ref :: countable by countable_datatype
instance message_role :: countable by countable_datatype

definition unary :: "'a::countable \<Rightarrow> str" where
  "unary x = replicate (to_nat x) (CHR ''1'')"

definition read_unary :: "str \<Rightarrow> 'a::countable" where
  "read_unary s = from_nat (length s - 1)"

lemma read_unary [simp]: "read_unary (unary x @ newline) = x"
  by (simp add: read_unary_def unary_def newline_def)

definition image_parts :: "content_part \<Rightarrow> str + artifact_ref \<times> str" where
  "image_parts p = (case p of PartText t \<Rightarrow> Inl t | PartImage i \<Rightarrow> Inr (img_artifact i, img_mime_type i))"

definition parts_image :: "str + artifact_ref \<times> str \<Rightarrow> content_part" where
  "parts_image p = (case p of Inl t \<Rightarrow> PartText t
     | Inr (a, m) \<Rightarrow> PartImage \<lparr>img_artifact = a, img_mime_type = m\<rparr>)"

definition call_parts :: "tool_call \<Rightarrow> tool_invocation_id \<times> str \<times> json \<times> str option" where
  "call_parts c = (call_id c, call_name c, call_arguments c, call_provider_call_id c)"

definition parts_call :: "tool_invocation_id \<times> str \<times> json \<times> str option \<Rightarrow> tool_call" where
  "parts_call = (\<lambda>(i, n, a, p). \<lparr>call_id = i, call_name = n, call_arguments = a, call_provider_call_id = p\<rparr>)"

type_synonym message_parts =
  "message_role \<times> (str + artifact_ref \<times> str) list
     \<times> (tool_invocation_id \<times> str \<times> json \<times> str option) list \<times> tool_invocation_id option \<times> json option"

definition msg_parts :: "message \<Rightarrow> message_parts" where
  "msg_parts m = (msg_role m, map image_parts (msg_content m), map call_parts (msg_tool_calls m),
     msg_tool_call_id m, msg_provider_state m)"

definition parts_msg :: "message_parts \<Rightarrow> message" where
  "parts_msg = (\<lambda>(r, c, t, i, p). \<lparr>msg_role = r, msg_content = map parts_image c,
     msg_tool_calls = map parts_call t, msg_tool_call_id = i, msg_provider_state = p\<rparr>)"

definition session_parts ::
    "session_record \<Rightarrow> session_id \<times> u64 \<times> u64 \<times> u64 \<times> message_parts list \<times> json hash_map" where
  "session_parts r = (ses_id r, ses_revision r, ses_created_at r, ses_updated_at r,
     map msg_parts (ses_messages r), ses_metadata r)"

definition parts_session ::
    "session_id \<times> u64 \<times> u64 \<times> u64 \<times> message_parts list \<times> json hash_map \<Rightarrow> session_record" where
  "parts_session = (\<lambda>(i, v, c, u, m, d). \<lparr>ses_id = i, ses_revision = v, ses_created_at = c,
     ses_updated_at = u, ses_messages = map parts_msg m, ses_metadata = d\<rparr>)"

lemma parts_inverse [simp]:
  "parts_image (image_parts p) = p" "parts_call (call_parts c) = c"
  "parts_msg (msg_parts m) = m" "parts_session (session_parts r) = r"
proof -
  show p: "parts_image (image_parts p) = p" for p
    by (cases p) (simp_all add: parts_image_def image_parts_def)
  show c: "parts_call (call_parts c) = c" for c by (simp add: parts_call_def call_parts_def)
  show m: "parts_msg (msg_parts m) = m" for m
    by (simp add: parts_msg_def msg_parts_def p c comp_def)
  show "parts_session (session_parts r) = r"
    by (simp add: parts_session_def session_parts_def m comp_def)
qed

definition sample_files_env :: session_files_env where
  "sample_files_env =
     \<lparr>sfe_uuid = sample_uuid_lib,
      sfe_codec = \<lparr>
        enc_session = (\<lambda>(v, r). unary (v, session_parts r)),
        dec_session = (\<lambda>s. Some (apsnd parts_session (read_unary s))),
        enc_index = (\<lambda>_. ''index''),
        enc_provider_state = (\<lambda>_. ''state''),
        dec_provider_state = (\<lambda>_. Some \<lparr>pst_session_id = SessionId 1,
          pst_provider_id = ProviderId ''a/b'', pst_state = JNull\<rparr>)\<rparr>,
      sfe_path = ''records''\<rparr>"

lemma sample_files_env_ok: "files_env_ok sample_files_env"
proof -
  have "uuid_hyphenated sample_uuid_lib u \<noteq> []" for u by (simp add: sample_uuid_lib_def)
  then show ?thesis
    using sample_uuid_lib_ok by (auto simp: files_env_ok_def sample_files_env_def)
qed

definition no_files :: session_files where
  "no_files = \<lparr>sf_records = [], sf_index = None\<rparr>"

lemma no_files_healthy: "files_healthy E no_files"
  by (simp add: files_healthy_def no_files_def)

lemma sample_save:
  "\<exists>t. file_save sample_files_env now sample_session no_files = (Inr (bump now sample_session), t)"
proof -
  have "file_lookup sample_files_env (ses_id sample_session) no_files = None"
    by (simp add: file_lookup_def no_files_def)
  then have "file_save sample_files_env now sample_session no_files
      = save_checked sample_files_env now sample_session no_files"
    by (simp add: file_save_healthy [OF sample_files_env_ok no_files_healthy] expected_revision_def
        sample_session_def session_record_new_def)
  with save_checked_healthy [OF sample_files_env_ok no_files_healthy, of now sample_session]
  show ?thesis by auto
qed

theorem file_session_store_loses_no_update_witness:
  "fst (file_save sample_files_env 9 (sample_session\<lparr>ses_messages := []\<rparr>)
     (session_store.save_all (file_save sample_files_env) [(7, sample_session\<lparr>ses_revision := 1\<rparr>)]
        (snd (file_save sample_files_env 6 sample_session no_files)))) = Inl StConflict"
proof -
  obtain t where "file_save sample_files_env 6 sample_session no_files = (Inr (bump 6 sample_session), t)"
    using sample_save by blast
  then have ok: "fst (file_save sample_files_env 6 sample_session no_files) = Inr (bump 6 sample_session)"
    by simp
  show ?thesis
    by (rule file_session_store_loses_no_update [OF sample_files_env_ok no_files_healthy ok])
      (simp_all add: sample_session_def session_record_new_def)
qed

theorem file_session_save_load_roundtrip_witness:
  "\<exists>t. file_save sample_files_env 6 sample_session no_files = (Inr (bump 6 sample_session), t)
     \<and> file_load sample_files_env 8 (SessionId 1) t
       = (Inr (Some (sample_session\<lparr>ses_revision := 1, ses_updated_at := 6\<rparr>)), t)"
proof -
  obtain t where t: "file_save sample_files_env 6 sample_session no_files = (Inr (bump 6 sample_session), t)"
    using sample_save by blast
  from file_session_save_load_roundtrip [OF sample_files_env_ok no_files_healthy t, of 8 "SessionId 1"] t
  show ?thesis by (simp add: sample_session_def session_record_new_def saturating_add_def)
qed

theorem failed_save_may_be_carried_out_witness:
  "let s = \<lparr>sf_records = [(''x.json'', [])], sf_index = None\<rparr>;
       r = session_record_new 0 (SessionId 1);
       (x, t) = file_save sample_files_env 3 r s
   in x = Inl (StCorruptQuarantined (sfe_path sample_files_env @ ''/x.json.corrupt-'' @ decimal (unat (3::u64))))
      \<and> fst (file_save sample_files_env 4 r t) = Inl StConflict"
  by (rule failed_save_may_be_carried_out [OF sample_files_env_ok])
    (simp add: sample_files_env_def sample_uuid_lib_def)

theorem provider_states_collide_witness:
  "let r = \<lparr>pst_session_id = SessionId 1, pst_provider_id = ProviderId ''a/b'', pst_state = JNull\<rparr>;
       d = snd (provider_file_save sample_files_env r []);
       (x, d') = provider_file_load sample_files_env 3 (SessionId 1) (ProviderId ''a_b'') d
   in provider_file_load sample_files_env 3 (SessionId 1) (ProviderId ''a/b'') d = (Inr (Some r), d)
      \<and> (\<exists>m. x = Inl (StCorruptQuarantined m))
      \<and> provider_file_load sample_files_env 4 (SessionId 1) (ProviderId ''a/b'') d' = (Inr None, d')"
proof -
  let ?r = "\<lparr>pst_session_id = SessionId 1, pst_provider_id = ProviderId ''a/b'', pst_state = JNull\<rparr>"
  show ?thesis
    using provider_states_collide [of sample_files_env ?r "SessionId 1" 3 4]
    by (simp add: sample_files_env_def Let_def)
qed

end
