(* ===== verification/Registries.thy ===== *)
theory Registries
  imports Core_Types
begin

text \<open>
  The contract of a registry, and two of the three that have it: the provider registry
  (\<open>provider.rs\<close> of \<open>aifluxon-core\<close>) and the skill registry (\<open>skills.rs\<close> of
  \<open>aifluxon-runtime\<close>); the tool registry is in theory \<open>Tools\<close>. A registry takes an entry
  once: the first admissible entry of a key stays, later ones are refused.
\<close>

section \<open>The contract\<close>

locale keyed_registry =
  fixes register :: "'v \<Rightarrow> 's \<Rightarrow> ('e + unit) \<times> 's"
    and resolve :: "'k \<Rightarrow> 's \<Rightarrow> 'w option"
    and key_of :: "'v \<Rightarrow> 'k"
    and stored :: "'v \<Rightarrow> 'w"
    and admissible :: "'v \<Rightarrow> 's \<Rightarrow> bool"
  assumes register_new: "admissible v s \<Longrightarrow> resolve (key_of v) s = None \<Longrightarrow>
      fst (register v s) = Inr ()
      \<and> (\<forall>j. resolve j (snd (register v s)) = (if j = key_of v then Some (stored v) else resolve j s))"
    and register_refused: "\<not> (admissible v s \<and> resolve (key_of v) s = None) \<Longrightarrow>
      (\<exists>e. fst (register v s) = Inl e) \<and> snd (register v s) = s"
    and register_admissible: "admissible u (snd (register v s)) = admissible u s"
begin

definition register_all :: "'v list \<Rightarrow> 's \<Rightarrow> 's" where
  "register_all vs s = fold (\<lambda>v t. snd (register v t)) vs s"

lemma register_all_admissible: "admissible u (register_all vs s) = admissible u s"
  by (induction vs arbitrary: s) (simp_all add: register_all_def register_admissible)

lemma register_kept: "resolve j s = Some w \<Longrightarrow> resolve j (snd (register v s)) = Some w"
  using register_new [of v s] register_refused [of v s]
  by (cases "admissible v s \<and> resolve (key_of v) s = None") auto

lemma resolve_register_all:
  "resolve j (register_all vs s) =
     or_else (resolve j s) (map_option stored (find (\<lambda>v. admissible v s \<and> key_of v = j) vs))"
proof (induction vs arbitrary: s)
  case Nil
  then show ?case by (cases "resolve j s") (simp_all add: register_all_def)
next
  case (Cons v vs)
  have "resolve j (register_all (v # vs) s) = resolve j (register_all vs (snd (register v s)))"
    by (simp add: register_all_def)
  also have "\<dots> = or_else (resolve j (snd (register v s)))
      (map_option stored (find (\<lambda>v. admissible v s \<and> key_of v = j) vs))"
    by (simp add: Cons.IH register_admissible)
  also have "\<dots> = or_else (resolve j s)
      (map_option stored (find (\<lambda>v. admissible v s \<and> key_of v = j) (v # vs)))"
  proof (cases "admissible v s \<and> resolve (key_of v) s = None")
    case True
    with register_new [of v s] show ?thesis by auto
  next
    case False
    with register_refused [OF False] show ?thesis by (cases "resolve j s") auto
  qed
  finally show ?case .
qed

end

section \<open>Providers\<close>

datatype provider_registry_error =
    RegEmptyId
  | RegDuplicate provider_id
  | RegUnknown provider_id
  | RegIdMismatch provider_id provider_id
  | RegUnavailable

text \<open>A provider is its implementation \<open>'p\<close> and the identifier its \<open>id()\<close> reports. The lock is
  poisoned when \<open>preg_poisoned\<close>.\<close>

record 'p model_provider =
  prov_id :: provider_id
  prov_impl :: 'p

record 'p provider_registry =
  preg_providers :: "(provider_id \<times> 'p model_provider) list"
  preg_poisoned :: bool

definition preg_new :: "'p provider_registry" where
  "preg_new = \<lparr>preg_providers = [], preg_poisoned = False\<rparr>"

definition register_shared ::
    "provider_id \<Rightarrow> 'p model_provider \<Rightarrow> 'p provider_registry
       \<Rightarrow> (provider_registry_error + unit) \<times> 'p provider_registry" where
  "register_shared i p s =
     (if trim (provider_str i) = [] then (Inl RegEmptyId, s)
      else if prov_id p \<noteq> i then (Inl (RegIdMismatch i (prov_id p)), s)
      else if preg_poisoned s then (Inl RegUnavailable, s)
      else if map_of (preg_providers s) i \<noteq> None then (Inl (RegDuplicate i), s)
      else (Inr (), s\<lparr>preg_providers := AList.update i p (preg_providers s)\<rparr>))"

definition provider_resolve :: "provider_id \<Rightarrow> 'p provider_registry \<Rightarrow> 'p model_provider option" where
  "provider_resolve i s = (if preg_poisoned s then None else map_of (preg_providers s) i)"

definition resolve_required ::
    "provider_id \<Rightarrow> 'p provider_registry \<Rightarrow> provider_registry_error + 'p model_provider" where
  "resolve_required i s = ok_or (RegUnknown i) (provider_resolve i s)"

definition provider_contains :: "provider_id \<Rightarrow> 'p provider_registry \<Rightarrow> bool" where
  "provider_contains i s = (provider_resolve i s \<noteq> None)"

definition provider_is_empty :: "'p provider_registry \<Rightarrow> bool" where
  "provider_is_empty s = (if preg_poisoned s then True else preg_providers s = [])"

interpretation providers: keyed_registry
  "\<lambda>v. register_shared (fst v) (snd v)" provider_resolve fst snd
  "\<lambda>v s. trim (provider_str (fst v)) \<noteq> [] \<and> prov_id (snd v) = fst v \<and> \<not> preg_poisoned s"
  by unfold_locales (auto simp: register_shared_def provider_resolve_def split: if_splits)

text \<open>
  The provider registry keeps the first admissible provider of an identifier. After any
  sequence of registrations into a new registry, an identifier resolves to the first provider
  registered under it whose own identifier is the same, blank identifiers excepted; and
  \<open>resolve_required\<close> reports every other identifier as unknown.
\<close>

theorem provider_registry_first_wins:
  "resolve_required i (providers.register_all vs preg_new) =
     (case find (\<lambda>v. trim (provider_str (fst v)) \<noteq> [] \<and> prov_id (snd v) = fst v \<and> fst v = i) vs of
        Some v \<Rightarrow> Inr (snd v) | None \<Rightarrow> Inl (RegUnknown i))"
  using providers.resolve_register_all [of i vs preg_new]
  by (simp add: resolve_required_def preg_new_def provider_resolve_def conj_assoc
      split: option.splits)

section \<open>Skills\<close>

record registered_skill =
  skill_manifest_of :: skill_manifest
  skill_contribution_of :: skill_contribution

record merged_skill_contribution =
  merged_active_skills :: "skill_id list"
  merged_instructions :: "str list"
  merged_tools :: "str list"
  merged_required_capabilities :: "capability_id list"

datatype skill_registry_error = SkillDuplicate skill_id | SkillUnknown skill_id

record skill_registry =
  sreg_skills :: "(skill_id \<times> registered_skill) list"
  sreg_active :: "skill_id list"

definition sreg_new :: skill_registry where
  "sreg_new = \<lparr>sreg_skills = [], sreg_active = []\<rparr>"

definition skill_register ::
    "skill_manifest \<Rightarrow> skill_contribution \<Rightarrow> skill_registry
       \<Rightarrow> (skill_registry_error + unit) \<times> skill_registry" where
  "skill_register m c s =
     (if map_of (sreg_skills s) (manifest_id m) \<noteq> None then (Inl (SkillDuplicate (manifest_id m)), s)
      else (Inr (), s\<lparr>sreg_skills := AList.update (manifest_id m)
              \<lparr>skill_manifest_of = m, skill_contribution_of = c\<rparr> (sreg_skills s)\<rparr>))"

definition skill_resolve :: "skill_id \<Rightarrow> skill_registry \<Rightarrow> registered_skill option" where
  "skill_resolve i s = map_of (sreg_skills s) i"

definition skill_activate ::
    "skill_id \<Rightarrow> skill_registry \<Rightarrow> (skill_registry_error + unit) \<times> skill_registry" where
  "skill_activate i s =
     (if map_of (sreg_skills s) i = None then (Inl (SkillUnknown i), s)
      else if i \<notin> set (sreg_active s) then (Inr (), s\<lparr>sreg_active := sreg_active s @ [i]\<rparr>)
      else (Inr (), s))"

text \<open>Push every element that the set of those seen does not hold yet.\<close>

definition push_unseen :: "'a list \<Rightarrow> 'a set \<times> 'a list \<Rightarrow> 'a set \<times> 'a list" where
  "push_unseen xs st =
     fold (\<lambda>x (seen, out). if x \<in> seen then (seen, out) else (insert x seen, out @ [x])) xs st"

definition merge_step ::
    "skill_registry \<Rightarrow> skill_id
       \<Rightarrow> (str set \<times> str list) \<times> (str set \<times> str list) \<times> (capability_id set \<times> capability_id list)
       \<Rightarrow> (str set \<times> str list) \<times> (str set \<times> str list) \<times> (capability_id set \<times> capability_id list)"
  where
  "merge_step s i acc =
     (case map_of (sreg_skills s) i of
        None \<Rightarrow> acc
      | Some k \<Rightarrow> (case acc of (ins, tls, caps) \<Rightarrow>
          (push_unseen (contrib_instructions (skill_contribution_of k)) ins,
           push_unseen (contrib_tools (skill_contribution_of k)) tls,
           push_unseen (contrib_required_capabilities (skill_contribution_of k)) caps)))"

definition merge_active :: "skill_registry \<Rightarrow> merged_skill_contribution" where
  "merge_active s =
     (case fold (merge_step s) (sreg_active s) (({}, []), ({}, []), ({}, [])) of
        (ins, tls, caps) \<Rightarrow>
          \<lparr>merged_active_skills = sreg_active s, merged_instructions = snd ins,
           merged_tools = snd tls, merged_required_capabilities = snd caps\<rparr>)"

interpretation skills: keyed_registry
  "\<lambda>k. skill_register (skill_manifest_of k) (skill_contribution_of k)" skill_resolve
  "\<lambda>k. manifest_id (skill_manifest_of k)" id "\<lambda>_ _. True"
  by unfold_locales (auto simp: skill_register_def skill_resolve_def)

text \<open>The elements in the order of their first occurrence.\<close>

primrec first_occurrences :: "'a list \<Rightarrow> 'a list \<Rightarrow> 'a list" where
  "first_occurrences seen [] = []"
| "first_occurrences seen (x # xs) =
     (if x \<in> set seen then first_occurrences seen xs else x # first_occurrences (seen @ [x]) xs)"

lemma push_unseen_spec:
  "push_unseen xs (set out, out) = (set (out @ first_occurrences out xs), out @ first_occurrences out xs)"
proof (induction xs arbitrary: out)
  case Nil
  then show ?case by (simp add: push_unseen_def)
next
  case (Cons x xs)
  show ?case
  proof (cases "x \<in> set out")
    case True
    with Cons show ?thesis by (simp add: push_unseen_def)
  next
    case False
    with Cons [of "out @ [x]"] show ?thesis by (simp add: push_unseen_def)
  qed
qed

lemma first_occurrences_append:
  "first_occurrences seen (xs @ ys) =
     first_occurrences seen xs @ first_occurrences (seen @ first_occurrences seen xs) ys"
  by (induction xs arbitrary: seen) auto

lemma first_occurrences_set: "set (first_occurrences seen xs) = set xs - set seen"
  by (induction xs arbitrary: seen) auto

lemma first_occurrences_distinct: "distinct (first_occurrences seen xs)"
  by (induction xs arbitrary: seen) (auto simp: first_occurrences_set)

definition active_contributions :: "skill_registry \<Rightarrow> skill_contribution list" where
  "active_contributions s =
     map skill_contribution_of (List.map_filter (map_of (sreg_skills s)) (sreg_active s))"

lemma merge_fold:
  "fold (merge_step s) is ((set a, a), (set b, b), (set c, c)) =
     (let ks = map skill_contribution_of (List.map_filter (map_of (sreg_skills s)) is);
          a' = a @ first_occurrences a (concat (map contrib_instructions ks));
          b' = b @ first_occurrences b (concat (map contrib_tools ks));
          c' = c @ first_occurrences c (concat (map contrib_required_capabilities ks))
      in ((set a', a'), (set b', b'), (set c', c')))"
proof (induction "is" arbitrary: a b c)
  case Nil
  then show ?case by (simp add: Let_def)
next
  case (Cons i "is")
  show ?case
  proof (cases "map_of (sreg_skills s) i")
    case None
    with Cons show ?thesis by (simp add: merge_step_def map_filter_simps)
  next
    case (Some k)
    let ?c = "skill_contribution_of k"
    let ?a = "a @ first_occurrences a (contrib_instructions ?c)"
    let ?b = "b @ first_occurrences b (contrib_tools ?c)"
    let ?d = "c @ first_occurrences c (contrib_required_capabilities ?c)"
    have "merge_step s i ((set a, a), (set b, b), (set c, c)) = ((set ?a, ?a), (set ?b, ?b), (set ?d, ?d))"
      using Some by (simp only: merge_step_def push_unseen_spec option.case prod.case)
    then show ?thesis
      using Some Cons.IH [of ?a ?b ?d]
      by (simp only: fold_simps Let_def map_filter_simps option.case list.map concat.simps
          first_occurrences_append append_assoc)
  qed
qed

text \<open>
  Merging the active skills concatenates their contributions in the order of activation
  and keeps the first occurrence of each instruction, tool and capability: nothing is lost,
  nothing is listed twice.
\<close>

theorem merge_active_keeps_first_occurrences:
  "merged_instructions (merge_active s)
     = first_occurrences [] (concat (map contrib_instructions (active_contributions s)))
 \<and> merged_tools (merge_active s)
     = first_occurrences [] (concat (map contrib_tools (active_contributions s)))
 \<and> merged_required_capabilities (merge_active s)
     = first_occurrences [] (concat (map contrib_required_capabilities (active_contributions s)))
 \<and> distinct (merged_tools (merge_active s))
 \<and> set (merged_tools (merge_active s)) = (\<Union>c \<in> set (active_contributions s). set (contrib_tools c))"
  using merge_fold [of s "sreg_active s" "[]" "[]" "[]"]
  by (simp add: merge_active_def active_contributions_def Let_def first_occurrences_distinct
      first_occurrences_set)

end
