(* ===== verification/Tools.thy ===== *)
theory Tools
  imports Registries
begin

text \<open>
  Tools (\<open>tools/\<close> of \<open>aifluxon-runtime\<close>): validation of the arguments of a call
  (\<open>validation.rs\<close>), the ledger of executed invocations (\<open>executor.rs\<close>), the registry
  (\<open>registry.rs\<close>) and the policy functions (\<open>policy.rs\<close>). The JSON parser and the JSON-schema
  validator are third-party and parameters.
\<close>

section \<open>Validation of arguments\<close>

text \<open>
  The kinds of errors of the \<open>jsonschema\<close> crate that the code names, every other kind, and
  the part of an error the code reads.
\<close>

datatype validation_error_kind =
    VkRequired json
  | VkType | VkEnum
  | VkAdditionalProperties | VkUnevaluatedProperties
  | VkMinLength | VkMaxLength
  | VkMinimum | VkExclusiveMinimum | VkMaximum | VkExclusiveMaximum
  | VkMinItems | VkMaxItems | VkPattern | VkFormat
  | VkOther

record schema_error =
  serr_kind :: validation_error_kind
  serr_instance_path :: str
  serr_display :: str

text \<open>\<open>from_str\<close> of \<open>serde_json\<close>, and \<open>validator_for\<close> with the errors it iterates over.\<close>

record json_lib =
  lib_parse :: "str \<Rightarrow> json option"
  lib_print :: "json \<Rightarrow> str"
  lib_validator :: "json \<Rightarrow> (json \<Rightarrow> schema_error list) option"

definition parse_tool_arguments :: "json_lib \<Rightarrow> str \<Rightarrow> tool_validation_error + json" where
  "parse_tool_arguments L raw =
     (if length raw > MAX_TOOL_ARGUMENT_BYTES then Inl OversizedArgument
      else let raw' = trim raw in
        if raw' = [] then Inr (JObject [])
        else ok_or InvalidJson (lib_parse L raw'))"

text \<open>\<open>str::replace\<close> of a single character.\<close>

definition replace_char :: "char \<Rightarrow> str \<Rightarrow> str \<Rightarrow> str" where
  "replace_char c r s = concat (map (\<lambda>x. if x = c then r else [x]) s)"

definition escape_json_pointer_segment :: "str \<Rightarrow> str" where
  "escape_json_pointer_segment s = replace_char CHR ''/'' ''~1'' (replace_char CHR ''~'' ''~0'' s)"

fun violation_kind :: "validation_error_kind \<Rightarrow> str" where
  "violation_kind (VkRequired p) = ''required''"
| "violation_kind VkType = ''type''"
| "violation_kind VkEnum = ''enum''"
| "violation_kind VkAdditionalProperties = ''additional_properties''"
| "violation_kind VkUnevaluatedProperties = ''additional_properties''"
| "violation_kind VkMinLength = ''min_length''"
| "violation_kind VkMaxLength = ''max_length''"
| "violation_kind VkMinimum = ''minimum''"
| "violation_kind VkExclusiveMinimum = ''minimum''"
| "violation_kind VkMaximum = ''maximum''"
| "violation_kind VkExclusiveMaximum = ''maximum''"
| "violation_kind VkMinItems = ''min_items''"
| "violation_kind VkMaxItems = ''max_items''"
| "violation_kind VkPattern = ''pattern''"
| "violation_kind VkFormat = ''format''"
| "violation_kind VkOther = ''schema''"

fun violation_path :: "validation_error_kind \<Rightarrow> str \<Rightarrow> str" where
  "violation_path (VkRequired p) path =
     (case as_str p of Some f \<Rightarrow> path @ ''/'' @ escape_json_pointer_segment f | None \<Rightarrow> path)"
| "violation_path _ path = path"

definition schema_violation :: "schema_error \<Rightarrow> tool_validation_error" where
  "schema_violation e =
     SchemaViolation (violation_kind (serr_kind e))
       (violation_path (serr_kind e) (serr_instance_path e)) (serr_display e)"

definition not_an_object :: tool_validation_error where
  "not_an_object = SchemaViolation ''type'' [] ''Tool arguments must be a JSON object.''"

fun relax_schema :: "json \<Rightarrow> json" where
  "relax_schema (JObject m) =
     (let m' = json_insert ''additionalProperties'' (JBool True) m in
      JObject (if map_of m' ''type'' = None then json_insert ''type'' (JString ''object'') m' else m'))"
| "relax_schema v = v"

definition validate_tool_arguments ::
    "json_lib \<Rightarrow> json \<Rightarrow> json \<Rightarrow> tool_validation_error + unit" where
  "validate_tool_arguments L schema arguments =
     (if \<not> is_object arguments then Inl not_an_object
      else case lib_validator L (relax_schema schema) of
             Some errors \<Rightarrow> (case errors arguments of
                 [] \<Rightarrow> Inr () | e # es \<Rightarrow> Inl (schema_violation e))
           | None \<Rightarrow> Inr ())"

definition prepare_tool_call ::
    "json_lib \<Rightarrow> tool_descriptor \<Rightarrow> str \<Rightarrow> tool_validation_error + prepared_tool_call" where
  "prepare_tool_call L d raw =
     res_bind (parse_tool_arguments L raw) (\<lambda>arguments.
     res_bind (validate_tool_arguments L (tool_input_schema d) arguments) (\<lambda>_.
       Inr \<lparr>prepared_name = tool_name d, prepared_arguments = arguments,
            prepared_effect = tool_effect_of d\<rparr>))"

section \<open>Invocations and the ledger\<close>

record tool_invocation =
  inv_id :: tool_invocation_id
  inv_name :: str
  inv_arguments :: json
  inv_effect :: tool_effect

record tool_result =
  res_value :: json
  res_content :: "content_part list option"

definition result_from_value :: "json \<Rightarrow> tool_result" where
  "result_from_value v = \<lparr>res_value = v, res_content = None\<rparr>"

definition result_with_content :: "json \<Rightarrow> content_part list \<Rightarrow> tool_result" where
  "result_with_content v c = \<lparr>res_value = v, res_content = Some c\<rparr>"

datatype tool_execution_error =
    ExecValidation tool_validation_error
  | ExecRejectedDuplicate
  | ExecFailed str

fun execution_error_message :: "tool_execution_error \<Rightarrow> str" where
  "execution_error_message (ExecValidation e) = validation_message e"
| "execution_error_message ExecRejectedDuplicate =
     ''Duplicate tool invocation was rejected because the original side effect already ran.''"
| "execution_error_message (ExecFailed m) = m"

record tool_ledger =
  led_completed :: "(tool_invocation_id \<times> tool_result) list"
  led_poisoned :: bool

definition ledger_new :: tool_ledger where
  "ledger_new = \<lparr>led_completed = [], led_poisoned = False\<rparr>"

definition ledger_get :: "tool_invocation_id \<Rightarrow> tool_ledger \<Rightarrow> tool_result option" where
  "ledger_get i l = (if led_poisoned l then None else map_of (led_completed l) i)"

definition ledger_record :: "tool_invocation_id \<Rightarrow> tool_result \<Rightarrow> tool_ledger \<Rightarrow> tool_ledger" where
  "ledger_record i r l =
     (if led_poisoned l then l else l\<lparr>led_completed := AList.update i r (led_completed l)\<rparr>)"

text \<open>The closure is a function of the world \<open>'w\<close> it acts on; it runs under the lock.\<close>

definition execute_once ::
    "tool_invocation_id \<Rightarrow> ('w \<Rightarrow> (tool_execution_error + tool_result) \<times> 'w)
       \<Rightarrow> tool_ledger \<Rightarrow> 'w \<Rightarrow> (tool_execution_error + tool_result) \<times> tool_ledger \<times> 'w" where
  "execute_once i execute l w =
     (if led_poisoned l then (Inl (ExecFailed ''Tool ledger is unavailable.''), l, w)
      else case map_of (led_completed l) i of
             Some cached \<Rightarrow> (Inr cached, l, w)
           | None \<Rightarrow> (case execute w of
               (Inl e, w') \<Rightarrow> (Inl e, l, w')
             | (Inr r, w') \<Rightarrow>
                 (Inr r, l\<lparr>led_completed := AList.update i r (led_completed l)\<rparr>, w')))"

definition execution_count :: "tool_ledger \<Rightarrow> nat" where
  "execution_count l = (if led_poisoned l then 0 else length (led_completed l))"

definition invocation_from_prepared :: "tool_invocation_id \<Rightarrow> prepared_tool_call \<Rightarrow> tool_invocation"
  where
  "invocation_from_prepared i p =
     \<lparr>inv_id = i, inv_name = prepared_name p, inv_arguments = prepared_arguments p,
      inv_effect = prepared_effect p\<rparr>"

definition prepare_invocation ::
    "json_lib \<Rightarrow> tool_invocation_id \<Rightarrow> tool_descriptor \<Rightarrow> str
       \<Rightarrow> tool_execution_error + tool_invocation" where
  "prepare_invocation L i d raw =
     res_bind (map_err ExecValidation (prepare_tool_call L d raw))
       (\<lambda>p. Inr (invocation_from_prepared i p))"

definition validation_error_value :: "tool_validation_error \<Rightarrow> json" where
  "validation_error_value e = json_obj
     [(''ok'', JBool False),
      (''error'', JString (validation_message e)),
      (''errorCode'', JString ''TOOL_ARGUMENT_VALIDATION_FAILED''),
      (''validation'', json_obj
         [(''kind'', JString (validation_kind e)),
          (''path'', json_opt_str (validation_path e)),
          (''pathFormat'', JString ''json_pointer''),
          (''retryable'', JBool True)])]"

section \<open>The registry\<close>

text \<open>An executor is a value of type \<open>'x\<close>; the code that runs it says how.\<close>

record 'x registered_tool =
  rt_descriptor :: tool_descriptor
  rt_executor :: 'x

datatype tool_registry_error = DuplicateToolName str

fun tool_registry_error_display :: "tool_registry_error \<Rightarrow> str" where
  "tool_registry_error_display (DuplicateToolName n) =
     ''Tool `'' @ n @ ''` is already registered.''"

text \<open>The registry recovers the data of a poisoned lock, so poisoning is not observable.\<close>

type_synonym 'x tool_registry = "(str \<times> 'x registered_tool) list"

definition tools_new :: "'x tool_registry" where
  "tools_new = []"

definition tool_register ::
    "tool_descriptor \<Rightarrow> 'x \<Rightarrow> 'x tool_registry \<Rightarrow> (tool_registry_error + unit) \<times> 'x tool_registry"
  where
  "tool_register d x s =
     (if map_of s (tool_name d) \<noteq> None then (Inl (DuplicateToolName (tool_name d)), s)
      else (Inr (), AList.update (tool_name d) \<lparr>rt_descriptor = d, rt_executor = x\<rparr> s))"

definition tool_resolve :: "str \<Rightarrow> 'x tool_registry \<Rightarrow> 'x registered_tool option" where
  "tool_resolve n s = map_of s n"

definition tool_contains :: "str \<Rightarrow> 'x tool_registry \<Rightarrow> bool" where
  "tool_contains n s = (map_of s n \<noteq> None)"

definition descriptors :: "'x tool_registry \<Rightarrow> tool_descriptor list" where
  "descriptors s = sort_key tool_name (map (\<lambda>(n, t). rt_descriptor t) s)"

definition registry_prepare_invocation ::
    "json_lib \<Rightarrow> tool_invocation_id \<Rightarrow> str \<Rightarrow> str \<Rightarrow> 'x tool_registry
       \<Rightarrow> tool_execution_error + tool_invocation \<times> 'x" where
  "registry_prepare_invocation L i name raw s =
     res_bind (ok_or (ExecValidation UnknownTool) (tool_resolve name s)) (\<lambda>t.
     res_bind (prepare_invocation L i (rt_descriptor t) raw) (\<lambda>inv. Inr (inv, rt_executor t)))"

interpretation tools: keyed_registry
  "\<lambda>t. tool_register (rt_descriptor t) (rt_executor t)" tool_resolve
  "\<lambda>t. tool_name (rt_descriptor t)" id "\<lambda>_ _. True"
  by unfold_locales (auto simp: tool_register_def tool_resolve_def)

section \<open>Policy\<close>

record resolved_resource_facts =
  fact_resource :: "str option"
  fact_cwd :: "str option"
  fact_network_target :: "str option"
  fact_prepared_effect :: bool

definition default_facts :: resolved_resource_facts where
  "default_facts = \<lparr>fact_resource = None, fact_cwd = None, fact_network_target = None,
     fact_prepared_effect = False\<rparr>"

record tool_policy_input =
  pin_descriptor :: tool_descriptor
  pin_invocation :: tool_invocation
  pin_facts :: resolved_resource_facts
  pin_authority :: execution_authority

datatype tool_decision = Allow | Deny str | RequireApproval pending_operation_draft

record tool_policy =
  pol_resolve_facts :: "tool_descriptor \<Rightarrow> tool_invocation \<Rightarrow> execution_authority
    \<Rightarrow> str + resolved_resource_facts"
  pol_evaluate :: "tool_policy_input \<Rightarrow> tool_decision"

definition allow_all_policy :: tool_policy where
  "allow_all_policy = \<lparr>pol_resolve_facts = (\<lambda>_ _ _. Inr default_facts), pol_evaluate = (\<lambda>_. Allow)\<rparr>"

definition missing_required_capabilities :: "tool_policy_input \<Rightarrow> capability_id set" where
  "missing_required_capabilities i =
     set (filter (\<lambda>c. \<not> grants (pin_authority i) c) (tool_required_capabilities (pin_descriptor i)))"

definition permission_mode_from_str :: "str \<Rightarrow> permission_mode" where
  "permission_mode_from_str v =
     (if v = ''managed'' then PermManaged else if v = ''trusted'' then PermTrusted else PermDefault)"

definition filesystem_scope :: "bool \<Rightarrow> permission_mode \<Rightarrow> bool \<Rightarrow> agent_filesystem_scope" where
  "filesystem_scope has_scoped_selection mode has_workspace =
     (if has_scoped_selection then FsScopedSelection
      else if mode = PermTrusted then FsTrusted
      else if \<not> has_workspace then FsIsolated
      else FsWorkspace)"

definition shell_filesystem_scope :: "permission_mode \<Rightarrow> bool \<Rightarrow> agent_filesystem_scope" where
  "shell_filesystem_scope mode has_workspace =
     (if mode = PermTrusted then FsTrusted
      else if \<not> has_workspace then FsIsolated
      else FsWorkspace)"

definition execution_authority_for :: "bool \<Rightarrow> permission_mode \<Rightarrow> bool \<Rightarrow> execution_authority" where
  "execution_authority_for has_scoped_selection mode has_workspace =
     \<lparr>auth_permission_mode = mode,
      auth_filesystem_scope = filesystem_scope has_scoped_selection mode has_workspace,
      auth_capabilities = {}\<rparr>"

definition can_run_tool_calls_in_parallel :: "tool_descriptor list \<Rightarrow> bool" where
  "can_run_tool_calls_in_parallel ds = (length ds > 1 \<and> list_all tool_parallel_safe ds)"

section \<open>Validation: properties\<close>

text \<open>Decoding of a reference token of a JSON pointer (RFC 6901), the inverse of escaping.\<close>

fun unescape_pointer :: "str \<Rightarrow> str" where
  "unescape_pointer [] = []"
| "unescape_pointer [c] = [c]"
| "unescape_pointer (c # d # s) =
     (if c = CHR ''~'' \<and> d = CHR ''1'' then CHR ''/'' # unescape_pointer s
      else if c = CHR ''~'' \<and> d = CHR ''0'' then CHR ''~'' # unescape_pointer s
      else c # unescape_pointer (d # s))"

lemma escape_Nil [simp]: "escape_json_pointer_segment [] = []"
  by (simp add: escape_json_pointer_segment_def replace_char_def)

lemma escape_Cons:
  "escape_json_pointer_segment (c # s) =
     (if c = CHR ''~'' then ''~0'' else if c = CHR ''/'' then ''~1'' else [c])
       @ escape_json_pointer_segment s"
  by (simp add: escape_json_pointer_segment_def replace_char_def)

lemma unescape_plain:
  "c \<noteq> CHR ''~'' \<Longrightarrow> unescape_pointer (c # s) = c # unescape_pointer s"
  by (cases s) simp_all

lemma unescape_escape: "unescape_pointer (escape_json_pointer_segment s) = s"
  by (induction s) (auto simp: escape_Cons unescape_plain)

text \<open>
  Escaping a property name into a segment of a JSON pointer loses nothing and cannot be
  mistaken for a path: the decoding of RFC 6901 gives the name back, and the segment holds no
  slash.
\<close>

theorem json_pointer_segment_roundtrip:
  "unescape_pointer (escape_json_pointer_segment s) = s
   \<and> CHR ''/'' \<notin> set (escape_json_pointer_segment s)"
  by (simp add: unescape_escape) (induction s, auto simp: escape_Cons)

definition arguments_of :: "json_lib \<Rightarrow> str \<Rightarrow> json option" where
  "arguments_of L raw = (if trim raw = [] then Some (JObject []) else lib_parse L (trim raw))"

definition violations :: "json_lib \<Rightarrow> json \<Rightarrow> json \<Rightarrow> schema_error list" where
  "violations L schema v =
     (case lib_validator L (relax_schema schema) of Some errors \<Rightarrow> errors v | None \<Rightarrow> [])"

text \<open>
  What preparing a tool call accepts and which error it reports. The checks come in this
  order: the size of the raw text, its parsing (a blank text is the empty object), being an
  object, then the first violation of the relaxed schema; a schema the validator refuses accepts
  every object. What is accepted carries the parsed arguments and the descriptor's name and
  effect.
\<close>

theorem prepare_tool_call_decides:
  "prepare_tool_call L d raw =
     (if length raw > 262144 then Inl OversizedArgument
      else case arguments_of L raw of
        None \<Rightarrow> Inl InvalidJson
      | Some v \<Rightarrow>
          (if as_object v = None then Inl not_an_object
           else case violations L (tool_input_schema d) v of
             e # _ \<Rightarrow> Inl (schema_violation e)
           | [] \<Rightarrow> Inr \<lparr>prepared_name = tool_name d, prepared_arguments = v,
                         prepared_effect = tool_effect_of d\<rparr>))"
proof (cases "length raw > MAX_TOOL_ARGUMENT_BYTES")
  case True
  then show ?thesis
    by (simp add: prepare_tool_call_def parse_tool_arguments_def MAX_TOOL_ARGUMENT_BYTES_def)
next
  case False
  then have "parse_tool_arguments L raw = ok_or InvalidJson (arguments_of L raw)"
    by (simp add: parse_tool_arguments_def arguments_of_def Let_def)
  with False show ?thesis
    by (auto simp: prepare_tool_call_def MAX_TOOL_ARGUMENT_BYTES_def validate_tool_arguments_def
        is_object_def violations_def not_an_object_def split: option.split list.split)
qed

lemma relax_schema_get:
  "json_get (relax_schema (JObject m)) k =
     (if k = ''additionalProperties'' then Some (JBool True)
      else if k = ''type'' \<and> map_of m ''type'' = None then Some (JString ''object'')
      else map_of m k)"
  by (auto simp: Let_def)

section \<open>The ledger: at most one success\<close>

text \<open>
  A sequence of calls of \<open>execute_once\<close> on a fresh ledger. Each call names an invocation and
  what its closure would return; the world logs which closures ran and whether they succeeded.
\<close>

type_synonym once_call = "tool_invocation_id \<times> (tool_execution_error + tool_result)"

definition logging_closure ::
    "once_call \<Rightarrow> (tool_invocation_id \<times> bool) list
       \<Rightarrow> (tool_execution_error + tool_result) \<times> (tool_invocation_id \<times> bool) list" where
  "logging_closure c w = (snd c, w @ [(fst c, isl (snd c) = False)])"

fun once_run ::
    "once_call list \<Rightarrow> tool_ledger \<Rightarrow> (tool_invocation_id \<times> bool) list
       \<Rightarrow> (tool_invocation_id \<times> (tool_execution_error + tool_result)) list
            \<times> (tool_invocation_id \<times> bool) list" where
  "once_run [] l w = ([], w)"
| "once_run (c # cs) l w =
     (case execute_once (fst c) (logging_closure c) l w of
        (x, l', w') \<Rightarrow> (case once_run cs l' w' of (xs, w'') \<Rightarrow> ((fst c, x) # xs, w'')))"

text \<open>The answers of an invocation that the ledger does not hold yet: its failures, up to and
  including its first success, then that success for ever.\<close>

fun once_spec :: "(tool_execution_error + tool_result) list \<Rightarrow> (tool_execution_error + tool_result) list"
  where
  "once_spec [] = []"
| "once_spec (Inl e # xs) = Inl e # once_spec xs"
| "once_spec (Inr r # xs) = replicate (Suc (length xs)) (Inr r)"

definition answers :: "tool_invocation_id \<Rightarrow> (tool_invocation_id \<times> 'a) list \<Rightarrow> 'a list" where
  "answers i xs = map snd (filter (\<lambda>x. fst x = i) xs)"

lemma answers_simps [simp]:
  "answers i [] = []"
  "answers i ((j, x) # xs) = (if j = i then x # answers i xs else answers i xs)"
  "answers i (xs @ ys) = answers i xs @ answers i ys"
  by (simp_all add: answers_def)

lemma once_run_answers:
  assumes "\<not> led_poisoned l" "once_run cs l w = (xs, w')"
  shows "answers i xs = (case map_of (led_completed l) i of
      Some r \<Rightarrow> replicate (length (answers i cs)) (Inr r) | None \<Rightarrow> once_spec (answers i cs))
    \<and> count_list w' (i, True) = count_list w (i, True) +
        (if map_of (led_completed l) i = None \<and> (\<exists>r. Inr r \<in> set (answers i cs)) then 1 else 0)"
  using assms
proof (induction cs arbitrary: l w xs)
  case Nil
  then show ?case by (auto split: option.split)
next
  case (Cons c cs)
  obtain j out where c: "c = (j, out)" by (metis surj_pair)
  obtain x l' v where e: "execute_once j (logging_closure c) l w = (x, l', v)" by (metis surj_pair)
  obtain ys where r: "once_run cs l' v = (ys, w')" and xs: "xs = (j, x) # ys"
    using Cons.prems(2) e c by (auto split: prod.splits)
  from e Cons.prems(1) have l': "\<not> led_poisoned l'"
    by (auto simp: execute_once_def split: option.splits prod.splits sum.splits)
  from Cons.IH [OF l' r] e Cons.prems(1) show ?case
    by (cases out; cases "j = i"; cases "map_of (led_completed l) j")
      (auto simp: xs c execute_once_def logging_closure_def split: option.splits)
qed

text \<open>
  C20. An invocation succeeds at most once. Of any sequence of \<open>execute_once\<close> calls on a new
  ledger, whatever their closures would return: the closure of an invocation runs to success at
  most once; its calls answer their own failures up to the first success and that success ever
  after, other invocations in between or not.
\<close>

theorem ledger_executes_at_most_once:
  "answers i (fst (once_run cs ledger_new [])) = once_spec (answers i cs)
   \<and> count_list (snd (once_run cs ledger_new [])) (i, True) \<le> 1"
proof -
  obtain xs w' where r: "once_run cs ledger_new [] = (xs, w')" by (metis surj_pair)
  have "\<not> led_poisoned ledger_new" by (simp add: ledger_new_def)
  from once_run_answers [OF this r, of i] r show ?thesis by (simp add: ledger_new_def)
qed

section \<open>The registry: properties\<close>

text \<open>
  The tool registry keeps the first tool of a name, and prepares calls of registered
  tools only. After any sequence of registrations, a name resolves to the first tool registered
  under it; preparing an invocation of another name is the error \<open>UnknownTool\<close>, of a registered
  one yields the executor and effect it was registered with or a validation error of its arguments.
\<close>

theorem registry_prepares_first_registered:
  "registry_prepare_invocation L i name raw (tools.register_all ts tools_new) =
     (case find (\<lambda>t. tool_name (rt_descriptor t) = name) ts of
        None \<Rightarrow> Inl (ExecValidation UnknownTool)
      | Some t \<Rightarrow> (case prepare_tool_call L (rt_descriptor t) raw of
            Inl e \<Rightarrow> Inl (ExecValidation e)
          | Inr p \<Rightarrow> Inr (\<lparr>inv_id = i, inv_name = name, inv_arguments = prepared_arguments p,
                          inv_effect = tool_effect_of (rt_descriptor t)\<rparr>, rt_executor t)))"
proof (cases "find (\<lambda>t. tool_name (rt_descriptor t) = name) ts")
  case None
  then show ?thesis
    using tools.resolve_register_all [of name ts tools_new]
    by (simp add: registry_prepare_invocation_def tools_new_def tool_resolve_def)
next
  case (Some t)
  then have name: "tool_name (rt_descriptor t) = name" by (auto simp: find_Some_iff)
  have "prepare_tool_call L (rt_descriptor t) raw = Inr p \<Longrightarrow>
      prepared_name p = name \<and> prepared_effect p = tool_effect_of (rt_descriptor t)" for p
    using name by (auto simp: prepare_tool_call_def res_bind_Inr_iff)
  with Some show ?thesis
    using tools.resolve_register_all [of name ts tools_new]
    by (cases "prepare_tool_call L (rt_descriptor t) raw")
      (auto simp: registry_prepare_invocation_def tools_new_def tool_resolve_def
        prepare_invocation_def invocation_from_prepared_def)
qed

end
