(* ===== verification/Tool_Deltas.thy ===== *)
theory Tool_Deltas
  imports Tools
begin

text \<open>
  Assembling tool calls from stream deltas (\<open>tool_deltas.rs\<close>), with the merge of extra content of
  \<open>gemini/mod.rs\<close>. A delta is the JSON the provider sent; \<open>usize\<close> is 64 bits wide.
\<close>

section \<open>Extra content\<close>

text \<open>Objects are merged deeply, entry by entry; anything else is replaced.\<close>

fun merge_extra_content :: "json \<Rightarrow> json \<Rightarrow> json"
  and merge_entries :: "json_map \<Rightarrow> json_map \<Rightarrow> json_map" where
  "merge_extra_content (JObject target) (JObject source) = JObject (merge_entries target source)"
| "merge_extra_content target source = source"
| "merge_entries target [] = target"
| "merge_entries target ((k, v) # source) =
     merge_entries
       (if is_object v
        then json_insert k (merge_extra_content (unwrap_or (JObject []) (map_of target k)) v) target
        else json_insert k v target)
       source"

section \<open>The assembler\<close>

record pending_tool_call =
  ptc_observed :: bool
  ptc_id :: str
  ptc_name :: str
  ptc_arguments :: str
  ptc_extra_content :: "json option"

definition pending_default :: pending_tool_call where
  "pending_default =
     \<lparr>ptc_observed = False, ptc_id = [], ptc_name = [], ptc_arguments = [], ptc_extra_content = None\<rparr>"

record tool_call_assembler =
  tca_calls :: "pending_tool_call list"
  tca_metadata_snapshots :: bool
  tca_gemini_contract :: bool

definition assembler_new :: tool_call_assembler where
  "assembler_new = \<lparr>tca_calls = [], tca_metadata_snapshots = False, tca_gemini_contract = False\<rparr>"

definition use_gemini_contract :: "tool_call_assembler \<Rightarrow> tool_call_assembler" where
  "use_gemini_contract a = a\<lparr>tca_gemini_contract := True, tca_metadata_snapshots := True\<rparr>"

definition use_metadata_snapshots :: "tool_call_assembler \<Rightarrow> tool_call_assembler" where
  "use_metadata_snapshots a = a\<lparr>tca_metadata_snapshots := True\<rparr>"

fun position :: "('a \<Rightarrow> bool) \<Rightarrow> 'a list \<Rightarrow> nat option" where
  "position P [] = None"
| "position P (x # xs) = (if P x then Some 0 else map_option Suc (position P xs))"

definition index_field :: "json \<Rightarrow> u64 option" where
  "index_field delta = Option.bind (json_get delta ''index'') as_u64"

definition streamed_tool_call_index :: "json \<Rightarrow> nat \<Rightarrow> nat \<Rightarrow> nat" where
  "streamed_tool_call_index delta fallback_position tool_calls_len =
     (case index_field delta of
        Some index \<Rightarrow> unat index
      | None \<Rightarrow> if fallback_position < tool_calls_len then fallback_position else tool_calls_len)"

definition delta_index :: "json \<Rightarrow> nat \<Rightarrow> tool_call_assembler \<Rightarrow> nat" where
  "delta_index delta fallback_position a =
     (let streamed = streamed_tool_call_index delta fallback_position (length (tca_calls a)) in
      if tca_gemini_contract a \<and> index_field delta = None
      then (case opt_filter (\<lambda>i. i \<noteq> []) (get_str delta ''id'') of
              Some i \<Rightarrow> unwrap_or (length (tca_calls a)) (position (\<lambda>c. ptc_id c = i) (tca_calls a))
            | None \<Rightarrow> streamed)
      else streamed)"

definition grow_calls :: "nat \<Rightarrow> pending_tool_call list \<Rightarrow> pending_tool_call list" where
  "grow_calls index calls = calls @ replicate (Suc index - length calls) pending_default"

text \<open>Replace or append, as the code decides for the identity and for the arguments.\<close>

definition put_text :: "bool \<Rightarrow> str option \<Rightarrow> str \<Rightarrow> str" where
  "put_text replace new old = (case new of None \<Rightarrow> old | Some s \<Rightarrow> if replace then s else old @ s)"

definition apply_extra :: "json \<Rightarrow> pending_tool_call \<Rightarrow> pending_tool_call" where
  "apply_extra delta c =
     (case opt_filter is_object (json_get delta ''extra_content'') of
        None \<Rightarrow> c
      | Some extra \<Rightarrow>
          c\<lparr>ptc_extra_content :=
              Some (merge_extra_content (unwrap_or (JObject []) (ptc_extra_content c)) extra)\<rparr>)"

definition apply_function :: "json \<Rightarrow> bool \<Rightarrow> bool \<Rightarrow> pending_tool_call \<Rightarrow> pending_tool_call" where
  "apply_function delta is_snapshot replace_identity c =
     (case json_get delta ''function'' of
        None \<Rightarrow> c
      | Some f \<Rightarrow>
          c\<lparr>ptc_name := put_text replace_identity (get_str f ''name'') (ptc_name c),
            ptc_arguments := put_text is_snapshot (get_str f ''arguments'') (ptc_arguments c)\<rparr>)"

definition apply_flat :: "json \<Rightarrow> bool \<Rightarrow> pending_tool_call \<Rightarrow> pending_tool_call" where
  "apply_flat delta is_snapshot c0 =
     (let c = (case get_str delta ''name'' of
                 None \<Rightarrow> c0
               | Some n \<Rightarrow> if is_snapshot \<or> ptc_name c0 = [] then c0\<lparr>ptc_name := n\<rparr> else c0)
      in case get_str delta ''arguments'' of
           None \<Rightarrow> c
         | Some args \<Rightarrow>
             if is_snapshot then c\<lparr>ptc_arguments := args\<rparr>
             else if json_get delta ''function'' = None
             then c\<lparr>ptc_arguments := ptc_arguments c @ args\<rparr>
             else c)"

definition apply_to_call :: "json \<Rightarrow> bool \<Rightarrow> bool \<Rightarrow> pending_tool_call \<Rightarrow> pending_tool_call" where
  "apply_to_call delta is_snapshot metadata_snapshots c0 =
     (let replace_identity = is_snapshot \<or> metadata_snapshots;
          c1 = apply_extra delta (c0\<lparr>ptc_observed := True\<rparr>);
          c2 = c1\<lparr>ptc_id := put_text replace_identity (get_str delta ''id'') (ptc_id c1)\<rparr>
      in apply_flat delta is_snapshot (apply_function delta is_snapshot replace_identity c2))"

definition apply_chat_delta :: "json \<Rightarrow> nat \<Rightarrow> bool \<Rightarrow> tool_call_assembler \<Rightarrow> tool_call_assembler" where
  "apply_chat_delta delta fallback_position is_snapshot a =
     (let index = delta_index delta fallback_position a;
          calls = grow_calls index (tca_calls a)
      in a\<lparr>tca_calls := calls[index :=
             apply_to_call delta is_snapshot (tca_metadata_snapshots a) (calls ! index)]\<rparr>)"

definition invalid_tool_call :: provider_error where
  "invalid_tool_call = ProviderError (''PROVIDER_INVALID_TOOL_CALL: Incomplete tool identity or ''
     @ ''JSON arguments; no tools were dispatched.'')"

definition object_arguments :: "json_lib \<Rightarrow> str \<Rightarrow> bool" where
  "object_arguments L arguments =
     (case lib_parse L arguments of None \<Rightarrow> False | Some v \<Rightarrow> is_object v)"

fun validate_calls :: "json_lib \<Rightarrow> str set \<Rightarrow> pending_tool_call list \<Rightarrow> provider_error + unit" where
  "validate_calls L ids [] = Inr ()"
| "validate_calls L ids (c # cs) =
     (if \<not> ptc_observed c then validate_calls L ids cs
      else if trim (ptc_id c) = [] \<or> trim (ptc_name c) = [] \<or> ptc_id c \<in> ids
           \<or> \<not> object_arguments L (ptc_arguments c)
      then Inl invalid_tool_call
      else validate_calls L (insert (ptc_id c) ids) cs)"

definition validate_assembler :: "json_lib \<Rightarrow> tool_call_assembler \<Rightarrow> provider_error + unit" where
  "validate_assembler L a = validate_calls L {} (tca_calls a)"

definition extra_content_by_call_id :: "tool_call_assembler \<Rightarrow> json" where
  "extra_content_by_call_id a =
     JObject (fold (\<lambda>c m. if ptc_id c = [] then m
                          else case ptc_extra_content c of
                                 None \<Rightarrow> m | Some extra \<Rightarrow> json_insert (ptc_id c) extra m)
                (tca_calls a) [])"

definition finish_call :: "uuid_lib \<Rightarrow> json_lib \<Rightarrow> pending_tool_call \<Rightarrow> tool_call" where
  "finish_call U L c =
     (let provider_call_id = (if trim (ptc_id c) = [] then None else Some (ptc_id c));
          stable_key = unwrap_or (ptc_name c @ '':'' @ ptc_arguments c) provider_call_id
      in \<lparr>call_id = invocation_from_stable_key U stable_key, call_name = ptc_name c,
          call_arguments = unwrap_or (JString (ptc_arguments c)) (lib_parse L (ptc_arguments c)),
          call_provider_call_id = provider_call_id\<rparr>)"

definition finish_assembler :: "uuid_lib \<Rightarrow> json_lib \<Rightarrow> tool_call_assembler \<Rightarrow> tool_call list" where
  "finish_assembler U L a = map (finish_call U L) (tca_calls a)"

text \<open>\<open>finished_tool_calls\<close> of \<open>chat_completions.rs\<close>.\<close>

definition finished_tool_calls :: "uuid_lib \<Rightarrow> json_lib \<Rightarrow> tool_call_assembler \<Rightarrow> tool_call list" where
  "finished_tool_calls U L a = filter (\<lambda>call. trim (call_name call) \<noteq> []) (finish_assembler U L a)"

section \<open>The kind of a chunk\<close>

datatype stream_delta_kind =
  KindUsageOnly | KindReasoning | KindVisibleAnswer | KindToolCall | KindEmpty

text \<open>\<open>value.pointer("/choices/0/delta")\<close>.\<close>

definition first_choice_delta :: "json \<Rightarrow> json option" where
  "first_choice_delta v =
     Option.bind (get_array v ''choices'')
       (\<lambda>choices. case choices of [] \<Rightarrow> None | c # _ \<Rightarrow> json_get c ''delta'')"

definition classify_chat_completion_chunk :: "json \<Rightarrow> stream_delta_kind" where
  "classify_chat_completion_chunk v =
     (let delta = or_else (first_choice_delta v) (json_get v ''delta'');
          content = unwrap_or [] (Option.bind delta (\<lambda>d. get_str d ''content''));
          reasoning = unwrap_or [] (Option.bind (Option.bind delta (\<lambda>d.
            or_else (json_get d ''reasoning_content'') (json_get d ''reasoning''))) as_str)
      in if (case Option.bind delta (\<lambda>d. get_array d ''tool_calls'') of
               Some calls \<Rightarrow> calls \<noteq> [] | None \<Rightarrow> False) then KindToolCall
         else if trim reasoning \<noteq> [] \<and> trim content = [] then KindReasoning
         else if trim content \<noteq> [] then KindVisibleAnswer
         else if json_get v ''usage'' \<noteq> None then KindUsageOnly
         else KindEmpty)"

section \<open>What is assembled\<close>

text \<open>A delta as a provider streams it: the index, and pieces of identity, name and arguments.\<close>

record chat_piece =
  piece_index :: u64
  piece_id :: "str option"
  piece_name :: "str option"
  piece_arguments :: "str option"

definition string_field :: "str \<Rightarrow> str option \<Rightarrow> (str \<times> json) list" where
  "string_field k v = (case v of None \<Rightarrow> [] | Some s \<Rightarrow> [(k, JString s)])"

definition piece_json :: "chat_piece \<Rightarrow> json" where
  "piece_json p =
     json_obj ([(''index'', JNumber (PosInt (piece_index p)))] @ string_field ''id'' (piece_id p)
       @ [(''function'', json_obj (string_field ''name'' (piece_name p)
            @ string_field ''arguments'' (piece_arguments p)))])"

lemma piece_json_fields [simp]:
  "index_field (piece_json p) = Some (piece_index p)"
  "get_str (piece_json p) ''id'' = piece_id p"
  "json_get (piece_json p) ''extra_content'' = None"
  "get_str (piece_json p) ''name'' = None" "get_str (piece_json p) ''arguments'' = None"
  by (cases "piece_id p";
      simp add: index_field_def get_str_def piece_json_def string_field_def)+

lemma piece_json_function:
  "json_get (piece_json p) ''function'' =
     Some (json_obj (string_field ''name'' (piece_name p) @ string_field ''arguments'' (piece_arguments p)))"
  by (simp add: piece_json_def)

lemma piece_function_fields [simp]:
  "get_str (json_obj (string_field ''name'' n @ string_field ''arguments'' a)) ''name'' = n"
  "get_str (json_obj (string_field ''name'' n @ string_field ''arguments'' a)) ''arguments'' = a"
  by (cases n; cases a; simp add: get_str_def string_field_def)+

definition pieces_at :: "chat_piece list \<Rightarrow> nat \<Rightarrow> chat_piece list" where
  "pieces_at ps i = filter (\<lambda>p. unat (piece_index p) = i) ps"

definition joined :: "('a \<Rightarrow> str option) \<Rightarrow> 'a list \<Rightarrow> str" where
  "joined f ps = concat (map (\<lambda>p. unwrap_or [] (f p)) ps)"

definition assembled_call :: "chat_piece list \<Rightarrow> nat \<Rightarrow> pending_tool_call" where
  "assembled_call ps i =
     (let qs = pieces_at ps i in
      \<lparr>ptc_observed = (qs \<noteq> []), ptc_id = joined piece_id qs, ptc_name = joined piece_name qs,
       ptc_arguments = joined piece_arguments qs, ptc_extra_content = None\<rparr>)"

definition calls_needed :: "chat_piece list \<Rightarrow> nat" where
  "calls_needed ps = fold (\<lambda>p. max (Suc (unat (piece_index p)))) ps 0"

lemma put_text_append: "put_text False s old = old @ unwrap_or [] s"
  by (cases s) (simp_all add: put_text_def)

lemma apply_piece:
  "apply_to_call (piece_json p) False False c =
     c\<lparr>ptc_observed := True, ptc_id := ptc_id c @ unwrap_or [] (piece_id p),
       ptc_name := ptc_name c @ unwrap_or [] (piece_name p),
       ptc_arguments := ptc_arguments c @ unwrap_or [] (piece_arguments p)\<rparr>"
  by (simp add: apply_to_call_def apply_extra_def apply_function_def apply_flat_def
      piece_json_function put_text_append Let_def)

lemma assembled_call_snoc:
  "assembled_call (ps @ [p]) i =
     (if unat (piece_index p) = i then apply_to_call (piece_json p) False False (assembled_call ps i)
      else assembled_call ps i)"
  by (auto simp: assembled_call_def pieces_at_def joined_def apply_piece Let_def)

lemma assembled_call_beyond: "calls_needed ps \<le> i \<Longrightarrow> assembled_call ps i = pending_default"
proof -
  assume le: "calls_needed ps \<le> i"
  have "\<forall>p \<in> set ps. unat (piece_index p) < calls_needed ps"
    unfolding calls_needed_def
    by (induction ps rule: rev_induct) (auto simp: less_max_iff_disj max.strict_coboundedI2)
  with le have "pieces_at ps i = []" by (auto simp: pieces_at_def filter_empty_conv)
  then show ?thesis by (simp add: assembled_call_def pending_default_def joined_def)
qed

lemma assemble_pieces:
  "fold (\<lambda>p. apply_chat_delta (piece_json p) pos False) ps assembler_new =
     assembler_new\<lparr>tca_calls := map (assembled_call ps) [0..<calls_needed ps]\<rparr>"
proof (induction ps rule: rev_induct)
  case Nil
  then show ?case by (simp add: assembler_new_def calls_needed_def)
next
  case (snoc p ps)
  let ?i = "unat (piece_index p)" and ?n = "calls_needed ps"
  have n: "calls_needed (ps @ [p]) = max ?n (Suc ?i)" by (simp add: calls_needed_def)
  have grow: "grow_calls ?i (map (assembled_call ps) [0..<?n]) = map (assembled_call ps) [0..<max ?n (Suc ?i)]"
    by (rule nth_equalityI) (auto simp: grow_calls_def nth_append assembled_call_beyond)
  have "(map (assembled_call ps) [0..<max ?n (Suc ?i)])[?i := apply_to_call (piece_json p) False False
      (assembled_call ps ?i)] = map (assembled_call (ps @ [p])) [0..<max ?n (Suc ?i)]"
    by (rule nth_equalityI) (auto simp: nth_list_update assembled_call_snoc)
  with snoc n grow show ?case
    by (simp add: apply_chat_delta_def delta_index_def streamed_tool_call_index_def assembler_new_def
        Let_def less_max_iff_disj del: upt_Suc)
qed

text \<open>
  Interleaved deltas are put together. From any interleaving of streamed pieces a new
  assembler has one call for every index up to the greatest, and each holds the pieces of its
  index, in the order in which they came; an index without a piece is an unobserved placeholder.
\<close>

theorem tool_deltas_assemble_in_order:
  "tca_calls (fold (\<lambda>p. apply_chat_delta (piece_json p) pos False) ps assembler_new) =
     map (\<lambda>i. let qs = filter (\<lambda>p. unat (piece_index p) = i) ps in
            \<lparr>ptc_observed = (qs \<noteq> []),
             ptc_id = concat (map (\<lambda>p. unwrap_or [] (piece_id p)) qs),
             ptc_name = concat (map (\<lambda>p. unwrap_or [] (piece_name p)) qs),
             ptc_arguments = concat (map (\<lambda>p. unwrap_or [] (piece_arguments p)) qs),
             ptc_extra_content = None\<rparr>)
       [0..<fold (\<lambda>p. max (Suc (unat (piece_index p)))) ps 0]"
  by (simp add: assemble_pieces assembled_call_def pieces_at_def joined_def calls_needed_def [symmetric])

section \<open>What is dispatched\<close>

text \<open>The invariant of an assembler: a call that was not observed is a placeholder.\<close>

definition placeholders_ok :: "tool_call_assembler \<Rightarrow> bool" where
  "placeholders_ok a = (\<forall>c \<in> set (tca_calls a). \<not> ptc_observed c \<longrightarrow> c = pending_default)"

lemma apply_to_call_observed: "ptc_observed (apply_to_call delta snapshot metadata c)"
  by (simp add: apply_to_call_def apply_extra_def apply_function_def apply_flat_def Let_def
      split: option.split)

lemma placeholders_ok_step:
  assumes "placeholders_ok a"
  shows "placeholders_ok (apply_chat_delta delta pos snapshot a)"
proof -
  let ?i = "delta_index delta pos a"
  have "\<forall>c \<in> set (grow_calls ?i (tca_calls a)). \<not> ptc_observed c \<longrightarrow> c = pending_default"
    using assms by (auto simp: placeholders_ok_def grow_calls_def)
  then have "\<forall>c \<in> set ((grow_calls ?i (tca_calls a))[?i := x]). \<not> ptc_observed c \<longrightarrow> c = pending_default"
    if "ptc_observed x" for x
    using that set_update_subset_insert [of "grow_calls ?i (tca_calls a)" ?i x] by blast
  from this [OF apply_to_call_observed] show ?thesis
    by (simp add: placeholders_ok_def apply_chat_delta_def Let_def)
qed

text \<open>What a client may do to an assembler while a response streams in.\<close>

datatype assembler_call = ApplyDelta json nat bool | UseGemini | UseMetadata

fun assembler_do :: "assembler_call \<Rightarrow> tool_call_assembler \<Rightarrow> tool_call_assembler" where
  "assembler_do (ApplyDelta delta pos snapshot) a = apply_chat_delta delta pos snapshot a"
| "assembler_do UseGemini a = use_gemini_contract a"
| "assembler_do UseMetadata a = use_metadata_snapshots a"

lemma placeholders_ok_history: "placeholders_ok (fold assembler_do calls assembler_new)"
proof (induction calls rule: rev_induct)
  case Nil
  then show ?case by (simp add: placeholders_ok_def assembler_new_def)
next
  case (snoc c calls)
  then show ?case
    by (cases c) (simp_all add: placeholders_ok_step, simp_all add: placeholders_ok_def
        use_gemini_contract_def use_metadata_snapshots_def)
qed

definition dispatchable :: "tool_call \<Rightarrow> bool" where
  "dispatchable call =
     (trim (call_name call) \<noteq> [] \<and> is_object (call_arguments call)
      \<and> (case call_provider_call_id call of None \<Rightarrow> False | Some i \<Rightarrow> trim i \<noteq> []))"

lemma validate_calls_ok:
  assumes "validate_calls L ids cs = Inr ()"
  shows "(\<forall>c \<in> set (filter ptc_observed cs). dispatchable (finish_call U L c))
    \<and> distinct (map ptc_id (filter ptc_observed cs))
    \<and> ids \<inter> set (map ptc_id (filter ptc_observed cs)) = {}"
  using assms
proof (induction L ids cs rule: validate_calls.induct)
  case (2 L ids c cs)
  show ?case
  proof (cases "ptc_observed c")
    case True
    with "2.prems" have ok: "trim (ptc_id c) \<noteq> []" "trim (ptc_name c) \<noteq> []" "ptc_id c \<notin> ids"
      "object_arguments L (ptc_arguments c)" "validate_calls L (insert (ptc_id c) ids) cs = Inr ()"
      by (simp_all split: if_splits)
    then have "dispatchable (finish_call U L c)"
      by (cases "lib_parse L (ptc_arguments c)")
        (simp_all add: dispatchable_def finish_call_def object_arguments_def)
    moreover from True ok have "\<not> (trim (ptc_id c) = [] \<or> trim (ptc_name c) = [] \<or> ptc_id c \<in> ids
        \<or> \<not> object_arguments L (ptc_arguments c))" by simp
    from "2.IH"(2) [OF _ this ok(5)] True have
      "(\<forall>c \<in> set (filter ptc_observed cs). dispatchable (finish_call U L c))
       \<and> distinct (map ptc_id (filter ptc_observed cs))
       \<and> insert (ptc_id c) ids \<inter> set (map ptc_id (filter ptc_observed cs)) = {}" by simp
    ultimately show ?thesis using True ok(3) by simp
  next
    case False
    with "2.IH"(1) [OF False] "2.prems" show ?thesis by simp
  qed
qed simp

lemma finished_are_observed:
  assumes "placeholders_ok a" "validate_assembler L a = Inr ()"
  shows "finished_tool_calls U L a = map (finish_call U L) (filter ptc_observed (tca_calls a))"
proof -
  note v = validate_calls_ok [of L "{}" "tca_calls a" U, OF assms(2) [unfolded validate_assembler_def]]
  have "(trim (call_name (finish_call U L c)) \<noteq> []) = ptc_observed c" if "c \<in> set (tca_calls a)" for c
    using that v assms(1)
    by (cases "ptc_observed c")
      (auto simp: dispatchable_def placeholders_ok_def finish_call_def pending_default_def Let_def)
  then show ?thesis
    by (simp add: finished_tool_calls_def finish_assembler_def filter_map comp_def cong: filter_cong)
qed

lemma validated_placeholders:
  assumes "placeholders_ok a" "validate_assembler L a = Inr ()"
  shows "finished_tool_calls U L a = map (finish_call U L) (filter ptc_observed (tca_calls a))
    \<and> list_all dispatchable (finished_tool_calls U L a)
    \<and> distinct (map call_provider_call_id (finished_tool_calls U L a))"
proof -
  have f: "finished_tool_calls U L a = map (finish_call U L) (filter ptc_observed (tca_calls a))"
    by (rule finished_are_observed [OF assms])
  note v = validate_calls_ok [of L "{}" "tca_calls a" U, OF assms(2) [unfolded validate_assembler_def]]
  then have all: "list_all dispatchable (map (finish_call U L) (filter ptc_observed (tca_calls a)))"
    by (simp add: list_all_iff)
  have "map call_provider_call_id (map (finish_call U L) (filter ptc_observed (tca_calls a)))
      = map Some (map ptc_id (filter ptc_observed (tca_calls a)))"
    using all by (auto simp: list_all_iff dispatchable_def finish_call_def Let_def split: if_splits)
  moreover have "distinct (map Some (map ptc_id (filter ptc_observed (tca_calls a))))"
    using v distinct_map [of Some "map ptc_id (filter ptc_observed (tca_calls a))"] by simp
  ultimately have "distinct (map call_provider_call_id (finished_tool_calls U L a))"
    unfolding f by (simp only:)
  with f all show ?thesis by simp
qed

text \<open>
  C37. Only complete tool calls are dispatched. Whatever JSON a provider streamed, if the
  assembler validates, the finished calls are exactly the observed ones in the order of their
  indices, and each has a name, a provider identifier of its own that no other call has, and
  an object of arguments.
\<close>

theorem validated_calls_are_dispatchable:
  assumes "a = fold assembler_do history assembler_new" "validate_assembler L a = Inr ()"
  shows "finished_tool_calls U L a = map (finish_call U L) (filter ptc_observed (tca_calls a))
    \<and> list_all dispatchable (finished_tool_calls U L a)
    \<and> distinct (map call_provider_call_id (finished_tool_calls U L a))"
  unfolding assms(1)
  by (rule validated_placeholders [OF placeholders_ok_history assms(2) [unfolded assms(1)]])

definition sample_json_lib :: json_lib where
  "sample_json_lib = \<lparr>lib_parse = (\<lambda>s. if s = ''{}'' then Some (JObject []) else None),
     lib_print = (\<lambda>_. ''{}''), lib_validator = (\<lambda>_. Some (\<lambda>_. []))\<rparr>"

definition sample_piece :: chat_piece where
  "sample_piece = \<lparr>piece_index = 1, piece_id = Some ''a'', piece_name = Some ''read'',
     piece_arguments = Some ''{}''\<rparr>"

lemma trim_plain:
  "trim ''a'' = ''a''" "trim ''read'' = ''read''"
  by (simp_all add: trim_graphic graphic_def)

theorem validated_calls_are_dispatchable_witness:
  "let a = fold assembler_do [ApplyDelta (piece_json sample_piece) 0 False] assembler_new
   in map call_name (finished_tool_calls sample_uuid_lib sample_json_lib a) = [''read'']
      \<and> list_all dispatchable (finished_tool_calls sample_uuid_lib sample_json_lib a)"
proof -
  let ?a = "fold assembler_do [ApplyDelta (piece_json sample_piece) 0 False] assembler_new"
  have calls: "tca_calls ?a = [pending_default, \<lparr>ptc_observed = True, ptc_id = ''a'', ptc_name = ''read'',
      ptc_arguments = ''{}'', ptc_extra_content = None\<rparr>]"
    by (simp add: apply_chat_delta_def delta_index_def streamed_tool_call_index_def assembler_new_def
        grow_calls_def apply_piece sample_piece_def pending_default_def Let_def numeral_2_eq_2)
  have "validate_assembler sample_json_lib ?a = Inr ()"
    unfolding validate_assembler_def calls
    by (simp add: pending_default_def object_arguments_def sample_json_lib_def is_object_def trim_plain)
  note d = validated_calls_are_dispatchable [OF refl this, of sample_uuid_lib]
  then have "map call_name (finished_tool_calls sample_uuid_lib sample_json_lib ?a) = [''read'']"
    unfolding calls by (simp add: pending_default_def finish_call_def del: fold.simps)
  with d show ?thesis unfolding Let_def by blast
qed

end
