(* ===== verification/Reliability.thy ===== *)
theory Reliability
  imports Tool_Deltas
begin

text \<open>
  Which turns and which errors of a provider are good enough
  (\<open>openai_compatible/reliability.rs\<close>).
\<close>

section \<open>The sink of an attempt\<close>

text \<open>An attempt remembers whether anything was shown; events go on to the inner sink.\<close>

record attempt_sink =
  att_visible :: bool

definition attempt_sink_new :: attempt_sink where
  "attempt_sink_new = \<lparr>att_visible = False\<rparr>"

fun attempt_on_event :: "sink_event \<Rightarrow> attempt_sink \<Rightarrow> attempt_sink" where
  "attempt_on_event (SinkText delta) s = (if delta \<noteq> [] then s\<lparr>att_visible := True\<rparr> else s)"
| "attempt_on_event (SinkReasoning delta) s = (if delta \<noteq> [] then s\<lparr>att_visible := True\<rparr> else s)"
| "attempt_on_event (SinkUsage usage) s = s"

definition has_visible_output :: "sink_event list \<Rightarrow> bool" where
  "has_visible_output events = att_visible (fold attempt_on_event events attempt_sink_new)"

definition shows_text :: "sink_event \<Rightarrow> bool" where
  "shows_text e = (case e of SinkText d \<Rightarrow> d \<noteq> [] | SinkReasoning d \<Rightarrow> d \<noteq> [] | SinkUsage u \<Rightarrow> False)"

lemma has_visible_output_iff: "has_visible_output events = list_ex shows_text events"
proof -
  have "att_visible (fold attempt_on_event events s) = (att_visible s \<or> list_ex shows_text events)" for s
  proof (induction events arbitrary: s)
    case (Cons e events)
    then show ?case by (cases e) (simp_all add: shows_text_def)
  qed simp
  then show ?thesis by (simp add: has_visible_output_def attempt_sink_new_def)
qed

section \<open>Errors and turns\<close>

definition retryable_codes :: "str list" where
  "retryable_codes =
     [''PROVIDER_STREAM_CLOSED:'', ''PROVIDER_INVALID_TOOL_CALL:'', ''PROVIDER_EMPTY_RESPONSE:'',
      ''PROVIDER_MALFORMED_RESPONSE:'', ''PROVIDER_RESOURCE_UNAVAILABLE:'',
      ''PROVIDER_TRANSIENT_HTTP:'', ''PROVIDER_TRANSIENT_TRANSPORT:'']"

definition retryable_error :: "provider_error \<Rightarrow> bool" where
  "retryable_error e = list_ex (\<lambda>code. starts_with (provider_error_message e) code) retryable_codes"

definition has_artifact :: "model_turn \<Rightarrow> bool" where
  "has_artifact turn =
     (case get_array (turn_opaque turn) ''generated_images'' of
        Some images \<Rightarrow> images \<noteq> [] | None \<Rightarrow> False)"

text \<open>The closure of \<open>any\<close> over the calls, with the set of identifiers it has inserted.\<close>

fun incomplete_calls :: "str set \<Rightarrow> tool_call list \<Rightarrow> bool" where
  "incomplete_calls ids [] = False"
| "incomplete_calls ids (call # calls) =
     (if trim (call_name call) = [] \<or> \<not> is_object (call_arguments call) then True
      else case call_provider_call_id call of
             None \<Rightarrow> True
           | Some i \<Rightarrow> if trim i = [] \<or> i \<in> ids then True else incomplete_calls (insert i ids) calls)"

definition empty_response :: provider_error where
  "empty_response =
     ProviderError ''PROVIDER_EMPTY_RESPONSE: Provider returned no answer or executable tool calls.''"

definition no_tool_call :: provider_error where
  "no_tool_call =
     ProviderError ''PROVIDER_INVALID_TOOL_CALL: Provider ended in tool mode without a tool call.''"

definition incomplete_tool_call :: provider_error where
  "incomplete_tool_call =
     ProviderError (''PROVIDER_INVALID_TOOL_CALL: Tool identity or JSON arguments are incomplete; ''
       @ ''no tools were dispatched.'')"

definition validate_turn :: "model_turn \<Rightarrow> provider_error + unit" where
  "validate_turn turn =
     (if turn_tool_calls turn = [] \<and> trim (turn_text turn) = [] \<and> \<not> has_artifact turn
         \<and> continuation_reason_of (turn_terminal turn) = None
      then Inl empty_response
      else if turn_terminal turn = TermToolCalls \<and> turn_tool_calls turn = [] then Inl no_tool_call
      else if incomplete_calls {} (turn_tool_calls turn) then Inl incomplete_tool_call
      else Inr ())"

lemma incomplete_calls_iff:
  "incomplete_calls ids calls \<longleftrightarrow>
     \<not> (list_all dispatchable calls
        \<and> distinct (map call_provider_call_id calls)
        \<and> Some ` ids \<inter> set (map call_provider_call_id calls) = {})"
proof (induction ids calls rule: incomplete_calls.induct)
  case (2 ids call calls)
  then show ?case by (cases "call_provider_call_id call") (auto simp: dispatchable_def)
qed simp

lemma validated_turn_calls:
  "validate_turn turn = Inr () \<Longrightarrow>
     list_all dispatchable (turn_tool_calls turn) \<and> distinct (map call_provider_call_id (turn_tool_calls turn))"
  using incomplete_calls_iff [of "{}" "turn_tool_calls turn"]
  by (auto simp: validate_turn_def split: if_splits)

text \<open>
  A turn that validates can be carried out. It shows an answer, an artifact or a tool call or
  asks to be continued; it is not in tool mode without a call; and its calls have names, objects
  of arguments and identifiers of their own. Every other turn is refused with an error that
  allows another attempt.
\<close>

theorem validate_turn_decides:
  "(case validate_turn turn of Inl e \<Rightarrow> retryable_error e | Inr _ \<Rightarrow> True)
   \<and> (validate_turn turn = Inr ()) =
       ((turn_tool_calls turn \<noteq> [] \<or> trim (turn_text turn) \<noteq> [] \<or> has_artifact turn
          \<or> continuation_reason_of (turn_terminal turn) \<noteq> None)
         \<and> \<not> (turn_terminal turn = TermToolCalls \<and> turn_tool_calls turn = [])
         \<and> list_all dispatchable (turn_tool_calls turn)
         \<and> distinct (map call_provider_call_id (turn_tool_calls turn)))"
  using incomplete_calls_iff [of "{}" "turn_tool_calls turn"]
  by (auto simp: validate_turn_def retryable_error_def retryable_codes_def empty_response_def
      no_tool_call_def incomplete_tool_call_def)

end
