(* ===== verification/Utf8.thy ===== *)
theory Utf8
  imports Prelude
begin

text \<open>
  Decoding of UTF-8 that arrives in chunks (\<open>common/utf8.rs\<close> of \<open>aifluxon-providers\<close>).
  \<open>from_utf8\<close> is \<open>std::str::from_utf8\<close> with its documented errors: how far the text is valid, and
  the length of the invalid sequence there, or none where the text ends too early.
\<close>

lemma apfst_append [simp]:
  "apfst (append xs) (apfst (append ys) p) = apfst (append (xs @ ys)) p"
  "apfst (append []) p = p" "apfst (\<lambda>a. xs @ ys @ a) p = apfst (append (xs @ ys)) p"
  "apfst (\<lambda>a. a) p = p"
  by (cases p; simp)+

section \<open>The standard library's validation\<close>

text \<open>What is at the front of a text: a character, an invalid sequence, a truncated character.\<close>

datatype utf8_lead = HeadEnd | HeadValid nat | HeadBad nat | HeadIncomplete

definition byte_of :: "char \<Rightarrow> nat" where
  "byte_of c = of_char c"

definition second_of_three :: "nat \<Rightarrow> char \<Rightarrow> bool" where
  "second_of_three n c =
     (if n = 0xE0 then 0xA0 \<le> byte_of c \<and> byte_of c \<le> 0xBF
      else if n = 0xED then 0x80 \<le> byte_of c \<and> byte_of c \<le> 0x9F
      else is_continuation_byte c)"

definition second_of_four :: "nat \<Rightarrow> char \<Rightarrow> bool" where
  "second_of_four n c =
     (if n = 0xF0 then 0x90 \<le> byte_of c \<and> byte_of c \<le> 0xBF
      else if n = 0xF4 then 0x80 \<le> byte_of c \<and> byte_of c \<le> 0x8F
      else is_continuation_byte c)"

fun utf8_head :: "str \<Rightarrow> utf8_lead" where
  "utf8_head [] = HeadEnd"
| "utf8_head (b # bs) =
     (if byte_of b < 0x80 then HeadValid 1
      else if 0xC2 \<le> byte_of b \<and> byte_of b \<le> 0xDF
      then (case bs of [] \<Rightarrow> HeadIncomplete
            | c # _ \<Rightarrow> if is_continuation_byte c then HeadValid 2 else HeadBad 1)
      else if 0xE0 \<le> byte_of b \<and> byte_of b \<le> 0xEF
      then (case bs of [] \<Rightarrow> HeadIncomplete
            | c # cs \<Rightarrow>
                if \<not> second_of_three (byte_of b) c then HeadBad 1
                else (case cs of [] \<Rightarrow> HeadIncomplete
                      | d # _ \<Rightarrow> if is_continuation_byte d then HeadValid 3 else HeadBad 2))
      else if 0xF0 \<le> byte_of b \<and> byte_of b \<le> 0xF4
      then (case bs of [] \<Rightarrow> HeadIncomplete
            | c # cs \<Rightarrow>
                if \<not> second_of_four (byte_of b) c then HeadBad 1
                else (case cs of [] \<Rightarrow> HeadIncomplete
                      | d # ds \<Rightarrow>
                          if \<not> is_continuation_byte d then HeadBad 2
                          else (case ds of [] \<Rightarrow> HeadIncomplete
                                | e # _ \<Rightarrow> if is_continuation_byte e then HeadValid 4 else HeadBad 3)))
      else HeadBad 1)"

lemma utf8_head_bounds:
  "utf8_head s = HeadValid k \<Longrightarrow> 0 < k \<and> k \<le> length s"
  "utf8_head s = HeadBad k \<Longrightarrow> 0 < k \<and> k \<le> length s"
  by (cases s rule: utf8_head.cases; simp split: if_splits list.splits)+

lemma utf8_head_append:
  assumes "utf8_head s \<noteq> HeadEnd" "utf8_head s \<noteq> HeadIncomplete"
  shows "utf8_head (s @ t) = utf8_head s"
proof -
  consider "s = []" | b where "s = [b]" | b c where "s = [b, c]" | b c d where "s = [b, c, d]"
    | b c d e r where "s = b # c # d # e # r"
    by (metis neq_Nil_conv)
  then show ?thesis using assms by cases (auto split: if_splits)
qed

function scan_utf8 :: "nat \<Rightarrow> str \<Rightarrow> (nat \<times> nat option) option" where
  "scan_utf8 n s =
     (case utf8_head s of
        HeadEnd \<Rightarrow> None
      | HeadValid k \<Rightarrow> scan_utf8 (n + k) (drop k s)
      | HeadBad k \<Rightarrow> Some (n, Some k)
      | HeadIncomplete \<Rightarrow> Some (n, None))"
  by pat_completeness auto
termination by (relation "measure (length o snd)") (auto dest: utf8_head_bounds)

declare scan_utf8.simps [simp del]

definition from_utf8 :: "str \<Rightarrow> (nat \<times> nat option) option" where
  "from_utf8 s = scan_utf8 0 s"

definition replacement :: str where
  "replacement = bytes [0xEF, 0xBF, 0xBD]"

text \<open>One pass over a text: what is decoded, and the truncated character at its end.\<close>

function utf8_decode :: "str \<Rightarrow> str \<times> str" where
  "utf8_decode s =
     (case utf8_head s of
        HeadEnd \<Rightarrow> ([], [])
      | HeadValid k \<Rightarrow> apfst (append (take k s)) (utf8_decode (drop k s))
      | HeadBad k \<Rightarrow> apfst (append replacement) (utf8_decode (drop k s))
      | HeadIncomplete \<Rightarrow> ([], s))"
  by pat_completeness auto
termination by (relation "measure length") (auto dest: utf8_head_bounds)

declare utf8_decode.simps [simp del]

text \<open>\<open>String::from_utf8_lossy\<close>: a truncated character at the end is replaced as well.\<close>

definition from_utf8_lossy :: "str \<Rightarrow> str" where
  "from_utf8_lossy s =
     (case utf8_decode s of (decoded, rest) \<Rightarrow> if rest = [] then decoded else decoded @ replacement)"

definition is_char_boundary :: "str \<Rightarrow> nat \<Rightarrow> bool" where
  "is_char_boundary s i =
     (i = 0 \<or> i = length s \<or> i < length s \<and> \<not> is_continuation_byte (s ! i))"

section \<open>The decoder\<close>

lemma scan_utf8_shift:
  "scan_utf8 (m + n) s = map_option (apfst ((+) m)) (scan_utf8 n s)"
proof (induction n s rule: scan_utf8.induct)
  case (1 n s)
  then show ?case
    by (cases "utf8_head s") (simp_all add: scan_utf8.simps [of _ s] add.assoc)
qed

lemma from_utf8_rec:
  "from_utf8 s =
     (case utf8_head s of
        HeadEnd \<Rightarrow> None
      | HeadValid k \<Rightarrow> map_option (apfst ((+) k)) (from_utf8 (drop k s))
      | HeadBad k \<Rightarrow> Some (0, Some k)
      | HeadIncomplete \<Rightarrow> Some (0, None))"
proof (cases "utf8_head s")
  case (HeadValid k)
  with scan_utf8_shift [of k 0 "drop k s"] show ?thesis
    by (simp add: from_utf8_def scan_utf8.simps [of 0 s])
qed (simp_all add: from_utf8_def scan_utf8.simps [of 0 s])

lemma from_utf8_bounds:
  "from_utf8 s = Some (v, Some k) \<Longrightarrow> 0 < k \<and> v + k \<le> length s"
proof (induction "length s" arbitrary: s v rule: less_induct)
  case less
  show ?case
  proof (cases "utf8_head s")
    case (HeadValid n)
    with less.prems obtain v' where "from_utf8 (drop n s) = Some (v', Some k)" "v = n + v'"
      by (auto simp: from_utf8_rec [of s])
    moreover from HeadValid have "0 < n" "n \<le> length s" using utf8_head_bounds(1) by blast+
    then have "length (drop n s) < length s" by simp
    from less.hyps [OF this] calculation have "0 < k \<and> v' + k \<le> length (drop n s)" by blast
    with \<open>n \<le> length s\<close> \<open>v = n + v'\<close> show ?thesis by (simp add: le_diff_conv2)
  qed (use less.prems utf8_head_bounds(2) [of s] in \<open>auto simp: from_utf8_rec [of s]\<close>)
qed

record utf8_decoder =
  dec_pending :: str

definition decoder_new :: utf8_decoder where
  "decoder_new = \<lparr>dec_pending = []\<rparr>"

text \<open>The loop of \<open>push\<close>: the text decoded so far and the pending bytes.\<close>

function push_loop :: "str \<Rightarrow> str \<Rightarrow> str \<times> str" where
  "push_loop decoded pending =
     (case from_utf8 pending of
        None \<Rightarrow> (decoded @ pending, [])
      | Some (valid_up_to, None) \<Rightarrow> (decoded @ take valid_up_to pending, drop valid_up_to pending)
      | Some (valid_up_to, Some error_len) \<Rightarrow>
          push_loop (decoded @ take valid_up_to pending @ replacement)
            (drop error_len (drop valid_up_to pending)))"
  by pat_completeness auto
termination by (relation "measure (length o snd)") (auto dest: from_utf8_bounds)

declare push_loop.simps [simp del]

definition decoder_push :: "str \<Rightarrow> utf8_decoder \<Rightarrow> str \<times> utf8_decoder" where
  "decoder_push chunk d =
     (case push_loop [] (dec_pending d @ chunk) of (decoded, rest) \<Rightarrow> (decoded, \<lparr>dec_pending = rest\<rparr>))"

definition decoder_finish :: "utf8_decoder \<Rightarrow> str \<times> utf8_decoder" where
  "decoder_finish d =
     (case decoder_push [] d of (decoded, d') \<Rightarrow>
        if dec_pending d' = [] then (decoded, d')
        else (decoded @ from_utf8_lossy (dec_pending d'), decoder_new))"

section \<open>Chunks do not matter\<close>

lemma utf8_decode_by_validation:
  "utf8_decode s =
     (case from_utf8 s of
        None \<Rightarrow> (s, [])
      | Some (v, None) \<Rightarrow> (take v s, drop v s)
      | Some (v, Some k) \<Rightarrow> apfst (append (take v s @ replacement)) (utf8_decode (drop (v + k) s)))"
proof (induction s rule: utf8_decode.induct)
  case (1 s)
  show ?case
  proof (cases "utf8_head s")
    case HeadEnd
    then have "s = []" by (cases s rule: utf8_head.cases) (simp_all split: if_splits list.splits)
    with HeadEnd show ?thesis by (simp add: utf8_decode.simps from_utf8_rec)
  next
    case (HeadValid n)
    have t: "take n s @ take a (drop n s) = take (n + a) s"
      "take n s @ take a (drop n s) @ x = take (n + a) s @ x" for a x by (simp_all add: take_add)
    from "1.IH"(1) [OF HeadValid] show ?thesis
      by (subst utf8_decode.simps, subst from_utf8_rec)
        (auto simp: HeadValid t add_ac split: option.split)
  qed (simp_all add: utf8_decode.simps [of s] from_utf8_rec [of s])
qed

lemma push_loop_decodes:
  "push_loop decoded pending = apfst (append decoded) (utf8_decode pending)"
proof (induction decoded pending rule: push_loop.induct)
  case (1 decoded pending)
  show ?case
  proof (cases "from_utf8 pending")
    case (Some p)
    then show ?thesis
    proof (cases p)
      case (Pair v k)
      with Some 1 show ?thesis
        by (cases k; cases "utf8_decode (drop (v + the k) pending)")
          (auto simp: push_loop.simps [of decoded pending]
            utf8_decode_by_validation [of pending] add.commute)
    qed
  qed (simp add: push_loop.simps utf8_decode_by_validation [of pending])
qed

lemma utf8_decode_append:
  "utf8_decode (s @ t) = apfst (append (fst (utf8_decode s))) (utf8_decode (snd (utf8_decode s) @ t))"
proof (induction s rule: utf8_decode.induct)
  case (1 s)
  show ?case
  proof (cases "utf8_head s")
    case HeadEnd
    then have "s = []" by (cases s rule: utf8_head.cases) (simp_all split: if_splits list.splits)
    then show ?thesis by (cases "utf8_decode t") (simp add: utf8_decode.simps [of "[]"])
  next
    case (HeadValid n)
    from "1.IH"(1) [OF HeadValid] utf8_head_append [of s t] HeadValid
      utf8_head_bounds(1) [OF HeadValid]
    show ?thesis by (simp add: utf8_decode.simps [of "s @ t"] utf8_decode.simps [of s])
  next
    case (HeadBad n)
    from "1.IH"(2) [OF HeadBad] utf8_head_append [of s t] HeadBad
      utf8_head_bounds(2) [OF HeadBad]
    show ?thesis by (simp add: utf8_decode.simps [of "s @ t"] utf8_decode.simps [of s])
  next
    case HeadIncomplete
    then show ?thesis by (simp add: utf8_decode.simps [of s])
  qed
qed

text \<open>The invariant of a decoder: its pending bytes are a truncated character, or none.\<close>

definition decoder_ok :: "utf8_decoder \<Rightarrow> bool" where
  "decoder_ok d = (utf8_decode (dec_pending d) = ([], dec_pending d))"

lemma utf8_decode_rest: "utf8_decode (snd (utf8_decode s)) = ([], snd (utf8_decode s))"
proof (induction s rule: utf8_decode.induct)
  case (1 s)
  then show ?case
    by (cases "utf8_head s") (simp_all add: utf8_decode.simps [of s] utf8_decode.simps [of "[]"])
qed

lemma decoder_push_decodes:
  "decoder_push chunk d =
     (fst (utf8_decode (dec_pending d @ chunk)), \<lparr>dec_pending = snd (utf8_decode (dec_pending d @ chunk))\<rparr>)"
  by (cases "utf8_decode (dec_pending d @ chunk)") (simp add: decoder_push_def push_loop_decodes)

lemma decoder_push_ok: "decoder_ok (snd (decoder_push chunk d))"
  by (simp add: decoder_push_decodes decoder_ok_def utf8_decode_rest)

fun push_all :: "str list \<Rightarrow> utf8_decoder \<Rightarrow> str \<times> utf8_decoder" where
  "push_all [] d = ([], d)"
| "push_all (c # cs) d =
     (case decoder_push c d of (decoded, d') \<Rightarrow> apfst (append decoded) (push_all cs d'))"

lemma push_all_decodes:
  "decoder_ok d \<Longrightarrow> push_all cs d =
     (fst (utf8_decode (dec_pending d @ concat cs)),
      \<lparr>dec_pending = snd (utf8_decode (dec_pending d @ concat cs))\<rparr>)"
proof (induction cs arbitrary: d)
  case Nil
  then show ?case by (cases d) (simp add: decoder_ok_def)
next
  case (Cons c cs)
  from Cons.IH [OF decoder_push_ok, of c d]
    utf8_decode_append [of "dec_pending d @ c" "concat cs"]
  show ?case by (simp add: decoder_push_decodes)
qed

lemma decoder_finish_lossy:
  "decoder_ok d \<Longrightarrow> fst (decoder_finish d) = (if dec_pending d = [] then [] else replacement)"
  by (auto simp: decoder_finish_def decoder_push_decodes decoder_ok_def from_utf8_lossy_def)

lemma from_utf8_lossy_valid: "from_utf8 s = None \<Longrightarrow> from_utf8_lossy s = s"
  by (simp add: from_utf8_lossy_def utf8_decode_by_validation)

text \<open>
  How a body is cut into chunks does not matter. The text that comes out of a new decoder
  over any chunks, and its end, is the lossy decoding of all the bytes at once; where the bytes
  are valid UTF-8 it is those bytes, whatever characters the cuts went through.
\<close>

theorem utf8_chunking_is_irrelevant:
  "(case push_all chunks decoder_new of (decoded, d) \<Rightarrow> decoded @ fst (decoder_finish d))
     = (if from_utf8 (concat chunks) = None then concat chunks else from_utf8_lossy (concat chunks))"
proof -
  have ok: "decoder_ok decoder_new"
    by (simp add: decoder_ok_def decoder_new_def utf8_decode.simps)
  let ?u = "utf8_decode (concat chunks)"
  have "decoder_ok \<lparr>dec_pending = snd ?u\<rparr>" by (simp add: decoder_ok_def utf8_decode_rest)
  note finish = decoder_finish_lossy [OF this]
  have "push_all chunks decoder_new = (fst ?u, \<lparr>dec_pending = snd ?u\<rparr>)"
    using push_all_decodes [OF ok, of chunks] by (simp add: decoder_new_def)
  with finish
  have "(case push_all chunks decoder_new of (decoded, d) \<Rightarrow> decoded @ fst (decoder_finish d))
      = from_utf8_lossy (concat chunks)"
    by (cases ?u) (simp add: from_utf8_lossy_def)
  then show ?thesis by (simp add: from_utf8_lossy_valid)
qed

end
