(* ===== verification/Text_Delta.thy ===== *)
theory Text_Delta
  imports Utf8
begin

text \<open>
  Reconciling streamed text (\<open>common/delta.rs\<close>): providers send increments, or the text so far
  again and again, and at the end a complete snapshot. The reconciler turns all of them into
  increments for the sink.
\<close>

section \<open>Suffixes\<close>

definition nonempty :: "str \<Rightarrow> str option" where
  "nonempty s = (if s = [] then None else Some s)"

definition overlaps :: "str \<Rightarrow> str \<Rightarrow> nat \<Rightarrow> bool" where
  "overlaps current complete n =
     (is_char_boundary current (length current - n) \<and> is_char_boundary complete n
      \<and> drop (length current - n) current = take n complete)"

definition missing_complete_text_suffix :: "str \<Rightarrow> str \<Rightarrow> str option" where
  "missing_complete_text_suffix current complete =
     (if complete = [] \<or> current = complete \<or> ends_with current complete then None
      else case strip_prefix current complete of
          Some rest \<Rightarrow> nonempty rest
        | None \<Rightarrow>
            let overlap = unwrap_or 0 (find (overlaps current complete)
                  (rev [1..<Suc (min (length current) (length complete))]))
            in nonempty (drop overlap complete))"

definition diverged :: str where
  "diverged = ''Responses stream text diverged from its completed snapshot.''"

definition strict_complete_text_suffix :: "str \<Rightarrow> str \<Rightarrow> str + str option" where
  "strict_complete_text_suffix current complete =
     (if complete = [] \<or> current = complete then Inr None
      else case strip_prefix current complete of
          Some rest \<Rightarrow> Inr (nonempty rest)
        | None \<Rightarrow> Inl diverged)"

definition reconcile_terminal_text :: "str \<Rightarrow> str \<Rightarrow> bool \<Rightarrow> str + str option" where
  "reconcile_terminal_text current complete saw_output_done =
     (if saw_output_done \<and> current \<noteq> complete
      then Inl ''Responses done output diverged from its completed terminal snapshot.''
      else strict_complete_text_suffix current complete)"

section \<open>The reconciler\<close>

datatype delta_mode = Incremental | CumulativeCompatible

record text_reconciler =
  rec_emitted :: str
  rec_cumulative :: bool

definition reconciler_new :: text_reconciler where
  "reconciler_new = \<lparr>rec_emitted = [], rec_cumulative = False\<rparr>"

definition push_compatible :: "str \<Rightarrow> bool \<Rightarrow> bool \<Rightarrow> text_reconciler \<Rightarrow> str option \<times> text_reconciler"
  where
  "push_compatible incoming explicit_snapshot allow_cumulative_detection s =
     (if incoming = [] then (None, s)
      else
        let looks_cumulative = allow_cumulative_detection \<and> rec_emitted s \<noteq> []
              \<and> starts_with incoming (rec_emitted s)
        in if explicit_snapshot \<or> rec_cumulative s \<or> looks_cumulative
           then let s' = s\<lparr>rec_cumulative := True\<rparr> in
             (case missing_complete_text_suffix (rec_emitted s) incoming of
                None \<Rightarrow> (None, s')
              | Some rest \<Rightarrow> (Some rest, s'\<lparr>rec_emitted := rec_emitted s @ rest\<rparr>))
           else (Some incoming, s\<lparr>rec_emitted := rec_emitted s @ incoming\<rparr>))"

fun push_delta :: "str \<Rightarrow> delta_mode \<Rightarrow> text_reconciler \<Rightarrow> str option \<times> text_reconciler" where
  "push_delta v Incremental s = push_compatible v False False s"
| "push_delta v CumulativeCompatible s = push_compatible v False True s"

definition complete_text :: "str \<Rightarrow> text_reconciler \<Rightarrow> (str + str option) \<times> text_reconciler" where
  "complete_text complete s =
     (case strict_complete_text_suffix (rec_emitted s) complete of
        Inl e \<Rightarrow> (Inl e, s)
      | Inr None \<Rightarrow> (Inr None, s)
      | Inr (Some rest) \<Rightarrow>
          (Inr (Some rest), \<lparr>rec_emitted = rec_emitted s @ rest, rec_cumulative = True\<rparr>))"

section \<open>The missing suffix is the shortest\<close>

definition valid_utf8 :: "str \<Rightarrow> bool" where
  "valid_utf8 s = (from_utf8 s = None)"

lemma valid_utf8_rec:
  "valid_utf8 s \<longleftrightarrow> s = [] \<or> (\<exists>k. utf8_head s = HeadValid k \<and> valid_utf8 (drop k s))"
proof -
  have "utf8_head s = HeadEnd \<longleftrightarrow> s = []"
    by (cases s rule: utf8_head.cases) (simp_all split: list.split)
  then show ?thesis
    by (cases "utf8_head s") (auto simp: valid_utf8_def from_utf8_rec [of s] from_utf8_rec [of "[]"])
qed

lemma utf8_head_bytes:
  assumes "utf8_head s = HeadValid k"
  shows "\<not> is_continuation_byte (s ! 0)" "0 < i \<Longrightarrow> i < k \<Longrightarrow> is_continuation_byte (s ! i)"
proof -
  have two: "second_of_three n c \<Longrightarrow> is_continuation_byte c" "second_of_four n c \<Longrightarrow> is_continuation_byte c"
    for n c by (auto simp: second_of_three_def second_of_four_def is_continuation_byte_def byte_of_def
        split: if_splits)
  have lead: "\<not> is_continuation_byte (s ! 0)"
    using assms by (cases s rule: utf8_head.cases)
      (auto simp: is_continuation_byte_def byte_of_def split: if_splits list.splits)
  consider "s = []" | b where "s = [b]" | b c where "s = [b, c]" | b c d where "s = [b, c, d]"
    | b c d e r where "s = b # c # d # e # r"
    by (metis neq_Nil_conv)
  then have "\<forall>i \<in> {1, 2, 3}. i < k \<longrightarrow> is_continuation_byte (s ! i)"
    using assms two by cases (auto split: if_splits)
  moreover have "i \<in> {1, 2, 3}" if "0 < i" "i < k" for i
    using that assms by (cases s rule: utf8_head.cases) (auto split: if_splits list.splits)
  ultimately have "\<not> is_continuation_byte (s ! 0) \<and> (\<forall>i. 0 < i \<and> i < k \<longrightarrow> is_continuation_byte (s ! i))"
    using lead by blast
  then show "\<not> is_continuation_byte (s ! 0)" "0 < i \<Longrightarrow> i < k \<Longrightarrow> is_continuation_byte (s ! i)" by blast+
qed

lemma valid_utf8_suffix:
  "valid_utf8 s \<Longrightarrow> is_char_boundary s i \<Longrightarrow> valid_utf8 (drop i s)"
proof (induction s arbitrary: i rule: utf8_decode.induct)
  case (1 s)
  show ?case
  proof (cases "i = 0 \<or> length s \<le> i")
    case True
    with "1.prems"(1) show ?thesis
      by (cases "i = 0") (simp_all add: valid_utf8_def from_utf8_rec [of "[]"])
  next
    case False
    then obtain k where k: "utf8_head s = HeadValid k" "valid_utf8 (drop k s)"
      using "1.prems"(1) by (auto simp: valid_utf8_rec [of s])
    note b = utf8_head_bounds(1) [OF k(1)]
    have "k \<le> i"
      using "1.prems"(2) False utf8_head_bytes(2) [OF k(1), of i]
      by (cases "i < k") (auto simp: is_char_boundary_def)
    moreover from this False "1.prems"(2) have "is_char_boundary (drop k s) (i - k)"
      by (auto simp: is_char_boundary_def)
    ultimately show ?thesis using "1.IH"(1) [OF k(1,2), of "i - k"] by simp
  qed
qed

lemma valid_utf8_decode: "valid_utf8 s \<Longrightarrow> utf8_decode s = (s, [])"
  by (simp add: valid_utf8_def utf8_decode_by_validation)

lemma valid_utf8_append: "valid_utf8 s \<Longrightarrow> valid_utf8 (s @ t) = valid_utf8 t"
proof (induction s rule: utf8_decode.induct)
  case (1 s)
  show ?case
  proof (cases "s = []")
    case False
    with "1.prems" obtain k where k: "utf8_head s = HeadValid k" "valid_utf8 (drop k s)"
      by (auto simp: valid_utf8_rec [of s])
    from utf8_head_append [of s t] k(1) have "utf8_head (s @ t) = HeadValid k" by simp
    with "1.IH"(1) [OF k] False utf8_head_bounds(1) [OF k(1)] show ?thesis
      by (simp add: valid_utf8_rec [of "s @ t"])
  qed simp
qed

lemma valid_utf8_first: "valid_utf8 s \<Longrightarrow> s \<noteq> [] \<Longrightarrow> \<not> is_continuation_byte (s ! 0)"
  using valid_utf8_rec utf8_head_bytes(1) by blast

text \<open>Between valid texts every overlap of bytes is one of characters.\<close>

lemma overlap_is_of_characters:
  assumes "valid_utf8 current" "valid_utf8 complete"
    and "0 < n" "n \<le> length current" "n \<le> length complete"
    and eq: "drop (length current - n) current = take n complete"
  shows "overlaps current complete n"
proof -
  have "complete \<noteq> []" using assms(3,5) by auto
  from valid_utf8_first [OF assms(2) this] have "\<not> is_continuation_byte (take n complete ! 0)"
    using assms(3) by simp
  then have c: "is_char_boundary current (length current - n)"
    unfolding eq [symmetric] using assms(3,4) by (simp add: is_char_boundary_def) linarith
  from valid_utf8_suffix [OF assms(1) c] have "valid_utf8 (take n complete)" unfolding eq .
  from valid_utf8_append [OF this, of "drop n complete"] assms(2) have r: "valid_utf8 (drop n complete)"
    by simp
  have "is_char_boundary complete n"
  proof (cases "n = length complete")
    case False
    with assms(5) valid_utf8_first [OF r] show ?thesis by (simp add: is_char_boundary_def)
  qed (simp add: is_char_boundary_def)
  with c eq show ?thesis by (simp add: overlaps_def)
qed

lemma find_rev_upt:
  "find P (rev [1..<Suc m]) = Some n \<Longrightarrow> P n \<and> n \<le> m \<and> (\<forall>j. n < j \<and> j \<le> m \<longrightarrow> \<not> P j)"
  "find P (rev [1..<Suc m]) = None \<Longrightarrow> (\<forall>j. 0 < j \<and> j \<le> m \<longrightarrow> \<not> P j)"
proof -
  have "case find P (rev [1..<Suc m]) of
          Some n \<Rightarrow> P n \<and> n \<le> m \<and> (\<forall>j. n < j \<and> j \<le> m \<longrightarrow> \<not> P j)
        | None \<Rightarrow> \<forall>j. 0 < j \<and> j \<le> m \<longrightarrow> \<not> P j"
  proof (induction m)
    case (Suc m)
    show ?case
    proof (cases "P (Suc m)")
      case False
      with Suc show ?thesis by (auto split: option.splits simp: le_Suc_eq)
    qed auto
  qed simp
  then show "find P (rev [1..<Suc m]) = Some n \<Longrightarrow> P n \<and> n \<le> m \<and> (\<forall>j. n < j \<and> j \<le> m \<longrightarrow> \<not> P j)"
    "find P (rev [1..<Suc m]) = None \<Longrightarrow> (\<forall>j. 0 < j \<and> j \<le> m \<longrightarrow> \<not> P j)"
    by (simp_all del: upt_Suc)
qed

text \<open>
  The missing suffix is the shortest one. What is returned for a text and its complete form
  makes the text end with the complete form, and between valid texts nothing shorter does: the
  longest overlap is found, at a boundary of characters.
\<close>

theorem missing_suffix_is_shortest:
  assumes "valid_utf8 current" "valid_utf8 complete"
    and "suffix complete (current @ other)"
  shows "suffix complete (current @ unwrap_or [] (missing_complete_text_suffix current complete))
    \<and> length (unwrap_or [] (missing_complete_text_suffix current complete)) \<le> length other"
proof (cases "complete = [] \<or> suffix complete current")
  case True
  then show ?thesis by (auto simp: missing_complete_text_suffix_def)
next
  case False
  have sub: "drop (length current - n) current = take n complete"
    if "n \<le> length current" "length complete = n + length other" for n
  proof -
    from assms(3) obtain x where x: "current @ other = x @ complete" by (auto simp: suffix_def)
    then have "length x = length current - n" using that by (metis add_diff_cancel_right'
        add_diff_cancel_left' diff_diff_left length_append add.commute)
    then have "drop (length current - n) (current @ other) = complete" using x by simp
    then have "take n (drop (length current - n) (current @ other)) = take n complete" by simp
    with that show ?thesis by simp
  qed
  have short: "length complete - length other \<le> length current"
    using suffix_length_le [OF assms(3)] by simp
  show ?thesis
  proof (cases "strip_prefix current complete")
    case (Some r)
    then have c: "complete = current @ r" by (simp add: strip_prefix_Some_iff)
    then have "unwrap_or [] (missing_complete_text_suffix current complete) = r"
      using False by (auto simp: missing_complete_text_suffix_def nonempty_def)
    with c short show ?thesis by simp
  next
    case None
    let ?m = "min (length current) (length complete)"
    let ?f = "find (overlaps current complete) (rev [1..<Suc ?m])"
    let ?n = "unwrap_or 0 ?f"
    have r: "unwrap_or [] (missing_complete_text_suffix current complete) = drop ?n complete"
      using False None by (auto simp: missing_complete_text_suffix_def nonempty_def Let_def)
    have n: "?n \<le> ?m \<and> drop (length current - ?n) current = take ?n complete"
    proof (cases ?f)
      case (Some n)
      from find_rev_upt(1) [OF Some] Some show ?thesis by (simp add: overlaps_def del: upt_Suc)
    qed simp
    have best: "j \<le> ?n" if "0 < j" "j \<le> ?m" "drop (length current - j) current = take j complete" for j
    proof -
      from that overlap_is_of_characters [OF assms(1,2)] have "overlaps current complete j" by simp
      show ?thesis
      proof (cases ?f)
        case None
        from find_rev_upt(2) [OF None] that(1,2) \<open>overlaps current complete j\<close> show ?thesis by blast
      next
        case (Some n)
        from find_rev_upt(1) [OF Some] that(2) \<open>overlaps current complete j\<close> show ?thesis
          unfolding Some by (auto simp: not_less [symmetric])
      qed
    qed
    have "length complete - ?n \<le> length other"
    proof (cases "length other < length complete")
      case True
      then show ?thesis
        using best [of "length complete - length other"] sub [of "length complete - length other"] short
        by simp
    qed simp
    moreover have "current @ drop ?n complete = take (length current - ?n) current @ complete"
    proof -
      have "current = take (length current - ?n) current @ take ?n complete"
        using n append_take_drop_id [of "length current - ?n" current] by simp
      then have "current @ drop ?n complete
          = take (length current - ?n) current @ take ?n complete @ drop ?n complete"
        by (metis append.assoc)
      then show ?thesis by simp
    qed
    ultimately show ?thesis by (simp add: r suffix_def)
  qed
qed

theorem missing_suffix_is_shortest_witness:
  "suffix ''text and more'' (''partial text'' @ unwrap_or []
      (missing_complete_text_suffix ''partial text'' ''text and more''))
   \<and> length (unwrap_or [] (missing_complete_text_suffix ''partial text'' ''text and more'')) \<le> 9"
  using missing_suffix_is_shortest [of "''partial text''" "''text and more''" "'' and more''"]
  by (simp add: valid_utf8_def from_utf8_rec byte_of_def suffix_def)

section \<open>What the sink has received\<close>

datatype delta_call = PushCompatible str bool bool | Complete str

fun delta_step :: "delta_call \<Rightarrow> text_reconciler \<Rightarrow> str \<times> text_reconciler" where
  "delta_step (PushCompatible v snapshot allow) s = apfst (unwrap_or []) (push_compatible v snapshot allow s)"
| "delta_step (Complete v) s =
     apfst (\<lambda>r. case r of Inr (Some x) \<Rightarrow> x | _ \<Rightarrow> []) (complete_text v s)"

fun delta_run :: "delta_call list \<Rightarrow> text_reconciler \<Rightarrow> str \<times> text_reconciler" where
  "delta_run [] s = ([], s)"
| "delta_run (c # cs) s = (case delta_step c s of (out, s') \<Rightarrow> apfst (append out) (delta_run cs s'))"

lemma delta_step_emits: "rec_emitted (snd (delta_step c s)) = rec_emitted s @ fst (delta_step c s)"
  by (cases c)
    (auto simp: push_compatible_def complete_text_def Let_def split: option.split sum.split)

lemma delta_run_emits: "rec_emitted (snd (delta_run cs s)) = rec_emitted s @ fst (delta_run cs s)"
proof (induction cs arbitrary: s)
  case (Cons c cs)
  from Cons [of "snd (delta_step c s)"] delta_step_emits [of c s] show ?case
    by (cases "delta_step c s"; cases "delta_run cs (snd (delta_step c s))") simp
qed simp

text \<open>
  The reconciler knows what the sink received. After any calls the increments that were
  returned, together, are the emitted text; and then a completion with a snapshot either makes
  them the snapshot, or, exactly when the emitted text is not a prefix of it, is refused and
  changes nothing.
\<close>

theorem reconciler_tracks_the_sink:
  "let s = snd (delta_run cs reconciler_new);
       received = fst (delta_run cs reconciler_new);
       (result, s') = complete_text (c # complete) s
   in rec_emitted s = received
      \<and> (if prefix received (c # complete)
          then result = Inr (nonempty (drop (length received) (c # complete))) \<and> rec_emitted s' = c # complete
          else result = Inl diverged \<and> s' = s)"
proof -
  let ?s = "snd (delta_run cs reconciler_new)"
  have r: "rec_emitted ?s = fst (delta_run cs reconciler_new)"
    using delta_run_emits [of cs reconciler_new] by (simp add: reconciler_new_def)
  show ?thesis
  proof (cases "strip_prefix (rec_emitted ?s) (c # complete)")
    case None
    then have "\<not> prefix (rec_emitted ?s) (c # complete)" by (simp add: strip_prefix_None_iff)
    moreover from this have "rec_emitted ?s \<noteq> c # complete" by auto
    ultimately show ?thesis
      using None r by (simp add: complete_text_def strict_complete_text_suffix_def)
  next
    case (Some x)
    then have "c # complete = rec_emitted ?s @ x" by (simp add: strip_prefix_Some_iff)
    with Some r show ?thesis
      by (auto simp: complete_text_def strict_complete_text_suffix_def nonempty_def split: option.split)
  qed
qed

definition push_texts :: "delta_mode \<Rightarrow> str list \<Rightarrow> text_reconciler \<Rightarrow> text_reconciler" where
  "push_texts mode vs s = fold (\<lambda>v t. snd (push_delta v mode t)) vs s"

lemma incremental_is_verbatim:
  "\<not> rec_cumulative s \<Longrightarrow>
     rec_emitted (push_texts Incremental vs s) = rec_emitted s @ concat vs
     \<and> \<not> rec_cumulative (push_texts Incremental vs s)"
  by (induction vs arbitrary: s) (simp_all add: push_texts_def push_compatible_def Let_def)

lemma missing_suffix_of_extension:
  "prefix a b \<Longrightarrow> a @ unwrap_or [] (missing_complete_text_suffix a b) = b"
  by (cases "b = []")
    (auto simp: missing_complete_text_suffix_def prefix_def nonempty_def dest: suffix_length_le)

lemma cumulative_follows_snapshot:
  assumes "prefix (rec_emitted s) v"
  shows "rec_emitted (snd (push_delta v CumulativeCompatible s)) = v"
proof (cases "v = [] \<or> rec_emitted s = []")
  case True
  with assms missing_suffix_of_extension [OF assms] show ?thesis
    by (auto simp: push_compatible_def Let_def split: option.split)
next
  case False
  with assms missing_suffix_of_extension [OF assms] show ?thesis
    by (auto simp: push_compatible_def Let_def split: option.splits)
qed

text \<open>
  Both ways of streaming are understood. Increments pass through as they are; and where a
  provider sends the text so far again and again, each a prefix of the next, the emitted text is
  the last one.
\<close>

theorem both_streaming_styles_reconcile:
  assumes "sorted_wrt prefix snapshots"
  shows "rec_emitted (push_texts Incremental vs reconciler_new) = concat vs
    \<and> rec_emitted (push_texts CumulativeCompatible snapshots reconciler_new) = last ([] # snapshots)"
proof -
  have "rec_emitted (push_texts CumulativeCompatible vs s) = last (rec_emitted s # vs)"
    if "sorted_wrt prefix (rec_emitted s # vs)" for s vs
    using that
  proof (induction vs arbitrary: s)
    case Nil
    then show ?case by (simp add: push_texts_def)
  next
    case (Cons v vs)
    from Cons.prems have e: "rec_emitted (snd (push_delta v CumulativeCompatible s)) = v"
      by (intro cumulative_follows_snapshot) simp
    with Cons.IH [of "snd (push_delta v CumulativeCompatible s)"] Cons.prems show ?case
      by (simp add: push_texts_def)
  qed
  from this [of reconciler_new snapshots] incremental_is_verbatim [of reconciler_new vs] assms
  show ?thesis by (simp add: reconciler_new_def)
qed

theorem both_streaming_styles_reconcile_witness:
  "rec_emitted (push_texts Incremental [''ha'', ''ha''] reconciler_new) = ''haha''
   \<and> rec_emitted (push_texts CumulativeCompatible [''he'', ''he'', ''hello''] reconciler_new) = ''hello''"
  using both_streaming_styles_reconcile [of "[''he'', ''he'', ''hello'']" "[''ha'', ''ha'']"] by simp

end
