(* ===== verification/Sink_Actions.thy ===== *)
theory Sink_Actions
  imports Text_Delta Core_Types
begin

text \<open>
  Steps of the response assemblers that show something: what goes to the \<open>ModelEventSink\<close> is
  returned as a list of events, in order, beside the new state, and beside the result where a
  step can fail. A step \<open>tracks\<close> a text of the state when the text grows by exactly what the
  step showed.
\<close>

section \<open>Steps\<close>

definition event_of :: "(str \<Rightarrow> sink_event) \<Rightarrow> str option \<Rightarrow> sink_event list" where
  "event_of f d = (case d of None \<Rightarrow> [] | Some s \<Rightarrow> [f s])"

definition emit_then ::
    "('s \<Rightarrow> sink_event list \<times> 's) \<Rightarrow> ('s \<Rightarrow> sink_event list \<times> 's) \<Rightarrow> 's \<Rightarrow> sink_event list \<times> 's" where
  "emit_then f g s = (case f s of (ev, s') \<Rightarrow> apfst (append ev) (g s'))"

type_synonym 's sink_step = "'s \<Rightarrow> sink_event list \<times> (provider_error + unit) \<times> 's"

definition step_skip :: "'s sink_step" where
  "step_skip s = ([], Inr (), s)"

definition step_fail :: "provider_error \<Rightarrow> 's sink_step" where
  "step_fail e s = ([], Inl e, s)"

definition step_set :: "('s \<Rightarrow> 's) \<Rightarrow> 's sink_step" where
  "step_set f s = ([], Inr (), f s)"

definition step_emit :: "('s \<Rightarrow> sink_event list \<times> 's) \<Rightarrow> 's sink_step" where
  "step_emit f s = (case f s of (ev, s') \<Rightarrow> (ev, Inr (), s'))"

text \<open>The \<open>?\<close> operator between two steps.\<close>

definition step_then :: "'s sink_step \<Rightarrow> 's sink_step \<Rightarrow> 's sink_step" where
  "step_then f g s =
     (case f s of
        (ev, Inl e, s') \<Rightarrow> (ev, Inl e, s')
      | (ev, Inr _, s') \<Rightarrow> apfst (append ev) (g s'))"

section \<open>What was shown\<close>

fun text_of_event :: "sink_event \<Rightarrow> str" where
  "text_of_event (SinkText d) = d"
| "text_of_event _ = []"

fun reasoning_of_event :: "sink_event \<Rightarrow> str" where
  "reasoning_of_event (SinkReasoning d) = d"
| "reasoning_of_event _ = []"

definition shown_text :: "sink_event list \<Rightarrow> str" where
  "shown_text events = concat (map text_of_event events)"

definition shown_reasoning :: "sink_event list \<Rightarrow> str" where
  "shown_reasoning events = concat (map reasoning_of_event events)"

lemma shown_simps [simp]:
  "shown_text [] = []" "shown_reasoning [] = []"
  "shown_text (e # es) = text_of_event e @ shown_text es"
  "shown_reasoning (e # es) = reasoning_of_event e @ shown_reasoning es"
  "shown_text (es @ fs) = shown_text es @ shown_text fs"
  "shown_reasoning (es @ fs) = shown_reasoning es @ shown_reasoning fs"
  by (simp_all add: shown_text_def shown_reasoning_def)

text \<open>The texts of a state are a pair: the answer and the reasoning.\<close>

definition grows_by :: "str \<times> str \<Rightarrow> sink_event list \<Rightarrow> str \<times> str \<Rightarrow> bool" where
  "grows_by before events after =
     (fst after = fst before @ shown_text events \<and> snd after = snd before @ shown_reasoning events)"

definition emits :: "('s \<Rightarrow> str \<times> str) \<Rightarrow> ('s \<Rightarrow> sink_event list \<times> 's) \<Rightarrow> bool" where
  "emits texts f = (\<forall>s. grows_by (texts s) (fst (f s)) (texts (snd (f s))))"

definition tracks :: "('s \<Rightarrow> str \<times> str) \<Rightarrow> 's sink_step \<Rightarrow> bool" where
  "tracks texts f = (\<forall>s. grows_by (texts s) (fst (f s)) (texts (snd (snd (f s)))))"

named_theorems tracking \<open>steps that track the texts of their state\<close>

lemma grows_by_refl [simp]: "grows_by t [] t"
  by (simp add: grows_by_def)

lemma grows_by_trans: "grows_by a ev b \<Longrightarrow> grows_by b ev' c \<Longrightarrow> grows_by a (ev @ ev') c"
  by (simp add: grows_by_def)

lemma emitsD: "emits texts f \<Longrightarrow> f s = (ev, s') \<Longrightarrow> grows_by (texts s) ev (texts s')"
  unfolding emits_def by (metis fst_conv snd_conv)

lemma emits_at: "emits texts f \<Longrightarrow> texts s = t \<Longrightarrow> grows_by t (fst (f s)) (texts (snd (f s)))"
  unfolding emits_def by blast

lemma tracks_at: "tracks texts f \<Longrightarrow> texts s = t \<Longrightarrow> grows_by t (fst (f s)) (texts (snd (snd (f s))))"
  unfolding tracks_def by blast

lemma tracksD: "tracks texts f \<Longrightarrow> f s = (ev, r, s') \<Longrightarrow> grows_by (texts s) ev (texts s')"
  unfolding tracks_def by (metis fst_conv snd_conv)

lemma emits_Pair [tracking]: "emits texts (Pair [])"
  by (simp add: emits_def)

lemma emits_then [tracking]: "emits texts f \<Longrightarrow> emits texts g \<Longrightarrow> emits texts (emit_then f g)"
proof -
  assume f: "emits texts f" and g: "emits texts g"
  show ?thesis unfolding emits_def
  proof
    fix s
    obtain ev s' where fs: "f s = (ev, s')" by fastforce
    obtain ev' s'' where gs: "g s' = (ev', s'')" by fastforce
    from grows_by_trans [OF emitsD [OF f fs] emitsD [OF g gs]]
    show "grows_by (texts s) (fst (emit_then f g s)) (texts (snd (emit_then f g s)))"
      by (simp add: emit_then_def fs gs)
  qed
qed

lemma emits_If [tracking]: "emits texts f \<Longrightarrow> emits texts g \<Longrightarrow> emits texts (if b then f else g)"
  by simp

lemma tracks_simple [tracking]:
  "tracks texts step_skip" "tracks texts (step_fail e)"
  "emits texts g \<Longrightarrow> tracks texts (step_emit g)"
  "(\<And>s. texts (h s) = texts s) \<Longrightarrow> tracks texts (step_set h)"
  by (simp_all add: tracks_def emits_def step_skip_def step_fail_def step_set_def step_emit_def
      split: prod.split) (metis fst_conv snd_conv)

lemma tracks_then [tracking]: "tracks texts f \<Longrightarrow> tracks texts g \<Longrightarrow> tracks texts (step_then f g)"
proof -
  assume f: "tracks texts f" and g: "tracks texts g"
  show ?thesis unfolding tracks_def
  proof
    fix s
    obtain ev r s' where fs: "f s = (ev, r, s')" by (metis surj_pair)
    obtain ev' r' s'' where gs: "g s' = (ev', r', s'')" by (metis surj_pair)
    from grows_by_trans [OF tracksD [OF f fs] tracksD [OF g gs]] tracksD [OF f fs]
    show "grows_by (texts s) (fst (step_then f g s)) (texts (snd (snd (step_then f g s))))"
      by (cases r) (simp_all add: step_then_def fs gs)
  qed
qed

lemma tracks_If [tracking]: "tracks texts f \<Longrightarrow> tracks texts g \<Longrightarrow> tracks texts (if b then f else g)"
  by simp

lemma tracks_option [tracking]:
  "tracks texts f \<Longrightarrow> (\<And>x. tracks texts (g x)) \<Longrightarrow> tracks texts (case x of None \<Rightarrow> f | Some y \<Rightarrow> g y)"
  by (cases x) simp_all

text \<open>A step preserves a property of the state, whether it fails or not.\<close>

definition preserves :: "('s \<Rightarrow> bool) \<Rightarrow> 's sink_step \<Rightarrow> bool" where
  "preserves P f = (\<forall>s. P s \<longrightarrow> P (snd (snd (f s))))"

named_theorems preserving \<open>steps that preserve a property of their state\<close>

lemma preservesD: "preserves P f \<Longrightarrow> P s \<Longrightarrow> f s = (ev, r, s') \<Longrightarrow> P s'"
  unfolding preserves_def by (metis snd_conv)

lemma preserves_simple [preserving]:
  "preserves P step_skip" "preserves P (step_fail e)"
  "(\<And>s. P s \<Longrightarrow> P (snd (g s))) \<Longrightarrow> preserves P (step_emit g)"
  "(\<And>s. P s \<Longrightarrow> P (h s)) \<Longrightarrow> preserves P (step_set h)"
  by (simp_all add: preserves_def step_skip_def step_fail_def step_set_def step_emit_def
      split: prod.split) (metis snd_conv)

lemma preserves_then [preserving]: "preserves P f \<Longrightarrow> preserves P g \<Longrightarrow> preserves P (step_then f g)"
  unfolding preserves_def step_then_def by (auto split: prod.split sum.split)

lemma preserves_If [preserving]: "preserves P f \<Longrightarrow> preserves P g \<Longrightarrow> preserves P (if b then f else g)"
  by simp

lemma preserves_option [preserving]:
  "preserves P f \<Longrightarrow> (\<And>x. preserves P (g x)) \<Longrightarrow> preserves P (case x of None \<Rightarrow> f | Some y \<Rightarrow> g y)"
  by (cases x) simp_all

text \<open>A reconciler emits what it adds.\<close>

lemma push_compatible_grows:
  "push_compatible v snapshot allow r = (d, r') \<Longrightarrow> rec_emitted r' = rec_emitted r @ unwrap_or [] d"
  using delta_step_emits [of "PushCompatible v snapshot allow" r] by simp

lemma complete_text_grows:
  "complete_text v r = (Inr d, r') \<Longrightarrow> rec_emitted r' = rec_emitted r @ unwrap_or [] d"
  "complete_text v r = (Inl e, r') \<Longrightarrow> r' = r"
  by (auto simp: complete_text_def split: sum.splits option.splits)

lemma shown_event_of [simp]:
  "shown_text (event_of SinkText d) = unwrap_or [] d"
  "shown_reasoning (event_of SinkText d) = []"
  "shown_text (event_of SinkReasoning d) = []"
  "shown_reasoning (event_of SinkReasoning d) = unwrap_or [] d"
  by (cases d; simp add: event_of_def)+

end
