(* ===== verification/Thought_Stream.thy ===== *)
theory Thought_Stream
  imports Prelude
begin

text \<open>
  The split of streamed text into visible text and reasoning at \<open><thought>\<close> tags
  (\<open>ThoughtStream\<close> in \<open>gemini/mod.rs\<close>). A tag may be cut by a chunk: the longest end of the text
  that could begin the tag is kept back.
\<close>

section \<open>The stream\<close>

text \<open>\<open>find_str s needle\<close> is \<open>s.find(needle)\<close>.\<close>

fun find_str :: "str \<Rightarrow> str \<Rightarrow> nat option" where
  "find_str [] needle = (if needle = [] then Some 0 else None)"
| "find_str (c # cs) needle =
     (if starts_with (c # cs) needle then Some 0 else map_option Suc (find_str cs needle))"

text \<open>
  The length of the longest suffix that is a prefix of the tag. A suffix that does not start at
  a character starts with a continuation byte, which no tag does.
\<close>

fun keep_length :: "str \<Rightarrow> str \<Rightarrow> nat" where
  "keep_length tag [] = 0"
| "keep_length tag (c # cs) =
     (if starts_with tag (c # cs) then length (c # cs) else keep_length tag cs)"

record thought_stream =
  ths_pending :: str
  ths_thought :: bool

definition thought_stream_new :: thought_stream where
  "thought_stream_new = \<lparr>ths_pending = [], ths_thought = False\<rparr>"

definition thought_tag :: "bool \<Rightarrow> str" where
  "thought_tag thought = (if thought then ''</thought>'' else ''<thought>'')"

text \<open>Text for the visible side or for the reasoning.\<close>

definition to_side :: "bool \<Rightarrow> str \<Rightarrow> str \<times> str \<Rightarrow> str \<times> str" where
  "to_side reasoning s out =
     (if reasoning then (fst out, snd out @ s) else (fst out @ s, snd out))"

lemma find_str_bounds: "find_str s needle = Some i \<Longrightarrow> i + length needle \<le> length s"
  by (induction s arbitrary: i) (auto split: if_splits dest: prefix_length_le)

lemma find_append: "find_str s needle = Some i \<Longrightarrow> find_str (s @ t) needle = Some i"
proof (induction s arbitrary: i)
  case Nil
  then show ?case by (cases t) (auto split: if_splits)
next
  case (Cons c s)
  show ?case
  proof (cases "prefix needle (c # s)")
    case True
    then have "prefix needle ((c # s) @ t)" by (rule prefix_prefix)
    with True Cons.prems show ?thesis by simp
  next
    case False
    with Cons.prems obtain j where j: "find_str s needle = Some j" "i = Suc j" by auto
    then have "length needle \<le> length s" using find_str_bounds by fastforce
    then have "\<not> prefix needle (c # s @ t)"
      using False prefix_length_prefix [of needle "c # s @ t" "c # s"] by auto
    with j Cons.IH show ?thesis by simp
  qed
qed

lemma thought_tag_nonempty [simp]: "0 < length (thought_tag t)" "thought_tag t \<noteq> []"
  by (simp_all add: thought_tag_def)

lemma length_lower [simp]: "length (to_ascii_lowercase s) = length s"
  by (simp add: to_ascii_lowercase_def)

lemma drop_shorter: "0 < k \<Longrightarrow> k \<le> length s \<Longrightarrow> length (drop k s) < length s"
  by simp

function thought_loop ::
    "bool option \<Rightarrow> str \<times> str \<Rightarrow> thought_stream \<Rightarrow> (str \<times> str) \<times> thought_stream" where
  "thought_loop marked out s =
     (let lower = to_ascii_lowercase (ths_pending s);
          tag = thought_tag (ths_thought s)
      in case find_str lower tag of
           Some index \<Rightarrow>
             thought_loop None (to_side (ths_thought s) (take index (ths_pending s)) out)
               \<lparr>ths_pending = drop (index + length tag) (ths_pending s), ths_thought = \<not> ths_thought s\<rparr>
         | None \<Rightarrow>
             let end = length (ths_pending s) - keep_length tag lower
             in (to_side (ths_thought s \<or> marked = Some True) (take end (ths_pending s)) out,
                 s\<lparr>ths_pending := drop end (ths_pending s)\<rparr>))"
  by pat_completeness auto
termination
proof (relation "measure (\<lambda>(m, out, s). length (ths_pending s))", goal_cases)
  case (2 marked out s lower tag index)
  then have "index + length tag \<le> length (ths_pending s)" "0 < length tag"
    using find_str_bounds [of lower tag index] by simp_all
  then have "length (drop (index + length tag) (ths_pending s)) < length (ths_pending s)"
    by (intro drop_shorter) simp_all
  then show ?case by simp
qed simp

declare thought_loop.simps [simp del]

definition thought_push ::
    "str \<Rightarrow> bool option \<Rightarrow> thought_stream \<Rightarrow> (str \<times> str) \<times> thought_stream" where
  "thought_push text marked s =
     thought_loop marked ([], []) (s\<lparr>ths_pending := ths_pending s @ text\<rparr>)"

definition thought_finish :: "thought_stream \<Rightarrow> (str \<times> str) \<times> thought_stream" where
  "thought_finish s = (to_side (ths_thought s) (ths_pending s) ([], []), s\<lparr>ths_pending := []\<rparr>)"

section \<open>The reference: tags of the whole text\<close>

function split_thoughts :: "bool \<Rightarrow> str \<Rightarrow> str \<times> str" where
  "split_thoughts thought s =
     (case find_str (to_ascii_lowercase s) (thought_tag thought) of
        None \<Rightarrow> to_side thought s ([], [])
      | Some i \<Rightarrow>
          (case split_thoughts (\<not> thought) (drop (i + length (thought_tag thought)) s) of
             (v, r) \<Rightarrow> if thought then (v, take i s @ r) else (take i s @ v, r)))"
  by pat_completeness auto
termination
proof (relation "measure (length o snd)", goal_cases)
  case (2 thought s i)
  then have "i + length (thought_tag thought) \<le> length s"
    using find_str_bounds by fastforce
  then have "length (drop (i + length (thought_tag thought)) s) < length s"
    by (intro drop_shorter) simp_all
  then show ?case by simp
qed simp

declare split_thoughts.simps [simp del]

definition out_append :: "str \<times> str \<Rightarrow> str \<times> str \<Rightarrow> str \<times> str" where
  "out_append a b = (fst a @ fst b, snd a @ snd b)"

lemma out_append_simps [simp]:
  "out_append ([], []) b = b" "out_append a ([], []) = a"
  "out_append (out_append a b) c = out_append a (out_append b c)"
  by (simp_all add: out_append_def)

lemma to_side_out: "to_side t s out = out_append out (to_side t s ([], []))"
  by (simp add: to_side_def out_append_def)

lemma to_side_append: "to_side t (x @ y) ([], []) = out_append (to_side t x ([], [])) (to_side t y ([], []))"
  by (simp add: to_side_def out_append_def)

lemma lower_simps [simp]:
  "to_ascii_lowercase (s @ t) = to_ascii_lowercase s @ to_ascii_lowercase t"
  "to_ascii_lowercase (drop n s) = drop n (to_ascii_lowercase s)"
  "to_ascii_lowercase [] = []"
  by (simp_all add: to_ascii_lowercase_def drop_map)

lemma split_thoughts_rec:
  "split_thoughts t s =
     (case find_str (to_ascii_lowercase s) (thought_tag t) of
        None \<Rightarrow> to_side t s ([], [])
      | Some i \<Rightarrow> out_append (to_side t (take i s) ([], []))
          (split_thoughts (\<not> t) (drop (i + length (thought_tag t)) s)))"
  by (subst split_thoughts.simps)
    (auto split: option.split prod.split simp: to_side_def out_append_def)

text \<open>What is kept back is enough: the tag is not found earlier in any longer text.\<close>

lemma find_after_keep:
  assumes "find_str s tag = None" "tag \<noteq> []"
  shows "find_str (s @ x) tag =
    map_option ((+) (length s - keep_length tag s)) (find_str (drop (length s - keep_length tag s) s @ x) tag)"
  using assms
proof (induction s)
  case Nil
  then show ?case by (simp add: option.map_ident)
next
  case (Cons c s)
  show ?case
  proof (cases "prefix (c # s) tag")
    case True
    then show ?thesis by (simp add: option.map_ident)
  next
    case False
    have "\<not> prefix tag (c # s @ x)"
    proof
      assume "prefix tag (c # s @ x)"
      moreover have "prefix (c # s) (c # s @ x)" by simp
      ultimately have "prefix tag (c # s) \<or> prefix (c # s) tag" using prefix_same_cases by blast
      with False Cons.prems(1) show False by (simp split: if_splits)
    qed
    moreover have "keep_length tag s \<le> length s" by (induction s) auto
    ultimately show ?thesis
      using Cons False by (simp add: Suc_diff_le option.map_comp comp_def split: if_splits)
  qed
qed

lemma thought_loop_splits:
  "marked \<noteq> Some True \<Longrightarrow> thought_loop marked out s = (out', s') \<Longrightarrow>
     out_append out (split_thoughts (ths_thought s) (ths_pending s @ x))
       = out_append out' (split_thoughts (ths_thought s') (ths_pending s' @ x))"
proof (induction marked out s arbitrary: out' s' rule: thought_loop.induct)
  case (1 marked out s)
  let ?l = "to_ascii_lowercase (ths_pending s)" and ?t = "thought_tag (ths_thought s)"
  show ?case
  proof (cases "find_str ?l ?t")
    case None
    let ?e = "length (ths_pending s) - keep_length ?t ?l"
    define p q where "p = take ?e (ths_pending s)" and "q = drop ?e (ths_pending s)"
    then have pq: "ths_pending s = p @ q" and p: "length p = ?e" by simp_all
    have l: "?l = to_ascii_lowercase p @ to_ascii_lowercase q" by (simp add: pq)
    have d: "drop ?e ?l = to_ascii_lowercase q"
      unfolding q_def by simp
    have f: "find_str (to_ascii_lowercase (p @ q @ x)) ?t
        = map_option ((+) (length p)) (find_str (to_ascii_lowercase (q @ x)) ?t)"
      using find_after_keep [OF None, of "to_ascii_lowercase x"] unfolding length_lower d p [symmetric]
      by (simp add: pq)
    from "1.prems" None have r: "out' = to_side (ths_thought s) p out" "s' = s\<lparr>ths_pending := q\<rparr>"
      by (auto simp: thought_loop.simps [of marked out s] Let_def p_def q_def)
    have "split_thoughts (ths_thought s) (p @ q @ x)
        = out_append (to_side (ths_thought s) p ([], [])) (split_thoughts (ths_thought s) (q @ x))"
    proof (cases "find_str (to_ascii_lowercase (q @ x)) ?t")
      case None
      then show ?thesis
        unfolding split_thoughts_rec [of _ "p @ q @ x"] split_thoughts_rec [of _ "q @ x"] f
        by (simp add: to_side_append)
    next
      case (Some i)
      then show ?thesis
        unfolding split_thoughts_rec [of _ "p @ q @ x"] split_thoughts_rec [of _ "q @ x"] f
        by (simp add: to_side_append [of _ p])
    qed
    then show ?thesis by (simp add: r pq to_side_out [of _ _ out])
  next
    case (Some i)
    note b = find_str_bounds [OF Some]
    have g: "find_str (a @ y) n = Some j" if "find_str a n = Some j" for a n j y
      using find_append [OF that] .
    from "1.IH" [OF refl refl Some, of out' s'] "1.prems" Some b g [OF Some, of "to_ascii_lowercase x"]
    show ?thesis
      by (simp add: thought_loop.simps [of marked out s] split_thoughts_rec [of "ths_thought s"]
          to_side_out [of _ _ out])
  qed
qed

fun thought_run :: "str list \<Rightarrow> thought_stream \<Rightarrow> (str \<times> str) \<times> thought_stream" where
  "thought_run [] s = (([], []), s)"
| "thought_run (c # cs) s =
     (case thought_push c None s of (out, s') \<Rightarrow>
        (case thought_run cs s' of (out', s'') \<Rightarrow> (out_append out out', s'')))"

lemma thought_run_splits:
  "thought_run cs s = (out, s') \<Longrightarrow>
     split_thoughts (ths_thought s) (ths_pending s @ concat cs @ x)
       = out_append out (split_thoughts (ths_thought s') (ths_pending s' @ x))"
proof (induction cs arbitrary: s out)
  case (Cons c cs)
  obtain o1 s1 where p: "thought_push c None s = (o1, s1)" by fastforce
  obtain o2 where q: "thought_run cs s1 = (o2, s')" "out = out_append o1 o2"
    using Cons.prems p by (auto split: prod.splits)
  from thought_loop_splits [OF _ p [unfolded thought_push_def], of "concat cs @ x"] Cons.IH [OF q(1)]
  show ?case by (simp add: q(2))
qed simp

text \<open>What is pending after a chunk holds no tag.\<close>

lemma find_shorter: "find_str s tag = None" if "length s < length tag"
  using find_str_bounds that by (cases "find_str s tag") fastforce+

lemma thought_loop_pending:
  "find_str (to_ascii_lowercase (ths_pending (snd (thought_loop marked out s))))
     (thought_tag (ths_thought (snd (thought_loop marked out s)))) = None"
proof (induction marked out s rule: thought_loop.induct)
  case (1 marked out s)
  let ?l = "to_ascii_lowercase (ths_pending s)" and ?t = "thought_tag (ths_thought s)"
  show ?case
  proof (cases "find_str ?l ?t")
    case None
    from find_after_keep [OF None, of "[]"] None show ?thesis
      by (simp add: thought_loop.simps [of marked out s] Let_def)
  next
    case (Some i)
    from "1.IH" [OF refl refl Some] Some show ?thesis
      by (simp add: thought_loop.simps [of marked out s] Let_def)
  qed
qed

lemma thought_run_pending:
  "cs \<noteq> [] \<Longrightarrow> thought_run cs s = (out, s') \<Longrightarrow>
     find_str (to_ascii_lowercase (ths_pending s')) (thought_tag (ths_thought s')) = None"
proof (induction cs arbitrary: s out)
  case (Cons c cs)
  obtain o1 s1 where p: "thought_push c None s = (o1, s1)" by fastforce
  obtain o2 where q: "thought_run cs s1 = (o2, s')" using Cons.prems p by (auto split: prod.splits)
  show ?case
  proof (cases "cs = []")
    case True
    with q p thought_loop_pending show ?thesis by (metis Pair_inject snd_conv thought_push_def thought_run.simps(1))
  next
    case False
    from Cons.IH [OF this q] show ?thesis .
  qed
qed simp

text \<open>
  Thought tags are recognised however they are cut. Over any chunks of unmarked text, what is
  shown and what is reasoning, the pending end included, is what the tags of the whole text say.
\<close>

theorem thought_chunking_is_irrelevant:
  "(case thought_run chunks thought_stream_new of
      (out, s) \<Rightarrow> out_append out (fst (thought_finish s))) = split_thoughts False (concat chunks)"
proof -
  obtain out s where run: "thought_run chunks thought_stream_new = (out, s)" by fastforce
  have "find_str (to_ascii_lowercase (ths_pending s)) (thought_tag (ths_thought s)) = None"
  proof (cases "chunks = []")
    case True
    with run show ?thesis by (auto simp: thought_stream_new_def)
  next
    case False
    from thought_run_pending [OF this run] show ?thesis .
  qed
  then have "split_thoughts (ths_thought s) (ths_pending s) = fst (thought_finish s)"
    by (simp add: split_thoughts_rec thought_finish_def)
  with thought_run_splits [OF run, of "[]"] show ?thesis
    unfolding run by (simp add: thought_stream_new_def)
qed

end
