(* ===== verification/Chat_Completions.thy ===== *)
theory Chat_Completions
  imports Reliability Sink_Actions Thought_Stream
begin

text \<open>
  The chat-completions protocol (\<open>openai_compatible/chat_completions.rs\<close> and \<open>tools.rs\<close>): the
  body of a request, and the assembler of a turn from the values of a response. What the
  assembler shows goes to the sink as events, which the definitions return in order.
\<close>

section \<open>The body of a request\<close>

text \<open>\<open>value[k] = x\<close> on a value that is an object.\<close>

definition put_field :: "str \<Rightarrow> json \<Rightarrow> json \<Rightarrow> json" where
  "put_field k x v = unwrap_or v (json_set k x v)"

lemma json_get_put_field [simp]:
  "is_object v \<Longrightarrow> json_get (put_field k x v) k' = (if k' = k then Some x else json_get v k')"
  by (cases v) (auto simp: put_field_def is_object_def)

lemma is_object_put_field [simp]: "is_object v \<Longrightarrow> is_object (put_field k x v)"
  by (cases v) (auto simp: put_field_def is_object_def)

lemma is_object_json_obj [simp]: "is_object (json_obj kvs)"
  by (simp add: is_object_def json_obj_def)

definition descriptor_to_openai_tool :: "tool_descriptor \<Rightarrow> json" where
  "descriptor_to_openai_tool d =
     json_obj [(''type'', JString ''function''),
       (''function'', json_obj [(''name'', JString (tool_name d)),
          (''description'', JString (tool_description d)), (''parameters'', tool_input_schema d)])]"

definition image_is_file_id :: "str \<Rightarrow> bool" where
  "image_is_file_id reference = starts_with (trim reference) ''file-''"

definition image_to_chat_wire :: "image_content \<Rightarrow> json" where
  "image_to_chat_wire i =
     (let reference = artifact_str (img_artifact i) in
      if image_is_file_id reference
      then json_obj [(''type'', JString ''file''), (''file_id'', JString reference)]
      else json_obj [(''type'', JString ''image_url''),
             (''image_url'', json_obj [(''url'', JString reference)])])"

definition part_to_wire :: "content_part \<Rightarrow> json" where
  "part_to_wire part =
     (case part of
        PartText text \<Rightarrow> json_obj [(''type'', JString ''text''), (''text'', JString text)]
      | PartImage i \<Rightarrow> image_to_chat_wire i)"

definition content_to_wire :: "message \<Rightarrow> json" where
  "content_to_wire m =
     (case msg_content m of
        [PartText text] \<Rightarrow> JString text
      | parts \<Rightarrow> JArray (map part_to_wire parts))"

definition tool_message_call_id :: "uuid_lib \<Rightarrow> message \<Rightarrow> str option" where
  "tool_message_call_id U m =
     or_else
       (opt_filter (\<lambda>i. i \<noteq> [])
          (map_option trim (Option.bind (msg_provider_state m) (\<lambda>s. get_str s ''call_id''))))
       (map_option (invocation_hyphenated U) (msg_tool_call_id m))"

fun role_to_wire :: "message_role \<Rightarrow> str" where
  "role_to_wire RoleSystem = ''system''"
| "role_to_wire RoleUser = ''user''"
| "role_to_wire RoleAssistant = ''assistant''"
| "role_to_wire RoleTool = ''tool''"

definition put_object :: "str \<Rightarrow> json option \<Rightarrow> json \<Rightarrow> json" where
  "put_object k x wire =
     (case opt_filter is_object x of None \<Rightarrow> wire | Some v \<Rightarrow> put_field k v wire)"

definition call_to_wire :: "uuid_lib \<Rightarrow> json_lib \<Rightarrow> message \<Rightarrow> tool_call \<Rightarrow> json" where
  "call_to_wire U L m call =
     put_object ''extra_content''
       (Option.bind (msg_provider_state m) (\<lambda>state.
          Option.bind (json_get state ''tool_call_extra_content'') (\<lambda>metadata.
            json_get metadata (wire_call_id U call))))
       (json_obj [(''id'', JString (wire_call_id U call)), (''type'', JString ''function''),
          (''function'', json_obj [(''name'', JString (call_name call)),
             (''arguments'', JString (lib_print L (call_arguments call)))])])"

definition message_to_wire :: "uuid_lib \<Rightarrow> json_lib \<Rightarrow> message \<Rightarrow> json" where
  "message_to_wire U L m =
     (let w0 = json_obj [(''role'', JString (role_to_wire (msg_role m))), (''content'', content_to_wire m)];
          w1 = (if msg_tool_calls m = [] then w0
                else put_field ''tool_calls'' (JArray (map (call_to_wire U L m) (msg_tool_calls m))) w0);
          w2 = (if msg_role m = RoleAssistant
                then put_object ''extra_content''
                       (Option.bind (msg_provider_state m) (\<lambda>s. json_get s ''extra_content'')) w1
                else w1)
      in if msg_role m = RoleTool
         then (case tool_message_call_id U m of
                 None \<Rightarrow> w2 | Some i \<Rightarrow> put_field ''tool_call_id'' (JString i) w2)
         else w2)"

definition build_chat_completions_body :: "uuid_lib \<Rightarrow> json_lib \<Rightarrow> model_turn_request \<Rightarrow> json" where
  "build_chat_completions_body U L request =
     (let body = json_obj [(''model'', JString (req_model request)),
            (''messages'', JArray (map (message_to_wire U L) (req_messages request))),
            (''stream'', JBool True),
            (''stream_options'', json_obj [(''include_usage'', JBool True)])]
      in if req_tools request = [] then body
         else put_field ''tool_choice'' (JString ''auto'')
                (put_field ''tools'' (JArray (map descriptor_to_openai_tool (req_tools request))) body))"

section \<open>Usage\<close>

text \<open>The first \<open>usage\<close> object that is not empty, depth first in the order of the keys.\<close>

definition usage_of :: "json \<Rightarrow> json option" where
  "usage_of v = opt_filter (\<lambda>u. is_object u \<and> as_object u \<noteq> Some []) (json_get v ''usage'')"

fun find_usage :: "json \<Rightarrow> json option"
  and find_usage_items :: "json list \<Rightarrow> json option"
  and find_usage_entries :: "json_map \<Rightarrow> json option" where
  "find_usage (JArray items) = find_usage_items items"
| "find_usage (JObject m) = or_else (usage_of (JObject m)) (find_usage_entries m)"
| "find_usage v = None"
| "find_usage_items [] = None"
| "find_usage_items (v # vs) = or_else (find_usage v) (find_usage_items vs)"
| "find_usage_entries [] = None"
| "find_usage_entries ((k, v) # m) =
     (if k \<noteq> ''raw_usage'' \<and> k \<noteq> ''rawUsage'' then or_else (find_usage v) (find_usage_entries m)
      else find_usage_entries m)"

section \<open>The assembler\<close>

record chat_assembler =
  cha_allow_cumulative_delta :: bool
  cha_text :: text_reconciler
  cha_reasoning :: text_reconciler
  cha_tools :: tool_call_assembler
  cha_usage :: "json option"
  cha_finish_reason :: "str option"
  cha_extra_content :: json
  cha_gemini_thoughts :: "thought_stream option"

definition chat_new :: "bool \<Rightarrow> chat_assembler" where
  "chat_new allow =
     \<lparr>cha_allow_cumulative_delta = allow, cha_text = reconciler_new, cha_reasoning = reconciler_new,
      cha_tools = assembler_new, cha_usage = None, cha_finish_reason = None,
      cha_extra_content = JObject [], cha_gemini_thoughts = None\<rparr>"

definition chat_use_gemini_contract :: "chat_assembler \<Rightarrow> chat_assembler" where
  "chat_use_gemini_contract a =
     a\<lparr>cha_tools := use_gemini_contract (cha_tools a),
       cha_gemini_thoughts := Some (unwrap_or thought_stream_new (cha_gemini_thoughts a))\<rparr>"

definition chat_use_deepseek_contract :: "chat_assembler \<Rightarrow> chat_assembler" where
  "chat_use_deepseek_contract a = a\<lparr>cha_tools := use_metadata_snapshots (cha_tools a)\<rparr>"

definition push_reasoning :: "str \<Rightarrow> bool \<Rightarrow> chat_assembler \<Rightarrow> sink_event list \<times> chat_assembler" where
  "push_reasoning s snapshot a =
     (case push_compatible s snapshot (cha_allow_cumulative_delta a) (cha_reasoning a) of
        (d, r) \<Rightarrow> (event_of SinkReasoning d, a\<lparr>cha_reasoning := r\<rparr>))"

definition push_text :: "str \<Rightarrow> bool \<Rightarrow> chat_assembler \<Rightarrow> sink_event list \<times> chat_assembler" where
  "push_text s snapshot a =
     (case push_compatible s snapshot (cha_allow_cumulative_delta a) (cha_text a) of
        (d, r) \<Rightarrow> (event_of SinkText d, a\<lparr>cha_text := r\<rparr>))"

definition emit_content :: "str \<Rightarrow> str \<Rightarrow> bool \<Rightarrow> chat_assembler \<Rightarrow> sink_event list \<times> chat_assembler" where
  "emit_content visible reasoning snapshot =
     emit_then (if reasoning \<noteq> [] then push_reasoning reasoning snapshot else Pair [])
       (if visible \<noteq> [] then push_text visible snapshot else Pair [])"

definition flush_content :: "chat_assembler \<Rightarrow> sink_event list \<times> chat_assembler" where
  "flush_content a =
     (case cha_gemini_thoughts a of
        None \<Rightarrow> ([], a)
      | Some parser \<Rightarrow>
          (case thought_finish parser of
             ((visible, reasoning), parser') \<Rightarrow>
               emit_content visible reasoning False (a\<lparr>cha_gemini_thoughts := Some parser'\<rparr>)))"

section \<open>The values of a response\<close>

definition apply_usage :: "json \<Rightarrow> chat_assembler \<Rightarrow> sink_event list \<times> chat_assembler" where
  "apply_usage v a =
     (case find_usage v of
        None \<Rightarrow> ([], a)
      | Some usage \<Rightarrow> ([SinkUsage usage], a\<lparr>cha_usage := Some usage\<rparr>))"

definition apply_finish_reason :: "json \<Rightarrow> chat_assembler \<Rightarrow> chat_assembler" where
  "apply_finish_reason choice a =
     (case get_str choice ''finish_reason'' of
        None \<Rightarrow> a
      | Some reason \<Rightarrow>
          if reason \<noteq> [] \<and> reason \<noteq> ''null'' then a\<lparr>cha_finish_reason := Some reason\<rparr> else a)"

text \<open>What of the extra content is replayed: all but the mark of a streamed summary.\<close>

definition replay_extra :: "json \<Rightarrow> json" where
  "replay_extra extra =
     (case (extra, Option.bind (json_get extra ''google'') as_object) of
        (JObject m, Some google) \<Rightarrow>
          (let google' = json_remove ''thought'' google in
           if google' = [] then JObject (json_remove ''google'' m)
           else JObject (json_insert ''google'' (JObject google') m))
      | _ \<Rightarrow> extra)"

definition apply_extra_content :: "json \<Rightarrow> chat_assembler \<Rightarrow> chat_assembler" where
  "apply_extra_content delta a0 =
     (case opt_filter is_object (json_get delta ''extra_content'') of
        None \<Rightarrow> a0
      | Some extra \<Rightarrow>
          let a = (if json_get extra ''google'' \<noteq> None then chat_use_gemini_contract a0 else a0)
          in a\<lparr>cha_extra_content := merge_extra_content (cha_extra_content a) (replay_extra extra)\<rparr>)"

definition apply_reasoning :: "json \<Rightarrow> bool \<Rightarrow> chat_assembler \<Rightarrow> sink_event list \<times> chat_assembler" where
  "apply_reasoning delta snapshot a =
     (case Option.bind (or_else (json_get delta ''reasoning_content'') (json_get delta ''reasoning'')) as_str of
        None \<Rightarrow> ([], a)
      | Some s \<Rightarrow> push_reasoning s snapshot a)"

text \<open>\<open>pointer("/extra_content/google/thought")\<close> and \<open>pointer("/extra_content/google")\<close>.\<close>

definition google_extra :: "json \<Rightarrow> json option" where
  "google_extra v = Option.bind (json_get v ''extra_content'') (\<lambda>e. json_get e ''google'')"

definition marked_thought :: "json \<Rightarrow> bool option" where
  "marked_thought delta =
     Option.bind (Option.bind (google_extra delta) (\<lambda>g. json_get g ''thought'')) as_bool"

definition apply_content :: "json \<Rightarrow> bool \<Rightarrow> chat_assembler \<Rightarrow> sink_event list \<times> chat_assembler" where
  "apply_content delta snapshot a =
     (case or_else (opt_filter (\<lambda>s. s \<noteq> []) (get_str delta ''content'')) (get_str delta ''refusal'') of
        None \<Rightarrow> ([], a)
      | Some content \<Rightarrow>
          (case cha_gemini_thoughts a of
             None \<Rightarrow> emit_content content [] snapshot a
           | Some parser0 \<Rightarrow>
               (case thought_push content (marked_thought delta)
                       (if snapshot then thought_stream_new else parser0) of
                  ((visible, reasoning), parser) \<Rightarrow>
                    emit_content visible reasoning snapshot (a\<lparr>cha_gemini_thoughts := Some parser\<rparr>))))"

definition apply_tool_calls :: "json \<Rightarrow> bool \<Rightarrow> chat_assembler \<Rightarrow> chat_assembler" where
  "apply_tool_calls delta snapshot a0 =
     (case get_array delta ''tool_calls'' of
        None \<Rightarrow> a0
      | Some calls \<Rightarrow>
          let a = (if list_ex (\<lambda>c. google_extra c \<noteq> None) calls then chat_use_gemini_contract a0 else a0)
          in a\<lparr>cha_tools := fold (\<lambda>(pos, c). apply_chat_delta c pos snapshot)
                 (enumerate 0 calls) (cha_tools a)\<rparr>)"

definition apply_delta :: "json \<Rightarrow> bool \<Rightarrow> chat_assembler \<Rightarrow> sink_event list \<times> chat_assembler" where
  "apply_delta delta snapshot a =
     apsnd (apply_tool_calls delta snapshot)
       (emit_then (apply_reasoning delta snapshot) (apply_content delta snapshot)
          (apply_extra_content delta a))"

definition apply_choice :: "json \<Rightarrow> chat_assembler \<Rightarrow> sink_event list \<times> chat_assembler" where
  "apply_choice v a =
     (case Option.bind (get_array v ''choices'') (\<lambda>cs. case cs of [] \<Rightarrow> None | c # _ \<Rightarrow> Some c) of
        None \<Rightarrow> ([], a)
      | Some choice \<Rightarrow>
          let a' = apply_finish_reason choice a in
          (case or_else (json_get choice ''delta'') (json_get choice ''message'') of
             None \<Rightarrow> ([], a')
           | Some delta \<Rightarrow> apply_delta delta (json_get choice ''delta'' = None) a'))"

definition chat_apply_value :: "json \<Rightarrow> chat_assembler \<Rightarrow> sink_event list \<times> chat_assembler" where
  "chat_apply_value v = emit_then (apply_usage v) (apply_choice v)"

section \<open>The turn\<close>

definition json_nonempty_object :: "json \<Rightarrow> bool" where
  "json_nonempty_object v = (case as_object v of None \<Rightarrow> False | Some m \<Rightarrow> m \<noteq> [])"

definition chat_opaque :: "chat_assembler \<Rightarrow> json" where
  "chat_opaque a =
     (let reasoning = rec_emitted (cha_reasoning a);
          metadata = extra_content_by_call_id (cha_tools a);
          o0 = json_obj [(''protocol'', JString ''chat_completions''),
                 (''finish_reason'', json_opt_str (cha_finish_reason a))];
          o1 = (if reasoning = [] then o0 else put_field ''reasoning_content'' (JString reasoning) o0);
          o2 = (if json_nonempty_object metadata then put_field ''tool_call_extra_content'' metadata o1 else o1)
      in if json_nonempty_object (cha_extra_content a)
         then put_field ''extra_content'' (cha_extra_content a) o2 else o2)"

definition chat_finish :: "uuid_lib \<Rightarrow> json_lib \<Rightarrow> chat_assembler \<Rightarrow> model_turn" where
  "chat_finish U L a0 =
     (let a = snd (flush_content a0);
          calls = finished_tool_calls U L (cha_tools a)
      in \<lparr>turn_text = rec_emitted (cha_text a), turn_reasoning = rec_emitted (cha_reasoning a),
          turn_tool_calls = calls, turn_usage = cha_usage a,
          turn_terminal = (if calls \<noteq> [] \<or> cha_finish_reason a \<in> {Some ''tool_calls'', Some ''function_call''}
             then TermToolCalls else TermStop),
          turn_opaque = chat_opaque a\<rparr>)"

definition output_limit :: provider_error where
  "output_limit = ProviderError (''PROVIDER_OUTPUT_LIMIT: Output token limit reached; ''
     @ ''no tools from this truncated response were dispatched.'')"

fun check_finish_reason :: "str option \<Rightarrow> provider_error + unit" where
  "check_finish_reason None =
     Inl (ProviderError ''PROVIDER_STREAM_CLOSED: Response ended without a finish reason.'')"
| "check_finish_reason (Some r) =
     (if r = ''stop'' \<or> r = ''tool_calls'' then Inr ()
      else if r = ''length'' then Inl output_limit
      else if r = ''insufficient_system_resource''
      then Inl (ProviderError
        ''PROVIDER_RESOURCE_UNAVAILABLE: Provider could not complete this response.'')
      else Inl (ProviderError
        ''PROVIDER_FINISH_ERROR: Provider did not return a successful finish reason.''))"

definition chat_finish_checked :: "uuid_lib \<Rightarrow> json_lib \<Rightarrow> chat_assembler \<Rightarrow> provider_error + model_turn" where
  "chat_finish_checked U L a =
     res_bind (check_finish_reason (cha_finish_reason a)) (\<lambda>_.
       res_bind (validate_assembler L (cha_tools a)) (\<lambda>_.
         let turn = chat_finish U L a in
         res_bind (validate_turn turn) (\<lambda>_. Inr turn)))"

section \<open>What was shown is what the turn holds\<close>

definition chat_texts :: "chat_assembler \<Rightarrow> str \<times> str" where
  "chat_texts a = (rec_emitted (cha_text a), rec_emitted (cha_reasoning a))"

lemma emits_pushes [tracking]:
  "emits chat_texts (push_reasoning t snapshot)" "emits chat_texts (push_text t snapshot)"
  by (auto simp: emits_def push_reasoning_def push_text_def chat_texts_def grows_by_def
      dest: push_compatible_grows split: prod.split)

lemma emits_content [tracking]: "emits chat_texts (emit_content v r snapshot)"
  unfolding emit_content_def by (intro tracking)

lemma chat_texts_update [simp]:
  "chat_texts (a\<lparr>cha_gemini_thoughts := t\<rparr>) = chat_texts a"
  "chat_texts (a\<lparr>cha_tools := c\<rparr>) = chat_texts a"
  "chat_texts (a\<lparr>cha_usage := u\<rparr>) = chat_texts a"
  "chat_texts (a\<lparr>cha_finish_reason := f\<rparr>) = chat_texts a"
  "chat_texts (a\<lparr>cha_extra_content := x\<rparr>) = chat_texts a"
  "chat_texts (chat_use_gemini_contract a) = chat_texts a"
  "chat_texts (chat_use_deepseek_contract a) = chat_texts a"
  "chat_texts (apply_tool_calls d b a) = chat_texts a"
  "chat_texts (apply_extra_content d a) = chat_texts a"
  "chat_texts (apply_finish_reason d a) = chat_texts a"
  "chat_texts (chat_new allow) = ([], [])"
  by (auto simp: chat_texts_def chat_use_gemini_contract_def chat_use_deepseek_contract_def
      apply_tool_calls_def apply_extra_content_def apply_finish_reason_def chat_new_def Let_def
      reconciler_new_def split: option.split)

lemma emits_steps [tracking]:
  "emits chat_texts flush_content" "emits chat_texts (apply_usage v)"
  "emits chat_texts (apply_reasoning v b)" "emits chat_texts (apply_content v b)"
  unfolding emits_def flush_content_def apply_usage_def apply_reasoning_def apply_content_def
  by (auto simp: grows_by_def [where events = "[_]"] split: option.split prod.split
      intro!: emits_at [OF emits_content] emits_at [OF emits_pushes(1)])

lemma emits_delta [tracking]: "emits chat_texts (apply_delta v b)"
proof -
  have e: "emits chat_texts (emit_then (apply_reasoning v b) (apply_content v b))"
    by (intro tracking)
  show ?thesis
    unfolding emits_def apply_delta_def by (simp add: emits_at [OF e])
qed

lemma emits_choice [tracking]: "emits chat_texts (apply_choice v)"
  unfolding emits_def apply_choice_def
  by (auto simp: Let_def split: option.split intro!: emits_at [OF emits_delta])

lemma emits_value [tracking]: "emits chat_texts (chat_apply_value v)"
  unfolding chat_apply_value_def by (intro tracking)

text \<open>The values of a response, one after the other.\<close>

fun chat_apply_all :: "json list \<Rightarrow> chat_assembler \<Rightarrow> sink_event list \<times> chat_assembler" where
  "chat_apply_all [] = Pair []"
| "chat_apply_all (v # vs) = emit_then (chat_apply_value v) (chat_apply_all vs)"

lemma emits_all [tracking]: "emits chat_texts (chat_apply_all vs)"
  by (induction vs) (auto intro: tracking)

lemma emit_content_empty [simp]: "emit_content [] [] b a = ([], a)"
  by (simp add: emit_content_def emit_then_def)

lemma emit_content_keeps [simp]:
  "cha_gemini_thoughts (snd (emit_content v r b a)) = cha_gemini_thoughts a"
  by (auto simp: emit_content_def emit_then_def push_reasoning_def push_text_def split: prod.split)

lemma flush_again: "chat_texts (snd (flush_content (snd (flush_content a)))) = chat_texts (snd (flush_content a))"
proof (cases "cha_gemini_thoughts a")
  case (Some parser)
  obtain v r parser' where f: "thought_finish parser = ((v, r), parser')" by (metis surj_pair)
  then have p: "ths_pending parser' = []" by (auto simp: thought_finish_def)
  let ?b = "snd (emit_content v r False (a\<lparr>cha_gemini_thoughts := Some parser'\<rparr>))"
  have "snd (flush_content a) = ?b" "cha_gemini_thoughts ?b = Some parser'"
    by (simp_all add: flush_content_def Some f)
  then show ?thesis
    by (simp add: flush_content_def [of ?b] thought_finish_def p to_side_def)
qed (simp add: flush_content_def)

lemma chat_finish_texts:
  "(turn_text (chat_finish U L (snd (flush_content a))), turn_reasoning (chat_finish U L (snd (flush_content a))))
     = chat_texts (snd (flush_content a))"
  using flush_again [of a] by (auto simp: chat_finish_def Let_def chat_texts_def)

text \<open>
  A turn of the chat-completions protocol holds what was shown. Whatever values a response
  carries, under either contract, the text and the reasoning of the finished turn are exactly
  the concatenation of the deltas the sink received, in order, with the last flush.
\<close>

theorem chat_turn_is_what_was_shown:
  "(case emit_then (chat_apply_all values) flush_content
           ((if gemini then chat_use_gemini_contract else id)
             ((if deepseek then chat_use_deepseek_contract else id) (chat_new allow))) of
      (shown, a) \<Rightarrow>
        turn_text (chat_finish U L a) = shown_text shown
        \<and> turn_reasoning (chat_finish U L a) = shown_reasoning shown)"
proof -
  define start where "start = (if gemini then chat_use_gemini_contract else id)
             ((if deepseek then chat_use_deepseek_contract else id) (chat_new allow))"
  have texts: "chat_texts start = ([], [])" by (simp add: start_def)
  have e: "emits chat_texts (emit_then (chat_apply_all values) flush_content)" by (intro tracking)
  obtain shown a where run: "emit_then (chat_apply_all values) flush_content start = (shown, a)"
    by fastforce
  then have a: "\<exists>b. a = snd (flush_content b)"
    by (metis (no_types, lifting) emit_then_def prod.case_eq_if apfst_conv prod.collapse snd_apfst snd_conv)
  have "grows_by ([], []) shown (chat_texts a)"
    using emitsD [OF e run] texts by simp
  moreover have "chat_texts (snd (flush_content a)) = chat_texts a"
    using a flush_again by blast
  ultimately show ?thesis
    unfolding start_def [symmetric] run
    by (auto simp: grows_by_def chat_finish_def Let_def chat_texts_def)
qed

section \<open>Which responses are turns\<close>

text \<open>
  A truncated response dispatches no tools. A finished turn of the chat-completions protocol
  comes from a response that ended with \<open>stop\<close> or \<open>tool_calls\<close>; it is in tool mode exactly when it
  has calls or the provider said so, in which case it does have calls; each of its calls has a
  name, an object of arguments and an identifier of its own.
\<close>

theorem chat_turns_are_complete:
  assumes "chat_finish_checked U L a = Inr turn"
  shows "cha_finish_reason a \<in> {Some ''stop'', Some ''tool_calls''}
    \<and> turn = chat_finish U L a
    \<and> (turn_terminal turn = TermToolCalls) = (turn_tool_calls turn \<noteq> [])
    \<and> turn_terminal turn \<in> {TermToolCalls, TermStop}
    \<and> list_all dispatchable (turn_tool_calls turn)
    \<and> distinct (map call_provider_call_id (turn_tool_calls turn))"
proof -
  have reason: "check_finish_reason (cha_finish_reason a) = Inr ()"
    and turn: "turn = chat_finish U L a" and ok: "validate_turn turn = Inr ()"
    using assms by (auto simp: chat_finish_checked_def Let_def res_bind_Inr_iff)
  from reason have "cha_finish_reason a \<in> {Some ''stop'', Some ''tool_calls''}"
    by (cases "cha_finish_reason a") (auto split: if_splits)
  moreover have "turn_terminal turn = (if turn_tool_calls turn \<noteq> [] \<or>
      cha_finish_reason (snd (flush_content a)) \<in> {Some ''tool_calls'', Some ''function_call''}
      then TermToolCalls else TermStop)"
    by (simp add: turn chat_finish_def Let_def)
  ultimately show ?thesis
    using ok turn validated_turn_calls [OF ok] by (auto simp: validate_turn_def split: if_splits)
qed

definition sample_value :: json where
  "sample_value = json_obj [(''choices'', JArray [json_obj
     [(''delta'', json_obj [(''content'', JString ''ok'')]), (''finish_reason'', JString ''stop'')]])]"

definition sample_chat :: chat_assembler where
  "sample_chat = snd (chat_apply_value sample_value (chat_new False))"

lemma sample_chat_is:
  "sample_chat = (chat_new False)\<lparr>cha_text := \<lparr>rec_emitted = ''ok'', rec_cumulative = False\<rparr>,
     cha_finish_reason := Some ''stop''\<rparr>"
  by code_simp

lemma sample_chat_turn:
  "turn_text (chat_finish U L sample_chat) = ''ok''"
  "turn_tool_calls (chat_finish U L sample_chat) = []"
  "turn_terminal (chat_finish U L sample_chat) = TermStop"
  by (simp_all add: sample_chat_is chat_finish_def flush_content_def chat_new_def Let_def
      finished_tool_calls_def finish_assembler_def assembler_new_def)

lemma sample_chat_finishes:
  "chat_finish_checked U L sample_chat
     = Inr (chat_finish U L sample_chat)"
proof -
  have "trim ''ok'' = ''ok''" by (simp add: trim_graphic graphic_def)
  then have "validate_turn (chat_finish U L sample_chat) = Inr ()"
    by (simp add: validate_turn_def sample_chat_turn)
  then show ?thesis
    by (simp add: chat_finish_checked_def sample_chat_is chat_new_def validate_assembler_def
        assembler_new_def Let_def)
qed

theorem chat_turns_are_complete_witness:
  "(case chat_finish_checked sample_uuid_lib sample_json_lib sample_chat of
      Inl _ \<Rightarrow> False
    | Inr turn \<Rightarrow> turn_text turn = ''ok'' \<and> turn_terminal turn = TermStop
        \<and> distinct (map call_provider_call_id (turn_tool_calls turn)))"
  using chat_turns_are_complete [OF sample_chat_finishes]
  by (simp add: sample_chat_finishes sample_chat_turn)

end
