(* ===== verification/Model_Families.thy ===== *)
theory Model_Families
  imports Chat_Completions
begin

text \<open>
  What the families of models accept (\<open>strategy.rs\<close> and the modules \<open>openai\<close>, \<open>gemini\<close>,
  \<open>deepseek\<close>, \<open>codex\<close>, \<open>qwen\<close>, \<open>kimi\<close> and \<open>custom\<close> of \<open>aifluxon-providers\<close>): protocols, efforts of
  reasoning, and the fields that ask for them in the body of a request.
\<close>

section \<open>Strategy\<close>

record model_api_capabilities =
  supports_chat_completions :: bool
  supports_responses :: bool

definition CHAT_ONLY :: model_api_capabilities where
  "CHAT_ONLY = \<lparr>supports_chat_completions = True, supports_responses = False\<rparr>"

definition CHAT_AND_RESPONSES :: model_api_capabilities where
  "CHAT_AND_RESPONSES = \<lparr>supports_chat_completions = True, supports_responses = True\<rparr>"

definition RESPONSES_ONLY :: model_api_capabilities where
  "RESPONSES_ONLY = \<lparr>supports_chat_completions = False, supports_responses = True\<rparr>"

definition model_is_family :: "str \<Rightarrow> str \<Rightarrow> bool" where
  "model_is_family model family =
     (model = family
      \<or> (case strip_prefix family model of None \<Rightarrow> False | Some r \<Rightarrow> starts_with r ''-''))"

definition in_families :: "str \<Rightarrow> str list \<Rightarrow> bool" where
  "in_families model families = list_ex (model_is_family model) families"

definition normalized_model :: "str \<Rightarrow> str" where
  "normalized_model model = to_ascii_lowercase (trim model)"

definition effort_names :: "str list" where
  "effort_names = [''none'', ''minimal'', ''low'', ''medium'', ''high'', ''xhigh'', ''max'']"

definition effort_fallbacks :: "str \<Rightarrow> str list" where
  "effort_fallbacks requested =
     (if requested = ''none'' then [''minimal'', ''low'', ''medium'', ''high'', ''xhigh'', ''max'']
      else if requested = ''minimal'' then [''low'', ''none'', ''medium'', ''high'', ''xhigh'', ''max'']
      else if requested = ''low'' then [''minimal'', ''none'', ''medium'', ''high'', ''xhigh'', ''max'']
      else if requested = ''medium'' then [''low'', ''high'', ''minimal'', ''none'', ''xhigh'', ''max'']
      else if requested = ''high'' then [''medium'', ''xhigh'', ''max'', ''low'', ''minimal'', ''none'']
      else if requested = ''xhigh'' then [''max'', ''high'', ''medium'', ''low'', ''minimal'', ''none'']
      else if requested = ''max'' then [''xhigh'', ''high'', ''medium'', ''low'', ''minimal'', ''none'']
      else [])"

definition normalize_effort :: "str list \<Rightarrow> str \<Rightarrow> str" where
  "normalize_effort supported requested =
     (if requested = [] \<or> requested = ''default'' then ''default''
      else if requested \<in> set supported then requested
      else unwrap_or ''default'' (find (\<lambda>c. c \<in> set supported) (effort_fallbacks requested)))"

section \<open>Fields of a body\<close>

text \<open>\<open>body[k1][k2]... = x\<close>, where \<open>null\<close> and missing values become objects.\<close>

fun put_path :: "str list \<Rightarrow> json \<Rightarrow> json \<Rightarrow> json" where
  "put_path [] x v = x"
| "put_path (k # ks) x v = put_field k (put_path ks x (unwrap_or JNull (json_get v k))) v"

definition drop_field :: "str \<Rightarrow> json \<Rightarrow> json" where
  "drop_field k v = (case v of JObject m \<Rightarrow> JObject (json_remove k m) | _ \<Rightarrow> v)"

definition json_nat :: "nat \<Rightarrow> json" where
  "json_nat n = JNumber (PosInt (of_nat n))"

text \<open>\<open>if !body.get(k).is_some_and(Value::is_object) { body[k] = json!({}) }\<close>\<close>

definition ensure_object :: "str \<Rightarrow> json \<Rightarrow> json" where
  "ensure_object k body =
     (case opt_filter is_object (json_get body k) of
        None \<Rightarrow> put_field k (JObject []) body | Some _ \<Rightarrow> body)"

section \<open>OpenAI\<close>

definition model_requires_responses :: "str \<Rightarrow> bool" where
  "model_requires_responses model0 =
     (let model = normalized_model model0 in
      model = ''codex-mini-latest''
      \<or> starts_with model ''gpt-5''
        \<and> (contains_str model ''-codex''
           \<or> in_families model [''gpt-5-pro'', ''gpt-5.2-pro'', ''gpt-5.4-pro'', ''gpt-5.5-pro'']))"

definition openai_capabilities :: "str \<Rightarrow> model_api_capabilities" where
  "openai_capabilities model =
     (if model_requires_responses model then RESPONSES_ONLY else CHAT_AND_RESPONSES)"

definition openai_efforts :: "str \<Rightarrow> str list" where
  "openai_efforts model0 =
     (let model = normalized_model model0 in
      if model_is_family model ''gpt-5.6'' then [''none'', ''low'', ''medium'', ''high'', ''xhigh'', ''max'']
      else if in_families model [''gpt-5.5-pro'', ''gpt-5.4-pro'', ''gpt-5.2-pro'']
      then [''medium'', ''high'', ''xhigh'']
      else if in_families model [''gpt-5.3-codex'', ''gpt-5.2-codex'', ''gpt-5.1-codex'']
      then [''low'', ''medium'', ''high'', ''xhigh'']
      else if in_families model [''gpt-5.5'', ''gpt-5.4'', ''gpt-5.2'']
      then [''none'', ''low'', ''medium'', ''high'', ''xhigh'']
      else if model_is_family model ''gpt-5.1'' then [''none'', ''low'', ''medium'', ''high'']
      else if model = ''gpt-5-pro'' \<or> in_families model [''o1-pro'', ''o3-pro''] then [''high'']
      else if model_is_family model ''gpt-5'' then [''minimal'', ''low'', ''medium'', ''high'']
      else if in_families model [''o1'', ''o3'', ''o4''] then [''low'', ''medium'', ''high'']
      else [])"

text \<open>A requested effort that is there: \<open>requested.map(str::trim).filter(not empty)\<close>.\<close>

definition requested_effort :: "str option \<Rightarrow> str option" where
  "requested_effort requested = opt_filter (\<lambda>r. r \<noteq> []) (map_option trim requested)"

definition openai_chat_reasoning :: "str \<Rightarrow> str option \<Rightarrow> json \<Rightarrow> json" where
  "openai_chat_reasoning model requested body =
     (case requested_effort requested of
        None \<Rightarrow> body
      | Some r \<Rightarrow>
          let effort = normalize_effort (openai_efforts model) r in
          if effort = ''default'' then body else put_field ''reasoning_effort'' (JString effort) body)"

definition ask_summary :: "json \<Rightarrow> json" where
  "ask_summary body = put_path [''reasoning'', ''summary''] (JString ''auto'') (ensure_object ''reasoning'' body)"

definition openai_responses_reasoning :: "str \<Rightarrow> str option \<Rightarrow> bool \<Rightarrow> json \<Rightarrow> json" where
  "openai_responses_reasoning model requested include_summary body =
     (case requested_effort requested of
        None \<Rightarrow> if include_summary then ask_summary body else body
      | Some r \<Rightarrow>
          let effort = normalize_effort (openai_efforts model) r in
          if effort \<noteq> ''default''
          then let body1 = put_path [''reasoning'', ''effort''] (JString effort) (ensure_object ''reasoning'' body)
               in if include_summary \<and> effort \<noteq> ''none''
                  then put_path [''reasoning'', ''summary''] (JString ''auto'') body1 else body1
          else if include_summary then ask_summary body else body)"

section \<open>Gemini\<close>

definition gemini_efforts :: "str \<Rightarrow> str list" where
  "gemini_efforts model0 =
     (let model = normalized_model model0; standard = [''low'', ''medium'', ''high''];
          minimal = [''minimal'', ''low'', ''medium'', ''high''] in
      if in_families model [''gemini-3.8'', ''gemini-3.7'', ''gemini-4''] then standard
      else if in_families model [''gemini-3.5'', ''gemini-3.6''] then minimal
      else if model_is_family model ''gemini-3.1-pro'' then standard
      else if in_families model [''gemini-3-flash'', ''gemini-3.1-flash-lite''] then minimal
      else if model_is_family model ''gemini-2.5-pro'' then standard
      else if model_is_family model ''gemini-2.5'' then [''none'', ''low'', ''medium'', ''high'']
      else if model_is_family model ''gemini-3-pro'' then [''low'', ''high'']
      else [])"

definition thinking_budget_of :: "str \<Rightarrow> nat" where
  "thinking_budget_of effort =
     (if effort = ''none'' then 0
      else if effort = ''low'' \<or> effort = ''minimal'' then 1024
      else if effort = ''medium'' then 8192
      else 24576)"

definition gemini_chat_reasoning :: "str \<Rightarrow> str option \<Rightarrow> json \<Rightarrow> json" where
  "gemini_chat_reasoning model requested body =
     (if gemini_efforts model = [] then body
      else
        let effort = normalize_effort (gemini_efforts model) (trim (unwrap_or ''default'' requested));
            t0 = json_obj [(''include_thoughts'', JBool True)];
            thinking =
              (if effort = ''default'' then t0
               else if starts_with (normalized_model model) ''gemini-2.5''
               then put_field ''thinking_budget'' (json_nat (thinking_budget_of effort)) t0
               else put_field ''thinking_level'' (JString effort) t0)
        in put_path [''extra_body'', ''google'', ''thinking_config''] thinking (drop_field ''reasoning_effort'' body))"

section \<open>DeepSeek\<close>

definition deepseek_max_output_tokens :: "str \<Rightarrow> nat option" where
  "deepseek_max_output_tokens model0 =
     (let model = normalized_model model0 in
      if starts_with model ''deepseek-v4'' \<or> model = ''deepseek-flash'' then Some 256000 else None)"

definition is_v4_flash :: "str \<Rightarrow> bool" where
  "is_v4_flash model = model_is_family (normalized_model model) ''deepseek-v4-flash''"

definition is_current_flash :: "str \<Rightarrow> bool" where
  "is_current_flash model = model_is_family (normalized_model model) ''deepseek-flash''"

definition supports_image_input :: "str \<Rightarrow> bool" where
  "supports_image_input model =
     (is_current_flash model \<or> model_is_family (normalized_model model) ''deepseek-v4-flash-vision-exp'')"

definition supports_low_reasoning_effort :: "str \<Rightarrow> bool" where
  "supports_low_reasoning_effort model = (is_current_flash model \<or> is_v4_flash model)"

definition supports_thinking_toggle :: "str \<Rightarrow> bool" where
  "supports_thinking_toggle model =
     (is_current_flash model \<or> starts_with (normalized_model model) ''deepseek-v4'')"

definition deepseek_normalize_effort :: "str \<Rightarrow> str \<Rightarrow> str" where
  "deepseek_normalize_effort model requested =
     (if requested = ''low'' \<and> \<not> supports_low_reasoning_effort model then ''high'' else requested)"

definition deepseek_responses_reasoning :: "bool \<Rightarrow> str \<Rightarrow> json \<Rightarrow> json" where
  "deepseek_responses_reasoning thinking_enabled effort =
     put_field ''reasoning'' (json_obj [(''effort'', JString (if thinking_enabled then effort else ''none''))])"

definition deepseek_chat_thinking :: "bool \<Rightarrow> str \<Rightarrow> json \<Rightarrow> json" where
  "deepseek_chat_thinking thinking_enabled effort body =
     (let body1 = put_field ''thinking''
            (json_obj [(''type'', JString (if thinking_enabled then ''enabled'' else ''disabled''))]) body
      in if thinking_enabled then put_field ''reasoning_effort'' (JString effort) body1 else body1)"

definition tool_mode_error_status :: "nat \<Rightarrow> bool" where
  "tool_mode_error_status status = (status \<in> {400, 422, 500})"

section \<open>Codex\<close>

definition codex_responses_contract :: "str \<Rightarrow> json \<Rightarrow> json" where
  "codex_responses_contract effort body0 =
     (let body1 = put_field ''include'' (JArray [JString ''reasoning.encrypted_content'']) body0;
          body2 = put_path [''reasoning'', ''summary'']
            (JString (if effort = ''none'' then ''none'' else ''auto'')) (ensure_object ''reasoning'' body1)
      in put_path [''text'', ''verbosity''] (JString ''medium'') (ensure_object ''text'' body2))"

definition should_continue_end_turn :: "json \<Rightarrow> bool" where
  "should_continue_end_turn state = (Option.bind (json_get state ''end_turn'') as_bool = Some False)"

section \<open>Qwen and Kimi\<close>

definition qwen_responses_models :: "str list" where
  "qwen_responses_models =
     [''qwen3.7-max'', ''qwen3-max'', ''qwen3.7-plus'', ''qwen3.6-plus'', ''qwen3.5-plus'',
      ''qwen3.6-flash'', ''qwen3.5-flash'', ''qwen3.6-35b-a3b'', ''qwen3.5-397b-a17b'',
      ''qwen3.5-122b-a10b'', ''qwen3.5-27b'', ''qwen3.5-35b-a3b'', ''qwen-plus'', ''qwen-flash'',
      ''qwen3-coder-plus'', ''qwen3-coder-flash'', ''qwen3.5-ocr'', ''qwen-plus-character'',
      ''qwen-flash-character'']"

definition qwen_capabilities :: "str \<Rightarrow> model_api_capabilities" where
  "qwen_capabilities model =
     (if in_families (normalized_model model) qwen_responses_models then CHAT_AND_RESPONSES else CHAT_ONLY)"

datatype thinking_support = ThinkingUnsupported | ThinkingHybrid | ThinkingAlways

definition qwen_thinking_support :: "str \<Rightarrow> thinking_support" where
  "qwen_thinking_support model0 =
     (let model = normalized_model model0 in
      if contains_str model ''-thinking'' \<or> starts_with model ''qwq'' then ThinkingAlways
      else if contains_str model ''-instruct'' \<or> in_families model [''qwen3-coder-next'', ''qwen3-coder-plus'']
      then ThinkingUnsupported
      else if starts_with model ''qwen3'' \<or> in_families model [''qwen-plus'', ''qwen-flash'', ''qwen-turbo'']
      then ThinkingHybrid
      else ThinkingUnsupported)"

text \<open>\<open>str::parse::<u32>\<close>: digits after an optional plus sign, within the width.\<close>

definition parse_u32 :: "str \<Rightarrow> nat option" where
  "parse_u32 s =
     (let digits = unwrap_or s (strip_prefix ''+'' s) in
      if digits = [] \<or> \<not> list_all is_ascii_digit digits then None
      else opt_filter (\<lambda>n. n < 2 ^ 32) (Some (foldl (\<lambda>n c. n * 10 + (of_char c - 48)) 0 digits)))"

definition qwen_chat_thinking :: "str \<Rightarrow> str \<Rightarrow> str \<Rightarrow> json \<Rightarrow> json" where
  "qwen_chat_thinking model mode budget body =
     (let support = qwen_thinking_support model;
          body1 = (if support = ThinkingHybrid
                   then (if trim mode = ''enabled'' then put_field ''enable_thinking'' (JBool True) body
                         else if trim mode = ''disabled'' then put_field ''enable_thinking'' (JBool False) body
                         else body)
                   else body)
      in if support = ThinkingUnsupported then body
         else if support = ThinkingAlways \<or> trim mode = ''enabled''
         then (case opt_filter (\<lambda>n. 0 < n) (parse_u32 (trim budget)) of
                 None \<Rightarrow> body1 | Some n \<Rightarrow> put_field ''thinking_budget'' (json_nat n) body1)
         else body1)"

definition qwen_responses_reasoning :: "str \<Rightarrow> json \<Rightarrow> json" where
  "qwen_responses_reasoning mode body =
     (if mode = ''disabled'' then put_field ''reasoning'' (json_obj [(''effort'', JString ''none'')]) body
      else if mode = ''enabled'' then put_field ''reasoning'' (json_obj [(''effort'', JString ''medium'')]) body
      else body)"

definition is_official_config :: "str \<Rightarrow> str \<Rightarrow> str \<Rightarrow> bool" where
  "is_official_config provider base_url model =
     (to_ascii_lowercase provider = ''kimi''
      \<or> contains_str (normalized_model base_url) ''api.moonshot''
        \<and> starts_with (normalized_model model) ''kimi-'')"

definition kimi_chat_thinking :: "str \<Rightarrow> json \<Rightarrow> json" where
  "kimi_chat_thinking model0 body =
     (let model = normalized_model model0 in
      if starts_with model ''kimi-k2.6''
      then put_field ''thinking'' (json_obj [(''type'', JString ''enabled''), (''keep'', JString ''all'')]) body
      else if starts_with model ''kimi-k2.5''
      then put_field ''thinking'' (json_obj [(''type'', JString ''enabled'')]) body
      else body)"

definition kimi_chat_limits :: "nat \<Rightarrow> json \<Rightarrow> json" where
  "kimi_chat_limits n = put_field ''max_completion_tokens'' (json_nat n)"

section \<open>Efforts are supported\<close>

lemma fallbacks_cover:
  "r \<in> set effort_names \<Longrightarrow> set (effort_fallbacks r) = set effort_names - {r}"
  "r \<notin> set effort_names \<Longrightarrow> effort_fallbacks r = []"
  by (auto simp: effort_names_def effort_fallbacks_def)

lemma effort_tables_named:
  "set (openai_efforts model) \<subseteq> set effort_names" "set (gemini_efforts model) \<subseteq> set effort_names"
  by (auto simp: openai_efforts_def gemini_efforts_def effort_names_def Let_def)

lemma find_in_fallbacks:
  assumes "r \<in> set effort_names" "r \<notin> set T" "set T \<subseteq> set effort_names" "T \<noteq> []"
  shows "unwrap_or ''default'' (find (\<lambda>c. c \<in> set T) (effort_fallbacks r)) \<in> set T"
proof -
  obtain t where "t \<in> set T" using assms(4) by (cases T) auto
  with assms fallbacks_cover(1) [OF assms(1)] have "t \<in> set (effort_fallbacks r)" by auto
  with \<open>t \<in> set T\<close> obtain c where "find (\<lambda>c. c \<in> set T) (effort_fallbacks r) = Some c"
    by (metis (mono_tags, lifting) find_None_iff option.exhaust)
  moreover from this have "c \<in> set T" unfolding find_Some_iff by blast
  ultimately show ?thesis by simp
qed

lemma normalize_effort_meaning:
  assumes "set T \<subseteq> set effort_names"
  shows "normalize_effort T r \<in> insert ''default'' (set T)"
    "(normalize_effort T r = ''default'') = (T = [] \<or> r \<notin> set effort_names)"
    "(normalize_effort T r = r) = (r \<in> set T \<or> r = ''default'')"
proof -
  have names: "''default'' \<notin> set effort_names" "[] \<notin> set effort_names" by (simp_all add: effort_names_def)
  then have T: "''default'' \<notin> set T" "[] \<notin> set T" using assms by auto
  consider (none) "r = [] \<or> r = ''default''" | (own) "r \<noteq> [] \<and> r \<noteq> ''default''" "r \<in> set T"
    | (other) "r \<noteq> [] \<and> r \<noteq> ''default''" "r \<notin> set T" "r \<notin> set effort_names"
    | (empty) "r \<noteq> [] \<and> r \<noteq> ''default''" "r \<in> set effort_names" "T = []"
    | (near) "r \<noteq> [] \<and> r \<noteq> ''default''" "r \<notin> set T" "r \<in> set effort_names" "T \<noteq> []" by blast
  then have "normalize_effort T r \<in> insert ''default'' (set T)
    \<and> (normalize_effort T r = ''default'') = (T = [] \<or> r \<notin> set effort_names)
    \<and> (normalize_effort T r = r) = (r \<in> set T \<or> r = ''default'')"
  proof cases
    case near
    with find_in_fallbacks [OF near(3,2) assms near(4)] T show ?thesis
      by (auto simp: normalize_effort_def)
  next
    case empty
    have "find (\<lambda>c. False) xs = None" for xs :: "str list" by (induction xs) simp_all
    with empty show ?thesis by (simp add: normalize_effort_def eq_commute [of _ r])
  qed (use names T assms in \<open>auto simp: normalize_effort_def fallbacks_cover(2)\<close>)
  then show "normalize_effort T r \<in> insert ''default'' (set T)"
    "(normalize_effort T r = ''default'') = (T = [] \<or> r \<notin> set effort_names)"
    "(normalize_effort T r = r) = (r \<in> set T \<or> r = ''default'')" by blast+
qed

text \<open>
  An effort is never sent to a model that does not support it. Whatever is requested of a
  model of OpenAI or of Gemini, the normalised effort is supported or it is \<open>default\<close>; it is
  \<open>default\<close> exactly for an unknown request or a model without efforts; and a request is kept
  exactly when it is supported.
\<close>

theorem normalized_effort_is_supported:
  "let T = (if gemini then gemini_efforts model else openai_efforts model) in
     normalize_effort T r \<in> insert ''default'' (set T)
     \<and> (normalize_effort T r = ''default'') = (T = [] \<or> r \<notin> set effort_names)
     \<and> (normalize_effort T r = r) = (r \<in> set T \<or> r = ''default'')"
  using normalize_effort_meaning [OF effort_tables_named(1), of model r]
    normalize_effort_meaning [OF effort_tables_named(2), of model r]
  by (simp add: Let_def)

end
