(* ===== verification/Responses_Body.thy ===== *)
theory Responses_Body
  imports Chat_Completions
begin

text \<open>
  The body of a request of the Responses protocol (first half of
  \<open>openai_compatible/responses.rs\<close>). \<open>call_ids\<close>, the hash map from invocations to the
  identifiers the provider knows their calls by, is threaded through the messages.
\<close>

section \<open>Contents\<close>

definition single_text_content :: "message \<Rightarrow> str option" where
  "single_text_content m = (case msg_content m of [PartText text] \<Rightarrow> Some text | _ \<Rightarrow> None)"

fun responses_role :: "message_role \<Rightarrow> str" where
  "responses_role RoleSystem = ''system''"
| "responses_role RoleUser = ''user''"
| "responses_role RoleAssistant = ''assistant''"
| "responses_role RoleTool = ''user''"

definition image_to_responses_wire :: "image_content \<Rightarrow> json" where
  "image_to_responses_wire i =
     (let reference = artifact_str (img_artifact i) in
      if image_is_file_id reference
      then json_obj [(''type'', JString ''input_image''), (''file_id'', JString reference)]
      else json_obj [(''type'', JString ''input_image''), (''image_url'', JString reference)])"

definition part_to_responses_wire :: "str \<Rightarrow> content_part \<Rightarrow> json" where
  "part_to_responses_wire text_type part =
     (case part of
        PartText text \<Rightarrow> json_obj [(''type'', JString text_type), (''text'', JString text)]
      | PartImage i \<Rightarrow> image_to_responses_wire i)"

definition responses_content :: "message \<Rightarrow> json" where
  "responses_content m =
     (case msg_content m of
        [PartText text] \<Rightarrow> JString text
      | parts \<Rightarrow>
          JArray (map (part_to_responses_wire
            (if msg_role m = RoleAssistant then ''output_text'' else ''input_text'')) parts))"

fun responses_content_is_present :: "json \<Rightarrow> bool" where
  "responses_content_is_present (JString text) = (trim text \<noteq> [])"
| "responses_content_is_present (JArray parts) = (parts \<noteq> [])"
| "responses_content_is_present _ = False"

fun text_of_part :: "content_part \<Rightarrow> str option" where
  "text_of_part (PartText text) = Some text"
| "text_of_part (PartImage _) = None"

definition tool_output_text :: "message \<Rightarrow> str" where
  "tool_output_text m =
     (case List.map_filter text_of_part (msg_content m) of [text] \<Rightarrow> text | texts \<Rightarrow> concat texts)"

definition tool_output_content :: "message \<Rightarrow> json" where
  "tool_output_content m =
     (if \<not> list_ex (\<lambda>part. text_of_part part = None) (msg_content m)
      then JString (tool_output_text m)
      else JArray (map (part_to_responses_wire ''input_text'') (msg_content m)))"

text \<open>\<open>value_to_tool_output\<close> and \<open>arguments_to_responses_wire\<close>.\<close>

definition value_to_tool_output :: "json_lib \<Rightarrow> json \<Rightarrow> str" where
  "value_to_tool_output L v = (case v of JString text \<Rightarrow> text | _ \<Rightarrow> lib_print L v)"

definition arguments_to_responses_wire :: "json_lib \<Rightarrow> json \<Rightarrow> str" where
  "arguments_to_responses_wire L v = (case v of JString text \<Rightarrow> text | _ \<Rightarrow> lib_print L v)"

definition reasoning_content_from_message :: "message \<Rightarrow> str option" where
  "reasoning_content_from_message m =
     Option.bind (msg_provider_state m) (\<lambda>state.
       opt_filter (\<lambda>c. c \<noteq> []) (map_option trim (get_str state ''reasoning_content'')))"

section \<open>Items that are replayed\<close>

definition function_call_output_from_chat_item :: "json_lib \<Rightarrow> json \<Rightarrow> json" where
  "function_call_output_from_chat_item L item =
     json_obj [(''type'', JString ''function_call_output''),
       (''call_id'', JString (unwrap_or []
          (Option.bind (or_else (json_get item ''tool_call_id'') (json_get item ''call_id'')) as_str))),
       (''output'', JString (unwrap_or []
          (map_option (value_to_tool_output L) (or_else (json_get item ''output'') (json_get item ''content'')))))]"

definition persisted_types :: "str list" where
  "persisted_types = [''reasoning'', ''function_call'', ''function_call_output'',
     ''web_search_call'', ''custom_tool_call'', ''custom_tool_call_output'']"

definition persisted_item :: "json_lib \<Rightarrow> json \<Rightarrow> json option" where
  "persisted_item L item =
     (if get_str item ''role'' = Some ''tool'' then Some (function_call_output_from_chat_item L item)
      else case get_str item ''type'' of
             None \<Rightarrow> None
           | Some t \<Rightarrow>
               if t = ''message'' \<and> get_str item ''role'' = Some ''assistant'' then Some item
               else if t \<in> set persisted_types then Some item
               else None)"

definition filter_persisted_turn_items :: "json_lib \<Rightarrow> json list \<Rightarrow> json list" where
  "filter_persisted_turn_items L items = List.map_filter (persisted_item L) items"

definition is_replayed_type :: "json \<Rightarrow> bool" where
  "is_replayed_type item = (get_str item ''type'' \<in> {Some ''reasoning'', Some ''web_search_call''})"

definition codex_style_partial_replay_items :: "json list \<Rightarrow> json list" where
  "codex_style_partial_replay_items items = filter is_replayed_type items"

text \<open>A non-empty array under a key.\<close>

definition nonempty_items :: "json \<Rightarrow> str \<Rightarrow> json list option" where
  "nonempty_items v k = opt_filter (\<lambda>items. items \<noteq> []) (get_array v k)"

definition replay_items_from_message :: "json_lib \<Rightarrow> message \<Rightarrow> json list \<times> bool" where
  "replay_items_from_message L m =
     (case msg_provider_state m of
        None \<Rightarrow> ([], False)
      | Some state \<Rightarrow>
          (case or_else (opt_filter (\<lambda>items. items \<noteq> []) (as_array state))
                  (nonempty_items state ''responses_turn_items'') of
             Some items \<Rightarrow> (filter_persisted_turn_items L items, True)
           | None \<Rightarrow>
               (case or_else (nonempty_items state ''response_items'')
                       (or_else (nonempty_items state ''responses_replay_items'')
                         (nonempty_items state ''responses_reasoning_items'')) of
                  Some items \<Rightarrow> (items, False)
                | None \<Rightarrow>
                    (case nonempty_items state ''terminal_output'' of
                       Some items \<Rightarrow> (codex_style_partial_replay_items items, False)
                     | None \<Rightarrow> ([], False)))))"

section \<open>Messages\<close>

type_synonym call_ids = "tool_invocation_id \<rightharpoonup> str"

definition recorded_call_id :: "json \<Rightarrow> str option" where
  "recorded_call_id item =
     (if get_str item ''type'' \<noteq> Some ''function_call'' then None
      else opt_filter (\<lambda>i. i \<noteq> []) (map_option trim (get_str item ''call_id'')))"

definition record_function_call_ids :: "uuid_lib \<Rightarrow> json list \<Rightarrow> call_ids \<Rightarrow> call_ids" where
  "record_function_call_ids U items call_ids =
     fold (\<lambda>item ids. case recorded_call_id item of
                        None \<Rightarrow> ids
                      | Some i \<Rightarrow> ids(invocation_from_stable_key U i \<mapsto> i)) items call_ids"

definition resolve_function_call_id :: "uuid_lib \<Rightarrow> message \<Rightarrow> call_ids \<Rightarrow> str" where
  "resolve_function_call_id U m call_ids =
     (case opt_filter (\<lambda>i. i \<noteq> [])
             (map_option trim (Option.bind (msg_provider_state m) (\<lambda>s. get_str s ''call_id''))) of
        Some i \<Rightarrow> i
      | None \<Rightarrow>
          unwrap_or []
            (or_else (Option.bind (msg_tool_call_id m) call_ids)
              (map_option (invocation_hyphenated U) (msg_tool_call_id m))))"

definition function_call_output_item :: "uuid_lib \<Rightarrow> message \<Rightarrow> call_ids \<Rightarrow> json" where
  "function_call_output_item U m call_ids =
     json_obj [(''type'', JString ''function_call_output''),
       (''call_id'', JString (resolve_function_call_id U m call_ids)),
       (''output'', tool_output_content m)]"

definition function_call_item :: "uuid_lib \<Rightarrow> json_lib \<Rightarrow> tool_call \<Rightarrow> json" where
  "function_call_item U L call =
     json_obj [(''type'', JString ''function_call''), (''call_id'', JString (wire_call_id U call)),
       (''name'', JString (call_name call)),
       (''arguments'', JString (arguments_to_responses_wire L (call_arguments call)))]"

definition reasoning_item :: "str \<Rightarrow> json" where
  "reasoning_item reasoning =
     json_obj [(''type'', JString ''reasoning''),
       (''content'', JArray [json_obj [(''type'', JString ''reasoning_text''), (''text'', JString reasoning)]])]"

definition note_call :: "uuid_lib \<Rightarrow> tool_call \<Rightarrow> call_ids \<Rightarrow> call_ids" where
  "note_call U call ids = ids(call_id call \<mapsto> wire_call_id U call)"

definition message_to_responses_items ::
    "uuid_lib \<Rightarrow> json_lib \<Rightarrow> message \<Rightarrow> call_ids \<Rightarrow> json list \<times> call_ids" where
  "message_to_responses_items U L m ids0 =
     (if msg_role m = RoleTool then ([function_call_output_item U m ids0], ids0)
      else
        let (replay_items, covers_full_turn) = replay_items_from_message L m;
            ids = record_function_call_ids U replay_items ids0
        in if covers_full_turn then (replay_items, ids)
           else
             let items1 = (if replay_items = []
                           then (case reasoning_content_from_message m of
                                   None \<Rightarrow> [] | Some r \<Rightarrow> [reasoning_item r])
                           else replay_items);
                 content = responses_content m;
                 items2 = (if responses_content_is_present content
                           then items1 @ [json_obj [(''role'', JString (responses_role (msg_role m))),
                                            (''content'', content)]]
                           else items1)
             in (items2 @ map (function_call_item U L) (msg_tool_calls m),
                 fold (note_call U) (msg_tool_calls m) ids))"

section \<open>The body\<close>

text \<open>The loop over the messages: the leading texts of the system are instructions.\<close>

fun responses_input :: "uuid_lib \<Rightarrow> json_lib \<Rightarrow> message list \<Rightarrow> call_ids \<Rightarrow> json list \<times> call_ids" where
  "responses_input U L [] ids = ([], ids)"
| "responses_input U L (m # ms) ids =
     (case message_to_responses_items U L m ids of
        (items, ids') \<Rightarrow> apfst (append items) (responses_input U L ms ids'))"

fun split_instructions :: "message list \<Rightarrow> str list \<times> message list" where
  "split_instructions [] = ([], [])"
| "split_instructions (m # ms) =
     (case (msg_role m, single_text_content m) of
        (RoleSystem, Some text) \<Rightarrow> apfst (Cons text) (split_instructions ms)
      | _ \<Rightarrow> ([], m # ms))"

definition responses_tool :: "tool_descriptor \<Rightarrow> json" where
  "responses_tool d =
     (let field = (\<lambda>k. unwrap_or JNull (Option.bind (json_get (descriptor_to_openai_tool d) ''function'')
                          (\<lambda>f. json_get f k)))
      in json_obj [(''type'', JString ''function''), (''name'', field ''name''),
           (''description'', field ''description''), (''parameters'', field ''parameters'')])"

definition build_responses_body :: "uuid_lib \<Rightarrow> json_lib \<Rightarrow> model_turn_request \<Rightarrow> json" where
  "build_responses_body U L request =
     (let (instructions, messages) = split_instructions (req_messages request);
          body0 = json_obj [(''model'', JString (req_model request)),
            (''input'', JArray (fst (responses_input U L messages Map.empty))),
            (''stream'', JBool True), (''store'', JBool False)];
          body1 = (if instructions = [] then body0
                   else put_field ''instructions''
                          (JString (join_with (newline @ newline) instructions)) body0)
      in if req_tools request = [] then body1
         else put_field ''tool_choice'' (JString ''auto'')
                (put_field ''tools'' (JArray (map responses_tool (req_tools request))) body1))"

section \<open>Outputs name their calls\<close>

lemma fold_note_calls:
  "fold (note_call U) calls ids i =
     (case find (\<lambda>c. call_id c = i) (rev calls) of None \<Rightarrow> ids i | Some c \<Rightarrow> Some (wire_call_id U c))"
  by (induction calls rule: rev_induct) (auto simp: note_call_def)

lemma find_distinct:
  "distinct (map f xs) \<Longrightarrow> x \<in> set xs \<Longrightarrow> find (\<lambda>y. f y = f x) xs = Some x"
  by (induction xs) (auto simp: rev_image_eqI)

lemma note_distinct_calls:
  "distinct (map call_id calls) \<Longrightarrow> call \<in> set calls \<Longrightarrow>
     fold (note_call U) calls ids (call_id call) = Some (wire_call_id U call)"
  using find_distinct [of call_id "rev calls" call]
  by (simp add: fold_note_calls rev_map [symmetric])

lemma items_hold_calls:
  assumes "msg_role m \<noteq> RoleTool" "\<not> snd (replay_items_from_message L m)"
    "distinct (map call_id (msg_tool_calls m))" "call \<in> set (msg_tool_calls m)"
    "message_to_responses_items U L m ids = (items, ids')"
  shows "function_call_item U L call \<in> set items" "ids' (call_id call) = Some (wire_call_id U call)"
  using assms note_distinct_calls [OF assms(3,4)]
  by (auto simp: message_to_responses_items_def Let_def split: prod.splits if_splits)

lemma get_call_id [simp]:
  "get_str (function_call_output_item U m ids) ''call_id'' = Some (resolve_function_call_id U m ids)"
  "get_str (function_call_item U L call) ''call_id'' = Some (wire_call_id U call)"
  "get_str (function_call_item U L call) ''type'' = Some ''function_call''"
  by (simp_all add: function_call_output_item_def function_call_item_def get_str_def)

end
