(* ===== verification/Responses_Stream.thy ===== *)
theory Responses_Stream
  imports Responses_Body
begin

text \<open>
  The assembler of a turn of the Responses protocol (second half of
  \<open>openai_compatible/responses.rs\<close>). Each operation is a step that returns the events it
  showed, its result, and the state it leaves, also when it fails. The parts of a response are
  hash maps under a key; the hash that names an artifact without an identifier
  (\<open>DefaultHasher\<close>) is a parameter.
\<close>

section \<open>The state\<close>

record generated_artifact =
  art_id :: "str option"
  art_result :: str
  art_revised_prompt :: "str option"

datatype responses_terminal_status = StatusCompleted | StatusIncomplete | StatusFailed

type_synonym text_parts = "str \<rightharpoonup> text_reconciler"

record responses_state =
  rs_allow_cumulative :: bool
  rs_last_sequence :: "u64 option"
  rs_seen_event_keys :: "str set"
  rs_reasoning_parts :: text_parts
  rs_summary_parts :: text_parts
  rs_output_parts :: text_parts
  rs_tools :: tool_call_assembler
  rs_replay :: "json list"
  rs_images :: "generated_artifact list"
  rs_seen_artifacts :: "str set"
  rs_usage :: "json option"
  rs_terminal :: "responses_terminal_status option"
  rs_incomplete_reason :: "str option"
  rs_end_turn :: "bool option"
  rs_saw_output_done :: bool
  rs_terminal_output :: "json list"
  rs_text :: str
  rs_reasoning :: str

definition responses_new :: "bool \<Rightarrow> responses_state" where
  "responses_new allow =
     \<lparr>rs_allow_cumulative = allow, rs_last_sequence = None, rs_seen_event_keys = {},
      rs_reasoning_parts = Map.empty, rs_summary_parts = Map.empty, rs_output_parts = Map.empty,
      rs_tools = assembler_new, rs_replay = [], rs_images = [], rs_seen_artifacts = {},
      rs_usage = None, rs_terminal = None, rs_incomplete_reason = None, rs_end_turn = None,
      rs_saw_output_done = False, rs_terminal_output = [], rs_text = [], rs_reasoning = []\<rparr>"

section \<open>What is replayed and what was generated\<close>

definition replay_item_key :: "json \<Rightarrow> str option" where
  "replay_item_key item =
     (case get_str item ''type'' of
        None \<Rightarrow> None
      | Some t \<Rightarrow>
          map_option (\<lambda>i. t @ '':'' @ i)
            (Option.bind (or_else (json_get item ''id'') (json_get item ''call_id'')) as_str))"

fun replace_first :: "('a \<Rightarrow> bool) \<Rightarrow> 'a \<Rightarrow> 'a list \<Rightarrow> 'a list option" where
  "replace_first P x [] = None"
| "replace_first P x (y # ys) = (if P y then Some (x # ys) else map_option (Cons y) (replace_first P x ys))"

definition replay_upsert :: "json \<Rightarrow> json list \<Rightarrow> json list" where
  "replay_upsert item items =
     (case replay_item_key item of
        None \<Rightarrow> if item \<in> set items then items else items @ [item]
      | Some key \<Rightarrow>
          unwrap_or (items @ [item]) (replace_first (\<lambda>e. replay_item_key e = Some key) item items))"

text \<open>A trimmed string that is not empty.\<close>

definition present :: "str option \<Rightarrow> str option" where
  "present s = opt_filter (\<lambda>t. t \<noteq> []) (map_option trim s)"

definition artifact_of :: "json \<Rightarrow> generated_artifact option" where
  "artifact_of item =
     (if get_str item ''type'' \<noteq> Some ''image_generation_call'' then None
      else
        map_option (\<lambda>result.
            \<lparr>art_id = present (Option.bind (or_else (json_get item ''id'') (json_get item ''call_id'')) as_str),
             art_result = result,
             art_revised_prompt = present (get_str item ''revised_prompt'')\<rparr>)
          (present (get_str item ''result'')))"

definition artifact_key :: "(str \<Rightarrow> u64) \<Rightarrow> generated_artifact \<Rightarrow> str" where
  "artifact_key H a = unwrap_or (''result-'' @ hex16 (H (art_result a))) (art_id a)"

definition artifact_capture :: "(str \<Rightarrow> u64) \<Rightarrow> json \<Rightarrow> responses_state \<Rightarrow> responses_state" where
  "artifact_capture H item s =
     (case artifact_of item of
        None \<Rightarrow> s
      | Some a \<Rightarrow>
          if artifact_key H a \<in> rs_seen_artifacts s then s
          else s\<lparr>rs_seen_artifacts := insert (artifact_key H a) (rs_seen_artifacts s),
                 rs_images := rs_images s @ [a]\<rparr>)"

section \<open>Which events are accepted\<close>

definition looks_like_responses_stream_value :: "json \<Rightarrow> bool" where
  "looks_like_responses_stream_value v =
     ((case get_str v ''type'' of
         None \<Rightarrow> False | Some t \<Rightarrow> t = ''error'' \<or> starts_with t ''response.'')
      \<or> get_array v ''output'' \<noteq> None
      \<or> get_str v ''object'' = Some ''response'')"

definition event_key :: "json_lib \<Rightarrow> json \<Rightarrow> str option" where
  "event_key L v =
     map_option (lib_print L) (or_else (json_get v ''sequence_number'') (json_get v ''event_id''))"

definition sequence_of :: "json \<Rightarrow> u64 option" where
  "sequence_of v = Option.bind (json_get v ''sequence_number'') as_u64"

definition out_of_order :: "u64 \<Rightarrow> u64 \<Rightarrow> provider_error" where
  "out_of_order sequence previous =
     ProviderError (''Responses stream sequence_number '' @ decimal (unat sequence)
       @ '' arrived after '' @ decimal (unat previous) @ ''.'')"

definition accept_event ::
    "json_lib \<Rightarrow> json \<Rightarrow> responses_state \<Rightarrow> (provider_error + bool) \<times> responses_state" where
  "accept_event L v s =
     (case sequence_of v of
        Some sequence \<Rightarrow>
          (case rs_last_sequence s of
             None \<Rightarrow> (Inr True, s\<lparr>rs_last_sequence := Some sequence\<rparr>)
           | Some previous \<Rightarrow>
               if sequence = previous then (Inr False, s)
               else if sequence < previous then (Inl (out_of_order sequence previous), s)
               else (Inr True, s\<lparr>rs_last_sequence := Some sequence\<rparr>))
      | None \<Rightarrow>
          (case event_key L v of
             None \<Rightarrow> (Inr True, s)
           | Some key \<Rightarrow>
               (Inr (key \<notin> rs_seen_event_keys s),
                s\<lparr>rs_seen_event_keys := insert key (rs_seen_event_keys s)\<rparr>)))"

section \<open>Texts\<close>

definition text_part_key :: "json \<Rightarrow> str" where
  "text_part_key v =
     (let item = unwrap_or
            (''output:'' @ decimal (unat (unwrap_or 0 (Option.bind (json_get v ''output_index'') as_u64))))
            (get_str v ''item_id'');
          content_index = unwrap_or 0
            (Option.bind (or_else (json_get v ''summary_index'') (json_get v ''content_index'')) as_u64)
      in item @ '':'' @ decimal (unat content_index))"

text \<open>\<open>ReasoningPartState\<close> and \<open>OutputPartState\<close> under \<open>entry(key).or_default()\<close>.\<close>

definition part_push :: "str \<Rightarrow> str \<Rightarrow> bool \<Rightarrow> text_parts \<Rightarrow> str option \<times> text_parts" where
  "part_push key delta allow parts =
     (case push_compatible delta False allow (unwrap_or reconciler_new (parts key)) of
        (d, r) \<Rightarrow> (d, parts(key \<mapsto> r)))"

definition part_complete :: "str \<Rightarrow> str \<Rightarrow> text_parts \<Rightarrow> (provider_error + str option) \<times> text_parts" where
  "part_complete key text parts =
     (case complete_text text (unwrap_or reconciler_new (parts key)) of
        (r, rec) \<Rightarrow> (map_sum ProviderError id r, parts(key \<mapsto> rec)))"

definition show_reasoning :: "str option \<Rightarrow> responses_state \<Rightarrow> sink_event list \<times> responses_state" where
  "show_reasoning d s =
     (event_of SinkReasoning d, s\<lparr>rs_reasoning := rs_reasoning s @ unwrap_or [] d\<rparr>)"

definition show_text :: "str option \<Rightarrow> responses_state \<Rightarrow> sink_event list \<times> responses_state" where
  "show_text d s = (event_of SinkText d, s\<lparr>rs_text := rs_text s @ unwrap_or [] d\<rparr>)"

definition push_reasoning_summary :: "json \<Rightarrow> str \<Rightarrow> responses_state \<Rightarrow> sink_event list \<times> responses_state" where
  "push_reasoning_summary v delta s =
     (case part_push (text_part_key v) delta (rs_allow_cumulative s) (rs_summary_parts s) of
        (d, parts) \<Rightarrow> show_reasoning d (s\<lparr>rs_summary_parts := parts\<rparr>))"

definition rs_push_reasoning :: "json \<Rightarrow> str \<Rightarrow> responses_state \<Rightarrow> sink_event list \<times> responses_state" where
  "rs_push_reasoning v delta s =
     (case part_push (text_part_key v) delta (rs_allow_cumulative s) (rs_reasoning_parts s) of
        (d, parts) \<Rightarrow> show_reasoning d (s\<lparr>rs_reasoning_parts := parts\<rparr>))"

definition push_output :: "json \<Rightarrow> str \<Rightarrow> responses_state \<Rightarrow> sink_event list \<times> responses_state" where
  "push_output v delta s =
     (case part_push (text_part_key v) delta (rs_allow_cumulative s) (rs_output_parts s) of
        (d, parts) \<Rightarrow> show_text d (s\<lparr>rs_output_parts := parts\<rparr>))"

text \<open>Show what completes a part, or fail.\<close>

definition shown_or_failed ::
    "(str option \<Rightarrow> 's \<Rightarrow> sink_event list \<times> 's) \<Rightarrow> provider_error + str option \<Rightarrow> 's sink_step" where
  "shown_or_failed f r = (case r of Inl e \<Rightarrow> step_fail e | Inr d \<Rightarrow> step_emit (f d))"

definition complete_reasoning_summary :: "json \<Rightarrow> str \<Rightarrow> responses_state sink_step" where
  "complete_reasoning_summary v text s =
     (case part_complete (text_part_key v) text (rs_summary_parts s) of
        (r, parts) \<Rightarrow> shown_or_failed show_reasoning r (s\<lparr>rs_summary_parts := parts\<rparr>))"

definition complete_reasoning :: "json \<Rightarrow> str \<Rightarrow> responses_state sink_step" where
  "complete_reasoning v text s =
     (case part_complete (text_part_key v) text (rs_reasoning_parts s) of
        (r, parts) \<Rightarrow> shown_or_failed show_reasoning r (s\<lparr>rs_reasoning_parts := parts\<rparr>))"

definition complete_output :: "json \<Rightarrow> str \<Rightarrow> responses_state sink_step" where
  "complete_output v text s =
     (case part_complete (text_part_key v) text (rs_output_parts s) of
        (r, parts) \<Rightarrow> shown_or_failed show_text r (s\<lparr>rs_output_parts := parts\<rparr>))"

section \<open>Function calls\<close>

definition function_call_delta :: "u64 \<Rightarrow> json \<Rightarrow> json" where
  "function_call_delta index item =
     json_obj [(''index'', JNumber (PosInt index)),
       (''id'', JString (unwrap_or [] (get_str item ''call_id''))),
       (''function'', json_obj [(''name'', JString (unwrap_or [] (get_str item ''name''))),
          (''arguments'', JString (unwrap_or [] (get_str item ''arguments'')))])]"

definition on_tools :: "(tool_call_assembler \<Rightarrow> tool_call_assembler) \<Rightarrow> responses_state \<Rightarrow> responses_state" where
  "on_tools f s = s\<lparr>rs_tools := f (rs_tools s)\<rparr>"

definition apply_function_call_item :: "u64 \<Rightarrow> json \<Rightarrow> bool \<Rightarrow> responses_state \<Rightarrow> responses_state" where
  "apply_function_call_item index item snapshot s =
     (if get_str item ''type'' \<noteq> Some ''function_call'' then s
      else on_tools (apply_chat_delta (function_call_delta index item) (unat index) snapshot) s)"

definition apply_call_arguments :: "u64 \<Rightarrow> str \<Rightarrow> bool \<Rightarrow> responses_state \<Rightarrow> responses_state" where
  "apply_call_arguments index arguments snapshot =
     on_tools (apply_chat_delta
       (json_obj [(''index'', JNumber (PosInt index)),
          (''function'', json_obj [(''arguments'', JString arguments)])]) (unat index) snapshot)"

section \<open>The terminal snapshot\<close>

definition upsert_replayed :: "json \<Rightarrow> responses_state \<Rightarrow> responses_state" where
  "upsert_replayed item s =
     (if is_replayed_type item then s\<lparr>rs_replay := replay_upsert item (rs_replay s)\<rparr> else s)"

text \<open>One item of an output: captured, replayed, or a function call.\<close>

definition merge_output_item :: "(str \<Rightarrow> u64) \<Rightarrow> u64 \<Rightarrow> json \<Rightarrow> responses_state \<Rightarrow> responses_state" where
  "merge_output_item H index item s =
     apply_function_call_item index item True (upsert_replayed item (artifact_capture H item s))"

definition merge_snapshot_items :: "(str \<Rightarrow> u64) \<Rightarrow> json \<Rightarrow> responses_state \<Rightarrow> responses_state" where
  "merge_snapshot_items H response s =
     (case get_array response ''output'' of
        None \<Rightarrow> s
      | Some output \<Rightarrow> fold (\<lambda>(i, item). merge_output_item H (of_nat i) item) (enumerate 0 output) s)"

definition text_of_content :: "json \<Rightarrow> str option" where
  "text_of_content c =
     (if get_str c ''type'' \<in> {Some ''output_text'', Some ''refusal''}
      then Option.bind (or_else (json_get c ''text'')
             (or_else (json_get c ''output_text'') (json_get c ''refusal''))) as_str
      else None)"

definition extract_responses_output_text :: "json \<Rightarrow> str" where
  "extract_responses_output_text v =
     (case get_str v ''output_text'' of
        Some text \<Rightarrow> text
      | None \<Rightarrow>
          concat (List.map_filter text_of_content
            (concat (map (\<lambda>item. unwrap_or [] (get_array item ''content''))
              (filter (\<lambda>item. get_str item ''type'' = Some ''message'')
                (unwrap_or [] (get_array v ''output'')))))))"

definition apply_terminal_snapshot :: "(str \<Rightarrow> u64) \<Rightarrow> json \<Rightarrow> responses_state sink_step" where
  "apply_terminal_snapshot H response s0 =
     (let s = (case get_array response ''output'' of
                 None \<Rightarrow> s0 | Some output \<Rightarrow> s0\<lparr>rs_terminal_output := output\<rparr>);
          r = reconcile_terminal_text (rs_text s) (extract_responses_output_text response)
                (rs_saw_output_done s)
      in step_then (shown_or_failed show_text (map_sum ProviderError id r))
           (step_set (merge_snapshot_items H response)) s)"

section \<open>One value\<close>

fun json_at :: "str list \<Rightarrow> json \<Rightarrow> json option" where
  "json_at [] v = Some v"
| "json_at (k # ks) v = Option.bind (json_get v k) (json_at ks)"

definition terminal_snapshot :: "json \<Rightarrow> json option" where
  "terminal_snapshot v =
     (if get_array v ''output'' \<noteq> None then Some v
      else if get_str v ''type'' \<in> {Some ''response.completed'', Some ''response.done'',
                Some ''response.incomplete''}
      then json_get v ''response''
      else None)"

definition terminal_status :: "json \<Rightarrow> responses_terminal_status option" where
  "terminal_status v =
     (let response = unwrap_or v (json_get v ''response'');
          status = get_str response ''status'';
          type = get_str v ''type''
      in if status = Some ''incomplete'' then Some StatusIncomplete
         else if status \<in> {Some ''failed'', Some ''cancelled''} then Some StatusFailed
         else if type \<in> {Some ''response.completed'', Some ''response.done''} then Some StatusCompleted
         else if type = Some ''response.incomplete'' then Some StatusIncomplete
         else if type \<in> {Some ''response.failed'', Some ''response.cancelled'', Some ''error''}
         then Some StatusFailed
         else if get_str response ''object'' \<noteq> Some ''response'' then None
         else if status = Some ''completed'' then Some StatusCompleted
         else None)"

definition set_terminal :: "json \<Rightarrow> responses_state \<Rightarrow> responses_state" where
  "set_terminal v s =
     (case terminal_status v of None \<Rightarrow> s | Some status \<Rightarrow> s\<lparr>rs_terminal := Some status\<rparr>)"

definition failure_of :: "json \<Rightarrow> provider_error option" where
  "failure_of v =
     (if get_str v ''type'' \<in> {Some ''response.failed'', Some ''response.cancelled'', Some ''error''}
      then Some (ProviderError (unwrap_or ''Responses stream failed.''
             (Option.bind (or_else (json_at [''response'', ''error'', ''message''] v)
                (or_else (json_at [''error'', ''message''] v) (json_get v ''message''))) as_str)))
      else None)"

definition note_terminal :: "json \<Rightarrow> responses_state \<Rightarrow> responses_state" where
  "note_terminal v s =
     (if rs_terminal s = None then s
      else
        let terminal = unwrap_or v (json_get v ''response'');
            s1 = (case Option.bind (json_get terminal ''end_turn'') as_bool of
                    None \<Rightarrow> s | Some b \<Rightarrow> s\<lparr>rs_end_turn := Some b\<rparr>)
        in if rs_terminal s1 = Some StatusIncomplete
           then s1\<lparr>rs_incomplete_reason := Some (unwrap_or ''incomplete''
                  (Option.bind (or_else (json_at [''incomplete_details'', ''reason''] terminal)
                     (json_at [''error'', ''message''] terminal)) as_str))\<rparr>
           else s1)"

definition usage_from_responses :: "json \<Rightarrow> json option" where
  "usage_from_responses v =
     or_else (opt_filter (\<lambda>u. \<not> is_null u) (json_at [''response'', ''usage''] v)) (find_usage v)"

definition apply_responses_usage :: "json \<Rightarrow> responses_state \<Rightarrow> sink_event list \<times> responses_state" where
  "apply_responses_usage v s =
     (case usage_from_responses v of
        None \<Rightarrow> ([], s) | Some usage \<Rightarrow> ([SinkUsage usage], s\<lparr>rs_usage := Some usage\<rparr>))"

text \<open>A step for the string under a key, when it is there.\<close>

definition with_str :: "str option \<Rightarrow> (str \<Rightarrow> 's sink_step) \<Rightarrow> 's sink_step" where
  "with_str x f = (case x of None \<Rightarrow> step_skip | Some t \<Rightarrow> f t)"

definition with_indexed :: "json \<Rightarrow> 'a option \<Rightarrow> (u64 \<Rightarrow> 'a \<Rightarrow> 's \<Rightarrow> 's) \<Rightarrow> 's sink_step" where
  "with_indexed v x f =
     (case (Option.bind (json_get v ''output_index'') as_u64, x) of
        (Some index, Some y) \<Rightarrow> step_set (f index y)
      | _ \<Rightarrow> step_skip)"

definition apply_event :: "(str \<Rightarrow> u64) \<Rightarrow> json \<Rightarrow> responses_state sink_step" where
  "apply_event H v =
     (let type = get_str v ''type'' in
      if type = Some ''response.reasoning_summary_part.added''
      then with_str (opt_filter (\<lambda>t. t \<noteq> []) (Option.bind (json_at [''part'', ''text''] v) as_str))
             (\<lambda>text. step_emit (push_reasoning_summary v text))
      else if type = Some ''response.reasoning_summary_text.delta''
      then with_str (get_str v ''delta'') (\<lambda>delta. step_emit (push_reasoning_summary v delta))
      else if type = Some ''response.reasoning_summary_text.done''
      then with_str (get_str v ''text'') (complete_reasoning_summary v)
      else if type = Some ''response.reasoning_text.delta''
      then with_str (get_str v ''delta'') (\<lambda>delta. step_emit (rs_push_reasoning v delta))
      else if type = Some ''response.reasoning_text.done''
      then with_str (get_str v ''text'') (complete_reasoning v)
      else if type \<in> {Some ''response.output_text.delta'', Some ''response.refusal.delta''}
      then with_str (get_str v ''delta'') (\<lambda>delta. step_emit (push_output v delta))
      else if type \<in> {Some ''response.output_text.done'', Some ''response.refusal.done''}
      then step_then (step_set (rs_saw_output_done_update (\<lambda>_. True)))
             (with_str (Option.bind (or_else (json_get v ''text'') (json_get v ''refusal'')) as_str)
               (complete_output v))
      else if type = Some ''response.output_item.added''
      then with_indexed v (json_get v ''item'') (\<lambda>index item. apply_function_call_item index item False)
      else if type = Some ''response.function_call_arguments.delta''
      then with_indexed v (get_str v ''delta'') (\<lambda>index delta. apply_call_arguments index delta False)
      else if type = Some ''response.function_call_arguments.done''
      then with_indexed v (get_str v ''arguments'') (\<lambda>index args. apply_call_arguments index args True)
      else if type = Some ''response.output_item.done''
      then with_indexed v (json_get v ''item'') (merge_output_item H)
      else (case terminal_snapshot v of
              None \<Rightarrow> step_skip | Some response \<Rightarrow> apply_terminal_snapshot H response))"

definition apply_accepted :: "(str \<Rightarrow> u64) \<Rightarrow> json \<Rightarrow> responses_state sink_step" where
  "apply_accepted H v =
     step_then (step_set (set_terminal v))
       (case failure_of v of
          Some e \<Rightarrow> step_fail e
        | None \<Rightarrow>
            step_then (step_set (note_terminal v))
              (step_then (step_emit (apply_responses_usage v)) (apply_event H v)))"

definition responses_apply :: "(str \<Rightarrow> u64) \<Rightarrow> json_lib \<Rightarrow> json \<Rightarrow> responses_state sink_step" where
  "responses_apply H L v s =
     (if \<not> looks_like_responses_stream_value v then step_skip s
      else case accept_event L v s of
             (Inl e, s') \<Rightarrow> step_fail e s'
           | (Inr False, s') \<Rightarrow> step_skip s'
           | (Inr True, s') \<Rightarrow> apply_accepted H v s')"

section \<open>The turn\<close>

definition image_json :: "generated_artifact \<Rightarrow> json" where
  "image_json a = json_obj [(''id'', json_opt_str (art_id a)), (''result'', JString (art_result a)),
     (''revised_prompt'', json_opt_str (art_revised_prompt a))]"

definition responses_opaque :: "responses_state \<Rightarrow> json" where
  "responses_opaque s =
     json_obj [(''protocol'', JString ''responses''), (''response_items'', JArray (rs_replay s)),
       (''terminal_output'', JArray (rs_terminal_output s)),
       (''generated_images'', JArray (map image_json (rs_images s))),
       (''end_turn'', (case rs_end_turn s of None \<Rightarrow> JNull | Some b \<Rightarrow> JBool b)),
       (''incomplete_reason'', json_opt_str (rs_incomplete_reason s))]"

definition responses_finish :: "uuid_lib \<Rightarrow> json_lib \<Rightarrow> responses_state \<Rightarrow> provider_error + model_turn" where
  "responses_finish U L s =
     (case rs_terminal s of
        Some StatusIncomplete \<Rightarrow>
          Inl (ProviderError (''PROVIDER_OUTPUT_INCOMPLETE: Responses stream ended incomplete: ''
            @ unwrap_or ''incomplete'' (rs_incomplete_reason s)))
      | Some StatusFailed \<Rightarrow> Inl (ProviderError ''Responses stream ended with a failed terminal.'')
      | None \<Rightarrow> Inl (ProviderError
          (''PROVIDER_STREAM_CLOSED: Responses stream ended without an explicit terminal event.''))
      | Some StatusCompleted \<Rightarrow>
          let calls = finished_tool_calls U L (rs_tools s) in
          Inr \<lparr>turn_text = rs_text s, turn_reasoning = rs_reasoning s, turn_tool_calls = calls,
               turn_usage = rs_usage s,
               turn_terminal = (if calls = [] then TermStop else TermToolCalls),
               turn_opaque = responses_opaque s\<rparr>)"

definition responses_finish_checked ::
    "uuid_lib \<Rightarrow> json_lib \<Rightarrow> responses_state \<Rightarrow> provider_error + model_turn" where
  "responses_finish_checked U L s =
     res_bind (if rs_terminal s = Some StatusCompleted then validate_assembler L (rs_tools s) else Inr ())
       (\<lambda>_. responses_finish U L s)"

section \<open>What was shown is what the turn holds\<close>

definition responses_texts :: "responses_state \<Rightarrow> str \<times> str" where
  "responses_texts s = (rs_text s, rs_reasoning s)"

text \<open>What neither shows a text nor marks an event as seen.\<close>

definition same_face :: "responses_state \<Rightarrow> responses_state \<Rightarrow> bool" where
  "same_face s s' = (responses_texts s' = responses_texts s
     \<and> rs_last_sequence s' = rs_last_sequence s \<and> rs_seen_event_keys s' = rs_seen_event_keys s)"

lemma same_face_quiet [simp]:
  "same_face s (artifact_capture H item s)" "same_face s (upsert_replayed item s)"
  "same_face s (on_tools f s)" "same_face s (apply_function_call_item i item b s)"
  "same_face s (apply_call_arguments i a b s)" "same_face s (set_terminal v s)"
  "same_face s (note_terminal v s)"
  by (auto simp: same_face_def responses_texts_def artifact_capture_def upsert_replayed_def
      on_tools_def apply_function_call_item_def apply_call_arguments_def set_terminal_def
      note_terminal_def Let_def split: option.split)

lemma same_face_trans: "same_face a b \<Longrightarrow> same_face b c \<Longrightarrow> same_face a c"
  by (simp add: same_face_def)

lemma same_face_merge [simp]: "same_face s (merge_output_item H i item s)"
  unfolding merge_output_item_def
  by (rule same_face_trans [OF same_face_trans [OF same_face_quiet(1) same_face_quiet(2)] same_face_quiet(4)])

lemma same_face_fold: "(\<And>x s. same_face s (f x s)) \<Longrightarrow> same_face s (fold f xs s)"
  by (induction xs arbitrary: s) (auto simp: same_face_def)

lemma same_face_snapshot [simp]: "same_face s (merge_snapshot_items H response s)"
  by (auto simp: merge_snapshot_items_def same_face_def [of s s] split: option.split
      intro!: same_face_fold)

lemma same_face_texts: "same_face s s' \<Longrightarrow> responses_texts s' = responses_texts s"
  by (simp add: same_face_def)

lemmas quiet_texts [simp] =
  same_face_quiet [THEN same_face_texts] same_face_merge [THEN same_face_texts]
  same_face_snapshot [THEN same_face_texts]

lemma texts_update [simp]:
  "responses_texts (s\<lparr>rs_summary_parts := p\<rparr>) = responses_texts s"
  "responses_texts (s\<lparr>rs_reasoning_parts := p\<rparr>) = responses_texts s"
  "responses_texts (s\<lparr>rs_output_parts := p\<rparr>) = responses_texts s"
  "responses_texts (s\<lparr>rs_saw_output_done := b\<rparr>) = responses_texts s"
  "responses_texts (s\<lparr>rs_terminal_output := items\<rparr>) = responses_texts s"
  "responses_texts (s\<lparr>rs_last_sequence := n\<rparr>) = responses_texts s"
  "responses_texts (s\<lparr>rs_seen_event_keys := k\<rparr>) = responses_texts s"
  "responses_texts (responses_new allow) = ([], [])"
  by (simp_all add: responses_texts_def responses_new_def)

lemma emits_show [tracking]:
  "emits responses_texts (show_reasoning d)" "emits responses_texts (show_text d)"
  by (simp_all add: emits_def grows_by_def show_reasoning_def show_text_def responses_texts_def)

lemma emits_push [tracking]:
  "emits responses_texts (push_reasoning_summary v d)"
  "emits responses_texts (rs_push_reasoning v d)"
  "emits responses_texts (push_output v d)"
  unfolding emits_def push_reasoning_summary_def rs_push_reasoning_def push_output_def
  by (auto split: prod.split intro!: emits_at [OF emits_show(1)] emits_at [OF emits_show(2)])

lemma emits_usage [tracking]: "emits responses_texts (apply_responses_usage v)"
  by (auto simp: emits_def grows_by_def apply_responses_usage_def responses_texts_def split: option.split)

lemma tracks_shown [tracking]:
  "(\<And>d. emits texts (f d)) \<Longrightarrow> tracks texts (shown_or_failed f r)"
  by (cases r) (auto simp: shown_or_failed_def intro: tracking)

lemma tracks_complete [tracking]:
  "tracks responses_texts (complete_reasoning_summary v t)"
  "tracks responses_texts (complete_reasoning v t)"
  "tracks responses_texts (complete_output v t)"
  unfolding tracks_def complete_reasoning_summary_def complete_reasoning_def complete_output_def
  by (auto split: prod.split intro!: tracks_at [OF tracks_shown] tracking)

lemma tracks_with [tracking]:
  "(\<And>t. tracks texts (f t)) \<Longrightarrow> tracks texts (with_str x f)"
  "(\<And>i y s. texts (g i y s) = texts s) \<Longrightarrow> tracks texts (with_indexed v z g)"
  by (auto simp: with_str_def with_indexed_def split: option.split intro!: tracking)

lemma tracks_snapshot [tracking]: "tracks responses_texts (apply_terminal_snapshot H r)"
proof -
  have "tracks responses_texts
      (step_then (shown_or_failed show_text q) (step_set (merge_snapshot_items H r)))" for q
    by (intro tracking) simp
  from tracks_at [OF this] show ?thesis
    unfolding tracks_def apply_terminal_snapshot_def Let_def by (auto split: option.split)
qed

lemma tracks_event [tracking]: "tracks responses_texts (apply_event H v)"
  unfolding apply_event_def Let_def
  by (intro tracking) simp_all

lemma tracks_accepted [tracking]: "tracks responses_texts (apply_accepted H v)"
  unfolding apply_accepted_def by (intro tracking) simp_all

lemma accept_event_texts:
  "accept_event L v s = (r, s') \<Longrightarrow> responses_texts s' = responses_texts s"
  by (auto simp: accept_event_def split: option.splits if_splits)

lemma tracks_apply [tracking]: "tracks responses_texts (responses_apply H L v)"
  unfolding tracks_def responses_apply_def
  by (auto simp: step_skip_def step_fail_def dest: accept_event_texts
      split: prod.split sum.split bool.split intro!: tracks_at [OF tracks_accepted])

text \<open>The values of a response, until one fails.\<close>

fun responses_apply_all ::
    "(str \<Rightarrow> u64) \<Rightarrow> json_lib \<Rightarrow> json list \<Rightarrow> responses_state sink_step" where
  "responses_apply_all H L [] = step_skip"
| "responses_apply_all H L (v # vs) = step_then (responses_apply H L v) (responses_apply_all H L vs)"

lemma tracks_all [tracking]: "tracks responses_texts (responses_apply_all H L vs)"
  by (induction vs) (auto intro: tracking)

text \<open>
  The assembler of the Responses protocol holds what was shown. Whatever values a response
  carries and wherever it fails, its text and its reasoning are exactly the concatenation of the
  deltas the sink received, in order.
\<close>

theorem responses_texts_are_what_was_shown:
  "(case responses_apply_all H L values (responses_new allow) of
      (shown, _, s) \<Rightarrow> rs_text s = shown_text shown \<and> rs_reasoning s = shown_reasoning shown)"
proof -
  obtain shown r s where run: "responses_apply_all H L values (responses_new allow) = (shown, r, s)"
    by (metis surj_pair)
  then show ?thesis
    using tracksD [OF tracks_all run] by (simp add: grows_by_def responses_texts_def responses_new_def)
qed

section \<open>An event that is delivered twice counts once\<close>

definition marks :: "responses_state \<Rightarrow> u64 option \<times> str set" where
  "marks s = (rs_last_sequence s, rs_seen_event_keys s)"

lemma same_face_marks: "same_face s s' \<Longrightarrow> marks s' = marks s"
  by (simp add: same_face_def marks_def)

lemmas quiet_marks [simp] =
  same_face_quiet [THEN same_face_marks] same_face_merge [THEN same_face_marks]
  same_face_snapshot [THEN same_face_marks]

lemma marks_update [simp]:
  "marks (s\<lparr>rs_summary_parts := p\<rparr>) = marks s" "marks (s\<lparr>rs_reasoning_parts := p\<rparr>) = marks s"
  "marks (s\<lparr>rs_output_parts := p\<rparr>) = marks s" "marks (s\<lparr>rs_saw_output_done := b\<rparr>) = marks s"
  "marks (s\<lparr>rs_terminal_output := items\<rparr>) = marks s"
  "marks (snd (show_reasoning d s)) = marks s" "marks (snd (show_text d s)) = marks s"
  "marks (snd (apply_responses_usage v s)) = marks s"
  "marks (snd (push_reasoning_summary v t s)) = marks s"
  "marks (snd (rs_push_reasoning v t s)) = marks s" "marks (snd (push_output v t s)) = marks s"
  by (simp_all add: marks_def show_reasoning_def show_text_def apply_responses_usage_def
      push_reasoning_summary_def rs_push_reasoning_def push_output_def split: option.split prod.split)

definition holds :: "u64 option \<times> str set \<Rightarrow> responses_state \<Rightarrow> bool" where
  "holds m s = (marks s = m)"

lemma holds_update [simp]:
  "holds m (s\<lparr>rs_summary_parts := p\<rparr>) = holds m s" "holds m (s\<lparr>rs_reasoning_parts := p\<rparr>) = holds m s"
  "holds m (s\<lparr>rs_output_parts := p\<rparr>) = holds m s"
  by (simp_all add: holds_def)

lemma preserves_shown [preserving]:
  "(\<And>d s. P s \<Longrightarrow> P (snd (f d s))) \<Longrightarrow> preserves P (shown_or_failed f r)"
  by (cases r) (auto simp: shown_or_failed_def intro: preserving)

lemma preserves_at: "preserves P f \<Longrightarrow> P s \<Longrightarrow> P (snd (snd (f s)))"
  by (simp add: preserves_def)

lemma preserves_complete [preserving]:
  "preserves (holds m) (complete_reasoning_summary v t)"
  "preserves (holds m) (complete_reasoning v t)" "preserves (holds m) (complete_output v t)"
proof -
  have shown: "preserves (holds m) (shown_or_failed show_reasoning r)"
    "preserves (holds m) (shown_or_failed show_text r)" for r
    by (intro preserving; simp add: holds_def)+
  show "preserves (holds m) (complete_reasoning_summary v t)"
    "preserves (holds m) (complete_reasoning v t)" "preserves (holds m) (complete_output v t)"
  unfolding preserves_def complete_reasoning_summary_def complete_reasoning_def complete_output_def
  by (auto split: prod.split intro!: preserves_at [OF shown(1)] preserves_at [OF shown(2)])
qed

lemma preserves_with [preserving]:
  "(\<And>t. preserves P (f t)) \<Longrightarrow> preserves P (with_str x f)"
  "(\<And>i y s. P s \<Longrightarrow> P (g i y s)) \<Longrightarrow> preserves P (with_indexed v z g)"
  by (auto simp: with_str_def with_indexed_def split: option.split intro!: preserving)

lemma preserves_snapshot [preserving]: "preserves (holds m) (apply_terminal_snapshot H r)"
proof -
  have "preserves (holds m)
      (step_then (shown_or_failed show_text q) (step_set (merge_snapshot_items H r)))" for q
    by (intro preserving) (simp_all add: holds_def)
  from preserves_at [OF this] show ?thesis
    unfolding preserves_def apply_terminal_snapshot_def Let_def
    by (auto simp: holds_def split: option.split)
qed

lemma preserves_accepted [preserving]: "preserves (holds m) (apply_accepted H v)"
  unfolding apply_accepted_def apply_event_def Let_def
  by (intro preserving) (simp_all add: holds_def)

text \<open>Whether a value can be recognised when it comes again.\<close>

definition identified :: "json_lib \<Rightarrow> json \<Rightarrow> bool" where
  "identified L v = (sequence_of v \<noteq> None \<or> event_key L v \<noteq> None)"

definition marked :: "json_lib \<Rightarrow> json \<Rightarrow> responses_state \<Rightarrow> bool" where
  "marked L v s =
     (case sequence_of v of
        Some n \<Rightarrow> (case rs_last_sequence s of None \<Rightarrow> False | Some k \<Rightarrow> n \<le> k)
      | None \<Rightarrow> (case event_key L v of None \<Rightarrow> False | Some key \<Rightarrow> key \<in> rs_seen_event_keys s))"

lemma marked_by_marks: "marks s' = marks s \<Longrightarrow> marked L v s' = marked L v s"
  by (simp add: marks_def marked_def cong: option.case_cong)

lemma marked_is_refused:
  assumes "marked L v s"
  shows "\<exists>r. responses_apply H L v s = ([], r, s)"
  using assms
  by (auto simp: marked_def responses_apply_def accept_event_def step_skip_def step_fail_def insert_absorb
      split: option.splits)

lemma accept_event_marks:
  assumes "accept_event L v s = (r, s')"
  shows "identified L v \<Longrightarrow> marked L v s'" "marked L w s \<Longrightarrow> marked L w s'"
  using assms
  by (auto simp: accept_event_def identified_def marked_def split: option.splits if_splits)

lemma preserves_marked_accepted: "preserves (marked L w) (apply_accepted H v)"
  unfolding preserves_def
  using preserves_accepted [unfolded preserves_def holds_def] marked_by_marks by blast

lemma marked_after:
  assumes "looks_like_responses_stream_value v" "identified L v"
  shows "marked L v (snd (snd (responses_apply H L v s)))"
  using assms(1) accept_event_marks(1) [OF _ assms(2)] preserves_at [OF preserves_marked_accepted]
  by (auto simp: responses_apply_def step_skip_def step_fail_def split: prod.split sum.split bool.split)

lemma preserves_marked [preserving]: "preserves (marked L w) (responses_apply H L v)"
  unfolding preserves_def
  using accept_event_marks(2) preserves_at [OF preserves_marked_accepted]
  by (auto simp: responses_apply_def step_skip_def step_fail_def split: prod.split sum.split bool.split)

lemma preserves_marked_all: "preserves (marked L w) (responses_apply_all H L vs)"
  by (induction vs) (auto intro: preserving)

text \<open>
  C29. An event is applied at most once. A value with a sequence number or an event identifier
  that comes again, however many others were applied in between, shows nothing and changes
  nothing, whether it is passed over or refused as out of order.
\<close>

theorem redelivered_event_is_ignored:
  assumes "identified L v"
  shows "case responses_apply_all H L (v # vs) s of
      (_, _, t) \<Rightarrow> \<exists>r. responses_apply H L v t = ([], r, t)"
proof (cases "looks_like_responses_stream_value v")
  case True
  obtain ev r s' where first: "responses_apply H L v s = (ev, r, s')" by (metis surj_pair)
  then have "marked L v s'" using marked_after [OF True assms, of H s] by simp
  then have "marked L v (snd (snd (responses_apply_all H L (v # vs) s)))"
    using preserves_at [OF preserves_marked_all]
    by (cases r) (auto simp: step_then_def first)
  from marked_is_refused [OF this] show ?thesis by (simp add: case_prod_unfold)
qed (simp add: responses_apply_def step_skip_def case_prod_unfold)

definition sample_delta :: json where
  "sample_delta = json_obj [(''type'', JString ''response.output_text.delta''),
     (''delta'', JString ''hi''), (''sequence_number'', JNumber (PosInt 4))]"

theorem redelivered_event_is_ignored_witness:
  "let L = sample_json_lib; H = (\<lambda>_. 0);
       t = snd (snd (responses_apply_all H L [sample_delta] (responses_new False)))
   in identified L sample_delta \<and> rs_text t = ''hi''
      \<and> (\<exists>r. responses_apply H L sample_delta t = ([], r, t))"
proof -
  let ?L = sample_json_lib and ?H = "\<lambda>_. 0"
  let ?t = "snd (snd (responses_apply_all ?H ?L [sample_delta] (responses_new False)))"
  have i: "identified ?L sample_delta"
    by (simp add: identified_def sequence_of_def sample_delta_def)
  have "rs_text ?t = ''hi''" by code_simp
  with i redelivered_event_is_ignored [OF i, of ?H "[]" "responses_new False"]
  show ?thesis by (auto simp: Let_def split: prod.splits)
qed

section \<open>Which responses are turns\<close>

definition tools_ok :: "responses_state \<Rightarrow> bool" where
  "tools_ok s = placeholders_ok (rs_tools s)"

lemma rs_tools_quiet [simp]:
  "rs_tools (artifact_capture H item s) = rs_tools s" "rs_tools (upsert_replayed item s) = rs_tools s"
  "rs_tools (set_terminal v s) = rs_tools s" "rs_tools (note_terminal v s) = rs_tools s"
  "rs_tools (snd (show_reasoning d s)) = rs_tools s" "rs_tools (snd (show_text d s)) = rs_tools s"
  "rs_tools (snd (apply_responses_usage v s)) = rs_tools s"
  "rs_tools (snd (push_reasoning_summary v t s)) = rs_tools s"
  "rs_tools (snd (rs_push_reasoning v t s)) = rs_tools s" "rs_tools (snd (push_output v t s)) = rs_tools s"
  by (simp_all add: artifact_capture_def upsert_replayed_def set_terminal_def note_terminal_def
      Let_def show_reasoning_def show_text_def apply_responses_usage_def push_reasoning_summary_def
      rs_push_reasoning_def push_output_def split: option.split prod.split)

lemma tools_ok_calls [simp]:
  "tools_ok s \<Longrightarrow> tools_ok (apply_function_call_item i item b s)"
  "tools_ok s \<Longrightarrow> tools_ok (apply_call_arguments i arg b s)"
  "tools_ok s \<Longrightarrow> tools_ok (merge_output_item H i item s)"
  by (simp_all add: tools_ok_def apply_function_call_item_def apply_call_arguments_def on_tools_def
      merge_output_item_def placeholders_ok_step)

lemma tools_ok_fold:
  "tools_ok s \<Longrightarrow> tools_ok (fold (\<lambda>(i, item). merge_output_item H (of_nat i) item) xs s)"
  by (induction xs arbitrary: s) auto

lemma tools_ok_snapshot [simp]: "tools_ok s \<Longrightarrow> tools_ok (merge_snapshot_items H response s)"
  by (auto simp: merge_snapshot_items_def tools_ok_fold split: option.split)

lemma preserves_tools [preserving]:
  "preserves tools_ok (complete_reasoning_summary v t)"
  "preserves tools_ok (complete_reasoning v t)" "preserves tools_ok (complete_output v t)"
  "preserves tools_ok (apply_terminal_snapshot H response)"
proof -
  have shown: "preserves tools_ok (shown_or_failed show_reasoning r)"
    "preserves tools_ok (shown_or_failed show_text r)"
    "preserves tools_ok (step_then (shown_or_failed show_text r) (step_set (merge_snapshot_items H response)))" for r
    by (intro preserving; (rule tools_ok_snapshot, assumption | simp add: tools_ok_def))+
  show "preserves tools_ok (complete_reasoning_summary v t)"
    "preserves tools_ok (complete_reasoning v t)" "preserves tools_ok (complete_output v t)"
    unfolding preserves_def complete_reasoning_summary_def complete_reasoning_def complete_output_def
    by (auto simp: tools_ok_def split: prod.split
        intro!: preserves_at [OF shown(1), unfolded tools_ok_def] preserves_at [OF shown(2), unfolded tools_ok_def])
  show "preserves tools_ok (apply_terminal_snapshot H response)"
    unfolding preserves_def apply_terminal_snapshot_def Let_def
    by (auto simp: tools_ok_def split: option.split
        intro!: preserves_at [OF shown(3), unfolded tools_ok_def])
qed

lemma preserves_tools_event: "preserves tools_ok (apply_accepted H v)"
  unfolding apply_accepted_def apply_event_def Let_def
  by (intro preserving) (simp_all, simp_all add: tools_ok_def)

lemma preserves_tools_apply [preserving]: "preserves tools_ok (responses_apply H L v)"
proof -
  have "tools_ok s \<Longrightarrow> accept_event L v s = (r, s') \<Longrightarrow> tools_ok s'" for s r s'
    by (auto simp: accept_event_def tools_ok_def split: option.splits if_splits)
  then show ?thesis
    unfolding preserves_def
    by (auto simp: responses_apply_def step_skip_def step_fail_def
        split: prod.split sum.split bool.split intro!: preserves_at [OF preserves_tools_event])
qed

lemma preserves_tools_all: "preserves tools_ok (responses_apply_all H L vs)"
  by (induction vs) (auto intro: preserving)

lemma finished_responses:
  assumes "tools_ok s" "responses_finish_checked U L s = Inr turn"
  shows "rs_terminal s = Some StatusCompleted"
    "(turn_text turn, turn_reasoning turn) = responses_texts s"
    "turn_tool_calls turn = map (finish_call U L) (filter ptc_observed (tca_calls (rs_tools s)))"
    "list_all dispatchable (turn_tool_calls turn)"
    "distinct (map call_provider_call_id (turn_tool_calls turn))"
    "turn_terminal turn = (if turn_tool_calls turn = [] then TermStop else TermToolCalls)"
proof -
  show completed: "rs_terminal s = Some StatusCompleted"
    using assms(2) by (auto simp: responses_finish_checked_def res_bind_Inr_iff responses_finish_def Let_def
        split: option.splits responses_terminal_status.splits if_splits)
  with assms(2) have valid: "validate_assembler L (rs_tools s) = Inr ()"
    by (auto simp: responses_finish_checked_def res_bind_Inr_iff)
  note calls = validated_placeholders [OF assms(1) [unfolded tools_ok_def] valid, of U]
  then show "(turn_text turn, turn_reasoning turn) = responses_texts s"
    "turn_tool_calls turn = map (finish_call U L) (filter ptc_observed (tca_calls (rs_tools s)))"
    "list_all dispatchable (turn_tool_calls turn)"
    "distinct (map call_provider_call_id (turn_tool_calls turn))"
    "turn_terminal turn = (if turn_tool_calls turn = [] then TermStop else TermToolCalls)"
    using completed assms(2)
    by (auto simp: responses_finish_checked_def valid responses_finish_def Let_def responses_texts_def)
qed

lemma tools_ok_new [simp]: "tools_ok (responses_new allow)"
  by (simp add: tools_ok_def responses_new_def placeholders_ok_def assembler_new_def)

text \<open>
  A turn of the Responses protocol is complete. When the assembler finishes, after whatever
  values, its last terminal status was that of a completed response; the turn holds exactly what
  the sink was shown; its calls are the observed ones in the order of their indices, each with a
  name, an object of arguments and an identifier of its own; and it is in tool mode exactly
  when it has calls.
\<close>

theorem responses_turns_are_complete:
  assumes "responses_apply_all H L values (responses_new allow) = (shown, r, s)"
    "responses_finish_checked U L s = Inr turn"
  shows "rs_terminal s = Some StatusCompleted
    \<and> turn_text turn = shown_text shown \<and> turn_reasoning turn = shown_reasoning shown
    \<and> turn_tool_calls turn = map (finish_call U L) (filter ptc_observed (tca_calls (rs_tools s)))
    \<and> list_all dispatchable (turn_tool_calls turn)
    \<and> distinct (map call_provider_call_id (turn_tool_calls turn))
    \<and> turn_terminal turn = (if turn_tool_calls turn = [] then TermStop else TermToolCalls)"
proof -
  have "tools_ok s" using preservesD [OF preserves_tools_all tools_ok_new assms(1)] .
  moreover have "rs_text s = shown_text shown" "rs_reasoning s = shown_reasoning shown"
    using tracksD [OF tracks_all assms(1)] by (simp_all add: grows_by_def responses_texts_def responses_new_def)
  ultimately show ?thesis
    using finished_responses [OF _ assms(2)] by (simp add: responses_texts_def)
qed

definition sample_completed :: json where
  "sample_completed = json_obj [(''type'', JString ''response.completed''),
     (''response'', json_obj [(''output'', JArray [json_obj [(''type'', JString ''function_call''),
        (''call_id'', JString ''a''), (''name'', JString ''read''), (''arguments'', JString ''{}'')]])])]"

theorem responses_turns_are_complete_witness:
  "(case responses_apply_all (\<lambda>_. 0) sample_json_lib [sample_completed] (responses_new False) of
      (shown, _, s) \<Rightarrow>
        (case responses_finish_checked sample_uuid_lib sample_json_lib s of
           Inl _ \<Rightarrow> False
         | Inr turn \<Rightarrow> map call_name (turn_tool_calls turn) = [''read'']
             \<and> turn_terminal turn = TermToolCalls \<and> list_all dispatchable (turn_tool_calls turn)))"
proof -
  let ?L = sample_json_lib and ?U = sample_uuid_lib
  obtain shown r s where run:
    "responses_apply_all (\<lambda>_. 0) ?L [sample_completed] (responses_new False) = (shown, r, s)"
    by (metis surj_pair)
  have s: "s = snd (snd (responses_apply_all (\<lambda>_. 0) ?L [sample_completed] (responses_new False)))"
    by (simp only: run snd_conv)
  have calls: "tca_calls (rs_tools s) = [\<lparr>ptc_observed = True, ptc_id = ''a'', ptc_name = ''read'',
      ptc_arguments = ''{}'', ptc_extra_content = None\<rparr>]"
    unfolding s by code_simp
  have terminal: "rs_terminal s = Some StatusCompleted"
    unfolding s by code_simp
  have "validate_assembler ?L (rs_tools s) = Inr ()"
    by (simp add: validate_assembler_def calls object_arguments_def sample_json_lib_def is_object_def trim_plain)
  then obtain turn where turn: "responses_finish_checked ?U ?L s = Inr turn"
    by (simp add: responses_finish_checked_def responses_finish_def terminal Let_def)
  from responses_turns_are_complete [OF run turn] show ?thesis
    unfolding run prod.case turn sum.case by (auto simp: calls finish_call_def Let_def)
qed

end
