(* ===== verification/Sse_Stream.thy ===== *)
theory Sse_Stream
  imports Utf8
begin

text \<open>
  The incremental parser of server-sent events (\<open>common/sse.rs\<close>). It scans only the suffix a
  chunk adds, less three bytes, and cuts off what it consumed once per chunk; the theorem of
  this theory is that neither that nor the chunks can be seen in the events.
\<close>

section \<open>Events\<close>

record sse_event =
  sse_name :: "str option"
  sse_data :: str
  sse_id :: "str option"
  sse_retry :: "str option"

definition sse_event_default :: sse_event where
  "sse_event_default = \<lparr>sse_name = None, sse_data = [], sse_id = None, sse_retry = None\<rparr>"

definition is_done :: "sse_event \<Rightarrow> bool" where
  "is_done e = (trim (sse_data e) = ''[DONE]'')"

abbreviation LF :: char where "LF \<equiv> CHR 0x0A"
abbreviation CR :: char where "CR \<equiv> CHR 0x0D"

definition byte_order_mark :: str where
  "byte_order_mark = bytes [0xEF, 0xBB, 0xBF]"

fun trim_start_bom :: "str \<Rightarrow> str" where
  "trim_start_bom (a # b # c # s) =
     (if [a, b, c] = byte_order_mark then trim_start_bom s else a # b # c # s)"
| "trim_start_bom s = s"

text \<open>\<open>split\<close> at a byte: one piece more than there are separators.\<close>

fun split_at :: "char \<Rightarrow> str \<Rightarrow> str list" where
  "split_at c [] = [[]]"
| "split_at c (x # xs) =
     (if x = c then [] # split_at c xs
      else case split_at c xs of [] \<Rightarrow> [[x]] | l # ls \<Rightarrow> (x # l) # ls)"

text \<open>\<open>split_once\<close>: what is before and after the first separator.\<close>

fun split_once :: "char \<Rightarrow> str \<Rightarrow> (str \<times> str) option" where
  "split_once c [] = None"
| "split_once c (x # xs) = (if x = c then Some ([], xs) else map_option (apfst (Cons x)) (split_once c xs))"

definition strip_cr :: "str \<Rightarrow> str" where
  "strip_cr line = unwrap_or line (strip_suffix [CR] line)"

definition field_of :: "str \<Rightarrow> str \<times> str" where
  "field_of line =
     (case split_once (CHR '':'') line of
        Some (field, value) \<Rightarrow> (field, unwrap_or value (strip_prefix '' '' value))
      | None \<Rightarrow> (line, []))"

definition set_field :: "str \<Rightarrow> str \<Rightarrow> sse_event \<Rightarrow> sse_event" where
  "set_field field value e =
     (if field = ''data'' then
        e\<lparr>sse_data := (if sse_data e \<noteq> [] then sse_data e @ [LF] else []) @ value\<rparr>
      else if field = ''event'' then e\<lparr>sse_name := Some value\<rparr>
      else if field = ''id'' then e\<lparr>sse_id := Some value\<rparr>
      else if field = ''retry'' then e\<lparr>sse_retry := Some value\<rparr>
      else e)"

text \<open>One line of a block; the flag says that a field was seen.\<close>

definition parse_line :: "str \<Rightarrow> sse_event \<times> bool \<Rightarrow> sse_event \<times> bool" where
  "parse_line raw es =
     (let line = strip_cr raw in
      if line = [] \<or> starts_with line '':'' then es
      else (case field_of line of (field, value) \<Rightarrow> (set_field field value (fst es), True)))"

definition parse_event_block :: "str \<Rightarrow> sse_event option" where
  "parse_event_block block =
     (case fold parse_line (split_at LF (trim_start_bom block)) (sse_event_default, False) of
        (e, saw_field) \<Rightarrow> if saw_field then Some e else None)"

section \<open>The parser\<close>

fun next_event_boundary :: "str \<Rightarrow> nat option" where
  "next_event_boundary [] = None"
| "next_event_boundary (b # bs) =
     (if b = LF \<and> take 1 bs = [LF] then Some 2
      else if b = CR \<and> take 3 bs = [LF, CR, LF] then Some 4
      else map_option Suc (next_event_boundary bs))"

lemma next_event_boundary_bounds: "next_event_boundary s = Some n \<Longrightarrow> 0 < n \<and> n \<le> length s"
proof (induction s arbitrary: n)
  case (Cons b bs)
  have "n \<le> length bs" if "take n bs = x" "length x = n" for n x
    using that by (metis length_take min.absorb_iff2)
  from this [of 1 "[LF]"] this [of 3 "[LF, CR, LF]"] Cons show ?case by (auto split: if_splits)
qed simp

record sse_parser =
  sp_utf8 :: utf8_decoder
  sp_buffer :: str
  sp_scanned :: nat

definition parser_new :: sse_parser where
  "parser_new = \<lparr>sp_utf8 = decoder_new, sp_buffer = [], sp_scanned = 0\<rparr>"

definition push_event :: "sse_event option \<Rightarrow> sse_event list \<Rightarrow> sse_event list" where
  "push_event e events = (case e of Some x \<Rightarrow> events @ [x] | None \<Rightarrow> events)"

text \<open>The loop over the boundaries: the events, and what of the buffer is consumed.\<close>

function drain_loop :: "str \<Rightarrow> nat \<Rightarrow> nat \<Rightarrow> sse_event list \<Rightarrow> sse_event list \<times> nat" where
  "drain_loop buffer consumed search events =
     (case next_event_boundary (drop search buffer) of
        None \<Rightarrow> (events, consumed)
      | Some boundary \<Rightarrow>
          drain_loop buffer (search + boundary) (search + boundary)
            (push_event (parse_event_block (take (search + boundary - consumed) (drop consumed buffer)))
               events))"
  by pat_completeness auto
termination
  by (relation "measure (\<lambda>(buffer, consumed, search, events). length buffer - search)")
    (auto dest!: next_event_boundary_bounds)

declare drain_loop.simps [simp del]

text \<open>Back to the start of a character.\<close>

fun boundary_before :: "str \<Rightarrow> nat \<Rightarrow> nat" where
  "boundary_before s 0 = 0"
| "boundary_before s (Suc n) = (if is_char_boundary s (Suc n) then Suc n else boundary_before s n)"

definition drain_complete_events :: "sse_parser \<Rightarrow> sse_event list \<times> sse_parser" where
  "drain_complete_events p =
     (case drain_loop (sp_buffer p) 0 (sp_scanned p) [] of
        (events, consumed) \<Rightarrow>
          let buffer = drop consumed (sp_buffer p)
          in (events, p\<lparr>sp_buffer := buffer, sp_scanned := boundary_before buffer (length buffer - 3)\<rparr>))"

definition parser_push :: "str \<Rightarrow> sse_parser \<Rightarrow> sse_event list \<times> sse_parser" where
  "parser_push chunk p =
     (case decoder_push chunk (sp_utf8 p) of
        (decoded, d) \<Rightarrow> drain_complete_events (p\<lparr>sp_utf8 := d, sp_buffer := sp_buffer p @ decoded\<rparr>))"

definition parser_finish :: "sse_parser \<Rightarrow> sse_event list \<times> sse_parser" where
  "parser_finish p =
     (case decoder_finish (sp_utf8 p) of
        (decoded, d) \<Rightarrow>
          (case drain_complete_events (p\<lparr>sp_utf8 := d, sp_buffer := sp_buffer p @ decoded\<rparr>) of
             (events, p') \<Rightarrow>
               (push_event (parse_event_block (sp_buffer p')) events,
                p'\<lparr>sp_buffer := [], sp_scanned := 0\<rparr>)))"

section \<open>The reference: blocks of the whole text\<close>

function event_blocks :: "str \<Rightarrow> str list \<times> str" where
  "event_blocks s =
     (case next_event_boundary s of
        None \<Rightarrow> ([], s)
      | Some n \<Rightarrow> apfst (Cons (take n s)) (event_blocks (drop n s)))"
  by pat_completeness auto
termination by (relation "measure length") (auto dest: next_event_boundary_bounds)

declare event_blocks.simps [simp del]

definition events_of :: "str list \<Rightarrow> sse_event list" where
  "events_of blocks = List.map_filter parse_event_block blocks"

definition parse_sse :: "str \<Rightarrow> sse_event list" where
  "parse_sse text =
     (case event_blocks text of (blocks, rest) \<Rightarrow> events_of (blocks @ [rest]))"

lemma events_of_simps [simp]:
  "events_of [] = []"
  "events_of (b # bs) = push_event (parse_event_block b) [] @ events_of bs"
  "events_of (bs @ cs) = events_of bs @ events_of cs"
  by (simp_all add: events_of_def List.map_filter_def push_event_def split: option.split)

lemma push_event_append: "push_event e events = events @ push_event e []"
  by (simp add: push_event_def split: option.split)

lemma boundary_append:
  "next_event_boundary s = Some n \<Longrightarrow> next_event_boundary (s @ t) = Some n"
proof (induction s arbitrary: n)
  case (Cons b bs)
  have "take 1 (bs @ t) = take 1 bs \<or> next_event_boundary bs = None" by (cases bs) simp_all
  moreover have "take 3 (bs @ t) = take 3 bs \<or> take 3 (bs @ t) \<noteq> [LF, CR, LF]
      \<or> next_event_boundary bs = None"
  proof -
    consider "bs = []" | x where "bs = [x]" | x y where "bs = [x, y]" | x y z r where "bs = x # y # z # r"
      by (metis neq_Nil_conv)
    then show ?thesis by cases auto
  qed
  ultimately show ?case using Cons by (auto split: if_splits)
qed simp

lemma event_blocks_append:
  "event_blocks (s @ t) =
     apfst (append (fst (event_blocks s))) (event_blocks (snd (event_blocks s) @ t))"
proof (induction s rule: event_blocks.induct)
  case (1 s)
  show ?case
  proof (cases "next_event_boundary s")
    case None
    then show ?thesis by (simp add: event_blocks.simps [of s])
  next
    case (Some n)
    from "1.IH" [OF Some] boundary_append [OF Some, of t] next_event_boundary_bounds [OF Some]
    show ?thesis
      by (cases "event_blocks (snd (event_blocks (drop n s)) @ t)")
        (simp add: event_blocks.simps [of "s @ t"] event_blocks.simps [of s] Some)
  qed
qed

lemma event_blocks_rest: "next_event_boundary (snd (event_blocks s)) = None"
proof (induction s rule: event_blocks.induct)
  case (1 s)
  then show ?case by (cases "next_event_boundary s") (simp_all add: event_blocks.simps [of s])
qed

section \<open>The parser computes the reference\<close>

lemma drain_loop_blocks:
  assumes "consumed \<le> length buffer"
  shows "drain_loop buffer consumed consumed events =
    (events @ events_of (fst (event_blocks (drop consumed buffer))),
     length buffer - length (snd (event_blocks (drop consumed buffer))))"
  using assms
proof (induction "length buffer - consumed" arbitrary: consumed events rule: less_induct)
  case less
  show ?case
  proof (cases "next_event_boundary (drop consumed buffer)")
    case None
    with less.prems show ?thesis
      by (simp add: drain_loop.simps [of buffer consumed] event_blocks.simps [of "drop consumed buffer"])
  next
    case (Some n)
    then have n: "0 < n" "consumed + n \<le> length buffer"
      using next_event_boundary_bounds [OF Some] less.prems by auto
    then have "length buffer - (consumed + n) < length buffer - consumed" by linarith
    from less.hyps [OF this n(2)] show ?thesis
      by (cases "event_blocks (drop (consumed + n) buffer)")
        (simp add: drain_loop.simps [of buffer consumed] event_blocks.simps [of "drop consumed buffer"]
          Some push_event_append [of _ events] add.commute)
  qed
qed

lemma skip_scanned:
  assumes "next_event_boundary a = None" "k = 0 \<or> k + 3 \<le> length a"
  shows "next_event_boundary (a @ b) = map_option ((+) k) (next_event_boundary (drop k (a @ b)))"
  using assms
proof (induction a arbitrary: k)
  case Nil
  then show ?case by (simp add: option.map_ident)
next
  case (Cons c a)
  show ?case
  proof (cases k)
    case 0
    then show ?thesis by (simp add: option.map_ident)
  next
    case (Suc j)
    with Cons.prems(2) have len: "3 \<le> length a" and j: "j = 0 \<or> j + 3 \<le> length a" by auto
    then have "take 1 (a @ b) = take 1 a" "take 3 (a @ b) = take 3 a" by auto
    with Cons.prems(1) Cons.IH [OF _ j] Suc show ?thesis
      by (auto split: if_splits simp: option.map_comp comp_def)
  qed
qed

lemma boundary_before_le: "boundary_before s n \<le> n"
  by (induction n) (auto intro: le_SucI)

definition parser_ok :: "sse_parser \<Rightarrow> bool" where
  "parser_ok p =
     (decoder_ok (sp_utf8 p) \<and> next_event_boundary (sp_buffer p) = None
      \<and> sp_scanned p \<le> length (sp_buffer p) - 3)"

lemma drain_after_append:
  assumes "next_event_boundary a = None" "k \<le> length a - 3"
  shows "drain_loop (a @ b) 0 k [] = drain_loop (a @ b) 0 0 []"
proof -
  from assms(2) have "k = 0 \<or> k + 3 \<le> length a" by auto
  from skip_scanned [OF assms(1) this] show ?thesis
    by (cases "next_event_boundary (drop k (a @ b))")
      (simp_all add: drain_loop.simps [of "a @ b" 0])
qed

lemma drain_complete_blocks:
  assumes "next_event_boundary a = None" "sp_scanned p \<le> length a - 3" "sp_buffer p = a @ b"
  shows "fst (drain_complete_events p) = events_of (fst (event_blocks (a @ b)))
    \<and> sp_buffer (snd (drain_complete_events p)) = snd (event_blocks (a @ b))
    \<and> sp_utf8 (snd (drain_complete_events p)) = sp_utf8 p
    \<and> sp_scanned (snd (drain_complete_events p)) \<le> length (snd (event_blocks (a @ b))) - 3"
proof -
  have "drop (length s - length (snd (event_blocks s))) s = snd (event_blocks s)" for s
  proof (induction s rule: event_blocks.induct)
    case (1 s)
    show ?case
    proof (cases "next_event_boundary s")
      case (Some n)
      let ?r = "snd (event_blocks (drop n s))"
      from "1.IH" [OF Some] have d: "drop (length s - n - length ?r) (drop n s) = ?r" by simp
      then have "length ?r \<le> length s - n" by (metis length_drop diff_le_self)
      then have "length s - n - length ?r + n = length s - length ?r"
        using next_event_boundary_bounds [OF Some] by linarith
      with d show ?thesis by (simp add: event_blocks.simps [of s] Some)
    qed (simp add: event_blocks.simps [of s])
  qed
  note d = this [of "sp_buffer p"]
  then have "length (snd (event_blocks (sp_buffer p))) \<le> length (sp_buffer p)"
    by (metis diff_le_self length_drop)
  then have "length (sp_buffer p) - (length (sp_buffer p) - length (snd (event_blocks (sp_buffer p))) + 3)
      = length (snd (event_blocks (sp_buffer p))) - 3" by linarith
  with d drain_loop_blocks [of 0 "sp_buffer p" "[]"] drain_after_append [OF assms(1,2), of b]
    boundary_before_le [of _ "length (snd (event_blocks (sp_buffer p))) - 3"]
  show ?thesis unfolding assms(3) [symmetric] by (simp add: drain_complete_events_def Let_def)
qed

lemma parser_push_blocks:
  assumes "parser_ok p"
  shows "\<exists>k. let decoded = utf8_decode (dec_pending (sp_utf8 p) @ chunk);
             blocks = event_blocks (sp_buffer p @ fst decoded);
             p' = \<lparr>sp_utf8 = \<lparr>dec_pending = snd decoded\<rparr>, sp_buffer = snd blocks, sp_scanned = k\<rparr>
         in parser_push chunk p = (events_of (fst blocks), p') \<and> parser_ok p'"
proof -
  let ?d = "utf8_decode (dec_pending (sp_utf8 p) @ chunk)"
  let ?p = "p\<lparr>sp_utf8 := \<lparr>dec_pending = snd ?d\<rparr>, sp_buffer := sp_buffer p @ fst ?d\<rparr>"
  have push: "parser_push chunk p = drain_complete_events ?p"
    by (simp add: parser_push_def decoder_push_decodes)
  from assms drain_complete_blocks [of "sp_buffer p" ?p "fst ?d"]
  have r: "fst (drain_complete_events ?p) = events_of (fst (event_blocks (sp_buffer p @ fst ?d)))"
    "sp_buffer (snd (drain_complete_events ?p)) = snd (event_blocks (sp_buffer p @ fst ?d))"
    "sp_utf8 (snd (drain_complete_events ?p)) = \<lparr>dec_pending = snd ?d\<rparr>"
    "sp_scanned (snd (drain_complete_events ?p)) \<le> length (snd (event_blocks (sp_buffer p @ fst ?d))) - 3"
    by (simp_all add: parser_ok_def)
  obtain events q where q: "drain_complete_events ?p = (events, q)" by fastforce
  with r show ?thesis
    by (intro exI [of _ "sp_scanned q"])
      (simp add: push parser_ok_def decoder_ok_def utf8_decode_rest event_blocks_rest Let_def)
qed

fun parser_push_all :: "str list \<Rightarrow> sse_parser \<Rightarrow> sse_event list \<times> sse_parser" where
  "parser_push_all [] p = ([], p)"
| "parser_push_all (c # cs) p =
     (case parser_push c p of (events, p') \<Rightarrow> apfst (append events) (parser_push_all cs p'))"

lemma parser_push_all_blocks:
  "parser_ok p \<Longrightarrow>
     (let decoded = utf8_decode (dec_pending (sp_utf8 p) @ concat cs);
          blocks = event_blocks (sp_buffer p @ fst decoded);
          (events, p') = parser_push_all cs p
      in events = events_of (fst blocks) \<and> sp_buffer p' = snd blocks
         \<and> dec_pending (sp_utf8 p') = snd decoded \<and> parser_ok p')"
proof (induction cs arbitrary: p)
  case Nil
  then show ?case
    by (simp add: Let_def parser_ok_def decoder_ok_def event_blocks.simps [of "sp_buffer p"])
next
  case (Cons c cs)
  let ?d = "utf8_decode (dec_pending (sp_utf8 p) @ c)"
  let ?b = "event_blocks (sp_buffer p @ fst ?d)"
  from parser_push_blocks [OF Cons.prems, of c] obtain k q where
    q: "parser_push c p = (events_of (fst ?b), q)" "parser_ok q"
      "q = \<lparr>sp_utf8 = \<lparr>dec_pending = snd ?d\<rparr>, sp_buffer = snd ?b, sp_scanned = k\<rparr>"
    by (auto simp: Let_def)
  obtain events q' where r: "parser_push_all cs q = (events, q')" by fastforce
  have d: "utf8_decode (dec_pending (sp_utf8 p) @ c @ concat cs)
      = apfst (append (fst ?d)) (utf8_decode (snd ?d @ concat cs))"
    using utf8_decode_append [of "dec_pending (sp_utf8 p) @ c" "concat cs"] by simp
  have b: "event_blocks (sp_buffer p @ fst ?d @ t) = apfst (append (fst ?b)) (event_blocks (snd ?b @ t))" for t
    using event_blocks_append [of "sp_buffer p @ fst ?d" t] by simp
  from Cons.IH [OF q(2)] show ?case by (simp add: Let_def r q(1) d b) (simp add: q(3))
qed

text \<open>
  The events of a stream do not depend on how it is cut into chunks. Over any chunks the
  incremental parser yields exactly the events of the whole text, decoded at once, cut at
  every empty line, the unterminated rest being a block of its own.
\<close>

theorem sse_chunking_is_irrelevant:
  "(case parser_push_all chunks parser_new of (events, p) \<Rightarrow> events @ fst (parser_finish p))
     = parse_sse (from_utf8_lossy (concat chunks))"
proof -
  obtain events p where run: "parser_push_all chunks parser_new = (events, p)" by fastforce
  let ?u = "utf8_decode (concat chunks)"
  have "parser_ok parser_new"
    by (simp add: parser_ok_def parser_new_def decoder_ok_def decoder_new_def utf8_decode.simps)
  from parser_push_all_blocks [OF this, of chunks] run
  have ev: "events = events_of (fst (event_blocks (fst ?u)))"
    and p: "sp_buffer p = snd (event_blocks (fst ?u))" "dec_pending (sp_utf8 p) = snd ?u" "parser_ok p"
    by (simp_all add: Let_def parser_new_def decoder_new_def)
  obtain rest d where fin: "decoder_finish (sp_utf8 p) = (rest, d)" by fastforce
  have lossy: "from_utf8_lossy (concat chunks) = fst ?u @ rest"
    using decoder_finish_lossy [of "sp_utf8 p"] p fin
    by (cases ?u) (simp add: from_utf8_lossy_def parser_ok_def)
  let ?p = "p\<lparr>sp_utf8 := d, sp_buffer := sp_buffer p @ rest\<rparr>"
  have "fst (parser_finish p) = events_of (fst (event_blocks (sp_buffer p @ rest)))
      @ push_event (parse_event_block (snd (event_blocks (sp_buffer p @ rest)))) []"
    using drain_complete_blocks [of "sp_buffer p" ?p rest] p(3)
    by (cases "drain_complete_events ?p")
      (simp add: parser_finish_def fin parser_ok_def push_event_append [of _ "events_of _"])
  with event_blocks_append [of "fst ?u" rest] show ?thesis
    by (cases "event_blocks (sp_buffer p @ rest)") (simp add: run ev parse_sse_def lossy p)
qed

section \<open>What a block means\<close>

lemma split_at_append: "c \<notin> set x \<Longrightarrow> split_at c (x @ c # y) = x # split_at c y"
  by (induction x) auto

lemma data_line:
  assumes "LF \<notin> set l" "\<not> suffix [CR] l"
  shows "parse_line (''data: '' @ l) es =
    (fst es\<lparr>sse_data := (if sse_data (fst es) \<noteq> [] then sse_data (fst es) @ [LF] else []) @ l\<rparr>, True)"
proof -
  have "\<not> suffix [CR] (''data: '' @ l)"
    using assms(2) by (cases l rule: rev_cases) (auto simp: suffix_def)
  then have "strip_cr (''data: '' @ l) = ''data: '' @ l"
    by (simp add: strip_cr_def strip_suffix_def suffix_to_prefix strip_prefix_None_iff [symmetric]
        del: append.simps append_Cons)
  moreover have "field_of (''data: '' @ l) = (''data'', l)" by (simp add: field_of_def)
  ultimately show ?thesis by (simp add: parse_line_def set_field_def)
qed

fun join_lines :: "str list \<Rightarrow> str" where
  "join_lines [] = []"
| "join_lines [l] = l"
| "join_lines (l # ls) = l @ LF # join_lines ls"

lemma join_lines_snoc: "ls \<noteq> [] \<Longrightarrow> join_lines (ls @ [l]) = join_lines ls @ LF # l"
  by (induction ls rule: join_lines.induct) auto

definition data_block :: "str list \<Rightarrow> str" where
  "data_block ls = concat (map (\<lambda>l. ''data: '' @ l @ [LF]) ls) @ [LF]"

lemma split_data_block:
  "\<forall>l \<in> set ls. LF \<notin> set l \<Longrightarrow> split_at LF (data_block ls) = map ((@) ''data: '') ls @ [[], []]"
proof (induction ls)
  case Nil
  then show ?case by (simp add: data_block_def)
next
  case (Cons l ls)
  then have "LF \<notin> set (''data: '' @ l)" by simp
  from split_at_append [OF this, of "data_block ls"] Cons show ?case
    by (simp add: data_block_def del: split_at.simps)
qed

lemma fold_data_lines:
  assumes "\<forall>l \<in> set ls. LF \<notin> set l \<and> \<not> suffix [CR] l"
  shows "fold parse_line (map ((@) ''data: '') ls) (sse_event_default, False) =
    (sse_event_default\<lparr>sse_data := join_lines (dropWhile (\<lambda>l. l = []) ls)\<rparr>, ls \<noteq> [])"
  using assms
proof (induction ls rule: rev_induct)
  case Nil
  then show ?case by (simp add: sse_event_default_def)
next
  case (snoc l ls)
  let ?d = "dropWhile (\<lambda>l. l = []) ls"
  have "join_lines ?d = [] \<longleftrightarrow> ?d = []"
  proof (cases ?d)
    case (Cons a x)
    then have "a \<noteq> []" by (metis (mono_tags) dropWhile_eq_Cons_conv)
    with Cons show ?thesis by (cases x) simp_all
  qed (simp del: dropWhile_eq_Nil_conv)
  moreover have "dropWhile (\<lambda>l. l = []) (ls @ [l]) = (if ?d = [] then (if l = [] then [] else [l]) else ?d @ [l])"
    by (induction ls) simp_all
  ultimately show ?case
    using snoc by (simp add: data_line join_lines_snoc sse_event_default_def del: append.simps append_Cons)
qed

text \<open>
  The data of an event is its data lines joined by line feeds, except that empty lines in
  front are dropped: the separator is written only after data that is not empty.
\<close>

theorem data_lines_are_joined:
  assumes "list_all (\<lambda>l. LF \<notin> set l \<and> \<not> suffix [CR] l) ls"
  shows "parse_event_block (data_block ls) =
     (if ls = [] then None
      else Some (sse_event_default\<lparr>sse_data := join_lines (dropWhile (\<lambda>l. l = []) ls)\<rparr>))"
proof -
  from assms have ls: "\<forall>l \<in> set ls. LF \<notin> set l \<and> \<not> suffix [CR] l" by (simp add: list_all_iff)
  have bom: "byte_order_mark = [CHR 0xEF, CHR 0xBB, CHR 0xBF]" by code_simp
  have "trim_start_bom (data_block ls) = data_block ls"
    by (cases ls) (simp_all add: data_block_def bom)
  moreover have "parse_line [] es = es" for es by (simp add: parse_line_def strip_cr_def strip_suffix_def)
  ultimately show ?thesis
    using ls fold_data_lines [OF ls] by (simp add: parse_event_block_def split_data_block)
qed

theorem data_lines_are_joined_witness:
  "map_option sse_data (parse_event_block (data_block [[], ''a'', ''b''])) = Some (''a'' @ [LF] @ ''b'')"
  using data_lines_are_joined [of "[[], ''a'', ''b'']"] by (simp add: suffix_def)

end
