(* ===== verification/Streaming.thy ===== *)
theory Streaming
  imports Responses_Stream Sse_Stream
begin

text \<open>
  The live decoder (\<open>openai_compatible/streaming.rs\<close>): bytes of a response arrive in chunks and
  become the events of a turn. The decoder finds out whether the body is a stream of events or
  one JSON value, feeds the assembler of the protocol in use, and decides when a turn is over.
\<close>

section \<open>The decoder\<close>

datatype openai_api_mode = ChatCompletions | Responses

record live_decoder =
  ld_mode :: openai_api_mode
  ld_content_type :: "str option"
  ld_parser :: sse_parser
  ld_head :: str
  ld_raw :: str
  ld_sse :: "bool option"
  ld_chat :: chat_assembler
  ld_responses :: responses_state
  ld_complete :: bool

definition live_new :: "openai_api_mode \<Rightarrow> bool \<Rightarrow> str option \<Rightarrow> live_decoder" where
  "live_new mode allow content_type =
     \<lparr>ld_mode = mode, ld_content_type = content_type, ld_parser = parser_new, ld_head = [],
      ld_raw = [], ld_sse = None, ld_chat = chat_new allow, ld_responses = responses_new allow,
      ld_complete = False\<rparr>"

definition with_deepseek_contract :: "live_decoder \<Rightarrow> live_decoder" where
  "with_deepseek_contract d = d\<lparr>ld_chat := chat_use_deepseek_contract (ld_chat d)\<rparr>"

definition with_gemini_contract :: "live_decoder \<Rightarrow> live_decoder" where
  "with_gemini_contract d = d\<lparr>ld_chat := chat_use_gemini_contract (ld_chat d)\<rparr>"

definition event_stream_markers :: "str list" where
  "event_stream_markers = ['':'', ''data:'', ''event:'', ''id:'']"

definition detect_sse :: "str option \<Rightarrow> str \<Rightarrow> bool option" where
  "detect_sse content_type bs =
     (if (case content_type of
            None \<Rightarrow> False | Some v \<Rightarrow> contains_str (to_ascii_lowercase v) ''text/event-stream'')
      then Some True
      else
        let start = trim_start (trim_start_bom (from_utf8_lossy bs)) in
        if start = [] then None
        else if list_ex (starts_with start) event_stream_markers then Some True
        else if starts_with start ''{'' then Some False
        else None)"

section \<open>One event\<close>

definition malformed_event :: provider_error where
  "malformed_event = ProviderError ''PROVIDER_MALFORMED_RESPONSE: Invalid JSON in a stream event.''"

definition stream_error :: provider_error where
  "stream_error = ProviderError ''PROVIDER_FINISH_ERROR: Provider returned a stream error.''"

definition has_error :: "json \<Rightarrow> bool" where
  "has_error v = (case json_get v ''error'' of None \<Rightarrow> False | Some e \<Rightarrow> \<not> is_null e)"

definition lift_chat ::
    "(chat_assembler \<Rightarrow> sink_event list \<times> chat_assembler) \<Rightarrow> live_decoder \<Rightarrow> sink_event list \<times> live_decoder" where
  "lift_chat f d = (case f (ld_chat d) of (ev, c) \<Rightarrow> (ev, d\<lparr>ld_chat := c\<rparr>))"

definition lift_responses :: "responses_state sink_step \<Rightarrow> live_decoder sink_step" where
  "lift_responses f d = (case f (ld_responses d) of (ev, r, s) \<Rightarrow> (ev, r, d\<lparr>ld_responses := s\<rparr>))"

definition terminal_event_types :: "str list" where
  "terminal_event_types = [''response.completed'', ''response.done'', ''response.incomplete'',
     ''response.failed'', ''response.cancelled'']"

definition ends_response :: "json \<Rightarrow> bool" where
  "ends_response v = (case get_str v ''type'' of None \<Rightarrow> False | Some t \<Rightarrow> t \<in> set terminal_event_types)"

text \<open>The value of an event with data, in the protocol of the decoder.\<close>

definition apply_stream_value :: "(str \<Rightarrow> u64) \<Rightarrow> json_lib \<Rightarrow> json \<Rightarrow> live_decoder sink_step" where
  "apply_stream_value H L v d =
     (case ld_mode d of
        ChatCompletions \<Rightarrow> step_emit (lift_chat (chat_apply_value v)) d
      | Responses \<Rightarrow>
          step_then (lift_responses (responses_apply H L v))
            (step_set (\<lambda>d. d\<lparr>ld_complete := ends_response v\<rparr>)) d)"

definition apply_event_data :: "(str \<Rightarrow> u64) \<Rightarrow> json_lib \<Rightarrow> sse_event \<Rightarrow> live_decoder sink_step" where
  "apply_event_data H L e =
     (case lib_parse L (sse_data e) of
        None \<Rightarrow> step_fail malformed_event
      | Some v \<Rightarrow>
          if has_error v \<or> sse_name e = Some ''error'' then step_fail stream_error
          else apply_stream_value H L v)"

text \<open>The loop over the events of a chunk; the result counts the values that were applied.\<close>

fun apply_sse_events ::
    "(str \<Rightarrow> u64) \<Rightarrow> json_lib \<Rightarrow> sse_event list \<Rightarrow> nat \<Rightarrow> live_decoder
      \<Rightarrow> sink_event list \<times> (provider_error + nat) \<times> live_decoder" where
  "apply_sse_events H L [] applied d = ([], Inr applied, d)"
| "apply_sse_events H L (e # es) applied d =
     (if ld_complete d then ([], Inr applied, d)
      else if is_done e then ([], Inr applied, d\<lparr>ld_complete := True\<rparr>)
      else if trim (sse_data e) = [] then apply_sse_events H L es applied d
      else case apply_event_data H L e d of
             (ev, Inl x, d') \<Rightarrow> (ev, Inl x, d')
           | (ev, Inr _, d') \<Rightarrow> apfst (append ev) (apply_sse_events H L es (Suc applied) d'))"

section \<open>Chunks\<close>

definition push_sse ::
    "(str \<Rightarrow> u64) \<Rightarrow> json_lib \<Rightarrow> str \<Rightarrow> live_decoder
      \<Rightarrow> sink_event list \<times> (provider_error + nat) \<times> live_decoder" where
  "push_sse H L chunk d =
     (case parser_push chunk (ld_parser d) of
        (events, p) \<Rightarrow> apply_sse_events H L events 0 (d\<lparr>ld_parser := p\<rparr>))"

definition live_push ::
    "(str \<Rightarrow> u64) \<Rightarrow> json_lib \<Rightarrow> str \<Rightarrow> live_decoder
      \<Rightarrow> sink_event list \<times> (provider_error + nat) \<times> live_decoder" where
  "live_push H L chunk d =
     (case ld_sse d of
        Some False \<Rightarrow> ([], Inr 0, d\<lparr>ld_raw := ld_raw d @ chunk\<rparr>)
      | Some True \<Rightarrow> push_sse H L chunk d
      | None \<Rightarrow>
          let d1 = d\<lparr>ld_head := ld_head d @ chunk\<rparr> in
          (case detect_sse (ld_content_type d1) (ld_head d1) of
             None \<Rightarrow> ([], Inr 0, d1)
           | Some False \<Rightarrow>
               ([], Inr 0, d1\<lparr>ld_sse := Some False, ld_raw := ld_raw d1 @ ld_head d1, ld_head := []\<rparr>)
           | Some True \<Rightarrow> push_sse H L (ld_head d1) (d1\<lparr>ld_sse := Some True, ld_head := []\<rparr>)))"

section \<open>The end\<close>

definition stream_closed :: provider_error where
  "stream_closed = ProviderError ''PROVIDER_STREAM_CLOSED: Stream ended before its terminal event.''"

definition empty_body :: provider_error where
  "empty_body = ProviderError ''PROVIDER_EMPTY_RESPONSE: Provider returned an empty body.''"

definition malformed_body :: provider_error where
  "malformed_body = ProviderError ''PROVIDER_MALFORMED_RESPONSE: Provider returned invalid JSON.''"

definition response_error :: provider_error where
  "response_error = ProviderError ''PROVIDER_FINISH_ERROR: Provider returned a response error.''"

definition finish_turn :: "uuid_lib \<Rightarrow> json_lib \<Rightarrow> live_decoder \<Rightarrow> provider_error + model_turn" where
  "finish_turn U L d =
     res_bind (case ld_mode d of
                 ChatCompletions \<Rightarrow> chat_finish_checked U L (ld_chat d)
               | Responses \<Rightarrow> responses_finish_checked U L (ld_responses d))
       (\<lambda>turn. if Option.bind (json_get (turn_opaque turn) ''end_turn'') as_bool \<noteq> Some False
               then res_bind (validate_turn turn) (\<lambda>_. Inr turn)
               else Inr turn)"

definition flush_and_finish ::
    "uuid_lib \<Rightarrow> json_lib \<Rightarrow> live_decoder \<Rightarrow> sink_event list \<times> (provider_error + model_turn)" where
  "flush_and_finish U L d =
     (case lift_chat flush_content d of (ev, d') \<Rightarrow> (ev, finish_turn U L d'))"

text \<open>The end of a stream of events, and the end of a body that is one JSON value.\<close>

definition finish_sse ::
    "uuid_lib \<Rightarrow> json_lib \<Rightarrow> live_decoder \<Rightarrow> sink_event list \<times> (provider_error + model_turn)" where
  "finish_sse U L d = (if \<not> ld_complete d then ([], Inl stream_closed) else flush_and_finish U L d)"

text \<open>A step, then an end; a step that fails is the end.\<close>

definition then_end ::
    "('s \<Rightarrow> sink_event list \<times> (provider_error + 'a) \<times> 's)
      \<Rightarrow> ('s \<Rightarrow> sink_event list \<times> (provider_error + model_turn))
      \<Rightarrow> 's \<Rightarrow> sink_event list \<times> (provider_error + model_turn)" where
  "then_end f g s =
     (case f s of
        (ev, Inl e, _) \<Rightarrow> (ev, Inl e)
      | (ev, Inr _, s') \<Rightarrow> apfst (append ev) (g s'))"

definition apply_body_value :: "(str \<Rightarrow> u64) \<Rightarrow> json_lib \<Rightarrow> json \<Rightarrow> live_decoder sink_step" where
  "apply_body_value H L v d =
     (case ld_mode d of
        ChatCompletions \<Rightarrow> step_emit (lift_chat (chat_apply_value v)) d
      | Responses \<Rightarrow> lift_responses (responses_apply H L v) d)"

definition finish_body ::
    "(str \<Rightarrow> u64) \<Rightarrow> uuid_lib \<Rightarrow> json_lib \<Rightarrow> live_decoder
      \<Rightarrow> sink_event list \<times> (provider_error + model_turn)" where
  "finish_body H U L d =
     (if ld_raw d = [] then ([], Inl empty_body)
      else case lib_parse L (ld_raw d) of
             None \<Rightarrow> ([], Inl malformed_body)
           | Some v \<Rightarrow>
               if has_error v then ([], Inl response_error)
               else then_end (apply_body_value H L v) (flush_and_finish U L) d)"

definition live_finish ::
    "(str \<Rightarrow> u64) \<Rightarrow> uuid_lib \<Rightarrow> json_lib \<Rightarrow> live_decoder
      \<Rightarrow> sink_event list \<times> (provider_error + model_turn)" where
  "live_finish H U L d =
     (case ld_sse d of
        Some True \<Rightarrow> finish_sse U L d
      | Some False \<Rightarrow> finish_body H U L d
      | None \<Rightarrow>
          if detect_sse (ld_content_type d) (ld_head d) = Some True
          then then_end (push_sse H L (ld_head d)) (finish_sse U L)
                 (d\<lparr>ld_sse := Some True, ld_head := []\<rparr>)
          else finish_body H U L (d\<lparr>ld_sse := Some False, ld_raw := ld_raw d @ ld_head d, ld_head := []\<rparr>))"

text \<open>The loop of \<open>feed_buffered\<close> and of \<open>stream_turn\<close>.\<close>

fun feed ::
    "(str \<Rightarrow> u64) \<Rightarrow> uuid_lib \<Rightarrow> json_lib \<Rightarrow> str list \<Rightarrow> live_decoder
      \<Rightarrow> sink_event list \<times> (provider_error + model_turn)" where
  "feed H U L [] d = live_finish H U L d"
| "feed H U L (c # cs) d =
     then_end (live_push H L c) (\<lambda>d'. if ld_complete d' then live_finish H U L d' else feed H U L cs d') d"

definition feed_buffered ::
    "(str \<Rightarrow> u64) \<Rightarrow> uuid_lib \<Rightarrow> json_lib \<Rightarrow> openai_api_mode \<Rightarrow> bool \<Rightarrow> str option \<Rightarrow> str list
      \<Rightarrow> sink_event list \<times> (provider_error + model_turn)" where
  "feed_buffered H U L mode allow content_type chunks = feed H U L chunks (live_new mode allow content_type)"

section \<open>Detection is not revised by more bytes\<close>

text \<open>Bytes that start neither white space nor a byte order mark.\<close>

definition plain_start :: "char \<Rightarrow> bool" where
  "plain_start c = (c \<in> set '':dei{'')"

lemma byte_order_mark_bytes: "byte_order_mark = [CHR 0xEF, CHR 0xBB, CHR 0xBF]"
  by code_simp

lemma white_space_starts:
  "p \<in> set white_space \<Longrightarrow> p \<noteq> [] \<and> \<not> plain_start (hd p) \<and> hd p \<noteq> CHR 0xEF"
proof -
  have "list_all (\<lambda>p. p \<noteq> [] \<and> \<not> plain_start (hd p) \<and> hd p \<noteq> CHR 0xEF) white_space"
    by code_simp
  then show "p \<in> set white_space \<Longrightarrow> ?thesis" by (simp add: list_all_iff)
qed

lemma trim_start_stable:
  "\<exists>w. u = w @ trim_start u \<and> (\<forall>z. z \<noteq> [] \<and> plain_start (hd z) \<longrightarrow> trim_start (w @ z) = z)
     \<and> (w = [] \<or> hd w \<noteq> CHR 0xEF)"
proof (induction u rule: trim_start.induct)
  case (1 u)
  show ?case
  proof (cases "strip_any white_space u")
    case None
    have "strip_any white_space z = None" if "z \<noteq> [] \<and> plain_start (hd z)" for z
      using that white_space_starts unfolding strip_any_None_iff
      by (metis hd_append2 prefix_def)
    then have "trim_start z = z" if "z \<noteq> [] \<and> plain_start (hd z)" for z
      using that by (simp add: trim_start.simps [of z])
    with None show ?thesis by (intro exI [of _ "[]"]) (simp add: trim_start.simps [of u])
  next
    case (Some r)
    then obtain p where p: "p \<in> set white_space" "u = p @ r" using strip_any_Some by blast
    from "1.IH" [OF Some] obtain w where w: "r = w @ trim_start r"
      "\<forall>z. z \<noteq> [] \<and> plain_start (hd z) \<longrightarrow> trim_start (w @ z) = z" by blast
    have "trim_start (p @ x) = trim_start x" for x
      using white_space_prefix_free [OF p(1), of x] by (simp add: trim_start.simps [of "p @ x"])
    with w p white_space_starts [OF p(1)] show ?thesis
      by (intro exI [of _ "p @ w"]) auto
  qed
qed

lemma trim_bom_plain: "z \<noteq> [] \<Longrightarrow> hd z \<noteq> CHR 0xEF \<Longrightarrow> trim_start_bom z = z"
  by (cases z rule: trim_start_bom.cases) (auto simp: byte_order_mark_bytes)

lemma trim_bom_stable:
  "\<exists>w. u = w @ trim_start_bom u
     \<and> (\<forall>z. z \<noteq> [] \<and> hd z \<noteq> CHR 0xEF \<longrightarrow> trim_start_bom (w @ z) = z)"
proof (induction u rule: trim_start_bom.induct)
  case (1 a b c s)
  show ?case
  proof (cases "[a, b, c] = byte_order_mark")
    case True
    with 1 obtain w where "s = w @ trim_start_bom s"
      "\<forall>z. z \<noteq> [] \<and> hd z \<noteq> CHR 0xEF \<longrightarrow> trim_start_bom (w @ z) = z" by blast
    with True show ?thesis by (intro exI [of _ "a # b # c # w"]) auto
  next
    case False
    then show ?thesis by (intro exI [of _ "[]"]) (auto simp: trim_bom_plain)
  qed
qed (auto simp: trim_bom_plain intro!: exI [of _ "[]"])

definition start_of :: "str \<Rightarrow> str" where
  "start_of u = trim_start (trim_start_bom u)"

lemma start_stable:
  "\<exists>w. u = w @ start_of u \<and> (\<forall>z. z \<noteq> [] \<and> plain_start (hd z) \<longrightarrow> start_of (w @ z) = z)"
proof -
  obtain v where v: "u = v @ trim_start_bom u"
    "\<And>z. z \<noteq> [] \<Longrightarrow> hd z \<noteq> CHR 0xEF \<Longrightarrow> trim_start_bom (v @ z) = z"
    using trim_bom_stable [of u] by blast
  obtain w where w: "trim_start_bom u = w @ start_of u"
    "\<And>z. z \<noteq> [] \<Longrightarrow> plain_start (hd z) \<Longrightarrow> trim_start (w @ z) = z" "w = [] \<or> hd w \<noteq> CHR 0xEF"
    using trim_start_stable [of "trim_start_bom u"] unfolding start_of_def by blast
  have "start_of ((v @ w) @ z) = z" if z: "z \<noteq> []" "plain_start (hd z)" for z
  proof -
    have "hd (w @ z) \<noteq> CHR 0xEF"
      using w(3) z by (cases w) (auto simp: plain_start_def)
    with v(2) [of "w @ z"] w(2) z show ?thesis by (simp add: start_of_def)
  qed
  with v(1) w(1) show ?thesis by (metis append.assoc)
qed

lemma start_with_marker:
  assumes "start_of (d @ y) = m @ r" "m \<noteq> []" "plain_start (hd m)" "set y \<inter> set m = {}"
  shows "starts_with (start_of (d @ x)) m"
proof -
  obtain w where w: "d @ y = w @ m @ r"
    "\<And>z. z \<noteq> [] \<Longrightarrow> plain_start (hd z) \<Longrightarrow> start_of (w @ z) = z"
    using start_stable [of "d @ y"] assms(1) by auto
  have "length (w @ m) \<le> length d"
  proof (rule ccontr)
    assume long: "\<not> length (w @ m) \<le> length d"
    then have "last (w @ m) \<in> set (drop (length d) (w @ m))"
      by (metis append_is_Nil_conv assms(2) drop_eq_Nil last_drop last_in_set not_le)
    moreover have "drop (length d) (w @ m) @ r = y"
    proof -
      have "drop (length d) (w @ m) @ r = drop (length d) ((w @ m) @ r)"
        using long by simp
      also have "\<dots> = y" using w(1) by (metis append.assoc append_eq_conv_conj)
      finally show ?thesis .
    qed
    ultimately have "last m \<in> set y" using assms(2) by auto
    with assms(2,4) show False by (meson disjoint_iff last_in_set)
  qed
  then have "take (length (w @ m)) d = w @ m"
    using w(1) by (metis append.assoc append_eq_append_conv_if append_eq_conv_conj)
  then obtain r' where "d = w @ m @ r'"
    by (metis append.assoc append_take_drop_id)
  with w(2) [of "m @ r' @ x"] assms(2,3) show ?thesis by simp
qed

lemma lossy_parts:
  "\<exists>d y. from_utf8_lossy h = d @ y \<and> (y = [] \<or> y = replacement) \<and> (\<forall>t. \<exists>x. from_utf8_lossy (h @ t) = d @ x)"
proof -
  obtain d rest where h: "utf8_decode h = (d, rest)" by fastforce
  have "\<exists>x. from_utf8_lossy (h @ t) = d @ x" for t
    using utf8_decode_append [of h t] h
    by (cases "utf8_decode (rest @ t)") (simp add: from_utf8_lossy_def)
  moreover have "from_utf8_lossy h = d @ (if rest = [] then [] else replacement)"
    by (simp add: from_utf8_lossy_def h)
  ultimately show ?thesis by (metis (full_types))
qed

lemma replacement_bytes: "replacement = [CHR 0xEF, CHR 0xBF, CHR 0xBD]"
  by code_simp

lemma start_of_longer:
  assumes "starts_with (start_of (from_utf8_lossy h)) m" "m \<in> set (''{'' # event_stream_markers)"
  shows "starts_with (start_of (from_utf8_lossy (h @ t))) m"
proof -
  obtain d y x where parts: "from_utf8_lossy h = d @ y" "y = [] \<or> y = replacement"
    "from_utf8_lossy (h @ t) = d @ x"
    using lossy_parts [of h] by blast
  have "m \<noteq> []" "plain_start (hd m)" "set y \<inter> set m = {}"
    using assms(2) parts(2)
    by (auto simp: event_stream_markers_def plain_start_def replacement_bytes)
  moreover obtain r where "start_of (d @ y) = m @ r"
    using assms(1) by (auto simp: parts prefix_def)
  ultimately show ?thesis
    using start_with_marker [of d y m r x] by (simp add: parts)
qed

lemma detect_sse_stable:
  assumes "detect_sse ct h = Some b"
  shows "detect_sse ct (h @ t) = Some b"
proof (cases "case ct of None \<Rightarrow> False | Some v \<Rightarrow> contains_str (to_ascii_lowercase v) ''text/event-stream''")
  case False
  let ?s = "start_of (from_utf8_lossy h)" and ?s' = "start_of (from_utf8_lossy (h @ t))"
  have d: "detect_sse ct u = (let start = start_of (from_utf8_lossy u) in
        if start = [] then None
        else if list_ex (starts_with start) event_stream_markers then Some True
        else if starts_with start ''{'' then Some False
        else None)" for u
    unfolding detect_sse_def start_of_def if_not_P [OF False] ..
  show ?thesis
  proof (cases "list_ex (starts_with ?s) event_stream_markers")
    case True
    then obtain m where m: "m \<in> set event_stream_markers" "starts_with ?s m"
      by (auto simp: list_ex_iff)
    with start_of_longer [of h m t] have "starts_with ?s' m" by simp
    with m have "?s' \<noteq> []" "list_ex (starts_with ?s') event_stream_markers"
      by (auto simp: list_ex_iff event_stream_markers_def)
    with True assms d [of h] d [of "h @ t"] show ?thesis by (auto simp: Let_def split: if_splits)
  next
    case no: False
    with assms have m: "starts_with ?s ''{''" "b = False"
      by (auto simp: d Let_def split: if_splits)
    with start_of_longer [of h "''{''" t] have "starts_with ?s' ''{''" by simp
    moreover from this have "\<not> list_ex (starts_with ?s') event_stream_markers"
      by (auto simp: event_stream_markers_def prefix_def)
    ultimately show ?thesis using m(2) d [of "h @ t"] by (auto simp: Let_def prefix_def)
  qed
qed (use assms in \<open>simp add: detect_sse_def\<close>)

section \<open>How the bytes are cut does not matter\<close>

text \<open>What of a decoder the events act on.\<close>

definition core :: "live_decoder \<Rightarrow> openai_api_mode \<times> chat_assembler \<times> responses_state \<times> bool" where
  "core d = (ld_mode d, ld_chat d, ld_responses d, ld_complete d)"

lemma core_update [simp]:
  "core (d\<lparr>ld_parser := p\<rparr>) = core d" "core (d\<lparr>ld_head := h\<rparr>) = core d"
  "core (d\<lparr>ld_raw := w\<rparr>) = core d" "core (d\<lparr>ld_sse := b\<rparr>) = core d"
  by (simp_all add: core_def)

text \<open>Two results that differ in the count and in what the events do not act on.\<close>

definition alike ::
    "sink_event list \<times> (provider_error + 'a) \<times> live_decoder
      \<Rightarrow> sink_event list \<times> (provider_error + 'b) \<times> live_decoder \<Rightarrow> bool" where
  "alike x y = (fst x = fst y \<and> map_sum id (\<lambda>_. ()) (fst (snd x)) = map_sum id (\<lambda>_. ()) (fst (snd y))
     \<and> core (snd (snd x)) = core (snd (snd y)))"

lemma alike_value:
  assumes "core d = core d'"
  shows "alike (apply_stream_value H L v d) (apply_stream_value H L v d')"
proof (cases "ld_mode d'")
  case ChatCompletions
  with assms show ?thesis
    by (cases "chat_apply_value v (ld_chat d')")
      (simp add: alike_def core_def apply_stream_value_def lift_chat_def step_emit_def)
next
  case Responses
  obtain ev r s where r: "responses_apply H L v (ld_responses d') = (ev, r, s)" by (metis surj_pair)
  with assms Responses show ?thesis
    by (cases r) (simp_all add: alike_def core_def apply_stream_value_def lift_responses_def
        step_set_def step_then_def)
qed

lemma alike_event:
  assumes "core d = core d'"
  shows "alike (apply_event_data H L e d) (apply_event_data H L e d')"
  using assms alike_value [OF assms]
  by (cases "lib_parse L (sse_data e)") (simp_all add: apply_event_data_def step_fail_def alike_def)

lemma alike_cases:
  assumes "alike x y"
  obtains (fail) ev e d d' where "x = (ev, Inl e, d)" "y = (ev, Inl e, d')" "core d = core d'"
  | (ok) ev m n d d' where "x = (ev, Inr m, d)" "y = (ev, Inr n, d')" "core d = core d'"
proof -
  obtain ev r d where x: "x = (ev, r, d)" by (metis surj_pair)
  obtain ev' r' d' where y: "y = (ev', r', d')" by (metis surj_pair)
  from assms have same: "ev' = ev" "core d = core d'" "map_sum id (\<lambda>_. ()) r = map_sum id (\<lambda>_. ()) r'"
    by (simp_all add: alike_def x y)
  show thesis
  proof (cases r)
    case (Inl e)
    with same(3) have "r' = Inl e" by (cases r') simp_all
    with Inl same fail x y show thesis by blast
  next
    case (Inr m)
    with same(3) obtain n where "r' = Inr n" by (cases r') simp_all
    with Inr same ok x y show thesis by blast
  qed
qed

lemma alike_prepend:
  "alike (ev, r, d) (ev', r', d') \<Longrightarrow> alike (xs @ ev, r, d) (xs @ ev', r', d')"
  by (simp add: alike_def)

lemma alike_apply:
  "core d = core d' \<Longrightarrow> alike (apply_sse_events H L es m d) (apply_sse_events H L es n d')"
proof (induction es arbitrary: m n d d')
  case Nil
  then show ?case by (simp add: alike_def)
next
  case (Cons e es)
  then have c: "ld_complete d = ld_complete d'" by (simp add: core_def)
  consider (over) "ld_complete d'" | (mark) "\<not> ld_complete d'" "is_done e"
    | (blank) "\<not> ld_complete d'" "\<not> is_done e" "trim (sse_data e) = []"
    | (payload) "\<not> ld_complete d'" "\<not> is_done e" "trim (sse_data e) \<noteq> []" by blast
  then show ?case
  proof cases
    case payload
    have "alike (apply_event_data H L e d) (apply_event_data H L e d')"
      by (rule alike_event [OF Cons.prems])
    then show ?thesis
    proof (cases rule: alike_cases)
      case (fail ev x d1 d1')
      with payload c show ?thesis by (simp add: alike_def)
    next
      case (ok ev i j d1 d1')
      obtain ev1 r1 e1 where x: "apply_sse_events H L es (Suc m) d1 = (ev1, r1, e1)" by (metis surj_pair)
      obtain ev2 r2 e2 where y: "apply_sse_events H L es (Suc n) d1' = (ev2, r2, e2)" by (metis surj_pair)
      from Cons.IH [OF ok(3), of "Suc m" "Suc n"] have "alike (ev1, r1, e1) (ev2, r2, e2)"
        by (simp only: x y)
      with payload c ok x y show ?thesis by (simp add: alike_prepend)
    qed
  qed (use Cons c in \<open>simp_all add: alike_def core_def\<close>)
qed

lemma alike_finish: "core d = core d' \<Longrightarrow> finish_sse U L d = finish_sse U L d'"
  by (auto simp: finish_sse_def flush_and_finish_def lift_chat_def finish_turn_def core_def
      split: prod.split openai_api_mode.split)

lemma alike_then_end:
  assumes "alike (f d) (g d')"
  shows "then_end f (finish_sse U L) d = then_end g (finish_sse U L) d'"
  using assms
proof (cases rule: alike_cases)
  case (ok ev m n d1 d1')
  with alike_finish [OF ok(3), of U L] show ?thesis by (simp add: then_end_def)
qed (simp add: then_end_def)

definition run_events ::
    "(str \<Rightarrow> u64) \<Rightarrow> uuid_lib \<Rightarrow> json_lib \<Rightarrow> sse_event list \<Rightarrow> live_decoder
      \<Rightarrow> sink_event list \<times> (provider_error + model_turn)" where
  "run_events H U L es = then_end (apply_sse_events H L es 0) (finish_sse U L)"

lemma run_events_core: "core d = core d' \<Longrightarrow> run_events H U L es d = run_events H U L es d'"
  unfolding run_events_def by (rule alike_then_end [OF alike_apply])

lemma apply_append:
  "apply_sse_events H L (es @ fs) n d =
     (case apply_sse_events H L es n d of
        (ev, Inl e, d') \<Rightarrow> (ev, Inl e, d')
      | (ev, Inr m, d') \<Rightarrow> apfst (append ev) (apply_sse_events H L fs m d'))"
proof (induction es arbitrary: n d)
  case (Cons e es)
  show ?case
  proof (cases "ld_complete d \<or> is_done e")
    case True
    have "ld_complete d' \<Longrightarrow> apply_sse_events H L fs m d' = ([], Inr m, d')" for m d'
      by (cases fs) simp_all
    with True show ?thesis by auto
  next
    case False
    with Cons show ?thesis by (auto split: prod.split sum.split)
  qed
qed simp

lemma run_events_append:
  "run_events H U L (es @ fs) d = then_end (apply_sse_events H L es 0) (run_events H U L fs) d"
proof -
  obtain ev r d' where es: "apply_sse_events H L es 0 d = (ev, r, d')" by (metis surj_pair)
  show ?thesis
  proof (cases r)
    case (Inr m)
    have "then_end (apply_sse_events H L fs m) (finish_sse U L) d' = run_events H U L fs d'"
      unfolding run_events_def by (rule alike_then_end [OF alike_apply [OF refl]])
    from this [symmetric] show ?thesis
      by (cases "apply_sse_events H L fs m d'")
        (auto simp: run_events_def [of H U L "es @ fs"] then_end_def apply_append es Inr split: sum.split)
  qed (simp add: run_events_def then_end_def apply_append es)
qed

text \<open>What the events leave alone.\<close>

definition frame :: "live_decoder \<Rightarrow> sse_parser \<times> bool option \<times> openai_api_mode" where
  "frame d = (ld_parser d, ld_sse d, ld_mode d)"

lemma value_frame: "frame (snd (snd (apply_stream_value H L v d))) = frame d"
proof (cases "ld_mode d")
  case ChatCompletions
  then show ?thesis
    by (cases "chat_apply_value v (ld_chat d)")
      (simp add: frame_def apply_stream_value_def lift_chat_def step_emit_def)
next
  case Responses
  obtain ev r s where r: "responses_apply H L v (ld_responses d) = (ev, r, s)" by (metis surj_pair)
  with Responses show ?thesis
    by (cases r) (simp_all add: frame_def apply_stream_value_def lift_responses_def
        step_set_def step_then_def)
qed

lemma event_frame: "frame (snd (snd (apply_event_data H L e d))) = frame d"
  by (cases "lib_parse L (sse_data e)") (simp_all add: apply_event_data_def step_fail_def value_frame)

lemma apply_frame: "frame (snd (snd (apply_sse_events H L es n d))) = frame d"
proof (induction es arbitrary: n d)
  case (Cons e es)
  obtain ev1 r1 d1 where one: "apply_event_data H L e d = (ev1, r1, d1)" by (metis surj_pair)
  with event_frame [of H L e d] have "frame d1 = frame d" by simp
  with Cons.IH [of "Suc n" d1] Cons.IH [of n d] show ?case
    by (cases r1; cases "apply_sse_events H L es (Suc n) d1") (simp_all add: one frame_def)
qed simp

lemma feed_stream:
  "ld_sse d = Some True \<Longrightarrow> \<not> ld_complete d \<Longrightarrow>
     feed H U L cs d = run_events H U L (fst (parser_push_all cs (ld_parser d))) d"
proof (induction cs arbitrary: d)
  case Nil
  then show ?case by (simp add: live_finish_def run_events_def then_end_def)
next
  case (Cons c cs)
  obtain es p where p: "parser_push c (ld_parser d) = (es, p)" by fastforce
  let ?d = "d\<lparr>ld_parser := p\<rparr>" and ?rest = "fst (parser_push_all cs p)"
  obtain ev r d' where run: "apply_sse_events H L es 0 ?d = (ev, r, d')" by (metis surj_pair)
  have frame: "ld_parser d' = p" "ld_sse d' = Some True"
    using apply_frame [of H L es 0 ?d] Cons.prems by (simp_all add: run frame_def)
  have rest: "run_events H U L ?rest d' = (if ld_complete d' then live_finish H U L d' else feed H U L cs d')"
  proof (cases "ld_complete d'")
    case True
    then show ?thesis
      by (cases ?rest) (simp_all add: run_events_def then_end_def live_finish_def frame)
  qed (use Cons.IH [of d'] frame in simp)
  have "feed H U L (c # cs) d = then_end (apply_sse_events H L es 0) (run_events H U L ?rest) ?d"
    by (cases r) (simp_all add: then_end_def live_push_def push_sse_def Cons.prems p run rest)
  also have "\<dots> = run_events H U L (es @ ?rest) d"
    unfolding run_events_append [symmetric] by (rule run_events_core) simp
  finally show ?case by (simp add: p split: prod.split)
qed

lemma feed_body:
  "ld_sse d = Some False \<Longrightarrow> \<not> ld_complete d \<Longrightarrow>
     feed H U L cs d = finish_body H U L (d\<lparr>ld_raw := ld_raw d @ concat cs\<rparr>)"
proof (induction cs arbitrary: d)
  case (Cons c cs)
  from Cons.IH [of "d\<lparr>ld_raw := ld_raw d @ c\<rparr>"] Cons.prems show ?case
    by (simp add: then_end_def live_push_def)
qed (simp add: live_finish_def)

text \<open>The reference: the whole body at once.\<close>

definition decode_whole ::
    "(str \<Rightarrow> u64) \<Rightarrow> uuid_lib \<Rightarrow> json_lib \<Rightarrow> str \<Rightarrow> live_decoder
      \<Rightarrow> sink_event list \<times> (provider_error + model_turn)" where
  "decode_whole H U L body d =
     (if detect_sse (ld_content_type d) body = Some True
      then run_events H U L (events_of (fst (event_blocks (fst (utf8_decode body))))) d
      else finish_body H U L (d\<lparr>ld_sse := Some False, ld_raw := body, ld_head := []\<rparr>))"

lemma parser_events_whole:
  "fst (parser_push_all cs parser_new) = events_of (fst (event_blocks (fst (utf8_decode (concat cs)))))"
proof -
  have ok: "parser_ok parser_new"
    by (simp add: parser_ok_def parser_new_def decoder_ok_def decoder_new_def utf8_decode.simps)
  obtain es p where "parser_push_all cs parser_new = (es, p)" by fastforce
  with parser_push_all_blocks [OF ok, of cs] show ?thesis
    by (simp add: Let_def parser_new_def decoder_new_def)
qed

definition undecided :: "live_decoder \<Rightarrow> bool" where
  "undecided d = (ld_sse d = None \<and> \<not> ld_complete d \<and> ld_raw d = [] \<and> ld_parser d = parser_new)"

lemma feed_whole:
  "undecided d \<Longrightarrow> feed H U L cs d = decode_whole H U L (ld_head d @ concat cs) d"
proof (induction cs arbitrary: d)
  case Nil
  then have "fst (parser_push (ld_head d) parser_new) = events_of (fst (event_blocks (fst (utf8_decode (ld_head d)))))"
    using parser_events_whole [of "[ld_head d]"] by (simp split: prod.splits)
  moreover have "then_end (push_sse H L h) (finish_sse U L) (d\<lparr>ld_sse := Some True, ld_head := []\<rparr>)
      = run_events H U L (fst (parser_push h parser_new)) d" for h
    using Nil run_events_core [of "d\<lparr>ld_sse := Some True, ld_head := [], ld_parser := snd (parser_push h parser_new)\<rparr>" d]
    by (simp add: undecided_def push_sse_def run_events_def then_end_def case_prod_unfold)
  ultimately show ?case
    using Nil by (simp add: live_finish_def decode_whole_def undecided_def)
next
  case (Cons c cs)
  let ?h = "ld_head d @ c"
  note d = Cons.prems [unfolded undecided_def]
  show ?case
  proof (cases "detect_sse (ld_content_type d) ?h")
    case None
    with Cons.IH [of "d\<lparr>ld_head := ?h\<rparr>"] d show ?thesis
      by (simp add: undecided_def then_end_def live_push_def decode_whole_def
          run_events_core [of "d\<lparr>ld_head := ?h\<rparr>" d])
  next
    case (Some b)
    note whole = detect_sse_stable [OF Some, of "concat cs"]
    show ?thesis
    proof (cases b)
      case False
      have "finish_body H U L (d\<lparr>ld_sse := Some False, ld_head := [], ld_raw := w\<rparr>)
          = finish_body H U L (d\<lparr>ld_sse := Some False, ld_raw := w, ld_head := []\<rparr>)" for w
        by (rule arg_cong [where f = "finish_body H U L"]) simp
      with False d Some whole show ?thesis
        by (simp add: then_end_def live_push_def decode_whole_def feed_body)
    next
      case True
      let ?d = "d\<lparr>ld_sse := Some True, ld_head := []\<rparr>"
      from True d Some have "feed H U L (c # cs) d = feed H U L (?h # cs) ?d"
        by (simp add: then_end_def live_push_def)
      also have "\<dots> = run_events H U L (fst (parser_push_all (?h # cs) parser_new)) d"
        using feed_stream [of ?d H U L "?h # cs"] d run_events_core [of ?d d] by simp
      finally show ?thesis
        using True whole unfolding parser_events_whole by (simp add: decode_whole_def)
    qed
  qed
qed

definition start_decoder :: "openai_api_mode \<Rightarrow> bool \<Rightarrow> str option \<Rightarrow> bool \<Rightarrow> bool \<Rightarrow> live_decoder" where
  "start_decoder mode allow content_type deepseek gemini =
     (if gemini then with_gemini_contract else id)
       ((if deepseek then with_deepseek_contract else id) (live_new mode allow content_type))"

lemma undecided_start: "undecided (start_decoder mode allow content_type deepseek gemini)"
    "ld_head (start_decoder mode allow content_type deepseek gemini) = []"
  by (simp_all add: start_decoder_def undecided_def live_new_def with_gemini_contract_def with_deepseek_contract_def)

text \<open>
  C8. How the network cuts a response does not matter. In either protocol, under either contract
  and for any content type, a body that arrives in any chunks shows the same deltas in the same
  order and ends in the same turn, or the same error, as the whole body in one chunk.
\<close>

theorem response_chunking_is_irrelevant:
  "feed H U L chunks (start_decoder mode allow content_type deepseek gemini)
     = feed H U L [concat chunks] (start_decoder mode allow content_type deepseek gemini)"
  using feed_whole [OF undecided_start(1)] undecided_start(2) by simp

section \<open>What a decoded turn is\<close>

definition live_texts :: "live_decoder \<Rightarrow> str \<times> str" where
  "live_texts d =
     (case ld_mode d of
        ChatCompletions \<Rightarrow> chat_texts (ld_chat d)
      | Responses \<Rightarrow> responses_texts (ld_responses d))"

text \<open>In the Responses protocol the chat assembler is idle and the calls have their shape.\<close>

definition live_ok :: "live_decoder \<Rightarrow> bool" where
  "live_ok d = (tools_ok (ld_responses d)
     \<and> (ld_mode d = Responses \<longrightarrow> fst (flush_content (ld_chat d)) = []))"

text \<open>
  What a run keeps: the texts grow by what was shown, and the invariant holds in the end.
\<close>

definition sound_step :: "live_decoder \<Rightarrow> sink_event list \<times> 'r \<times> live_decoder \<Rightarrow> bool" where
  "sound_step d x = (live_ok d \<longrightarrow>
     grows_by (live_texts d) (fst x) (live_texts (snd (snd x))) \<and> live_ok (snd (snd x)))"

lemma sound_stay: "live_texts d' = live_texts d \<Longrightarrow> live_ok d' = live_ok d \<Longrightarrow> sound_step d ([], r, d')"
  by (simp add: sound_step_def)

lemma sound_any: "sound_step d (ev, r, d') \<Longrightarrow> sound_step d (ev, r', d')"
  by (simp add: sound_step_def)

lemma sound_prepend:
  "sound_step d (ev, r, d') \<Longrightarrow> sound_step d' (ev', r', d'') \<Longrightarrow> sound_step d (ev @ ev', r', d'')"
  by (auto simp: sound_step_def intro: grows_by_trans)

lemma live_update [simp]:
  "live_texts (d\<lparr>ld_parser := p\<rparr>) = live_texts d" "live_ok (d\<lparr>ld_parser := p\<rparr>) = live_ok d"
  "live_texts (d\<lparr>ld_head := h\<rparr>) = live_texts d" "live_ok (d\<lparr>ld_head := h\<rparr>) = live_ok d"
  "live_texts (d\<lparr>ld_raw := h\<rparr>) = live_texts d" "live_ok (d\<lparr>ld_raw := h\<rparr>) = live_ok d"
  "live_texts (d\<lparr>ld_sse := b\<rparr>) = live_texts d" "live_ok (d\<lparr>ld_sse := b\<rparr>) = live_ok d"
  "live_texts (d\<lparr>ld_complete := c\<rparr>) = live_texts d" "live_ok (d\<lparr>ld_complete := c\<rparr>) = live_ok d"
  by (simp_all add: live_texts_def live_ok_def split: openai_api_mode.split)

lemma sound_chat: "ld_mode d = ChatCompletions \<Longrightarrow> sound_step d (step_emit (lift_chat (chat_apply_value v)) d)"
proof -
  obtain ev c where r: "chat_apply_value v (ld_chat d) = (ev, c)" by fastforce
  from emitsD [OF emits_value r] show "ld_mode d = ChatCompletions \<Longrightarrow> ?thesis"
    by (simp add: sound_step_def step_emit_def lift_chat_def r live_texts_def live_ok_def)
qed

lemma sound_responses: "ld_mode d = Responses \<Longrightarrow> sound_step d (lift_responses (responses_apply H L v) d)"
proof -
  obtain ev r s where run: "responses_apply H L v (ld_responses d) = (ev, r, s)" by (metis surj_pair)
  from tracksD [OF tracks_apply run] preservesD [OF preserves_tools_apply _ run]
  show "ld_mode d = Responses \<Longrightarrow> ?thesis"
    by (simp add: sound_step_def lift_responses_def run live_texts_def live_ok_def)
qed

lemma sound_value: "sound_step d (apply_stream_value H L v d)"
proof (cases "ld_mode d")
  case ChatCompletions
  from sound_chat [OF this] ChatCompletions show ?thesis by (simp add: apply_stream_value_def)
next
  case Responses
  obtain ev r d' where run: "lift_responses (responses_apply H L v) d = (ev, r, d')" by (metis surj_pair)
  with sound_responses [OF Responses, of H L v] Responses show ?thesis
    by (cases r) (simp_all add: apply_stream_value_def step_then_def step_set_def sound_step_def)
qed

lemma sound_event: "sound_step d (apply_event_data H L e d)"
  by (cases "lib_parse L (sse_data e)") (simp_all add: apply_event_data_def step_fail_def sound_stay sound_value)

lemma sound_apply: "sound_step d (apply_sse_events H L es n d)"
proof (induction es arbitrary: n d)
  case (Cons e es)
  obtain ev1 r1 d1 where one: "apply_event_data H L e d = (ev1, r1, d1)" by (metis surj_pair)
  obtain ev2 r2 d2 where two: "apply_sse_events H L es (Suc n) d1 = (ev2, r2, d2)" by (metis surj_pair)
  have "sound_step d (ev1, r1, d1)" using sound_event [of d H L e] by (simp only: one)
  moreover have "sound_step d1 (ev2, r2, d2)" using Cons.IH [of d1 "Suc n"] by (simp only: two)
  ultimately show ?case
    using Cons.IH [of d n] by (cases r1) (auto simp: one two sound_stay intro: sound_prepend sound_any)
qed (simp add: sound_stay)

text \<open>The turn at the end of a run.\<close>

definition sound_end :: "live_decoder \<Rightarrow> sink_event list \<times> (provider_error + model_turn) \<Rightarrow> bool" where
  "sound_end d x = (live_ok d \<longrightarrow>
     (case snd x of
        Inl _ \<Rightarrow> True
      | Inr turn \<Rightarrow>
          grows_by (live_texts d) (fst x) (turn_text turn, turn_reasoning turn)
          \<and> list_all dispatchable (turn_tool_calls turn)
          \<and> distinct (map call_provider_call_id (turn_tool_calls turn))))"

lemma sound_flush: "sound_end d (flush_and_finish U L d)"
proof (cases "ld_mode d")
  case ChatCompletions
  obtain ev c where f: "flush_content (ld_chat d) = (ev, c)" by fastforce
  have c: "c = snd (flush_content (ld_chat d))" by (simp add: f)
  have texts: "turn_text (chat_finish U L c) = fst (chat_texts c)"
      "turn_reasoning (chat_finish U L c) = snd (chat_texts c)"
    unfolding c using chat_finish_texts [of U L "ld_chat d"] by (metis fst_conv snd_conv)+
  have "grows_by (live_texts d) ev (turn_text turn, turn_reasoning turn)
      \<and> list_all dispatchable (turn_tool_calls turn)
      \<and> distinct (map call_provider_call_id (turn_tool_calls turn))"
    if "finish_turn U L (d\<lparr>ld_chat := c\<rparr>) = Inr turn" for turn
  proof -
    from that ChatCompletions have "turn = chat_finish U L c" "validate_turn turn = Inr ()"
      by (auto simp: finish_turn_def chat_finish_checked_def res_bind_Inr_iff Let_def split: if_splits)
    with validated_turn_calls [of turn] emitsD [OF emits_steps(1) f] texts ChatCompletions
    show ?thesis by (simp add: live_texts_def grows_by_def)
  qed
  then show ?thesis
    by (auto simp: sound_end_def flush_and_finish_def lift_chat_def f split: sum.split)
next
  case Responses
  obtain ev c where f: "flush_content (ld_chat d) = (ev, c)" by fastforce
  have "(turn_text turn, turn_reasoning turn) = live_texts d
      \<and> list_all dispatchable (turn_tool_calls turn)
      \<and> distinct (map call_provider_call_id (turn_tool_calls turn))"
    if "finish_turn U L (d\<lparr>ld_chat := c\<rparr>) = Inr turn" "live_ok d" for turn
  proof -
    from that Responses have "responses_finish_checked U L (ld_responses d) = Inr turn"
      by (auto simp: finish_turn_def res_bind_Inr_iff split: if_splits)
    from finished_responses [OF _ this] that(2) Responses show ?thesis
      by (simp add: live_ok_def live_texts_def)
  qed
  moreover have "live_ok d \<Longrightarrow> ev = []" using Responses f by (simp add: live_ok_def)
  ultimately show ?thesis
    by (auto simp: sound_end_def flush_and_finish_def lift_chat_def f split: sum.split)
qed

lemma sound_then:
  assumes "sound_step d (f d)" "\<And>d'. sound_end d' (g d')"
  shows "sound_end d (then_end f g d)"
proof -
  obtain ev r d' where run: "f d = (ev, r, d')" by (metis surj_pair)
  obtain ev' t where fin: "g d' = (ev', t)" by fastforce
  from assms(1) assms(2) [of d'] show ?thesis
    by (cases r; cases t)
      (auto simp: sound_end_def sound_step_def then_end_def run fin intro: grows_by_trans)
qed

lemma sound_finish_sse: "sound_end d (finish_sse U L d)"
  using sound_flush [of d U L] by (auto simp: finish_sse_def sound_end_def)

lemma sound_move: "live_texts d' = live_texts d \<Longrightarrow> live_ok d' = live_ok d \<Longrightarrow> sound_end d' x = sound_end d x"
  unfolding sound_end_def by (simp only:)

lemma sound_fail: "sound_end d (ev, Inl e)"
  by (simp add: sound_end_def)

lemma sound_body: "sound_end d (finish_body H U L d)"
proof -
  have "sound_end d (then_end (apply_body_value H L v) (flush_and_finish U L) d)" for v
  proof (rule sound_then [OF _ sound_flush])
    show "sound_step d (apply_body_value H L v d)"
      by (cases "ld_mode d") (simp_all add: apply_body_value_def sound_chat sound_responses)
  qed
  then show ?thesis by (simp add: finish_body_def sound_fail split: option.split)
qed

lemma sound_whole: "sound_end d (decode_whole H U L body d)"
proof (cases "detect_sse (ld_content_type d) body = Some True")
  case True
  have "sound_end d (run_events H U L es d)" for es
    unfolding run_events_def by (rule sound_then [OF sound_apply sound_finish_sse])
  with True show ?thesis by (simp add: decode_whole_def)
next
  case False
  let ?d = "d\<lparr>ld_sse := Some False, ld_raw := body, ld_head := []\<rparr>"
  have "sound_end d (finish_body H U L ?d)"
    using sound_body [of ?d H U L] sound_move [of ?d d] by simp
  with False show ?thesis by (simp add: decode_whole_def)
qed

lemma decoded_turn_shown:
  assumes "feed H U L chunks (start_decoder mode allow content_type deepseek gemini) = (shown, Inr turn)"
  shows "turn_text turn = shown_text shown \<and> turn_reasoning turn = shown_reasoning shown
    \<and> list_all dispatchable (turn_tool_calls turn)
    \<and> distinct (map call_provider_call_id (turn_tool_calls turn))"
proof -
  let ?d = "start_decoder mode allow content_type deepseek gemini"
  have start: "live_ok ?d" "live_texts ?d = ([], [])"
    by (auto simp: start_decoder_def live_ok_def live_texts_def live_new_def with_gemini_contract_def
        with_deepseek_contract_def flush_content_def chat_new_def chat_use_gemini_contract_def
        chat_use_deepseek_contract_def thought_finish_def thought_stream_new_def to_side_def
        chat_texts_def reconciler_new_def split: openai_api_mode.split)
  from sound_whole [of ?d H U L "concat chunks"] feed_whole [OF undecided_start(1)] undecided_start(2)
    assms start
  show ?thesis by (simp add: sound_end_def grows_by_def)
qed

text \<open>
  C28. A turn that is decoded from a response is what the sink was shown. However the body
  arrives, in either protocol and under either contract: when the decoder returns a turn, its
  text and its reasoning are the concatenation of the deltas that were shown, in order, and each
  of its calls has a name, an object of arguments and an identifier that no other call has.
\<close>

theorem decoded_turn_is_what_was_shown:
  assumes "feed H U L chunks (start_decoder mode allow content_type deepseek gemini) = (shown, Inr turn)"
  shows "turn_text turn = shown_text shown \<and> turn_reasoning turn = shown_reasoning shown
    \<and> list_all dispatchable (turn_tool_calls turn)
    \<and> distinct (map call_provider_call_id (turn_tool_calls turn))"
  by (rule decoded_turn_shown [OF assms])

definition body_lib :: json_lib where
  "body_lib = sample_json_lib\<lparr>lib_parse := (\<lambda>s. if s = ''{}'' then Some sample_value else None)\<rparr>"

lemma sample_body_is_json: "detect_sse None ''{}'' = Some False"
proof -
  have "from_utf8_lossy ''{}'' = ''{}''" by code_simp
  moreover have "trim_start_bom ''{}'' = ''{}''" by (simp add: byte_order_mark_bytes)
  moreover have "trim_start ''{}'' = ''{}''"
  proof -
    have "strip_any white_space ''{}'' = None" by (simp add: strip_any_graphic graphic_def)
    then show ?thesis by (simp add: trim_start.simps [of "''{}''"])
  qed
  ultimately show ?thesis by (simp add: detect_sse_def event_stream_markers_def)
qed

lemma sample_feed:
  "feed (\<lambda>_. 0) sample_uuid_lib body_lib [''{'', ''}''] (start_decoder ChatCompletions False None False False)
     = ([SinkText ''ok''], Inr (chat_finish sample_uuid_lib body_lib sample_chat))"
proof -
  let ?d = "start_decoder ChatCompletions False None False False"
  have applied: "chat_apply_value sample_value (chat_new False) = ([SinkText ''ok''], sample_chat)"
    by code_simp
  have noerr: "has_error sample_value = False" by code_simp
  have flush: "flush_content sample_chat = ([], sample_chat)"
    by (simp add: flush_content_def sample_chat_is chat_new_def)
  have end_turn: "json_get (turn_opaque (chat_finish U L sample_chat)) ''end_turn'' = None" for U L
    by (simp add: chat_finish_def Let_def flush chat_opaque_def sample_chat_is chat_new_def
        reconciler_new_def extra_content_by_call_id_def assembler_new_def json_nonempty_object_def)
  have "trim ''ok'' = ''ok''" by (simp add: trim_graphic graphic_def)
  then have "finish_turn U L d = Inr (chat_finish U L sample_chat)"
    if "ld_mode d = ChatCompletions" "ld_chat d = sample_chat" for U L d
    using that by (simp add: finish_turn_def sample_chat_finishes end_turn validate_turn_def sample_chat_turn)
  then show ?thesis
    by (simp add: feed_whole [OF undecided_start(1)] undecided_start(2) decode_whole_def)
      (simp add: start_decoder_def live_new_def sample_body_is_json finish_body_def body_lib_def noerr
        then_end_def apply_body_value_def step_emit_def lift_chat_def applied flush_and_finish_def flush)
qed

theorem decoded_turn_is_what_was_shown_witness:
  "case feed (\<lambda>_. 0) sample_uuid_lib body_lib [''{'', ''}''] (start_decoder ChatCompletions False None False False) of
     (shown, Inl _) \<Rightarrow> False
   | (shown, Inr turn) \<Rightarrow> turn_text turn = ''ok'' \<and> list_all dispatchable (turn_tool_calls turn)"
  using decoded_turn_is_what_was_shown [OF sample_feed] by (simp add: sample_feed del: feed.simps)

end
