(* ===== verification/Decorate.thy ===== *)
theory Decorate
  imports Model_Families Streaming
begin

text \<open>
  The configuration of an OpenAI-compatible provider and what it adds to the body of a request
  (\<open>openai_compatible/decorate.rs\<close>, the configuration in \<open>openai_compatible/mod.rs\<close>, and the
  explicit cache markers of \<open>qwen/mod.rs\<close>). A body is an object.
\<close>

section \<open>Configuration\<close>

datatype api_family =
  FamilyOpenAi | FamilyDeepSeek | FamilyQwen | FamilyKimi | FamilyGemini | FamilyCodex | FamilyCustom

definition family_of_provider_id :: "str \<Rightarrow> api_family" where
  "family_of_provider_id raw =
     (let i = to_ascii_lowercase (trim raw) in
      if i = ''openai'' then FamilyOpenAi
      else if i = ''deepseek'' then FamilyDeepSeek
      else if i = ''qwen'' then FamilyQwen
      else if i = ''kimi'' then FamilyKimi
      else if i = ''gemini'' then FamilyGemini
      else if i = ''codex'' then FamilyCodex
      else FamilyCustom)"

record openai_config =
  cfg_provider_id :: str
  cfg_base_url :: str
  cfg_api_mode :: openai_api_mode
  cfg_allow_cumulative_delta :: bool
  cfg_family :: api_family
  cfg_retry_without_tools :: bool
  cfg_send_tool_choice_auto :: bool
  cfg_parallel_tool_calls :: bool
  cfg_include_stream_usage :: bool
  cfg_chatgpt_account_id :: "str option"

definition config_with_credential :: "str \<Rightarrow> str \<Rightarrow> openai_api_mode \<Rightarrow> bool \<Rightarrow> openai_config" where
  "config_with_credential provider_id base_url mode allow =
     (let family = family_of_provider_id provider_id in
      \<lparr>cfg_provider_id = provider_id, cfg_base_url = base_url, cfg_api_mode = mode,
       cfg_allow_cumulative_delta = allow, cfg_family = family, cfg_retry_without_tools = False,
       cfg_send_tool_choice_auto = (family \<noteq> FamilyDeepSeek),
       cfg_parallel_tool_calls = (family \<notin> {FamilyDeepSeek, FamilyGemini}),
       cfg_include_stream_usage = True, cfg_chatgpt_account_id = None\<rparr>)"

definition effective_api_mode :: "openai_config \<Rightarrow> str \<Rightarrow> openai_api_mode" where
  "effective_api_mode config model =
     (case (case cfg_family config of
              FamilyOpenAi \<Rightarrow> Some (openai_capabilities model)
            | FamilyDeepSeek \<Rightarrow> Some CHAT_AND_RESPONSES
            | FamilyQwen \<Rightarrow> Some (qwen_capabilities model)
            | FamilyGemini \<Rightarrow> Some CHAT_ONLY
            | FamilyCodex \<Rightarrow> Some RESPONSES_ONLY
            | FamilyKimi \<Rightarrow> None
            | FamilyCustom \<Rightarrow> None) of
        None \<Rightarrow> cfg_api_mode config
      | Some c \<Rightarrow>
          (case cfg_api_mode config of
             Responses \<Rightarrow>
               if supports_responses c then Responses
               else if supports_chat_completions c then ChatCompletions
               else Responses
           | ChatCompletions \<Rightarrow>
               if \<not> supports_chat_completions c then Responses else ChatCompletions))"

section \<open>Explicit cache markers (Qwen)\<close>

definition EXPLICIT_CACHE_MIN_CHARS :: nat where
  "EXPLICIT_CACHE_MIN_CHARS = 4096"

definition ephemeral :: json where
  "ephemeral = json_obj [(''type'', JString ''ephemeral'')]"

definition marker_text_part :: "str \<Rightarrow> json" where
  "marker_text_part text =
     json_obj [(''type'', JString ''text''), (''text'', JString text), (''cache_control'', ephemeral)]"

definition content_text_len :: "json \<Rightarrow> nat" where
  "content_text_len content =
     (case as_str content of
        Some text \<Rightarrow> length text
      | None \<Rightarrow> sum_list (map (\<lambda>part. case get_str part ''text'' of None \<Rightarrow> 0 | Some t \<Rightarrow> length t)
                   (unwrap_or [] (as_array content))))"

definition is_text_part :: "json \<Rightarrow> bool" where
  "is_text_part part = (get_str part ''type'' = Some ''text'')"

fun mark_first_text :: "json list \<Rightarrow> json list option" where
  "mark_first_text [] = None"
| "mark_first_text (part # parts) =
     (if is_text_part part then Some (put_field ''cache_control'' ephemeral part # parts)
      else map_option (Cons part) (mark_first_text parts))"

definition mark_content :: "json \<Rightarrow> json" where
  "mark_content content =
     (case content of
        JString text \<Rightarrow> JArray [marker_text_part text]
      | JArray parts \<Rightarrow>
          JArray (case mark_first_text (rev parts) of
                    Some ps \<Rightarrow> rev ps | None \<Rightarrow> parts @ [marker_text_part []])
      | _ \<Rightarrow> content)"

definition on_content :: "(json \<Rightarrow> json) \<Rightarrow> json \<Rightarrow> json" where
  "on_content f m = (case json_get m ''content'' of None \<Rightarrow> m | Some c \<Rightarrow> put_field ''content'' (f c) m)"

definition prefix_text_len :: "json list \<Rightarrow> nat" where
  "prefix_text_len messages =
     sum_list (map (\<lambda>m. case json_get m ''content'' of None \<Rightarrow> 0 | Some c \<Rightarrow> content_text_len c) messages)"

definition mark_message_if_large :: "bool \<Rightarrow> json \<Rightarrow> json" where
  "mark_message_if_large explicit_cache m =
     (if \<not> explicit_cache then m
      else on_content (\<lambda>c. if EXPLICIT_CACHE_MIN_CHARS \<le> content_text_len c then mark_content c else c) m)"

fun rposition :: "('a \<Rightarrow> bool) \<Rightarrow> 'a list \<Rightarrow> nat option" where
  "rposition P [] = None"
| "rposition P (x # xs) =
     (case rposition P xs of Some i \<Rightarrow> Some (Suc i) | None \<Rightarrow> if P x then Some 0 else None)"

definition mark_latest_visible_user :: "bool \<Rightarrow> json list \<Rightarrow> json list" where
  "mark_latest_visible_user explicit_cache messages =
     (if \<not> explicit_cache then messages
      else case rposition (\<lambda>m. get_str m ''role'' = Some ''user'') messages of
             None \<Rightarrow> messages
           | Some i \<Rightarrow>
               if EXPLICIT_CACHE_MIN_CHARS \<le> prefix_text_len (take (Suc i) messages)
               then messages[i := on_content mark_content (messages ! i)] else messages)"

definition unmark_message :: "json \<Rightarrow> json" where
  "unmark_message m =
     (case get_array m ''content'' of
        None \<Rightarrow> m
      | Some parts \<Rightarrow> put_field ''content'' (JArray (map (drop_field ''cache_control'') parts)) m)"

definition mark_last :: "json \<Rightarrow> json" where
  "mark_last m =
     (case json_get m ''content'' of
        Some c \<Rightarrow> if is_null c then put_field ''content'' (JArray [marker_text_part []]) m
                  else put_field ''content'' (mark_content c) m
      | None \<Rightarrow> put_field ''content'' (JArray [marker_text_part []]) m)"

definition refresh_cache_markers :: "bool \<Rightarrow> json list \<Rightarrow> json list" where
  "refresh_cache_markers explicit_cache messages0 =
     (if \<not> explicit_cache then messages0
      else case messages0 of
             [] \<Rightarrow> []
           | m # ms \<Rightarrow>
               let messages = m # map unmark_message ms in
               if prefix_text_len messages < EXPLICIT_CACHE_MIN_CHARS then messages
               else butlast messages @ [mark_last (last messages)])"

section \<open>Decoration\<close>

definition on_messages :: "(json list \<Rightarrow> json list) \<Rightarrow> json \<Rightarrow> json" where
  "on_messages f body =
     (case get_array body ''messages'' of
        None \<Rightarrow> body | Some ms \<Rightarrow> put_field ''messages'' (JArray (f ms)) body)"

definition replayed_reasoning :: "bool \<Rightarrow> message \<Rightarrow> str option" where
  "replayed_reasoning deepseek m =
     (if msg_role m \<noteq> RoleAssistant \<or> deepseek \<and> msg_tool_calls m = [] then None
      else opt_filter (\<lambda>r. trim r \<noteq> [])
             (map_option (\<lambda>r. if deepseek then r else trim r)
               (Option.bind (msg_provider_state m) (\<lambda>s. get_str s ''reasoning_content''))))"

fun zip_reasoning :: "bool \<Rightarrow> json list \<Rightarrow> message list \<Rightarrow> json list" where
  "zip_reasoning deepseek (w # ws) (m # ms) =
     (case replayed_reasoning deepseek m of
        None \<Rightarrow> w | Some r \<Rightarrow> put_field ''reasoning_content'' (JString r) w) # zip_reasoning deepseek ws ms"
| "zip_reasoning deepseek ws ms = ws"

definition replay_assistant_reasoning_content :: "bool \<Rightarrow> model_turn_request \<Rightarrow> json \<Rightarrow> json" where
  "replay_assistant_reasoning_content deepseek request =
     on_messages (\<lambda>ws. zip_reasoning deepseek ws (req_messages request))"

definition thinking_enabled :: "provider_feature_request \<Rightarrow> bool" where
  "thinking_enabled features =
     (unwrap_or ''disabled'' (feat_thinking_mode features) \<notin> {''disabled'', ''none'', ''off''})"

definition apply_tool_flags :: "openai_config \<Rightarrow> json \<Rightarrow> json" where
  "apply_tool_flags config body =
     (if get_array body ''tools'' = None then body
      else
        let body1 = (if cfg_send_tool_choice_auto config
                     then put_field ''tool_choice'' (JString ''auto'') body
                     else drop_field ''tool_choice'' body)
        in if cfg_parallel_tool_calls config \<and> cfg_family config \<noteq> FamilyKimi
           then put_field ''parallel_tool_calls'' (JBool True) body1
           else drop_field ''parallel_tool_calls'' body1)"

definition put_limit :: "str \<Rightarrow> nat option \<Rightarrow> json \<Rightarrow> json" where
  "put_limit k n body = (case n of None \<Rightarrow> body | Some x \<Rightarrow> put_field k (json_nat x) body)"

definition decorate_chat :: "openai_config \<Rightarrow> model_turn_request \<Rightarrow> json \<Rightarrow> json" where
  "decorate_chat config request body0 =
     (let features = req_features request; model = req_model request;
          body = (if cfg_include_stream_usage config then body0 else drop_field ''stream_options'' body0);
          body1 =
            (case cfg_family config of
               FamilyGemini \<Rightarrow> gemini_chat_reasoning model (feat_reasoning_effort features) body
             | FamilyDeepSeek \<Rightarrow>
                 let b1 = put_limit ''max_tokens'' (deepseek_max_output_tokens model) body;
                     b2 = (if supports_thinking_toggle model
                           then deepseek_chat_thinking (thinking_enabled features)
                                  (deepseek_normalize_effort model
                                    (unwrap_or ''high'' (feat_reasoning_effort features))) b1
                           else b1)
                 in replay_assistant_reasoning_content True request b2
             | FamilyQwen \<Rightarrow>
                 let b1 = qwen_chat_thinking model (unwrap_or ''disabled'' (feat_thinking_mode features))
                            (unwrap_or [] (feat_thinking_budget features)) body
                 in if feat_explicit_cache features
                    then on_messages (\<lambda>ms. refresh_cache_markers True (mark_latest_visible_user True ms)) b1
                    else b1
             | FamilyKimi \<Rightarrow>
                 replay_assistant_reasoning_content False request
                   (kimi_chat_limits 32768 (kimi_chat_thinking model body))
             | FamilyCodex \<Rightarrow> body
             | _ \<Rightarrow> openai_chat_reasoning model (feat_reasoning_effort features) body)
      in apply_tool_flags config body1)"

definition hosted_web_search_tool :: "api_family \<Rightarrow> json" where
  "hosted_web_search_tool family =
     (if family \<in> {FamilyQwen, FamilyDeepSeek} then json_obj [(''type'', JString ''web_search'')]
      else json_obj [(''type'', JString ''web_search''), (''external_web_access'', JBool True)])"

definition image_generation_instruction :: str where
  "image_generation_instruction =
     ''When the user asks to generate or edit a raster image, use the native image_generation tool. ''
     @ ''Do not substitute SVG, HTML, placeholder files, or an unsupported-capability claim. ''
     @ ''The application will save and display the returned image.''"

definition tool_of_type :: "str \<Rightarrow> json \<Rightarrow> bool" where
  "tool_of_type t tool = (get_str tool ''type'' = Some t)"

definition wants_hosted_search :: "openai_config \<Rightarrow> model_turn_request \<Rightarrow> json list \<Rightarrow> bool" where
  "wants_hosted_search config request tools =
     (feat_web_search (req_features request)
      \<and> \<not> (cfg_family config = FamilyDeepSeek
           \<and> list_ex (\<lambda>t. tool_of_type ''function'' t \<and> get_str t ''name'' = Some ''web_search'') tools)
      \<and> cfg_family config \<in> {FamilyOpenAi, FamilyCodex, FamilyDeepSeek})"

definition image_generation_tool :: "api_family \<Rightarrow> json" where
  "image_generation_tool family =
     (if family = FamilyCodex then json_obj [(''type'', JString ''image_generation'')]
      else json_obj [(''type'', JString ''image_generation''), (''output_format'', JString ''png'')])"

definition with_image_instruction :: "json \<Rightarrow> json" where
  "with_image_instruction body =
     (let instructions = unwrap_or [] (get_str body ''instructions'') in
      put_field ''instructions''
        (JString (if instructions = [] then image_generation_instruction
                  else instructions @ newline @ newline @ image_generation_instruction)) body)"

definition apply_hosted_tools :: "openai_config \<Rightarrow> model_turn_request \<Rightarrow> json \<Rightarrow> json" where
  "apply_hosted_tools config request body =
     (let tools0 = unwrap_or [] (get_array body ''tools'');
          tools1 = (if wants_hosted_search config request tools0 \<and> \<not> list_ex (tool_of_type ''web_search'') tools0
                    then tools0 @ [hosted_web_search_tool (cfg_family config)] else tools0);
          generate = (feat_image_generation (req_features request)
                      \<and> \<not> list_ex (tool_of_type ''image_generation'') tools1);
          tools2 = (if generate then tools1 @ [image_generation_tool (cfg_family config)] else tools1);
          body1 = (if generate then with_image_instruction body else body)
      in if tools2 = [] then body1 else put_field ''tools'' (JArray tools2) body1)"

definition decorate_responses :: "openai_config \<Rightarrow> model_turn_request \<Rightarrow> json \<Rightarrow> json" where
  "decorate_responses config request body0 =
     (let features = req_features request; model = req_model request; family = cfg_family config;
          effort = feat_reasoning_effort features;
          body1 = (if family = FamilyDeepSeek
                   then put_limit ''max_output_tokens'' (deepseek_max_output_tokens model) body0 else body0);
          body2 = (if family \<noteq> FamilyDeepSeek then put_field ''store'' (JBool False) body1
                   else drop_field ''store'' body1);
          body3 =
            (case family of
               FamilyQwen \<Rightarrow>
                 qwen_responses_reasoning (unwrap_or ''disabled'' (feat_thinking_mode features)) body2
             | FamilyDeepSeek \<Rightarrow>
                 deepseek_responses_reasoning (thinking_enabled features)
                   (deepseek_normalize_effort model (unwrap_or ''high'' effort)) body2
             | FamilyCodex \<Rightarrow>
                 codex_responses_contract (unwrap_or ''default'' effort)
                   (openai_responses_reasoning model (Some (unwrap_or ''default'' effort)) False body2)
             | FamilyKimi \<Rightarrow> body2
             | FamilyGemini \<Rightarrow> body2
             | _ \<Rightarrow>
                 let include_summary = (effort \<noteq> Some ''none'' \<and> (family = FamilyOpenAi \<or> effort \<noteq> None))
                 in openai_responses_reasoning model effort
                      (include_summary \<and> (openai_efforts model \<noteq> []
                        \<or> family = FamilyCustom \<and> effort \<noteq> None)) body2)
      in apply_tool_flags config (apply_hosted_tools config request body3))"

definition decorate_turn_body ::
    "openai_config \<Rightarrow> openai_api_mode \<Rightarrow> model_turn_request \<Rightarrow> json \<Rightarrow> json" where
  "decorate_turn_body config mode request body0 =
     (let body = (case mode of
                    ChatCompletions \<Rightarrow> decorate_chat config request body0
                  | Responses \<Rightarrow> decorate_responses config request body0)
      in case opt_filter (\<lambda>k. k \<noteq> []) (map_option trim (feat_prompt_cache_key (req_features request))) of
           None \<Rightarrow> body
         | Some k \<Rightarrow> put_field ''prompt_cache_key'' (JString k) body)"

section \<open>What decoration touches\<close>

definition keeps :: "str \<Rightarrow> (json \<Rightarrow> json) \<Rightarrow> bool" where
  "keeps k f = (\<forall>body. is_object body \<longrightarrow> is_object (f body) \<and> json_get (f body) k = json_get body k)"

lemma keepsD: "keeps k f \<Longrightarrow> is_object b \<Longrightarrow> is_object (f b) \<and> json_get (f b) k = json_get b k"
  by (simp add: keeps_def)

lemma json_get_drop_field [simp]:
  "json_get (drop_field k v) k' = (if k' = k then None else json_get v k')"
  by (cases v) (auto simp: drop_field_def)

lemma is_object_drop_field [simp]: "is_object (drop_field k v) = is_object v"
  by (cases v) (auto simp: drop_field_def is_object_def)

lemma keeps_comp: "keeps k f \<Longrightarrow> keeps k g \<Longrightarrow> keeps k (\<lambda>b. f (g b))"
  by (simp add: keeps_def)

lemma keeps_If: "keeps k f \<Longrightarrow> keeps k g \<Longrightarrow> keeps k (\<lambda>b. if P b then f b else g b)"
  by (simp add: keeps_def)

text \<open>The fields that decoration may set or remove.\<close>

definition decorated_fields :: "openai_api_mode \<Rightarrow> str list" where
  "decorated_fields mode =
     [''tool_choice'', ''parallel_tool_calls'', ''prompt_cache_key''] @
     (case mode of
        ChatCompletions \<Rightarrow>
          [''stream_options'', ''messages'', ''reasoning_effort'', ''extra_body'', ''max_tokens'',
           ''thinking'', ''enable_thinking'', ''thinking_budget'', ''max_completion_tokens'']
      | Responses \<Rightarrow>
          [''tools'', ''instructions'', ''reasoning'', ''store'', ''include'', ''text'', ''max_output_tokens''])"

lemma keeps_flags: "k \<notin> {''tool_choice'', ''parallel_tool_calls''} \<Longrightarrow> keeps k (apply_tool_flags config)"
  by (simp add: keeps_def apply_tool_flags_def Let_def)

lemma keeps_messages: "k \<noteq> ''messages'' \<Longrightarrow> keeps k (on_messages f)"
  by (auto simp: keeps_def on_messages_def split: option.split)

lemma keeps_limit: "k \<noteq> k' \<Longrightarrow> keeps k (put_limit k' n)"
  by (auto simp: keeps_def put_limit_def split: option.split)

lemma keeps_chat_reasoning:
  "k \<noteq> ''reasoning_effort'' \<Longrightarrow> keeps k (openai_chat_reasoning m r)"
  "k \<notin> {''reasoning_effort'', ''extra_body''} \<Longrightarrow> keeps k (gemini_chat_reasoning m r)"
  "k \<notin> {''reasoning_effort'', ''thinking''} \<Longrightarrow> keeps k (deepseek_chat_thinking b e)"
  "k \<notin> {''enable_thinking'', ''thinking_budget''} \<Longrightarrow> keeps k (qwen_chat_thinking m mode budget)"
  "k \<noteq> ''thinking'' \<Longrightarrow> keeps k (kimi_chat_thinking m)"
  "k \<noteq> ''max_completion_tokens'' \<Longrightarrow> keeps k (kimi_chat_limits n)"
  by (auto simp: keeps_def openai_chat_reasoning_def gemini_chat_reasoning_def deepseek_chat_thinking_def
      qwen_chat_thinking_def kimi_chat_thinking_def kimi_chat_limits_def Let_def split: option.split)

lemma keeps_summary: "k \<noteq> ''reasoning'' \<Longrightarrow> keeps k (ask_summary)"
  by (auto simp: keeps_def ask_summary_def ensure_object_def split: option.split)

lemma keeps_responses_reasoning:
  "k \<noteq> ''reasoning'' \<Longrightarrow> keeps k (openai_responses_reasoning m r s)"
  "k \<noteq> ''reasoning'' \<Longrightarrow> keeps k (qwen_responses_reasoning mode)"
  "k \<noteq> ''reasoning'' \<Longrightarrow> keeps k (deepseek_responses_reasoning b e)"
  "k \<notin> {''reasoning'', ''include'', ''text''} \<Longrightarrow> keeps k (codex_responses_contract e)"
  using keeps_summary [of k]
  by (auto simp: keeps_def openai_responses_reasoning_def qwen_responses_reasoning_def
      deepseek_responses_reasoning_def codex_responses_contract_def ensure_object_def Let_def
      split: option.split)

lemma keeps_hosted: "k \<notin> {''tools'', ''instructions''} \<Longrightarrow> keeps k (apply_hosted_tools config request)"
  by (simp add: keeps_def apply_hosted_tools_def with_image_instruction_def Let_def)

lemma keeps_chat:
  assumes "k \<notin> set (decorated_fields ChatCompletions)"
  shows "keeps k (decorate_chat config request)"
proof -
  have k: "k \<notin> {''tool_choice'', ''parallel_tool_calls'', ''stream_options'', ''messages'',
      ''reasoning_effort'', ''extra_body'', ''max_tokens'', ''thinking'', ''enable_thinking'',
      ''thinking_budget'', ''max_completion_tokens''}"
    using assms by (simp add: decorated_fields_def)
  note kept = keepsD [OF keeps_flags [of k]] keepsD [OF keeps_messages [of k]]
    keepsD [OF keeps_limit [of k "''max_tokens''"]] keeps_chat_reasoning [of k, THEN keepsD]
  show ?thesis
    unfolding keeps_def
    by (cases "cfg_family config")
      (use k in \<open>simp_all add: decorate_chat_def Let_def kept replay_assistant_reasoning_content_def\<close>)
qed

lemma keeps_responses:
  assumes "k \<notin> set (decorated_fields Responses)"
  shows "keeps k (decorate_responses config request)"
proof -
  have k: "k \<notin> {''tool_choice'', ''parallel_tool_calls'', ''tools'', ''instructions'', ''reasoning'',
      ''store'', ''include'', ''text'', ''max_output_tokens''}"
    using assms by (simp add: decorated_fields_def)
  note kept = keepsD [OF keeps_flags [of k]] keepsD [OF keeps_hosted [of k]]
    keepsD [OF keeps_limit [of k "''max_output_tokens''"]] keeps_responses_reasoning [of k, THEN keepsD]
  show ?thesis
    unfolding keeps_def
    by (cases "cfg_family config") (use k in \<open>simp_all add: decorate_responses_def Let_def kept\<close>)
qed

lemma flags_decide:
  assumes "is_object body"
  shows "get_array (apply_tool_flags config body) ''tools'' = get_array body ''tools''"
    "get_array body ''tools'' \<noteq> None \<Longrightarrow>
       get_str (apply_tool_flags config body) ''tool_choice''
         = (if cfg_send_tool_choice_auto config then Some ''auto'' else None)"
    "get_array body ''tools'' \<noteq> None \<Longrightarrow>
       (json_get (apply_tool_flags config body) ''parallel_tool_calls'' = Some (JBool True))
         = (cfg_parallel_tool_calls config \<and> cfg_family config \<noteq> FamilyKimi)"
  using assms by (auto simp: apply_tool_flags_def Let_def get_array_def get_str_def)

lemma flagged_object: "is_object b \<Longrightarrow> is_object (apply_tool_flags config b)"
  by (simp add: apply_tool_flags_def Let_def)

lemma decorated_is_flagged:
  assumes "is_object body"
  shows "\<exists>b. is_object b \<and> decorate_chat config request body = apply_tool_flags config b"
    "\<exists>b. is_object b \<and> decorate_responses config request body = apply_tool_flags config b"
proof -
  have k: "'' '' \<noteq> ''messages''" by simp
  note kept = keepsD [OF keeps_messages [of "'' ''"]] keepsD [OF keeps_limit [of "'' ''" "''max_tokens''"]]
    keepsD [OF keeps_limit [of "'' ''" "''max_output_tokens''"]] keepsD [OF keeps_hosted [of "'' ''"]]
    keeps_chat_reasoning [of "'' ''", THEN keepsD] keeps_responses_reasoning [of "'' ''", THEN keepsD]
  show "\<exists>b. is_object b \<and> decorate_chat config request body = apply_tool_flags config b"
    unfolding decorate_chat_def Let_def
    by (rule exI, rule conjI [OF _ refl], cases "cfg_family config")
      (use assms in \<open>simp_all add: kept replay_assistant_reasoning_content_def\<close>)
  show "\<exists>b. is_object b \<and> decorate_responses config request body = apply_tool_flags config b"
    unfolding decorate_responses_def Let_def
    by (rule exI, rule conjI [OF _ refl], cases "cfg_family config")
      (use assms in \<open>simp_all add: kept\<close>)
qed

lemma decorate_turn_keeps:
  assumes "k \<notin> set (decorated_fields mode)"
  shows "keeps k (decorate_turn_body config mode request)"
proof -
  have "k \<noteq> ''prompt_cache_key''" using assms by (simp add: decorated_fields_def)
  then show ?thesis
    using assms keepsD [OF keeps_chat [of k config request]] keepsD [OF keeps_responses [of k config request]]
    by (cases mode) (auto simp: keeps_def decorate_turn_body_def Let_def split: option.split)
qed

text \<open>
  Decoration does not touch the conversation. The decorated body keeps every field that is
  not one of the protocol's tuning fields: in both protocols the model and the stream flag, and in
  the Responses protocol the whole input. Where the body offers tools, the choice of tools is
  left to the model exactly when the configuration says so, and calls may be parallel exactly when
  it allows them and the family is not Kimi.
\<close>

theorem decoration_keeps_the_conversation:
  assumes "is_object body" "k \<notin> set (decorated_fields mode)"
  shows "let d = decorate_turn_body config mode request body in
    is_object d \<and> json_get d k = json_get body k
    \<and> (get_array d ''tools'' = None
       \<or> get_str d ''tool_choice'' = (if cfg_send_tool_choice_auto config then Some ''auto'' else None)
         \<and> (json_get d ''parallel_tool_calls'' = Some (JBool True))
             = (cfg_parallel_tool_calls config \<and> cfg_family config \<noteq> FamilyKimi))"
proof -
  let ?d = "decorate_turn_body config mode request body"
  obtain b where b: "is_object b" "(case mode of ChatCompletions \<Rightarrow> decorate_chat config request body
      | Responses \<Rightarrow> decorate_responses config request body) = apply_tool_flags config b"
    using decorated_is_flagged [OF assms(1), of config request] by (cases mode) auto
  have same: "json_get ?d k' = json_get (apply_tool_flags config b) k'" if "k' \<noteq> ''prompt_cache_key''" for k'
    using that flagged_object [OF b(1)]
    by (simp add: decorate_turn_body_def b(2) Let_def split: option.split)
  then have "get_array ?d ''tools'' = get_array (apply_tool_flags config b) ''tools''"
    "get_str ?d ''tool_choice'' = get_str (apply_tool_flags config b) ''tool_choice''"
    by (simp_all add: get_array_def get_str_def)
  with same [of "''parallel_tool_calls''"] flags_decide [OF b(1), of config]
    keepsD [OF decorate_turn_keeps [OF assms(2)] assms(1)]
  show ?thesis by (auto simp: Let_def)
qed

definition sample_config :: openai_config where
  "sample_config = config_with_credential ''openai'' ''https://api'' ChatCompletions False"

definition sample_turn_request :: model_turn_request where
  "sample_turn_request =
     \<lparr>req_model = ''gpt-5.1'', req_messages = [], req_tools = [],
      req_session_key = ProviderSessionKey [], req_run_id = RunId 1, req_opaque_state = None,
      req_features = default_features\<lparr>feat_reasoning_effort := Some ''high''\<rparr>\<rparr>"

theorem decoration_keeps_the_conversation_witness:
  "let d = decorate_turn_body sample_config ChatCompletions sample_turn_request
         (json_obj [(''model'', JString ''gpt-5.1''), (''tools'', JArray [])])
   in json_get d ''model'' = Some (JString ''gpt-5.1'')"
  using decoration_keeps_the_conversation
      [of "json_obj [(''model'', JString ''gpt-5.1''), (''tools'', JArray [])]" "''model''" ChatCompletions
        sample_config sample_turn_request]
  by (simp add: decorated_fields_def Let_def)

text \<open>
  The protocol in use is one the model supports. For a family whose models are known, the
  effective protocol is supported, and it is the configured one whenever that is supported; for
  the others it is the configured one.
\<close>

theorem effective_mode_is_supported:
  "let mode = effective_api_mode config model;
       supports = (\<lambda>c m. case m of ChatCompletions \<Rightarrow> supports_chat_completions c | Responses \<Rightarrow> supports_responses c);
       caps = (case cfg_family config of
              FamilyOpenAi \<Rightarrow> openai_capabilities model
            | FamilyDeepSeek \<Rightarrow> CHAT_AND_RESPONSES
            | FamilyQwen \<Rightarrow> qwen_capabilities model
            | FamilyGemini \<Rightarrow> CHAT_ONLY
            | FamilyCodex \<Rightarrow> RESPONSES_ONLY
            | _ \<Rightarrow> CHAT_AND_RESPONSES)
   in supports caps mode \<and> (mode = cfg_api_mode config) = supports caps (cfg_api_mode config)"
  by (cases "cfg_family config"; cases "cfg_api_mode config")
    (simp_all add: effective_api_mode_def openai_capabilities_def qwen_capabilities_def
      CHAT_ONLY_def CHAT_AND_RESPONSES_def RESPONSES_ONLY_def Let_def)

end
