(* ===== verification/Promises.thy ===== *)
theory Promises
  imports Decorate
begin

text \<open>
  Turns that promise work without doing it (\<open>openai_compatible/continuation.rs\<close>): a turn without
  tool calls whose text announces a tool action is continued. Literals that are not ASCII are
  their UTF-8 bytes, in the order of the source; an occurrence of such a literal in valid UTF-8
  starts and ends at characters.
\<close>

section \<open>Literals\<close>

definition clause_boundaries :: "str list" where
  "clause_boundaries =
     [bytes [0x0A], bytes [0x0D], bytes [0xE3, 0x80, 0x82], bytes [0xEF, 0xBC, 0x81],
      bytes [0xEF, 0xBC, 0x9F], ''!'', ''?'', bytes [0xEF, 0xBC, 0x9B], '';'',
      bytes [0xEF, 0xBC, 0x9A], '':'']"

definition english_intents :: "str list" where
  "english_intents =
     [''let me '', bytes [0x69, 0x27, 0x6C, 0x6C, 0x20], ''i will '',
      bytes [0x69, 0x27, 0x6D, 0x20, 0x67, 0x6F, 0x69, 0x6E, 0x67, 0x20, 0x74, 0x6F, 0x20]]"

definition english_negations :: "str list" where
  "english_negations =
     [''will not'', bytes [0x77, 0x6F, 0x6E, 0x27, 0x74], ''do not'',
      bytes [0x64, 0x6F, 0x6E, 0x27, 0x74], ''no need to'', ''without running'']"

definition english_tools :: "str list" where
  "english_tools =
     [''use the shell'', ''use shell'', ''use rg'', ''get-content'', ''select-string'']"

definition english_actions :: "str list" where
  "english_actions =
     [''check'', ''inspect'', ''read'', ''search'', ''run'', ''verify'', ''open'', ''locate'']"

definition english_targets :: "str list" where
  "english_targets =
     [''file'', ''files'', ''repository'', ''repo'', ''project'', ''code'', ''test'', ''tests'',
      ''command'', ''commands'', ''shell'', ''log'', ''logs'', ''path'', ''config'',
      ''configuration'', ''error'', ''issue'', ''output'', ''workspace'', ''it'', ''this'']"

definition chinese_intents :: "str list" where
  "chinese_intents =
     [bytes [0xE6, 0x88, 0x91, 0xE5, 0x85, 0x88],
      bytes [0xE6, 0x88, 0x91, 0xE4, 0xBC, 0x9A, 0xE5, 0x85, 0x88],
      bytes [0xE6, 0x88, 0x91, 0xE5, 0xB0, 0x86, 0xE5, 0x85, 0x88],
      bytes [0xE6, 0x8E, 0xA5, 0xE4, 0xB8, 0x8B, 0xE6, 0x9D, 0xA5, 0xE6, 0x88, 0x91]]"

definition direct_actions :: "str list" where
  "direct_actions =
     [bytes [0xE6, 0x9F, 0xA5, 0xE6, 0x89, 0xBE], bytes [0xE6, 0x90, 0x9C, 0xE7, 0xB4, 0xA2],
      bytes [0xE8, 0xAF, 0xBB, 0xE5, 0x8F, 0x96], bytes [0xE6, 0x9F, 0xA5, 0xE7, 0x9C, 0x8B],
      bytes [0xE6, 0xA3, 0x80, 0xE6, 0x9F, 0xA5], bytes [0xE7, 0xA1, 0xAE, 0xE8, 0xAE, 0xA4],
      bytes [0xE5, 0xAE, 0x9A, 0xE4, 0xBD, 0x8D], bytes [0xE8, 0xBF, 0x90, 0xE8, 0xA1, 0x8C],
      bytes [0xE9, 0xAA, 0x8C, 0xE8, 0xAF, 0x81], bytes [0xE4, 0xBA, 0x86, 0xE8, 0xA7, 0xA3],
      bytes [0xE8, 0xA7, 0xA3, 0xE5, 0x8E, 0x8B], bytes [0xE6, 0x89, 0x93, 0xE5, 0xBC, 0x80],
      bytes [0xE5, 0xAE, 0x89, 0xE8, 0xA3, 0x85], bytes [0xE6, 0x9B, 0xB4, 0xE6, 0x96, 0xB0],
      bytes [0xE6, 0x9B, 0xBF, 0xE6, 0x8D, 0xA2], bytes [0xE5, 0xA4, 0x8D, 0xE5, 0x88, 0xB6],
      bytes [0xE7, 0xA7, 0xBB, 0xE5, 0x8A, 0xA8], bytes [0xE5, 0x88, 0xA0, 0xE9, 0x99, 0xA4],
      bytes [0xE5, 0x86, 0x99, 0xE5, 0x85, 0xA5], bytes [0xE4, 0xBF, 0xAE, 0xE6, 0x94, 0xB9],
      bytes [0xE6, 0x9E, 0x84, 0xE5, 0xBB, 0xBA], bytes [0xE7, 0xBC, 0x96, 0xE8, 0xAF, 0x91],
      bytes [0xE6, 0x8F, 0x90, 0xE4, 0xBA, 0xA4], bytes [0xE4, 0xB8, 0x8B, 0xE8, 0xBD, 0xBD],
      bytes [0xE8, 0x8E, 0xB7, 0xE5, 0x8F, 0x96]]"

definition command_markers :: "str list" where
  "command_markers =
     [bytes [0xE6, 0x89, 0xA7, 0xE8, 0xA1, 0x8C, 0xE5, 0x91, 0xBD, 0xE4, 0xBB, 0xA4],
      bytes [0xE7, 0x94, 0xA8, 0x20, 0x73, 0x68, 0x65, 0x6C, 0x6C],
      bytes [0xE4, 0xBD, 0xBF, 0xE7, 0x94, 0xA8, 0x20, 0x73, 0x68, 0x65, 0x6C, 0x6C],
      bytes [0xE7, 0x94, 0xA8, 0x20, 0x72, 0x67],
      bytes [0xE4, 0xBD, 0xBF, 0xE7, 0x94, 0xA8, 0x20, 0x72, 0x67], ''get-content'',
      ''select-string'']"

definition bare_preambles :: "str list" where
  "bare_preambles =
     [bytes [0xE5, 0x85, 0x88, 0xE7, 0x9C, 0x8B, 0xE4, 0xB8, 0x80, 0xE4, 0xB8, 0x8B],
      bytes [0xE5, 0x85, 0x88, 0xE6, 0x9F, 0xA5, 0xE4, 0xB8, 0x80, 0xE4, 0xB8, 0x8B],
      bytes [0xE5, 0x85, 0x88, 0xE6, 0xA3, 0x80, 0xE6, 0x9F, 0xA5],
      bytes [0xE5, 0x85, 0x88, 0xE5, 0xAE, 0x9A, 0xE4, 0xBD, 0x8D],
      bytes [0xE5, 0x85, 0x88, 0xE8, 0xAF, 0xBB, 0xE5, 0x8F, 0x96],
      bytes [0xE5, 0x85, 0x88, 0xE6, 0x90, 0x9C, 0xE7, 0xB4, 0xA2],
      bytes [0xE5, 0x85, 0x88, 0xE8, 0xBF, 0x90, 0xE8, 0xA1, 0x8C],
      bytes [0xE5, 0x85, 0x88, 0xE9, 0xAA, 0x8C, 0xE8, 0xAF, 0x81],
      bytes [0xE5, 0x85, 0x88, 0xE6, 0x89, 0xA7, 0xE8, 0xA1, 0x8C, 0xE5, 0x91, 0xBD, 0xE4, 0xBB, 0xA4],
      bytes [0xE5, 0x85, 0x88, 0xE7, 0x94, 0xA8, 0x20, 0x73, 0x68, 0x65, 0x6C, 0x6C],
      bytes [0xE5, 0x85, 0x88, 0xE4, 0xBD, 0xBF, 0xE7, 0x94, 0xA8, 0x20, 0x73, 0x68, 0x65, 0x6C, 0x6C],
      bytes [0xE5, 0x85, 0x88, 0xE7, 0x94, 0xA8, 0x20, 0x72, 0x67],
      bytes [0xE5, 0x85, 0x88, 0xE4, 0xBD, 0xBF, 0xE7, 0x94, 0xA8, 0x20, 0x72, 0x67],
      bytes [0xE7, 0x9C, 0x8B, 0xE4, 0xB8, 0x80, 0xE4, 0xB8, 0x8B],
      bytes [0xE6, 0x9F, 0xA5, 0xE4, 0xB8, 0x80, 0xE4, 0xB8, 0x8B],
      bytes [0xE6, 0xA3, 0x80, 0xE6, 0x9F, 0xA5, 0xE4, 0xB8, 0x80, 0xE4, 0xB8, 0x8B],
      bytes [0xE5, 0xAE, 0x9A, 0xE4, 0xBD, 0x8D, 0xE4, 0xB8, 0x80, 0xE4, 0xB8, 0x8B]]"

definition sequence_prefixes :: "str list" where
  "sequence_prefixes =
     [
      bytes [0xE6, 0x8E, 0xA5, 0xE4, 0xB8, 0x8B, 0xE6, 0x9D, 0xA5, 0xE6, 0x88, 0x91, 0xE4, 0xBC, 0x9A],
      bytes [0xE6, 0x8E, 0xA5, 0xE4, 0xB8, 0x8B, 0xE6, 0x9D, 0xA5, 0xE6, 0x88, 0x91],
      bytes [0xE6, 0x8E, 0xA5, 0xE4, 0xB8, 0x8B, 0xE6, 0x9D, 0xA5],
      bytes [0xE4, 0xB8, 0x8B, 0xE4, 0xB8, 0x80, 0xE6, 0xAD, 0xA5],
      bytes [0xE7, 0x84, 0xB6, 0xE5, 0x90, 0x8E], bytes [0xE9, 0x9A, 0x8F, 0xE5, 0x90, 0x8E],
      bytes [0xE6, 0x8E, 0xA5, 0xE7, 0x9D, 0x80], bytes [0xE7, 0x8E, 0xB0, 0xE5, 0x9C, 0xA8],
      bytes [0xE7, 0xBB, 0xA7, 0xE7, 0xBB, 0xAD], bytes [0xE7, 0x9B, 0xB4, 0xE6, 0x8E, 0xA5],
      bytes [0xE6, 0x9C, 0x80, 0xE5, 0x90, 0x8E], bytes [0xE5, 0x85, 0x88],
      bytes [0xE5, 0x86, 0x8D]]"

definition progress_markers :: "str list" where
  "progress_markers =
     [bytes [0xE5, 0xB7, 0xB2, 0xE5, 0xAE, 0x8C, 0xE6, 0x88, 0x90],
      bytes [0xE5, 0xB7, 0xB2, 0xE7, 0xA1, 0xAE, 0xE8, 0xAE, 0xA4],
      bytes [0xE5, 0xB7, 0xB2, 0xE6, 0x89, 0xBE, 0xE5, 0x88, 0xB0],
      bytes [0xE5, 0xB7, 0xB2, 0xE8, 0xAF, 0xBB, 0xE5, 0x8F, 0x96],
      bytes [0xE5, 0xB7, 0xB2, 0xE6, 0x9F, 0xA5, 0xE7, 0x9C, 0x8B],
      bytes [0xE5, 0xB7, 0xB2, 0xE6, 0xA3, 0x80, 0xE6, 0x9F, 0xA5],
      bytes [0xE5, 0xB7, 0xB2, 0xE5, 0xAE, 0x9A, 0xE4, 0xBD, 0x8D],
      bytes [0xE5, 0xB7, 0xB2, 0xE8, 0xBF, 0x90, 0xE8, 0xA1, 0x8C],
      bytes [0xE5, 0xB7, 0xB2, 0xE9, 0xAA, 0x8C, 0xE8, 0xAF, 0x81],
      bytes [0xE5, 0xB7, 0xB2, 0xE8, 0xA7, 0xA3, 0xE5, 0x8E, 0x8B],
      bytes [0xE6, 0x88, 0x90, 0xE5, 0x8A, 0x9F], bytes [0xE5, 0xAE, 0x8C, 0xE6, 0x88, 0x90],
      bytes [0xE9, 0x80, 0x9A, 0xE8, 0xBF, 0x87], bytes [0xE5, 0xA4, 0xB1, 0xE8, 0xB4, 0xA5]]"

definition action_nouns :: "str list" where
  "action_nouns =
     [bytes [0xE6, 0x96, 0xB9, 0xE6, 0xB3, 0x95], bytes [0xE6, 0x96, 0xB9, 0xE5, 0xBC, 0x8F],
      bytes [0xE7, 0xBB, 0x93, 0xE6, 0x9E, 0x9C], bytes [0xE5, 0x8E, 0x9F, 0xE5, 0x9B, 0xA0],
      bytes [0xE8, 0xAF, 0xB4, 0xE6, 0x98, 0x8E], bytes [0xE5, 0xBB, 0xBA, 0xE8, 0xAE, 0xAE]]"

definition enough_markers :: "str list" where
  "enough_markers =
     [bytes [0xE5, 0x8D, 0xB3, 0xE5, 0x8F, 0xAF]]"

definition advice_prefixes :: "str list" where
  "advice_prefixes =
     [bytes [0xE8, 0xAF, 0xB7], bytes [0xE4, 0xBD, 0xA0, 0xE5, 0x8F, 0xAF, 0xE4, 0xBB, 0xA5],
      bytes [0xE7, 0x94, 0xA8, 0xE6, 0x88, 0xB7, 0xE5, 0x8F, 0xAF, 0xE4, 0xBB, 0xA5]]"

definition chinese_negations :: "str list" where
  "chinese_negations =
     [bytes [0xE4, 0xB8, 0x8D, 0xE9, 0x9C, 0x80, 0xE8, 0xA6, 0x81],
      bytes [0xE6, 0x97, 0xA0, 0xE9, 0x9C, 0x80], bytes [0xE4, 0xB8, 0x8D, 0xE7, 0x94, 0xA8],
      bytes [0xE4, 0xB8, 0x8D, 0xE5, 0xBF, 0x85], bytes [0xE4, 0xB8, 0x8D, 0xE4, 0xBC, 0x9A],
      bytes [0xE4, 0xB8, 0x8D, 0xE5, 0x86, 0x8D], bytes [0xE4, 0xB8, 0x8D, 0xE8, 0xA6, 0x81],
      bytes [0xE5, 0x85, 0x88, 0xE4, 0xB8, 0x8D], bytes [0xE6, 0x9A, 0x82, 0xE4, 0xB8, 0x8D]]"

definition chinese_tools :: "str list" where
  "chinese_tools =
     [bytes [0xE6, 0x89, 0xA7, 0xE8, 0xA1, 0x8C, 0xE5, 0x91, 0xBD, 0xE4, 0xBB, 0xA4],
      bytes [0xE8, 0xBF, 0x90, 0xE8, 0xA1, 0x8C, 0xE5, 0x91, 0xBD, 0xE4, 0xBB, 0xA4],
      bytes [0xE6, 0x89, 0x93, 0xE5, 0xBC, 0x80, 0xE7, 0xBB, 0x88, 0xE7, 0xAB, 0xAF],
      bytes [0xE7, 0x94, 0xA8, 0x20, 0x73, 0x68, 0x65, 0x6C, 0x6C],
      bytes [0xE4, 0xBD, 0xBF, 0xE7, 0x94, 0xA8, 0x20, 0x73, 0x68, 0x65, 0x6C, 0x6C],
      bytes [0xE7, 0x94, 0xA8, 0x20, 0x72, 0x67],
      bytes [0xE4, 0xBD, 0xBF, 0xE7, 0x94, 0xA8, 0x20, 0x72, 0x67], ''get-content'',
      ''select-string'']"

definition brief_actions :: "str list" where
  "brief_actions =
     [bytes [0xE6, 0x9F, 0xA5, 0xE4, 0xB8, 0x80, 0xE4, 0xB8, 0x8B],
      bytes [0xE7, 0x9C, 0x8B, 0xE4, 0xB8, 0x80, 0xE4, 0xB8, 0x8B]]"

definition chinese_targets :: "str list" where
  "chinese_targets =
     [bytes [0xE6, 0x96, 0x87, 0xE4, 0xBB, 0xB6], bytes [0xE4, 0xBB, 0xA3, 0xE7, 0xA0, 0x81],
      bytes [0xE9, 0xA1, 0xB9, 0xE7, 0x9B, 0xAE], bytes [0xE4, 0xBB, 0x93, 0xE5, 0xBA, 0x93],
      bytes [0xE7, 0x9B, 0xAE, 0xE5, 0xBD, 0x95], bytes [0xE8, 0xB7, 0xAF, 0xE5, 0xBE, 0x84],
      bytes [0xE6, 0x97, 0xA5, 0xE5, 0xBF, 0x97], bytes [0xE8, 0x84, 0x9A, 0xE6, 0x9C, 0xAC],
      bytes [0xE5, 0x91, 0xBD, 0xE4, 0xBB, 0xA4], bytes [0xE7, 0xBB, 0x88, 0xE7, 0xAB, 0xAF],
      bytes [0xE6, 0xB5, 0x8B, 0xE8, 0xAF, 0x95], bytes [0xE9, 0x85, 0x8D, 0xE7, 0xBD, 0xAE],
      bytes [0xE8, 0xB0, 0x83, 0xE7, 0x94, 0xA8, 0xE9, 0x93, 0xBE],
      bytes [0xE9, 0x94, 0x99, 0xE8, 0xAF, 0xAF], bytes [0xE6, 0x8A, 0xA5, 0xE9, 0x94, 0x99],
      bytes [0xE9, 0x97, 0xAE, 0xE9, 0xA2, 0x98], bytes [0xE7, 0xBB, 0x93, 0xE6, 0x9E, 0x9C],
      bytes [0xE4, 0xBD, 0x8D, 0xE7, 0xBD, 0xAE], bytes [0xE5, 0xAE, 0x9E, 0xE7, 0x8E, 0xB0],
      bytes [0xE4, 0xBE, 0x9D, 0xE8, 0xB5, 0x96],
      bytes [0xE5, 0xB7, 0xA5, 0xE4, 0xBD, 0x9C, 0xE5, 0x8C, 0xBA],
      bytes [0xE8, 0xBF, 0x81, 0xE7, 0xA7, 0xBB], ''schema'',
      bytes [0xE5, 0xAD, 0x97, 0xE6, 0xAE, 0xB5], bytes [0xE5, 0xB8, 0xAE, 0xE5, 0x8A, 0xA9],
      bytes [0xE5, 0x8E, 0x8B, 0xE7, 0xBC, 0xA9, 0xE5, 0x8C, 0x85],
      bytes [0xE5, 0x8C, 0x85, 0xE5, 0x86, 0x85, 0xE5, 0xAE, 0xB9],
      bytes [0xE5, 0x86, 0x85, 0xE5, 0xAE, 0xB9], bytes [0xE5, 0xA4, 0xA7, 0xE5, 0xB0, 0x8F],
      bytes [0xE7, 0x89, 0x88, 0xE6, 0x9C, 0xAC], bytes [0xE7, 0x8A, 0xB6, 0xE6, 0x80, 0x81],
      bytes [0xE7, 0xBB, 0x93, 0xE6, 0x9E, 0x84], bytes [0xE6, 0x96, 0x87, 0xE6, 0xA1, 0xA3],
      bytes [0xE5, 0xAE, 0x89, 0xE8, 0xA3, 0x85, 0xE7, 0x9B, 0xAE, 0xE5, 0xBD, 0x95]]"

definition acknowledgements :: "str list" where
  "acknowledgements =
     [bytes [0xE5, 0xA5, 0xBD, 0xE7, 0x9A, 0x84, 0xE3, 0x80, 0x82],
      bytes [0xE5, 0xA5, 0xBD, 0xE7, 0x9A, 0x84, 0xEF, 0xBC, 0x8C],
      bytes [0xE5, 0xA5, 0xBD, 0xE7, 0x9A, 0x84, 0x2C],
      bytes [0xE5, 0x8F, 0xAF, 0xE4, 0xBB, 0xA5, 0xE3, 0x80, 0x82],
      bytes [0xE5, 0x8F, 0xAF, 0xE4, 0xBB, 0xA5, 0xEF, 0xBC, 0x8C],
      bytes [0xE6, 0x98, 0x8E, 0xE7, 0x99, 0xBD, 0xE3, 0x80, 0x82],
      bytes [0xE6, 0x98, 0x8E, 0xE7, 0x99, 0xBD, 0xEF, 0xBC, 0x8C],
      bytes [0xE6, 0x94, 0xB6, 0xE5, 0x88, 0xB0, 0xE3, 0x80, 0x82],
      bytes [0xE6, 0x94, 0xB6, 0xE5, 0x88, 0xB0, 0xEF, 0xBC, 0x8C],
      bytes [0xE6, 0xB2, 0xA1, 0xE9, 0x97, 0xAE, 0xE9, 0xA2, 0x98, 0xE3, 0x80, 0x82],
      bytes [0xE6, 0xB2, 0xA1, 0xE9, 0x97, 0xAE, 0xE9, 0xA2, 0x98, 0xEF, 0xBC, 0x8C],
      bytes [0xE5, 0xA5, 0xBD, 0xE3, 0x80, 0x82]]"

definition tool_action_markers :: "str list" where
  "tool_action_markers = direct_actions @ command_markers"

section \<open>Clauses\<close>

definition contains_any :: "str list \<Rightarrow> str \<Rightarrow> bool" where
  "contains_any markers text = list_ex (contains_str text) markers"

definition starts_any :: "str list \<Rightarrow> str \<Rightarrow> bool" where
  "starts_any markers text = list_ex (starts_with text) markers"

text \<open>\<open>match_indices\<close>: the starts of the occurrences that do not overlap.\<close>

function match_from :: "nat \<Rightarrow> str \<Rightarrow> str \<Rightarrow> nat list" where
  "match_from n [] needle = []"
| "match_from n (c # cs) needle =
     (if needle \<noteq> [] \<and> starts_with (c # cs) needle
      then n # match_from (n + length needle) (drop (length needle) (c # cs)) needle
      else match_from (Suc n) cs needle)"
  by pat_completeness auto
termination by (relation "measure (\<lambda>(n, s, needle). length s)") auto

definition match_indices :: "str \<Rightarrow> str \<Rightarrow> nat list" where
  "match_indices text needle = match_from 0 text needle"

text \<open>The index of the first boundary that is not at the start.\<close>

fun next_boundary :: "nat \<Rightarrow> str \<Rightarrow> nat option" where
  "next_boundary n [] = None"
| "next_boundary n (c # cs) =
     (if 0 < n \<and> starts_any clause_boundaries (c # cs) then Some n else next_boundary (Suc n) cs)"

definition prospective_tool_clause :: "str \<Rightarrow> str" where
  "prospective_tool_clause text = take (unwrap_or (length text) (next_boundary 0 text)) text"

definition intent_is_in_opening_clause :: "str \<Rightarrow> nat \<Rightarrow> bool" where
  "intent_is_in_opening_clause text i = (\<not> contains_any clause_boundaries (take i text))"

text \<open>\<open>text.split(is_tool_clause_boundary)\<close>, with the clause read so far.\<close>

function split_clauses :: "str \<Rightarrow> str \<Rightarrow> str list" where
  "split_clauses clause [] = [clause]"
| "split_clauses clause (c # cs) =
     (case strip_any clause_boundaries (c # cs) of
        Some rest \<Rightarrow> clause # split_clauses [] rest
      | None \<Rightarrow> split_clauses (clause @ [c]) cs)"
  by pat_completeness auto
termination
proof (relation "measure (\<lambda>(clause, s). length s)", goal_cases)
  case (3 clause c cs rest)
  then obtain p where "p \<in> set clause_boundaries" "c # cs = p @ rest" using strip_any_Some by blast
  moreover have "[] \<notin> set clause_boundaries" by (simp add: clause_boundaries_def bytes_def)
  ultimately have "p \<noteq> []" by metis
  with \<open>c # cs = p @ rest\<close> show ?case by (cases p) auto
qed auto

definition tool_intent_clauses :: "str \<Rightarrow> str list" where
  "tool_intent_clauses text = filter (\<lambda>c. c \<noteq> []) (map trim (split_clauses [] text))"

definition strip_leading_acknowledgement :: "str \<Rightarrow> str" where
  "strip_leading_acknowledgement text =
     unwrap_or text (map_option trim_start (strip_any acknowledgements text))"

section \<open>English\<close>

definition is_term_char :: "char \<Rightarrow> bool" where
  "is_term_char c = (is_ascii_alphanumeric c \<or> c = CHR ''_'')"

definition contains_ascii_term :: "str \<Rightarrow> str \<Rightarrow> bool" where
  "contains_ascii_term text term =
     list_ex (\<lambda>i. let before = take i text; rest = drop (i + length term) text in
                 \<not> (before \<noteq> [] \<and> is_term_char (last before))
                 \<and> \<not> (rest \<noteq> [] \<and> is_term_char (hd rest)))
       (match_indices text term)"

definition english_clause_promises_tool_work :: "str \<Rightarrow> bool" where
  "english_clause_promises_tool_work clause =
     (if list_ex (contains_ascii_term clause) english_negations then False
      else list_ex (contains_ascii_term clause) english_tools
           \<or> list_ex (contains_ascii_term clause) english_actions
             \<and> list_ex (contains_ascii_term clause) english_targets)"

section \<open>Chinese\<close>

definition chinese_clause_promises_tool_work :: "str list \<Rightarrow> str \<Rightarrow> bool" where
  "chinese_clause_promises_tool_work action_markers clause =
     (if contains_any enough_markers clause \<or> starts_any advice_prefixes clause then False
      else if contains_any chinese_negations clause then False
      else contains_any chinese_tools (to_ascii_lowercase clause)
           \<or> (contains_any action_markers clause \<or> contains_any brief_actions clause)
             \<and> contains_any chinese_targets clause)"

definition chinese_sequenced_clause_promises_tool_work :: "str list \<Rightarrow> str \<Rightarrow> bool" where
  "chinese_sequenced_clause_promises_tool_work action_markers clause =
     (case map_option trim_start (strip_any sequence_prefixes clause) of
        None \<Rightarrow> False
      | Some action_clause \<Rightarrow> chinese_clause_promises_tool_work action_markers action_clause)"

definition chinese_clause_reports_progress :: "str \<Rightarrow> bool" where
  "chinese_clause_reports_progress clause = contains_any progress_markers clause"

definition chinese_direct_action_clause_promises_tool_work :: "str list \<Rightarrow> str \<Rightarrow> bool" where
  "chinese_direct_action_clause_promises_tool_work action_markers clause =
     (list_ex (\<lambda>action. starts_with clause action
                 \<and> \<not> list_ex (\<lambda>noun. starts_with clause (action @ noun)) action_nouns) direct_actions
      \<and> chinese_clause_promises_tool_work action_markers clause)"

section \<open>The promise\<close>

text \<open>Some marker, in the opening clause, starts a clause that promises work.\<close>

definition intent_promises :: "str list \<Rightarrow> (str \<Rightarrow> bool) \<Rightarrow> str \<Rightarrow> bool" where
  "intent_promises markers promises text =
     list_ex (\<lambda>marker. list_ex (\<lambda>i. intent_is_in_opening_clause text i
                                   \<and> promises (prospective_tool_clause (drop i text)))
                         (match_indices text marker)) markers"

definition progress_then_action :: "str list \<Rightarrow> bool" where
  "progress_then_action clauses =
     list_ex (\<lambda>(first, second). chinese_clause_reports_progress first
                 \<and> chinese_direct_action_clause_promises_tool_work tool_action_markers second)
       (zip clauses (tl clauses))"

definition promised_tool_work_without_call :: "str \<Rightarrow> bool" where
  "promised_tool_work_without_call content =
     (let text = strip_leading_acknowledgement (trim content);
          clauses = tool_intent_clauses text
      in text \<noteq> []
         \<and> (intent_promises english_intents english_clause_promises_tool_work (to_ascii_lowercase text)
            \<or> intent_promises chinese_intents (chinese_clause_promises_tool_work tool_action_markers) text
            \<or> list_ex (chinese_sequenced_clause_promises_tool_work tool_action_markers) clauses
            \<or> progress_then_action clauses
            \<or> starts_any bare_preambles text
              \<and> chinese_clause_promises_tool_work tool_action_markers (prospective_tool_clause text)))"

definition apply_turn_continuation :: "api_family \<Rightarrow> bool \<Rightarrow> model_turn \<Rightarrow> model_turn" where
  "apply_turn_continuation family tools_enabled turn =
     (if turn_tool_calls turn \<noteq> [] \<or> turn_terminal turn = TermToolCalls then turn
      else if continuation_reason_of (turn_terminal turn) \<noteq> None then turn
      else if family = FamilyCodex \<and> should_continue_end_turn (turn_opaque turn)
      then turn\<lparr>turn_terminal := TermContinue ProviderRequested\<rparr>
      else if tools_enabled \<and> promised_tool_work_without_call (turn_text turn)
      then turn\<lparr>turn_terminal := TermContinue Incomplete\<rparr>
      else turn)"

section \<open>Continuation\<close>

lemma apply_turn_continuation_keeps [simp]:
  "turn_text (apply_turn_continuation f b t) = turn_text t"
  "turn_reasoning (apply_turn_continuation f b t) = turn_reasoning t"
  "turn_tool_calls (apply_turn_continuation f b t) = turn_tool_calls t"
  "turn_usage (apply_turn_continuation f b t) = turn_usage t"
  "turn_opaque (apply_turn_continuation f b t) = turn_opaque t"
  by (simp_all add: apply_turn_continuation_def)

text \<open>
  Only an idle answer is continued. The heuristics change nothing of a turn but its terminal;
  and they do exactly for a turn that neither calls a tool nor asks to be continued, when Codex left the turn
  open or tools were offered and the text promises to use one.
\<close>

theorem only_idle_answers_are_continued:
  "let t = apply_turn_continuation family tools_enabled turn in
     t = turn\<lparr>turn_terminal := turn_terminal t\<rparr>
     \<and> (turn_terminal t \<noteq> turn_terminal turn) =
         (turn_tool_calls turn = [] \<and> turn_terminal turn \<noteq> TermToolCalls
          \<and> continuation_reason_of (turn_terminal turn) = None
          \<and> (family = FamilyCodex \<and> should_continue_end_turn (turn_opaque turn)
             \<or> tools_enabled \<and> promised_tool_work_without_call (turn_text turn)))"
  by (cases "turn_terminal turn") (auto simp: apply_turn_continuation_def Let_def)

end
