(* ===== verification/Think_Tags.thy ===== *)
theory Think_Tags
  imports Sink_Actions Thought_Stream Utf8
begin

text \<open>
  The split of Kimi's answers at \<open><think>\<close> and \<open><thinking>\<close> tags (\<open>ThinkTagFilter\<close> and
  \<open>ThinkTagSink\<close> in \<open>kimi/mod.rs\<close>). The sink filters the deltas that are shown; the finished turn
  is split again as a whole.
\<close>

section \<open>The filter\<close>

datatype think_tag_kind = ThinkReasoning | ThinkVisible

type_synonym think_tag_part = "think_tag_kind \<times> str"

text \<open>\<open>close_tag\<close> is one of two literals.\<close>

datatype close_tag = CloseThink | CloseThinking

fun close_text :: "close_tag \<Rightarrow> str" where
  "close_text CloseThink = ''</think>''"
| "close_text CloseThinking = ''</thinking>''"

record think_tag_filter =
  ttf_reasoning :: bool
  ttf_close_tag :: close_tag
  ttf_pending :: str

definition think_filter_new :: think_tag_filter where
  "think_filter_new = \<lparr>ttf_reasoning = False, ttf_close_tag = CloseThink, ttf_pending = []\<rparr>"

text \<open>The longest end of the text that could begin one of the tags.\<close>

definition suffix_tag_prefix_len :: "str \<Rightarrow> str list \<Rightarrow> nat" where
  "suffix_tag_prefix_len text tags = fold max (map (\<lambda>tag. keep_length tag text) tags) 0"

definition open_tags :: "str list" where
  "open_tags = [''<think>'', ''<thinking>'']"

text \<open>\<open>min_by_key\<close> over the tags that are found: the first of the least indices.\<close>

definition earlier :: "(nat \<times> 'a) option \<Rightarrow> (nat \<times> 'a) option \<Rightarrow> (nat \<times> 'a) option" where
  "earlier a b =
     (case (a, b) of
        (Some (i, x), Some (j, y)) \<Rightarrow> if j < i then b else a
      | (None, _) \<Rightarrow> b
      | _ \<Rightarrow> a)"

definition find_open_tag :: "str \<Rightarrow> (nat \<times> str) option" where
  "find_open_tag lower =
     foldl earlier None (map (\<lambda>tag. map_option (\<lambda>i. (i, tag)) (find_str lower tag)) open_tags)"

definition close_tag_of :: "str \<Rightarrow> close_tag" where
  "close_tag_of tag = (if tag = ''<thinking>'' then CloseThinking else CloseThink)"

definition take_prefix :: "think_tag_kind \<Rightarrow> str \<Rightarrow> think_tag_part list" where
  "take_prefix kind text = (if text = [] then [] else [(kind, text)])"

text \<open>What is next in the pending text: a tag at an index, or how much of the end to keep.\<close>

definition next_tag :: "think_tag_filter \<Rightarrow> (nat \<times> str) option" where
  "next_tag f =
     (let lower = to_ascii_lowercase (ttf_pending f) in
      if ttf_reasoning f
      then map_option (\<lambda>i. (i, close_text (ttf_close_tag f))) (find_str lower (close_text (ttf_close_tag f)))
      else find_open_tag lower)"

definition kind_of :: "think_tag_filter \<Rightarrow> think_tag_kind" where
  "kind_of f = (if ttf_reasoning f then ThinkReasoning else ThinkVisible)"

definition kept_length :: "think_tag_filter \<Rightarrow> nat" where
  "kept_length f =
     suffix_tag_prefix_len (to_ascii_lowercase (ttf_pending f))
       (if ttf_reasoning f then [close_text (ttf_close_tag f)] else open_tags)"

definition after_tag :: "nat \<Rightarrow> str \<Rightarrow> think_tag_filter \<Rightarrow> think_tag_filter" where
  "after_tag i tag f =
     (if ttf_reasoning f then f\<lparr>ttf_reasoning := False, ttf_pending := drop (i + length tag) (ttf_pending f)\<rparr>
      else \<lparr>ttf_reasoning = True, ttf_close_tag = close_tag_of tag,
            ttf_pending = drop (i + length tag) (ttf_pending f)\<rparr>)"

lemma find_open_tag_cases:
  "find_open_tag s = Some (i, tag) \<Longrightarrow> tag \<in> set open_tags \<and> find_str s tag = Some i"
  "find_open_tag s = None \<Longrightarrow> \<forall>tag \<in> set open_tags. find_str s tag = None"
  by (auto simp: find_open_tag_def open_tags_def earlier_def split: option.splits if_splits)

lemma next_tag_found:
  "next_tag f = Some (i, tag) \<Longrightarrow>
     find_str (to_ascii_lowercase (ttf_pending f)) tag = Some i \<and> tag \<noteq> []"
  by (cases "ttf_close_tag f")
    (auto simp: next_tag_def Let_def open_tags_def dest: find_open_tag_cases split: if_splits)

function think_loop :: "think_tag_part list \<Rightarrow> think_tag_filter \<Rightarrow> think_tag_part list \<times> think_tag_filter" where
  "think_loop acc f =
     (case next_tag f of
        Some (i, tag) \<Rightarrow>
          think_loop (acc @ take_prefix (kind_of f) (take i (ttf_pending f))) (after_tag i tag f)
      | None \<Rightarrow>
          let end = length (ttf_pending f) - kept_length f
          in (acc @ take_prefix (kind_of f) (take end (ttf_pending f)),
              f\<lparr>ttf_pending := drop end (ttf_pending f)\<rparr>))"
  by pat_completeness auto
termination
proof (relation "measure (length o ttf_pending o snd)", goal_cases)
  case (2 acc f p i tag)
  then have "find_str (to_ascii_lowercase (ttf_pending f)) tag = Some i" "tag \<noteq> []"
    using next_tag_found by blast+
  with find_str_bounds have "i + length tag \<le> length (ttf_pending f)" "0 < length tag" by fastforce+
  then have "length (drop (i + length tag) (ttf_pending f)) < length (ttf_pending f)"
    by (intro drop_shorter) simp_all
  then show ?case by (simp add: after_tag_def)
qed simp

declare think_loop.simps [simp del]

definition think_push :: "str \<Rightarrow> think_tag_filter \<Rightarrow> think_tag_part list \<times> think_tag_filter" where
  "think_push delta f = think_loop [] (f\<lparr>ttf_pending := ttf_pending f @ delta\<rparr>)"

definition think_finish :: "think_tag_filter \<Rightarrow> think_tag_part list \<times> think_tag_filter" where
  "think_finish f =
     (if ttf_pending f = [] then ([], f) else ([(kind_of f, ttf_pending f)], f\<lparr>ttf_pending := []\<rparr>))"

section \<open>The sink and the turn\<close>

definition emit_parts :: "think_tag_part list \<Rightarrow> sink_event list" where
  "emit_parts parts =
     concat (map (\<lambda>(kind, text). if text = [] then []
                    else [if kind = ThinkReasoning then SinkReasoning text else SinkText text]) parts)"

fun think_sink :: "sink_event \<Rightarrow> think_tag_filter \<Rightarrow> sink_event list \<times> think_tag_filter" where
  "think_sink (SinkText delta) f = apfst emit_parts (think_push delta f)"
| "think_sink e f = ([e], f)"

definition think_flush :: "think_tag_filter \<Rightarrow> sink_event list \<times> think_tag_filter" where
  "think_flush f = apfst emit_parts (think_finish f)"

definition parts_of :: "think_tag_kind \<Rightarrow> think_tag_part list \<Rightarrow> str" where
  "parts_of kind parts = concat (map snd (filter (\<lambda>p. fst p = kind) parts))"

definition apply_think_tags_to_turn :: "model_turn \<Rightarrow> model_turn" where
  "apply_think_tags_to_turn turn =
     (case think_push (turn_text turn) think_filter_new of
        (parts, f) \<Rightarrow>
          let all_parts = parts @ fst (think_finish f) in
          turn\<lparr>turn_text := parts_of ThinkVisible all_parts,
               turn_reasoning := turn_reasoning turn @ parts_of ThinkReasoning all_parts\<rparr>)"

section \<open>Tags in longer texts\<close>

lemma find_str_prefix:
  "find_str s t = Some i \<Longrightarrow> prefix t (drop i s) \<and> i \<le> length s"
  by (induction s arbitrary: i) (auto split: if_splits)

lemma find_str_least: "prefix t (drop j s) \<Longrightarrow> j \<le> length s \<Longrightarrow> \<exists>i \<le> j. find_str s t = Some i"
proof (induction s arbitrary: j)
  case (Cons c s)
  show ?case
  proof (cases j)
    case (Suc k)
    with Cons obtain i where "i \<le> k" "find_str s t = Some i" by auto
    with Suc show ?thesis by (cases "prefix t (c # s)") auto
  qed (use Cons.prems in auto)
qed auto

lemma find_after_kept:
  assumes "find_str s tag = None" "keep_length tag s \<le> k" "k \<le> length s"
  shows "find_str (s @ x) tag =
    map_option ((+) (length s - k)) (find_str (drop (length s - k) s @ x) tag)"
  using assms
proof (induction s)
  case Nil
  then show ?case by (simp add: option.map_ident)
next
  case (Cons c s)
  show ?case
  proof (cases "k = Suc (length s)")
    case True
    then show ?thesis by (simp add: option.map_ident)
  next
    case False
    then have short: "\<not> prefix (c # s) tag" "keep_length tag s \<le> k" "k \<le> length s"
      using Cons.prems by (auto split: if_splits)
    have "\<not> prefix tag (c # s @ x)"
    proof
      assume "prefix tag (c # s @ x)"
      moreover have "prefix (c # s) (c # s @ x)" by simp
      ultimately have "prefix tag (c # s) \<or> prefix (c # s) tag" using prefix_same_cases by blast
      with short Cons.prems(1) show False by (simp split: if_splits)
    qed
    with Cons short show ?thesis
      by (simp add: Suc_diff_le option.map_comp comp_def split: if_splits)
  qed
qed

text \<open>An opening tag holds one angle bracket, so two do not overlap.\<close>

lemma open_tags_apart:
  assumes "a \<in> set open_tags" "b \<in> set open_tags" "a \<noteq> b"
    "find_str s a = Some i" "find_str s b = None" "find_str (s @ x) b = Some j"
  shows "i < j"
proof (rule ccontr)
  assume "\<not> i < j"
  have a: "prefix a (drop i s)" "i \<le> length s" using find_str_prefix [OF assms(4)] by simp_all
  have b: "prefix b (drop j (s @ x))" using find_str_prefix [OF assms(6)] by simp
  have ab: "a ! 0 = CHR ''<''" "a \<noteq> []" "\<And>k. 0 < k \<Longrightarrow> k < length b \<Longrightarrow> b ! k \<noteq> CHR ''<''"
    using assms(1,2) by (auto simp: open_tags_def less_Suc_eq numeral_eq_Suc nth_Cons')
  show False
  proof (cases "i = j")
    case True
    have "prefix a (drop j (s @ x))" using a True by (simp add: prefix_prefix)
    with b have "prefix a b \<or> prefix b a" using prefix_same_cases by blast
    with assms(1-3) show False by (auto simp: open_tags_def)
  next
    case False
    with \<open>\<not> i < j\<close> have j: "j < i" by simp
    then have over: "i < j + length b"
    proof (cases "j + length b \<le> i")
      case True
      with a(2) j have "length b \<le> length (drop j s)" by simp
      with b j a(2) have "prefix b (drop j s)"
        by (simp add: prefix_length_prefix [of b "drop j s @ x" "drop j s"])
      with find_str_least [of b j s] assms(5) j a(2) show ?thesis by auto
    qed simp
    have inside: "i - j < length b" "0 < i - j" using over j by arith+
    obtain zs where z: "drop j (s @ x) = b @ zs"
      using b unfolding prefix_def by blast
    have "b ! (i - j) = drop j (s @ x) ! (i - j)"
      unfolding z using inside by (simp add: nth_append)
    also have "\<dots> = (s @ x) ! i" using j a(2) by (subst nth_drop) simp_all
    also have "\<dots> = drop i s ! 0"
      using a ab(2) by (cases "i < length s") (auto simp: nth_append prefix_def)
    also have "\<dots> = a ! 0" using a(1) ab(2) by (auto simp: prefix_def nth_append)
    finally show False using ab(1) ab(3) [OF inside(2,1)] by simp
  qed
qed

lemma find_open_tag_append:
  assumes "find_open_tag s = Some (i, tag)"
  shows "find_open_tag (s @ x) = Some (i, tag)"
proof -
  let ?a = "''<think>''" and ?b = "''<thinking>''"
  have in_tags: "?a \<in> set open_tags" "?b \<in> set open_tags" "?a \<noteq> ?b" "?b \<noteq> ?a"
    by (simp_all add: open_tags_def)
  note ab = open_tags_apart [OF in_tags(1,2,3), of s _ x] and ba = open_tags_apart [OF in_tags(2,1,4), of s _ x]
  show ?thesis
    using assms
    by (cases "find_str s ?a"; cases "find_str s ?b"; cases "find_str (s @ x) ?a"; cases "find_str (s @ x) ?b")
      (auto simp: find_open_tag_def open_tags_def earlier_def find_append dest: ab ba
        split: if_splits)
qed

section \<open>How the text is cut does not matter\<close>

definition texts_of_parts :: "think_tag_part list \<Rightarrow> str \<times> str" where
  "texts_of_parts parts = (parts_of ThinkVisible parts, parts_of ThinkReasoning parts)"

lemma texts_of_parts_append [simp]:
  "texts_of_parts (a @ b) = out_append (texts_of_parts a) (texts_of_parts b)"
  "texts_of_parts [] = ([], [])"
  by (simp_all add: texts_of_parts_def parts_of_def out_append_def)

lemma texts_of_take [simp]: "texts_of_parts (take_prefix k t) = to_side (k = ThinkReasoning) t ([], [])"
  by (cases k) (simp_all add: texts_of_parts_def parts_of_def take_prefix_def to_side_def)

lemma kind_of_iff [simp]: "(kind_of f = ThinkReasoning) = ttf_reasoning f"
  by (simp add: kind_of_def)

text \<open>The reference: the tags of the whole text.\<close>

function think_split :: "think_tag_filter \<Rightarrow> str \<times> str" where
  "think_split f =
     (case next_tag f of
        None \<Rightarrow> to_side (ttf_reasoning f) (ttf_pending f) ([], [])
      | Some (i, tag) \<Rightarrow>
          out_append (to_side (ttf_reasoning f) (take i (ttf_pending f)) ([], []))
            (think_split (after_tag i tag f)))"
  by pat_completeness auto
termination
proof (relation "measure (length o ttf_pending)", goal_cases)
  case (2 f p i tag)
  then have "find_str (to_ascii_lowercase (ttf_pending f)) tag = Some i" "tag \<noteq> []"
    using next_tag_found by blast+
  with find_str_bounds have "i + length tag \<le> length (ttf_pending f)" "0 < length tag" by fastforce+
  then have "length (drop (i + length tag) (ttf_pending f)) < length (ttf_pending f)"
    by (intro drop_shorter) simp_all
  then show ?case by (simp add: after_tag_def)
qed simp

declare think_split.simps [simp del]

abbreviation more :: "str \<Rightarrow> think_tag_filter \<Rightarrow> think_tag_filter" where
  "more x f \<equiv> f\<lparr>ttf_pending := ttf_pending f @ x\<rparr>"

lemma next_tag_more: "next_tag f = Some (i, tag) \<Longrightarrow> next_tag (more x f) = Some (i, tag)"
  by (auto simp: next_tag_def Let_def find_append find_open_tag_append split: if_splits)

lemma after_tag_more:
  "next_tag f = Some (i, tag) \<Longrightarrow> after_tag i tag (more x f) = more x (after_tag i tag f)"
  using next_tag_found [of f i tag] find_str_bounds
  by (fastforce simp: after_tag_def)

lemma kept_le: "keep_length tag s \<le> length s"
  by (induction s) auto

lemma kept_length_bounds:
  "kept_length f \<le> length (ttf_pending f)"
  "tag \<in> set (if ttf_reasoning f then [close_text (ttf_close_tag f)] else open_tags) \<Longrightarrow>
     keep_length tag (to_ascii_lowercase (ttf_pending f)) \<le> kept_length f"
  using kept_le [of _ "to_ascii_lowercase (ttf_pending f)"]
  by (auto simp: kept_length_def suffix_tag_prefix_len_def open_tags_def)

lemma next_tag_shift:
  assumes "next_tag f = None" "n = length (ttf_pending f) - kept_length f"
  shows "next_tag (more x f) =
    map_option (apfst ((+) n)) (next_tag (f\<lparr>ttf_pending := drop n (ttf_pending f) @ x\<rparr>))"
proof -
  let ?s = "to_ascii_lowercase (ttf_pending f)"
  have found: "find_str (?s @ to_ascii_lowercase x) tag =
      map_option ((+) n) (find_str (drop n ?s @ to_ascii_lowercase x) tag)"
    if "tag \<in> set (if ttf_reasoning f then [close_text (ttf_close_tag f)] else open_tags)" for tag
  proof -
    have "find_str ?s tag = None"
      using that assms(1) find_open_tag_cases(2)
      by (auto simp: next_tag_def Let_def split: if_splits)
    from find_after_kept [OF this kept_length_bounds(2) [OF that]] kept_length_bounds(1) [of f]
    show ?thesis by (simp add: assms(2))
  qed
  show ?thesis
  proof (cases "ttf_reasoning f")
    case True
    with found [of "close_text (ttf_close_tag f)"] show ?thesis
      by (simp add: next_tag_def Let_def option.map_comp comp_def)
  next
    case False
    then have "\<forall>tag \<in> set open_tags. find_str (?s @ to_ascii_lowercase x) tag =
      map_option ((+) n) (find_str (drop n ?s @ to_ascii_lowercase x) tag)"
      using found by simp
    with False show ?thesis
      by (cases "find_str (drop n ?s @ to_ascii_lowercase x) ''<think>''";
          cases "find_str (drop n ?s @ to_ascii_lowercase x) ''<thinking>''")
        (simp_all add: next_tag_def Let_def find_open_tag_def open_tags_def earlier_def)
  qed
qed

lemma think_loop_splits:
  "think_loop acc f = (acc', f') \<Longrightarrow>
     out_append (texts_of_parts acc) (think_split (more x f))
       = out_append (texts_of_parts acc') (think_split (more x f'))"
proof (induction acc f arbitrary: acc' f' rule: think_loop.induct)
  case (1 acc f)
  show ?case
  proof (cases "next_tag f")
    case None
    define n where "n = length (ttf_pending f) - kept_length f"
    define p q where "p = take n (ttf_pending f)" and "q = drop n (ttf_pending f)"
    then have pq: "ttf_pending f = p @ q" by simp
    have n: "length p = n" by (simp add: p_def n_def)
    from "1.prems" None have r: "acc' = acc @ take_prefix (kind_of f) p" "f' = f\<lparr>ttf_pending := q\<rparr>"
      by (auto simp: think_loop.simps [of acc f] Let_def p_def q_def n_def)
    let ?g = "f\<lparr>ttf_pending := q @ x\<rparr>"
    have shift: "next_tag (more x f) = map_option (apfst ((+) n)) (next_tag ?g)"
      using next_tag_shift [OF None n_def, of x] by (simp add: q_def)
    have "think_split (more x f) = out_append (to_side (ttf_reasoning f) p ([], [])) (think_split ?g)"
    proof (cases "next_tag ?g")
      case None
      then show ?thesis
        unfolding think_split.simps [of "more x f"] think_split.simps [of ?g] shift
        by (simp add: pq to_side_append)
    next
      case (Some it)
      obtain i tag where it: "it = (i, tag)" by fastforce
      have "after_tag (n + i) tag (more x f) = after_tag i tag ?g"
        by (simp add: after_tag_def pq n [symmetric])
      with Some it show ?thesis
        unfolding think_split.simps [of "more x f"] think_split.simps [of ?g] shift
        by (simp add: pq n [symmetric] to_side_append [of _ p])
    qed
    then show ?thesis by (simp add: r)
  next
    case (Some it)
    obtain i tag where it: "it = (i, tag)" by fastforce
    note found = Some [unfolded it]
    have "i \<le> length (ttf_pending f)"
      using next_tag_found [OF found] find_str_bounds by fastforce
    with "1.IH" [OF Some it [symmetric], of acc' f'] "1.prems" found show ?thesis
      by (simp add: think_loop.simps [of acc f] think_split.simps [of "more x f"] next_tag_more
          after_tag_more)
  qed
qed

fun think_run :: "str list \<Rightarrow> think_tag_filter \<Rightarrow> think_tag_part list \<times> think_tag_filter" where
  "think_run [] f = ([], f)"
| "think_run (d # ds) f = (case think_push d f of (parts, f') \<Rightarrow> apfst (append parts) (think_run ds f'))"

lemma think_run_splits:
  "think_run ds f = (parts, f') \<Longrightarrow>
     think_split (more (concat ds @ x) f) = out_append (texts_of_parts parts) (think_split (more x f'))"
proof (induction ds arbitrary: f parts)
  case (Cons d ds)
  obtain p1 f1 where p: "think_push d f = (p1, f1)" by fastforce
  obtain p2 where q: "think_run ds f1 = (p2, f')" "parts = p1 @ p2"
    using Cons.prems p by (cases "think_run ds f1") simp
  from think_loop_splits [OF p [unfolded think_push_def], of "concat ds @ x"] Cons.IH [OF q(1)]
  show ?case by (simp add: q(2))
qed simp

lemma think_loop_pending: "next_tag (snd (think_loop acc f)) = None"
proof (induction acc f rule: think_loop.induct)
  case (1 acc f)
  show ?case
  proof (cases "next_tag f")
    case None
    from next_tag_shift [OF None refl, of "[]"] None show ?thesis
      by (simp add: think_loop.simps [of acc f] Let_def)
  next
    case (Some it)
    obtain i tag where it: "it = (i, tag)" by fastforce
    from "1.IH" [OF Some it [symmetric]] Some it show ?thesis
      by (simp add: think_loop.simps [of acc f])
  qed
qed

lemma think_run_pending: "next_tag f = None \<Longrightarrow> next_tag (snd (think_run ds f)) = None"
proof (induction ds arbitrary: f)
  case (Cons d ds)
  have "next_tag (snd (think_push d f)) = None"
    unfolding think_push_def by (rule think_loop_pending)
  from Cons.IH [OF this] show ?case by (cases "think_push d f"; cases "think_run ds (snd (think_push d f))") simp
qed simp

lemma think_run_whole:
  assumes "think_run ds think_filter_new = (parts, f)"
  shows "texts_of_parts (parts @ fst (think_finish f)) = think_split (more (concat ds) think_filter_new)"
proof -
  have "next_tag think_filter_new = None"
    by (simp add: next_tag_def think_filter_new_def find_open_tag_def open_tags_def earlier_def)
  from think_run_pending [OF this, of ds] have "next_tag f = None" by (simp add: assms)
  then have "think_split f = texts_of_parts (fst (think_finish f))"
    by (auto simp: think_split.simps [of f] think_finish_def texts_of_parts_def parts_of_def
        to_side_def kind_of_def)
  with think_run_splits [OF assms, of "[]"] show ?thesis by simp
qed

text \<open>What the sink is shown: the events of the deltas through the filter, and of the flush.\<close>

fun think_sink_all :: "sink_event list \<Rightarrow> think_tag_filter \<Rightarrow> sink_event list \<times> think_tag_filter" where
  "think_sink_all [] f = ([], f)"
| "think_sink_all (e # es) f = (case think_sink e f of (ev, f') \<Rightarrow> apfst (append ev) (think_sink_all es f'))"

lemma shown_parts:
  "shown_text (emit_parts parts) = parts_of ThinkVisible parts"
  "shown_reasoning (emit_parts parts) = parts_of ThinkReasoning parts"
proof (induction parts)
  case (Cons p parts)
  {
    case 1
    with Cons show ?case by (cases p; cases "fst p") (auto simp: emit_parts_def parts_of_def)
  next
    case 2
    with Cons show ?case by (cases p; cases "fst p") (auto simp: emit_parts_def parts_of_def)
  }
qed (simp_all add: emit_parts_def parts_of_def)

definition deltas_of :: "sink_event list \<Rightarrow> str list" where
  "deltas_of = List.map_filter (\<lambda>e. case e of SinkText d \<Rightarrow> Some d | _ \<Rightarrow> None)"

lemma deltas_of_simps [simp]:
  "deltas_of [] = []" "deltas_of (SinkText d # es) = d # deltas_of es"
  "deltas_of (SinkReasoning r # es) = deltas_of es" "deltas_of (SinkUsage u # es) = deltas_of es"
  by (simp_all add: deltas_of_def List.map_filter_simps)

lemma concat_deltas [simp]: "concat (deltas_of events) = shown_text events"
proof (induction events)
  case (Cons e es)
  then show ?case by (cases e) simp_all
qed simp

lemma shuffles_prepend:
  "zs \<in> shuffles xs ys \<Longrightarrow> a @ zs \<in> shuffles (a @ xs) ys"
  "zs \<in> shuffles xs ys \<Longrightarrow> a @ zs \<in> shuffles xs (a @ ys)"
  by (induction a) (simp_all add: Cons_in_shuffles_leftI Cons_in_shuffles_rightI)

lemma parts_of_append [simp]: "parts_of k (a @ b) = parts_of k a @ parts_of k b"
  by (simp add: parts_of_def)

text \<open>
  Through the filter, the text is shown in the order of the parts; the reasoning is what the
  model declared, with the tagged parts between.
\<close>

lemma think_sink_all_shows:
  "think_sink_all events f = (shown, f') \<Longrightarrow>
     \<exists>parts. think_run (deltas_of events) f = (parts, f')
       \<and> shown_text shown = parts_of ThinkVisible parts
       \<and> (\<forall>rest. shown_reasoning shown @ rest
              \<in> shuffles (shown_reasoning events) (parts_of ThinkReasoning parts @ rest))"
proof (induction events arbitrary: f shown)
  case Nil
  then show ?case by (simp add: parts_of_def)
next
  case (Cons e events)
  obtain ev f1 where e: "think_sink e f = (ev, f1)" by fastforce
  obtain shown1 where s1: "think_sink_all events f1 = (shown1, f')" "shown = ev @ shown1"
    using Cons.prems e by (cases "think_sink_all events f1") simp
  from Cons.IH [OF s1(1)] obtain parts where parts:
    "think_run (deltas_of events) f1 = (parts, f')" "shown_text shown1 = parts_of ThinkVisible parts"
    "\<And>rest. shown_reasoning shown1 @ rest
       \<in> shuffles (shown_reasoning events) (parts_of ThinkReasoning parts @ rest)" by blast
  show ?case
  proof (cases e)
    case (SinkText d)
    with e obtain p where p: "think_push d f = (p, f1)" "ev = emit_parts p"
      by (cases "think_push d f") simp
    with parts SinkText s1 shuffles_prepend(2) [OF parts(3)] show ?thesis
      by (simp add: shown_parts)
  next
    case (SinkReasoning r)
    with e parts s1 shuffles_prepend(1) [OF parts(3)] show ?thesis by auto
  qed (use e parts s1 in auto)
qed

lemma think_flush_shows:
  "shown_text (fst (think_flush f)) = parts_of ThinkVisible (fst (think_finish f))"
  "shown_reasoning (fst (think_flush f)) = parts_of ThinkReasoning (fst (think_finish f))"
  by (cases "think_finish f", simp add: think_flush_def shown_parts)+

lemma think_turn_texts:
  "turn_text (apply_think_tags_to_turn turn) = fst (think_split (more (turn_text turn) think_filter_new))"
  "turn_reasoning (apply_think_tags_to_turn turn) =
     turn_reasoning turn @ snd (think_split (more (turn_text turn) think_filter_new))"
proof -
  obtain parts f where push: "think_push (turn_text turn) think_filter_new = (parts, f)" by fastforce
  then have "think_run [turn_text turn] think_filter_new = (parts, f)" by simp
  from think_run_whole [OF this, symmetric] push
  show "turn_text (apply_think_tags_to_turn turn) = fst (think_split (more (turn_text turn) think_filter_new))"
    "turn_reasoning (apply_think_tags_to_turn turn) =
       turn_reasoning turn @ snd (think_split (more (turn_text turn) think_filter_new))"
    by (simp_all add: apply_think_tags_to_turn_def Let_def texts_of_parts_def)
qed

lemma think_tags_agree:
  "(case think_sink_all events think_filter_new of
      (shown, f) \<Rightarrow> shown_text (shown @ fst (think_flush f)))
     = turn_text (apply_think_tags_to_turn (turn\<lparr>turn_text := shown_text events\<rparr>))"
  "case think_sink_all events think_filter_new of
      (shown, f) \<Rightarrow> \<exists>hidden.
        turn_reasoning (apply_think_tags_to_turn (turn\<lparr>turn_text := shown_text events\<rparr>))
          = turn_reasoning turn @ hidden
        \<and> shown_reasoning (shown @ fst (think_flush f)) \<in> shuffles (shown_reasoning events) hidden"
proof -
  obtain shown f where run: "think_sink_all events think_filter_new = (shown, f)" by fastforce
  obtain parts where parts: "think_run (deltas_of events) think_filter_new = (parts, f)"
    "shown_text shown = parts_of ThinkVisible parts"
    "\<And>rest. shown_reasoning shown @ rest
       \<in> shuffles (shown_reasoning events) (parts_of ThinkReasoning parts @ rest)"
    using think_sink_all_shows [OF run] by blast
  note whole = think_run_whole [OF parts(1), symmetric]
  then have split: "think_split (more (shown_text events) think_filter_new)
      = texts_of_parts (parts @ fst (think_finish f))" by simp
  from parts(2) show "(case think_sink_all events think_filter_new of
      (shown, f) \<Rightarrow> shown_text (shown @ fst (think_flush f)))
     = turn_text (apply_think_tags_to_turn (turn\<lparr>turn_text := shown_text events\<rparr>))"
    by (simp add: run think_turn_texts think_flush_shows split [simplified]) (simp add: texts_of_parts_def out_append_def)
  from parts(3) show "case think_sink_all events think_filter_new of
      (shown, f) \<Rightarrow> \<exists>hidden.
        turn_reasoning (apply_think_tags_to_turn (turn\<lparr>turn_text := shown_text events\<rparr>))
          = turn_reasoning turn @ hidden
        \<and> shown_reasoning (shown @ fst (think_flush f)) \<in> shuffles (shown_reasoning events) hidden"
    by (simp add: run think_turn_texts think_flush_shows split [simplified]) (simp add: texts_of_parts_def out_append_def)
qed

text \<open>
  Kimi's answer is the same shown and finished. Whatever deltas are shown through the filter
  of think tags, however the tags are cut, the visible text with the last flush is exactly the
  text of the finished turn, which is split as a whole from the concatenated deltas.
\<close>

theorem think_tags_shown_as_finished:
  "(case think_sink_all events think_filter_new of
      (shown, f) \<Rightarrow> shown_text (shown @ fst (think_flush f)))
     = turn_text (apply_think_tags_to_turn (turn\<lparr>turn_text := shown_text events\<rparr>))"
  by (rule think_tags_agree(1))

end
