(* ===== verification/Summary_Filter.thy ===== *)
theory Summary_Filter
  imports Sink_Actions Thought_Stream Text_Delta
begin

text \<open>
  Qwen's leading summary (\<open>SummaryFilter\<close>, \<open>SummaryFilterSink\<close> and \<open>apply_summary_to_turn\<close> in
  \<open>qwen/mod.rs\<close>): a summary at the start of an answer is not shown and becomes hidden context.
\<close>

section \<open>The filter\<close>

datatype summary_filter_mode = FilterUndecided | FilterPassthrough | FilterSuppressing

record summary_filter =
  smf_enabled :: bool
  smf_mode :: summary_filter_mode
  smf_prefix :: str
  smf_summary :: str

definition summary_filter_new :: "bool \<Rightarrow> summary_filter" where
  "summary_filter_new enabled =
     \<lparr>smf_enabled = enabled, smf_mode = FilterUndecided, smf_prefix = [], smf_summary = []\<rparr>"

definition summary_tag :: str where
  "summary_tag = ''<summary>''"

definition summary_end :: str where
  "summary_end = ''</summary>''"

definition finish_summary_if_closed :: "summary_filter \<Rightarrow> str option \<times> summary_filter" where
  "finish_summary_if_closed f =
     (case find_str (to_ascii_lowercase (smf_summary f)) summary_end of
        None \<Rightarrow> (None, f)
      | Some i \<Rightarrow>
          let after_start = i + length summary_end; rest = drop after_start (smf_summary f)
          in (if rest = [] then None else Some rest,
              f\<lparr>smf_summary := take after_start (smf_summary f), smf_mode := FilterPassthrough\<rparr>))"

definition summary_push :: "str \<Rightarrow> summary_filter \<Rightarrow> str option \<times> summary_filter" where
  "summary_push delta f =
     (if \<not> smf_enabled f then (Some delta, f)
      else case smf_mode f of
             FilterPassthrough \<Rightarrow> (Some delta, f)
           | FilterSuppressing \<Rightarrow> finish_summary_if_closed (f\<lparr>smf_summary := smf_summary f @ delta\<rparr>)
           | FilterUndecided \<Rightarrow>
               let prefix_buffer = smf_prefix f @ delta;
                   lower = to_ascii_lowercase (trim_start prefix_buffer)
               in if starts_with summary_tag lower then (None, f\<lparr>smf_prefix := prefix_buffer\<rparr>)
                  else if starts_with lower summary_tag
                  then finish_summary_if_closed
                         (f\<lparr>smf_mode := FilterSuppressing, smf_summary := smf_summary f @ prefix_buffer,
                            smf_prefix := []\<rparr>)
                  else (Some prefix_buffer, f\<lparr>smf_mode := FilterPassthrough, smf_prefix := []\<rparr>))"

definition summary_text :: "summary_filter \<Rightarrow> str option" where
  "summary_text f =
     (let trimmed = trim (smf_summary f) in
      if trimmed = [] then None
      else
        let without_open = unwrap_or trimmed
              (or_else (strip_prefix ''<summary>'' trimmed) (strip_prefix ''<SUMMARY>'' trimmed));
            without_close = trim (unwrap_or without_open
              (or_else (strip_suffix ''</summary>'' without_open) (strip_suffix ''</SUMMARY>'' without_open)))
        in if without_close = [] then None else Some without_close)"

definition summary_finish :: "summary_filter \<Rightarrow> str option \<times> summary_filter" where
  "summary_finish f =
     (if smf_mode f = FilterUndecided \<and> smf_prefix f \<noteq> []
      then (Some (smf_prefix f), f\<lparr>smf_mode := FilterPassthrough, smf_prefix := []\<rparr>)
      else (None, f))"

fun summary_sink :: "sink_event \<Rightarrow> summary_filter \<Rightarrow> sink_event list \<times> summary_filter" where
  "summary_sink (SinkText delta) f =
     apfst (\<lambda>visible. event_of SinkText (opt_filter (\<lambda>v. v \<noteq> []) visible)) (summary_push delta f)"
| "summary_sink e f = ([e], f)"

definition with_hidden_context :: "str \<Rightarrow> json \<Rightarrow> json" where
  "with_hidden_context summary state =
     (case state of
        JObject m \<Rightarrow> JObject (json_insert ''hidden_context'' (JString summary) m)
      | _ \<Rightarrow> json_obj [(''hidden_context'', JString summary)])"

definition apply_summary_to_turn :: "model_turn \<Rightarrow> model_turn" where
  "apply_summary_to_turn turn =
     (let (delta, f1) = summary_push (turn_text turn) (summary_filter_new True);
          (tail, f) = summary_finish f1;
          visible = unwrap_or [] delta @ unwrap_or [] tail;
          turn1 =
            (case summary_text f of
               None \<Rightarrow> turn
             | Some summary \<Rightarrow>
                 let t = turn\<lparr>turn_opaque := with_hidden_context summary (turn_opaque turn)\<rparr>
                 in if trim visible = [] \<and> turn_tool_calls turn = []
                    then t\<lparr>turn_terminal := TermContinue SummaryOnly\<rparr> else t)
      in turn1\<lparr>turn_text := visible\<rparr>)"

section \<open>The filter of a whole text\<close>

definition lower_start :: "str \<Rightarrow> str" where
  "lower_start p = to_ascii_lowercase (trim_start p)"

text \<open>What is visible of a text, and where it leaves the filter.\<close>

definition summary_view :: "str \<Rightarrow> str \<times> summary_filter_mode" where
  "summary_view p =
     (if prefix (lower_start p) summary_tag then ([], FilterUndecided)
      else if prefix summary_tag (lower_start p)
      then (case find_str (to_ascii_lowercase p) summary_end of
              None \<Rightarrow> ([], FilterSuppressing)
            | Some i \<Rightarrow> (drop (i + length summary_end) p, FilterPassthrough))
      else (p, FilterPassthrough))"

lemma white_space_heads: "p \<in> set white_space \<Longrightarrow> utf8_head (p @ r) = HeadValid (length p)"
proof -
  have "list_all (\<lambda>p. utf8_head p = HeadValid (length p)) white_space" by code_simp
  then show "p \<in> set white_space \<Longrightarrow> ?thesis" by (simp add: list_all_iff utf8_head_append)
qed

lemma white_space_starts_nonempty: "p \<in> set white_space \<Longrightarrow> p \<noteq> []"
  using white_space_nonempty by auto

text \<open>Trimming a valid text is not revised by what follows.\<close>

lemma trim_start_append:
  "valid_utf8 p \<Longrightarrow> trim_start p \<noteq> [] \<Longrightarrow> trim_start (p @ d) = trim_start p @ d"
proof (induction p rule: trim_start.induct)
  case (1 p)
  show ?case
  proof (cases "strip_any white_space p")
    case None
    with "1.prems" have p: "p \<noteq> []" by (simp add: trim_start.simps [of p])
    then obtain k where k: "utf8_head p = HeadValid k" using "1.prems"(1) valid_utf8_rec by blast
    have "\<not> prefix q (p @ d)" if q: "q \<in> set white_space" for q
    proof
      assume "prefix q (p @ d)"
      then obtain r where r: "p @ d = q @ r" by (auto simp: prefix_def)
      have "utf8_head (p @ d) = HeadValid k" using k utf8_head_append [of p d] by simp
      with white_space_heads [OF q, of r] r have "k = length q" by simp
      with utf8_head_bounds(1) [OF k] r have "prefix q p"
        by (metis append_eq_append_conv_if append_take_drop_id prefixI)
      with None q show False by (auto simp: strip_any_None_iff)
    qed
    then have "strip_any white_space (p @ d) = None" by (simp add: strip_any_None_iff)
    with None show ?thesis by (simp add: trim_start.simps [of p] trim_start.simps [of "p @ d"])
  next
    case (Some r)
    then obtain q where q: "q \<in> set white_space" "p = q @ r" using strip_any_Some by blast
    with "1.prems"(1) have "valid_utf8 r"
      using valid_utf8_rec [of p] white_space_heads [OF q(1), of r] white_space_starts_nonempty [OF q(1)] by auto
    moreover have t: "trim_start (q @ x) = trim_start x" for x
      using white_space_prefix_free [OF q(1), of x] by (simp add: trim_start.simps [of "q @ x"])
    ultimately show ?thesis
      using "1.IH" [OF Some] "1.prems"(2) t [of r] t [of "r @ d"] by (simp add: q(2))
  qed
qed

lemma lower_append [simp]: "to_ascii_lowercase (a @ b) = to_ascii_lowercase a @ to_ascii_lowercase b"
  by (simp add: to_ascii_lowercase_def)

lemma lower_start_append:
  assumes "valid_utf8 p" "\<not> prefix (lower_start p) summary_tag"
  shows "lower_start (p @ d) = lower_start p @ to_ascii_lowercase d"
    "\<not> prefix (lower_start (p @ d)) summary_tag"
    "prefix summary_tag (lower_start (p @ d)) = prefix summary_tag (lower_start p)"
proof -
  have "trim_start p \<noteq> []" using assms(2) by (auto simp: lower_start_def to_ascii_lowercase_def)
  from trim_start_append [OF assms(1) this]
  show l: "lower_start (p @ d) = lower_start p @ to_ascii_lowercase d"
    by (simp add: lower_start_def)
  show "\<not> prefix (lower_start (p @ d)) summary_tag"
    using assms(2) unfolding l by (meson append_prefixD)
  show "prefix summary_tag (lower_start (p @ d)) = prefix summary_tag (lower_start p)"
    unfolding l using assms(2) prefix_same_cases by (metis append_prefixD prefix_def prefix_prefix)
qed

text \<open>Where a filter is after the text \<open>p\<close>.\<close>

definition filter_at :: "str \<Rightarrow> summary_filter \<Rightarrow> bool" where
  "filter_at p f =
     (smf_enabled f \<and> smf_mode f = snd (summary_view p)
      \<and> (smf_mode f = FilterUndecided \<longrightarrow> smf_prefix f = p \<and> smf_summary f = [])
      \<and> (smf_mode f \<noteq> FilterUndecided \<longrightarrow> smf_prefix f = [])
      \<and> (smf_mode f = FilterSuppressing \<longrightarrow> smf_summary f = p))"

lemma finish_summary_view:
  assumes "smf_enabled f" "smf_mode f = FilterSuppressing" "smf_prefix f = []" "smf_summary f = p"
    "\<not> prefix (lower_start p) summary_tag" "prefix summary_tag (lower_start p)"
  shows "unwrap_or [] (fst (finish_summary_if_closed f)) = fst (summary_view p)"
    "filter_at p (snd (finish_summary_if_closed f))"
  using assms
  by (auto simp: finish_summary_if_closed_def summary_view_def filter_at_def Let_def split: option.split)

lemma summary_push_view:
  assumes "filter_at p f" "valid_utf8 p"
  shows "fst (summary_view p) @ unwrap_or [] (fst (summary_push d f)) = fst (summary_view (p @ d))
    \<and> filter_at (p @ d) (snd (summary_push d f))"
proof (cases "prefix (lower_start p) summary_tag")
  case True
  then have f: "smf_enabled f" "smf_mode f = FilterUndecided" "smf_prefix f = p" "smf_summary f = []"
    using assms(1) by (auto simp: filter_at_def summary_view_def)
  let ?l = "lower_start (p @ d)"
  consider "prefix ?l summary_tag" | (opened) "\<not> prefix ?l summary_tag" "prefix summary_tag ?l"
    | "\<not> prefix ?l summary_tag" "\<not> prefix summary_tag ?l" by blast
  then show ?thesis
  proof cases
    case opened
    let ?g = "f\<lparr>smf_mode := FilterSuppressing, smf_summary := smf_summary f @ p @ d, smf_prefix := []\<rparr>"
    have "summary_push d f = finish_summary_if_closed ?g"
      using opened f by (simp add: summary_push_def Let_def lower_start_def)
    with finish_summary_view [of ?g "p @ d"] opened f True show ?thesis
      by (simp add: summary_view_def [of p])
  qed (use f True in \<open>auto simp: summary_push_def summary_view_def filter_at_def Let_def lower_start_def\<close>)
next
  case False
  note l = lower_start_append [OF assms(2) False, of d]
  show ?thesis
  proof (cases "prefix summary_tag (lower_start p)")
    case no: False
    with assms(1) False have "smf_enabled f" "smf_mode f = FilterPassthrough" "smf_prefix f = []"
      by (auto simp: filter_at_def summary_view_def)
    with False no l show ?thesis
      by (simp add: summary_push_def summary_view_def filter_at_def)
  next
    case tag: True
    show ?thesis
    proof (cases "find_str (to_ascii_lowercase p) summary_end")
      case None
      then have f: "smf_enabled f" "smf_mode f = FilterSuppressing" "smf_summary f = p" "smf_prefix f = []"
        using assms(1) False tag by (auto simp: filter_at_def summary_view_def)
      let ?g = "f\<lparr>smf_summary := p @ d\<rparr>"
      have "summary_push d f = finish_summary_if_closed ?g" using f by (simp add: summary_push_def)
      with finish_summary_view [of ?g "p @ d"] f l tag None False show ?thesis
        by (simp add: summary_view_def [of p])
    next
      case (Some i)
      then have f: "smf_enabled f" "smf_mode f = FilterPassthrough" "smf_prefix f = []"
        using assms(1) False tag by (auto simp: filter_at_def summary_view_def)
      have "find_str (to_ascii_lowercase (p @ d)) summary_end = Some i"
        using find_append [OF Some] by simp
      moreover have "i + length summary_end \<le> length p"
        using find_str_bounds [OF Some] by (simp add: to_ascii_lowercase_def)
      ultimately show ?thesis
        using f False tag l Some by (simp add: summary_push_def summary_view_def filter_at_def)
    qed
  qed
qed

fun summary_sink_all :: "sink_event list \<Rightarrow> summary_filter \<Rightarrow> sink_event list \<times> summary_filter" where
  "summary_sink_all [] f = ([], f)"
| "summary_sink_all (e # es) f =
     (case summary_sink e f of (ev, f') \<Rightarrow> apfst (append ev) (summary_sink_all es f'))"

definition valid_event :: "sink_event \<Rightarrow> bool" where
  "valid_event e = valid_utf8 (text_of_event e)"

lemma summary_sink_view:
  assumes "filter_at p f" "valid_utf8 p" "list_all valid_event events"
  shows "fst (summary_view p) @ shown_text (fst (summary_sink_all events f))
      = fst (summary_view (p @ shown_text events))
    \<and> filter_at (p @ shown_text events) (snd (summary_sink_all events f))"
  using assms
proof (induction events arbitrary: p f)
  case (Cons e events)
  show ?case
  proof (cases e)
    case (SinkText d)
    note push = summary_push_view [OF Cons.prems(1,2), of d]
    have "valid_utf8 (p @ d)"
      using Cons.prems valid_utf8_append [of p d] by (simp add: SinkText valid_event_def)
    moreover obtain v f' where v: "summary_push d f = (v, f')" by fastforce
    moreover have "unwrap_or [] (opt_filter (\<lambda>v. v \<noteq> []) v) = unwrap_or [] v"
      by (cases v) (simp_all add: opt_filter_def)
    ultimately show ?thesis
      using Cons.IH [of "p @ d" f'] push [THEN conjunct1, symmetric] push [THEN conjunct2] Cons.prems(3)
      by (cases "summary_sink_all events f'") (simp add: SinkText)
  next
    case (SinkReasoning r)
    with Cons.IH [of p f] Cons.prems show ?thesis by (cases "summary_sink_all events f") simp
  next
    case (SinkUsage u)
    with Cons.IH [of p f] Cons.prems show ?thesis by (cases "summary_sink_all events f") simp
  qed
qed simp

lemma valid_utf8_Nil: "valid_utf8 []"
  by (subst valid_utf8_rec) simp

lemma summary_view_empty: "summary_view [] = ([], FilterUndecided)" "filter_at [] (summary_filter_new True)"
  by (simp_all add: summary_view_def lower_start_def to_ascii_lowercase_def filter_at_def summary_filter_new_def)

lemma summary_view_undecided:
  "(snd (summary_view p) = FilterUndecided) = prefix (lower_start p) summary_tag"
  "snd (summary_view p) = FilterUndecided \<Longrightarrow> fst (summary_view p) = []"
  by (auto simp: summary_view_def split: option.split)

lemma turn_after_summary:
  "turn_text (apply_summary_to_turn turn) =
     (case summary_view (turn_text turn) of
        (visible, mode) \<Rightarrow> if mode = FilterUndecided then turn_text turn else visible)"
proof -
  obtain v f where push: "summary_push (turn_text turn) (summary_filter_new True) = (v, f)" by fastforce
  from summary_push_view [OF summary_view_empty(2) valid_utf8_Nil, of "turn_text turn"] push summary_view_empty(1)
  have v: "unwrap_or [] v = fst (summary_view (turn_text turn))" "filter_at (turn_text turn) f" by simp_all
  have "turn_text (apply_summary_to_turn turn) = unwrap_or [] v @ unwrap_or [] (fst (summary_finish f))"
    by (cases "summary_finish f") (simp add: apply_summary_to_turn_def push Let_def [of "_ @ _"])
  moreover have "unwrap_or [] (fst (summary_finish f)) = smf_prefix f"
    using v(2) by (cases "smf_mode f") (simp_all add: summary_finish_def filter_at_def)
  ultimately show ?thesis
    using v summary_view_undecided(2) [of "turn_text turn"]
    by (cases "summary_view (turn_text turn)") (auto simp: filter_at_def)
qed

lemma summary_sink_reasoning:
  "shown_reasoning (fst (summary_sink_all events f)) = shown_reasoning events"
proof (induction events arbitrary: f)
  case (Cons e events)
  obtain ev f1 where e: "summary_sink e f = (ev, f1)" by fastforce
  have "shown_reasoning ev = reasoning_of_event e"
    using e by (cases e) (auto simp: event_of_def apfst_def map_prod_def split: prod.splits option.splits)
  with Cons.IH [of f1] e show ?case by (cases "summary_sink_all events f1") simp
qed simp

lemma reasoning_after_summary: "turn_reasoning (apply_summary_to_turn turn) = turn_reasoning turn"
  by (simp add: apply_summary_to_turn_def Let_def split: prod.split option.split)

lemma text_after_summary:
  "turn_text a = turn_text b \<Longrightarrow> turn_text (apply_summary_to_turn a) = turn_text (apply_summary_to_turn b)"
  by (auto simp: turn_after_summary split: prod.split)

text \<open>What was shown is what is finished, or a possible start of the tag was held back.\<close>

lemma summary_sink_turn:
  fixes turn :: model_turn
  assumes "list_all valid_event events"
  defines "said \<equiv> shown_text (fst (summary_sink_all events (summary_filter_new True)))"
    and "whole \<equiv> turn_text (apply_summary_to_turn (turn\<lparr>turn_text := shown_text events\<rparr>))"
  shows "whole = said \<or> said = [] \<and> prefix (to_ascii_lowercase (trim_start whole)) ''<summary>''"
proof -
  from summary_sink_view [OF summary_view_empty(2) valid_utf8_Nil assms(1)] summary_view_empty(1)
  have "said = fst (summary_view (shown_text events))" by (simp add: said_def)
  with summary_view_undecided [of "shown_text events"] show ?thesis
    by (cases "summary_view (shown_text events)")
      (auto simp: whole_def turn_after_summary lower_start_def summary_tag_def)
qed

text \<open>
  Qwen's answer is shown as it is finished, but for a withheld start. Over any valid deltas the
  text of the finished turn is what the filtered sink was shown, followed by what the filter
  still holds; and it holds something only when the whole answer, lowered and trimmed at the
  start, is no more than a beginning of the summary tag. Such an answer is never shown, because
  the sink is not flushed.
\<close>

theorem summary_filter_withholds_only_tag_starts:
  assumes "list_all valid_event events"
  shows "case summary_sink_all events (summary_filter_new True) of
    (shown, f) \<Rightarrow>
      turn_text (apply_summary_to_turn (turn\<lparr>turn_text := shown_text events\<rparr>)) = shown_text shown @ smf_prefix f
      \<and> (smf_prefix f = [] \<or> shown_text shown = []
           \<and> prefix (to_ascii_lowercase (trim_start (shown_text events))) ''<summary>'')"
proof -
  obtain shown f where run: "summary_sink_all events (summary_filter_new True) = (shown, f)" by fastforce
  from summary_sink_view [OF summary_view_empty(2) valid_utf8_Nil assms] run summary_view_empty(1)
  have v: "shown_text shown = fst (summary_view (shown_text events))" "filter_at (shown_text events) f"
    by simp_all
  obtain visible mode where view: "summary_view (shown_text events) = (visible, mode)" by fastforce
  have at: "smf_mode f = mode" "mode = FilterUndecided \<Longrightarrow> smf_prefix f = shown_text events"
      "mode \<noteq> FilterUndecided \<Longrightarrow> smf_prefix f = []" "shown_text shown = visible"
    using v by (simp_all add: filter_at_def view)
  have "mode = FilterUndecided \<Longrightarrow> visible = [] \<and> prefix (lower_start (shown_text events)) summary_tag"
    using summary_view_undecided [of "shown_text events"] by (simp add: view)
  then show ?thesis
    using at by (cases "mode = FilterUndecided")
      (simp_all add: run turn_after_summary view lower_start_def summary_tag_def)
qed

text \<open>An answer that is a single angle bracket is in the turn and was never shown.\<close>

theorem summary_filter_withholds_only_tag_starts_witness:
  "case summary_sink_all [SinkText ''<''] (summary_filter_new True) of
    (shown, f) \<Rightarrow>
      shown_text shown = [] \<and> smf_prefix f = ''<''
      \<and> turn_text (apply_summary_to_turn
           \<lparr>turn_text = ''<'', turn_reasoning = [], turn_tool_calls = [], turn_usage = None,
            turn_terminal = TermStop, turn_opaque = JNull\<rparr>) = ''<''"
proof -
  have valid: "list_all valid_event [SinkText ''<'']"
    by (simp add: valid_event_def valid_utf8_rec [of "''<''"] valid_utf8_Nil byte_of_def)
  have trim: "trim_start ''<'' = ''<''"
  proof -
    have "strip_any white_space ''<'' = None" by (simp add: strip_any_graphic graphic_def)
    then show ?thesis by (simp add: trim_start.simps [of "''<''"])
  qed
  have lower: "to_ascii_lowercase ''<'' = ''<''" by code_simp
  have sink: "summary_sink_all [SinkText ''<''] (summary_filter_new True)
      = ([], (summary_filter_new True)\<lparr>smf_prefix := ''<''\<rparr>)"
    by (simp add: summary_push_def summary_filter_new_def Let_def trim lower summary_tag_def
        event_of_def opt_filter_def)
  from summary_filter_withholds_only_tag_starts [OF valid, of
      "\<lparr>turn_text = [], turn_reasoning = [], turn_tool_calls = [], turn_usage = None,
        turn_terminal = TermStop, turn_opaque = JNull\<rparr>"]
  show ?thesis unfolding sink by (simp add: summary_filter_new_def)
qed

end
