(* ===== verification/Http_Retry.thy ===== *)
theory Http_Retry
  imports Json Core_Types
begin

text \<open>
  Sending and retrying HTTP requests (\<open>common/http.rs\<close>). The client itself (\<open>reqwest\<close>) is a
  parameter: what an attempt returns, and what the code asks of an error. Durations are
  milliseconds.
\<close>

section \<open>Retrying a transport\<close>

definition MAX_HTTP_ATTEMPTS :: nat where
  "MAX_HTTP_ATTEMPTS = 3"

definition MAX_PROVIDER_ERROR_CHARS :: nat where
  "MAX_PROVIDER_ERROR_CHARS = 1200"

datatype transport_failure_kind =
  FailTimeout | FailConnect | FailConnectionClosed | FailUnexpectedEof | FailNonTransient

record transport_failure =
  tf_kind :: transport_failure_kind
  tf_message :: str

definition tf_is_transient :: "transport_failure \<Rightarrow> bool" where
  "tf_is_transient f = (tf_kind f \<noteq> FailNonTransient)"

text \<open>\<open>send_with_retry\<close>: the attempt is at most \<open>MAX_HTTP_ATTEMPTS\<close>.\<close>

function send_loop ::
    "(nat \<Rightarrow> 'w \<Rightarrow> (transport_failure + 'a) \<times> 'w) \<Rightarrow> bool \<Rightarrow> nat \<Rightarrow> 'w \<Rightarrow> (transport_failure + 'a) \<times> 'w"
  where
  "send_loop send cloneable attempt w =
     (case send attempt w of
        (Inr v, w') \<Rightarrow> (Inr v, w')
      | (Inl e, w') \<Rightarrow>
          (if attempt < MAX_HTTP_ATTEMPTS \<and> cloneable \<and> tf_is_transient e
           then send_loop send cloneable (attempt + 1) w'
           else (Inl e, w')))"
  by pat_completeness auto
termination
  by (relation "measure (\<lambda>(send, cloneable, attempt, w). MAX_HTTP_ATTEMPTS - attempt)") auto

declare send_loop.simps [simp del]

definition send_with_retry ::
    "(nat \<Rightarrow> 'w \<Rightarrow> (transport_failure + 'a) \<times> 'w) \<Rightarrow> bool \<Rightarrow> 'w \<Rightarrow> (transport_failure + 'a) \<times> 'w"
  where
  "send_with_retry send cloneable w = send_loop send cloneable 1 w"

text \<open>The delay before the next attempt; the jitter is the clock's nanoseconds modulo 101.\<close>

definition retry_backoff :: "nat \<Rightarrow> nat \<Rightarrow> nat" where
  "retry_backoff attempt subsec_nanos = 300 * 2 ^ min (attempt - 1) 5 + subsec_nanos mod 101"

definition is_retryable_http_status :: "nat \<Rightarrow> bool" where
  "is_retryable_http_status status = (status \<in> {408, 429, 500, 502, 503, 504})"

datatype http_retry_policy = Replayable | ConnectOnly

definition generation_retry_policy :: "json \<Rightarrow> http_retry_policy" where
  "generation_retry_policy body =
     (case get_array body ''tools'' of
        None \<Rightarrow> Replayable
      | Some tools \<Rightarrow>
          if list_ex (\<lambda>tool. get_str tool ''type'' \<noteq> Some ''function'') tools then ConnectOnly
          else Replayable)"

section \<open>Redaction\<close>

text \<open>\<open>str::replace\<close>: every occurrence from the left, without overlap.\<close>

fun replace_skip :: "nat \<Rightarrow> str \<Rightarrow> str \<Rightarrow> str \<Rightarrow> str" where
  "replace_skip n from to [] = []"
| "replace_skip 0 from to (c # cs) =
     (if prefix from (c # cs) then to @ replace_skip (length from - 1) from to cs
      else c # replace_skip 0 from to cs)"
| "replace_skip (Suc n) from to (c # cs) = replace_skip n from to cs"

definition replace_str :: "str \<Rightarrow> str \<Rightarrow> str \<Rightarrow> str" where
  "replace_str from to s = replace_skip 0 from to s"

definition redacted :: str where
  "redacted = ''[redacted]''"

text \<open>The characters of a text, each the list of its bytes: a byte that continues none starts one.\<close>

fun char_groups :: "str \<Rightarrow> str list" where
  "char_groups [] = []"
| "char_groups (c # cs) =
     (case char_groups cs of
        [] \<Rightarrow> [[c]]
      | g # gs \<Rightarrow> if is_continuation_byte (hd g) then (c # g) # gs else [c] # g # gs)"

definition sanitize_provider_error :: "str \<Rightarrow> str list \<Rightarrow> str" where
  "sanitize_provider_error message0 secrets =
     (let message = fold (\<lambda>secret m. replace_str secret redacted m)
                      (filter (\<lambda>secret. secret \<noteq> []) secrets) message0;
          chars = char_groups message
      in if length chars > MAX_PROVIDER_ERROR_CHARS
         then concat (take MAX_PROVIDER_ERROR_CHARS chars) @ ''...''
         else message)"

section \<open>Sending a request\<close>

text \<open>
  What the code sees of an attempt: the status and the hint of a response, or an error with
  whether it is transient and whether the connection failed.
\<close>

datatype ('r, 'e) http_outcome =
    HttpResponse 'r nat "nat option"
  | HttpError 'e bool bool str

record ('r, 'e, 'w) http_client =
  http_send :: "nat \<Rightarrow> 'w \<Rightarrow> ('r, 'e) http_outcome \<times> 'w"
  http_nanos :: "'w \<Rightarrow> nat"
  http_sleep :: "nat \<Rightarrow> 'w \<Rightarrow> 'w"

fun outcome_retryable :: "http_retry_policy \<Rightarrow> ('r, 'e) http_outcome \<Rightarrow> bool" where
  "outcome_retryable policy (HttpResponse r status hint) =
     (policy = Replayable \<and> is_retryable_http_status status)"
| "outcome_retryable Replayable (HttpError e transient connect text) = transient"
| "outcome_retryable ConnectOnly (HttpError e transient connect text) = connect"

fun outcome_hint :: "('r, 'e) http_outcome \<Rightarrow> nat option" where
  "outcome_hint (HttpResponse r status hint) = hint"
| "outcome_hint (HttpError e transient connect text) = None"

definition failed_after :: "str \<Rightarrow> nat \<Rightarrow> str \<Rightarrow> str" where
  "failed_after label attempt text =
     label @ '': Provider request failed after '' @ decimal attempt @ '' attempt(s): '' @ text"

function send_http_loop ::
    "('r, 'e, 'w) http_client \<Rightarrow> str \<Rightarrow> bool \<Rightarrow> str list \<Rightarrow> http_retry_policy \<Rightarrow> nat \<Rightarrow> 'w
       \<Rightarrow> (str + 'r) \<times> 'w" where
  "send_http_loop C label cloneable secrets policy attempt w0 =
     (case http_send C attempt w0 of
        (result, w) \<Rightarrow>
          let delay = unwrap_or (retry_backoff attempt (http_nanos C w)) (outcome_hint result) in
          if outcome_retryable policy result \<and> attempt < MAX_HTTP_ATTEMPTS \<and> cloneable \<and> delay \<le> 60000
          then send_http_loop C label cloneable secrets policy (attempt + 1) (http_sleep C delay w)
          else (case result of
                  HttpResponse r status hint \<Rightarrow> (Inr r, w)
                | HttpError e transient connect text \<Rightarrow>
                    (Inl (sanitize_provider_error (failed_after label attempt text) secrets), w)))"
  by pat_completeness auto
termination
  by (relation "measure (\<lambda>(C, label, cloneable, secrets, policy, attempt, w). MAX_HTTP_ATTEMPTS - attempt)")
    auto

declare send_http_loop.simps [simp del]

definition send_http_request ::
    "('r, 'e, 'w) http_client \<Rightarrow> str \<Rightarrow> bool \<Rightarrow> str list \<Rightarrow> http_retry_policy \<Rightarrow> 'w \<Rightarrow> (str + 'r) \<times> 'w"
  where
  "send_http_request C label cloneable secrets policy w =
     send_http_loop C label cloneable secrets policy 1 w"

section \<open>Properties\<close>

text \<open>A client that counts its attempts.\<close>

definition counting ::
    "('r, 'e, 'w) http_client \<Rightarrow> ('r, 'e, 'w \<times> (nat \<times> ('r, 'e) http_outcome) list) http_client" where
  "counting C = \<lparr>http_send = (\<lambda>attempt (w, sent). case http_send C attempt w of
       (result, w') \<Rightarrow> (result, (w', sent @ [(attempt, result)]))),
     http_nanos = (\<lambda>(w, sent). http_nanos C w), http_sleep = (\<lambda>d (w, sent). (http_sleep C d w, sent))\<rparr>"

lemma counting_simps [simp]:
  "http_send (counting C) attempt (w, sent) =
     (case http_send C attempt w of (result, w') \<Rightarrow> (result, (w', sent @ [(attempt, result)])))"
  "http_nanos (counting C) (w, sent) = http_nanos C w"
  "http_sleep (counting C) d (w, sent) = (http_sleep C d w, sent)"
  by (simp_all add: counting_def)

lemma send_http_attempts:
  assumes "send_http_loop (counting C) label cloneable secrets policy attempt (w, sent) = (x, (w', sent'))"
    and "1 \<le> attempt" and "attempt \<le> MAX_HTTP_ATTEMPTS"
  shows "\<exists>tried final. sent' = sent @ tried @ [final]
    \<and> length tried < MAX_HTTP_ATTEMPTS - attempt + 1
    \<and> list_all (\<lambda>(a, r). outcome_retryable policy r) tried
    \<and> map fst (tried @ [final]) = [attempt..<Suc (attempt + length tried)]"
  using assms
proof (induction "MAX_HTTP_ATTEMPTS - attempt" arbitrary: attempt w sent rule: less_induct)
  case less
  obtain result v where send: "http_send C attempt w = (result, v)" by fastforce
  let ?d = "unwrap_or (retry_backoff attempt (http_nanos C v)) (outcome_hint result)"
  let ?sent = "sent @ [(attempt, result)]"
  note step = less.prems(1) [unfolded send_http_loop.simps [of "counting C" label cloneable secrets policy attempt]]
  show ?case
  proof (cases "outcome_retryable policy result \<and> attempt < MAX_HTTP_ATTEMPTS \<and> cloneable \<and> ?d \<le> 60000")
    case True
    with step send have "send_http_loop (counting C) label cloneable secrets policy (attempt + 1)
        (http_sleep C ?d v, ?sent) = (x, (w', sent'))"
      by (simp add: Let_def)
    moreover from True have "MAX_HTTP_ATTEMPTS - (attempt + 1) < MAX_HTTP_ATTEMPTS - attempt"
      "1 \<le> attempt + 1" "attempt + 1 \<le> MAX_HTTP_ATTEMPTS" by linarith+
    ultimately obtain tried final where
      t: "sent' = ?sent @ tried @ [final]" "length tried < MAX_HTTP_ATTEMPTS - (attempt + 1) + 1"
        "list_all (\<lambda>(a, r). outcome_retryable policy r) tried"
        "map fst (tried @ [final]) = [attempt + 1..<Suc (attempt + 1 + length tried)]"
      using less.hyps by blast
    have m: "map fst (((attempt, result) # tried) @ [final])
        = [attempt..<Suc (attempt + length ((attempt, result) # tried))]"
    proof -
      have "map fst (((attempt, result) # tried) @ [final]) = attempt # map fst (tried @ [final])" by simp
      also have "\<dots> = attempt # [attempt + 1..<Suc (attempt + 1 + length tried)]" unfolding t(4) ..
      also have "\<dots> = [attempt..<Suc (attempt + length ((attempt, result) # tried))]"
        by (subst (2) upt_conv_Cons) simp_all
      finally show ?thesis .
    qed
    show ?thesis
      by (rule exI [of _ "(attempt, result) # tried"], rule exI [of _ final])
        (use t(1-3) m True in auto)
  next
    case False
    with step send have "sent' = ?sent"
      by (auto simp: Let_def split: http_outcome.splits if_splits)
    then show ?thesis
      by (intro exI [of _ "[]"] exI [of _ "(attempt, result)"]) (use less.prems in auto)
  qed
qed

text \<open>
  Requests are retried within bounds. \<open>send_http_request\<close> always returns; it makes one to
  three attempts, numbered from 1, and every attempt but the last ended in an outcome that the
  policy allows to repeat: for a request with hosted work, only failures to connect.
\<close>

theorem http_retries_are_bounded:
  "\<exists>x w' sent. send_http_request (counting C) label cloneable secrets policy (w, []) = (x, (w', sent))
    \<and> map fst sent = [1..<Suc (length sent)]
    \<and> length sent \<in> {1, 2, 3}
    \<and> list_all (\<lambda>(a, r). case r of
          HttpResponse q status hint \<Rightarrow> policy = Replayable \<and> status \<in> {408, 429, 500, 502, 503, 504}
        | HttpError e transient connect text \<Rightarrow> (case policy of Replayable \<Rightarrow> transient | ConnectOnly \<Rightarrow> connect))
      (butlast sent)"
proof -
  obtain x w' sent where run: "send_http_request (counting C) label cloneable secrets policy (w, []) = (x, (w', sent))"
    by (metis surj_pair)
  from send_http_attempts [OF run [unfolded send_http_request_def]] obtain tried final where
    t: "sent = tried @ [final]" "length tried < 3" "list_all (\<lambda>(a, r). outcome_retryable policy r) tried"
      "map fst (tried @ [final]) = [1..<Suc (1 + length tried)]"
    by (auto simp: MAX_HTTP_ATTEMPTS_def)
  have eq: "outcome_retryable policy = (\<lambda>r. case r of
          HttpResponse q status hint \<Rightarrow> policy = Replayable \<and> status \<in> {408, 429, 500, 502, 503, 504}
        | HttpError e transient connect text \<Rightarrow> (case policy of Replayable \<Rightarrow> transient | ConnectOnly \<Rightarrow> connect))"
  proof (rule ext)
    fix r
    show "outcome_retryable policy r = (case r of
          HttpResponse q status hint \<Rightarrow> policy = Replayable \<and> status \<in> {408, 429, 500, 502, 503, 504}
        | HttpError e transient connect text \<Rightarrow> (case policy of Replayable \<Rightarrow> transient | ConnectOnly \<Rightarrow> connect))"
      by (cases r; cases policy) (simp_all add: is_retryable_http_status_def)
  qed
  have "butlast sent = tried" by (simp add: t(1))
  with t(3) have "list_all (\<lambda>(a, r). case r of
          HttpResponse q status hint \<Rightarrow> policy = Replayable \<and> status \<in> {408, 429, 500, 502, 503, 504}
        | HttpError e transient connect text \<Rightarrow> (case policy of Replayable \<Rightarrow> transient | ConnectOnly \<Rightarrow> connect))
      (butlast sent)" unfolding eq by simp
  moreover have "length sent \<in> {1, 2, 3}" 
    using t(2) by (auto simp: t(1) less_Suc_eq numeral_3_eq_3)
  moreover have "map fst sent = [1..<Suc (length sent)]" using t(1,4) by simp
  ultimately show ?thesis using run by blast
qed

section \<open>No secret is left\<close>

lemma sublist_split:
  assumes "x \<notin> set p" "sublist p (a @ x # b)"
  shows "sublist p a \<or> sublist p b"
proof -
  from assms(2) consider "sublist p a" | "sublist p (x # b)"
    | p1 p2 where "p = p1 @ p2" "suffix p1 a" "prefix p2 (x # b)"
    by (auto simp: sublist_append)
  then show ?thesis
  proof cases
    case 2
    with assms(1) show ?thesis by (auto simp: sublist_Cons_right prefix_Cons)
  next
    case 3
    with assms(1) show ?thesis by (cases p2) auto
  qed simp
qed

definition unmarked :: "str \<Rightarrow> bool" where
  "unmarked p = (p \<noteq> [] \<and> CHR ''['' \<notin> set p \<and> CHR '']'' \<notin> set p \<and> \<not> sublist p ''redacted'')"

lemma replace_prefix:
  "CHR ''['' \<notin> set q \<Longrightarrow> prefix q (replace_skip 0 from redacted m) \<Longrightarrow> prefix q m"
proof (induction m arbitrary: q)
  case (Cons c cs)
  show ?case
  proof (cases "prefix from (c # cs)")
    case True
    with Cons.prems show ?thesis by (cases q) (simp_all add: redacted_def)
  next
    case False
    with Cons show ?thesis by (cases q) simp_all
  qed
qed simp

lemma unmarked_redacted: "unmarked p \<Longrightarrow> sublist p (redacted @ s) \<Longrightarrow> sublist p s"
proof -
  assume p: "unmarked p" and "sublist p (redacted @ s)"
  then have "sublist p ([] @ CHR ''['' # (''redacted'' @ CHR '']'' # s))" by (simp add: redacted_def)
  from sublist_split [OF _ this] p have "sublist p (''redacted'' @ CHR '']'' # s)"
    by (auto simp: unmarked_def)
  from sublist_split [OF _ this] p show ?thesis by (auto simp: unmarked_def)
qed

lemma replace_adds_nothing:
  "unmarked p \<Longrightarrow> sublist p (replace_skip n from redacted m) \<Longrightarrow> sublist p m"
proof (induction m arbitrary: n)
  case Nil
  then show ?case by (cases n) simp_all
next
  case (Cons c cs)
  show ?case
  proof (cases "\<exists>k. n = Suc k")
    case True
    with Cons.prems(2) obtain k where "sublist p (replace_skip k from redacted cs)" by auto
    from Cons.IH [OF Cons.prems(1) this] show ?thesis by (simp add: sublist_Cons_right)
  next
    case False
    then have n: "n = 0" by (cases n) simp_all
    show ?thesis
    proof (cases "prefix from (c # cs)")
      case True
      with Cons.prems(2) n have "sublist p (redacted @ replace_skip (length from - 1) from redacted cs)"
        by simp
      from Cons.IH [OF Cons.prems(1) unmarked_redacted [OF Cons.prems(1) this]]
      show ?thesis by (simp only: sublist_Cons_right simp_thms)
    next
      case False
      with Cons.prems(2) n have "prefix p (replace_skip 0 from redacted (c # cs))
          \<or> sublist p (replace_skip 0 from redacted cs)"
        by (simp add: sublist_Cons_right)
      then show ?thesis
      proof
        assume "prefix p (replace_skip 0 from redacted (c # cs))"
        moreover have "CHR ''['' \<notin> set p" using Cons.prems(1) by (simp add: unmarked_def)
        ultimately have "prefix p (c # cs)" by (rule replace_prefix [rotated])
        then show ?thesis by (simp only: sublist_Cons_right simp_thms)
      next
        assume "sublist p (replace_skip 0 from redacted cs)"
        with Cons.IH [OF Cons.prems(1)] show ?thesis by (simp only: sublist_Cons_right simp_thms)
      qed
    qed
  qed
qed

lemma replace_removes: "unmarked p \<Longrightarrow> \<not> sublist p (replace_skip n p redacted m)"
proof (induction m arbitrary: n)
  case Nil
  then show ?case by (cases n) (simp_all add: unmarked_def)
next
  case (Cons c cs)
  note ih = Cons.IH [OF Cons.prems]
  show ?case
  proof (cases n)
    case (Suc k)
    with ih show ?thesis by simp
  next
    case 0
    show ?thesis
    proof (cases "prefix p (c # cs)")
      case True
      with unmarked_redacted [OF Cons.prems] ih 0 show ?thesis by auto
    next
      case False
      with replace_prefix [of p p "c # cs"] Cons.prems
      have "\<not> prefix p (replace_skip 0 p redacted (c # cs))" by (auto simp: unmarked_def)
      with ih [of 0] False 0 show ?thesis by (simp add: sublist_Cons_right)
    qed
  qed
qed

lemma concat_char_groups: "concat (char_groups s) = s"
  by (induction s) (auto split: list.split if_splits)

lemma sublist_ellipsis:
  "sublist p (x @ ''...'') \<Longrightarrow> p \<noteq> [] \<Longrightarrow> last p \<noteq> CHR ''.'' \<Longrightarrow> sublist p x"
proof -
  have one: "sublist p y" if "sublist p (y @ [c])" "p \<noteq> []" "last p \<noteq> c" for y and c :: char
    using that by (auto simp: sublist_append prefix_Cons sublist_Cons_right)
  assume p: "p \<noteq> []" "last p \<noteq> CHR ''.''" and "sublist p (x @ ''...'')"
  then have "sublist p (((x @ ''.'') @ ''.'') @ ''.'')" by simp
  from one [OF one [OF one [OF this p] p] p] show ?thesis .
qed

lemma sanitized_hides:
  assumes "secret \<in> set secrets" "secret \<noteq> []" "last secret \<noteq> CHR ''.''"
    and "CHR ''['' \<notin> set secret" "CHR '']'' \<notin> set secret" "\<not> contains_str ''redacted'' secret"
  shows "\<not> contains_str (sanitize_provider_error message secrets) secret"
proof -
  have u: "unmarked secret" using assms by (simp add: unmarked_def contains_str_iff_sublist)
  let ?f = "\<lambda>s m. replace_str s redacted m"
  have keep: "sublist secret (fold ?f ss m) \<Longrightarrow> sublist secret m" for ss m
  proof (induction ss arbitrary: m)
    case (Cons s ss)
    then have "sublist secret (replace_str s redacted m)" by simp
    with replace_adds_nothing [OF u] show ?case unfolding replace_str_def by blast
  qed simp
  have gone: "\<not> sublist secret (fold ?f ss m)" if "secret \<in> set ss" for ss m
    using that
  proof (induction ss arbitrary: m)
    case (Cons s ss)
    show ?case
    proof (cases "s = secret")
      case True
      with keep [of ss "replace_str secret redacted m"] replace_removes [OF u] show ?thesis
        by (auto simp: replace_str_def)
    next
      case False
      with Cons show ?thesis by simp
    qed
  qed simp
  let ?m = "fold ?f (filter (\<lambda>s. s \<noteq> []) secrets) message"
  let ?c = "char_groups ?m"
  have m: "\<not> sublist secret ?m" using gone assms(1,2) by simp
  have "sublist (concat (take n ?c)) ?m" for n
  proof -
    have "concat (take n ?c) @ concat (drop n ?c) = ?m"
      by (metis append_take_drop_id concat_append concat_char_groups)
    then show ?thesis by (metis sublist_append_rightI)
  qed
  with m have "\<not> sublist secret (concat (take n ?c))" for n
    using sublist_order.order_trans by blast
  with sublist_ellipsis assms(2,3) have "\<not> sublist secret (concat (take n ?c) @ ''...'')" for n by blast
  with m show ?thesis by (simp add: sanitize_provider_error_def contains_str_iff_sublist Let_def)
qed

text \<open>
  C40. No secret is left in an error. A secret that is not itself part of the marker, and does
  not end in the dot of the ellipsis, does not occur in the sanitised message, whatever the
  other secrets are and wherever the message is cut.
\<close>

theorem sanitized_error_hides_secrets:
  assumes "secret \<in> set secrets" "secret \<noteq> []" "last secret \<noteq> CHR ''.''"
    and "CHR ''['' \<notin> set secret" "CHR '']'' \<notin> set secret" "\<not> contains_str ''redacted'' secret"
  shows "\<not> contains_str (sanitize_provider_error message secrets) secret"
  using assms by (rule sanitized_hides)

theorem sanitized_error_hides_secrets_witness:
  "\<not> contains_str (sanitize_provider_error ''bad key sk-1: sk-1'' [''sk-1'', ''k'']) ''sk-1''"
  by (rule sanitized_error_hides_secrets) simp_all

end
