(* ===== verification/Openai_Provider.thy ===== *)
theory Openai_Provider
  imports Promises Think_Tags Summary_Filter Http_Retry
begin

text \<open>
  The OpenAI-compatible provider (\<open>openai_compatible/mod.rs\<close> and the headers of \<open>codex/mod.rs\<close>):
  one turn is up to three attempts; an attempt sends a request, refreshes the credential once
  when it is refused, falls back to a request without tools where the family asks for it,
  decodes the response as it streams in and checks the turn. The transport and the source of
  credentials are traits; the clock, fresh identifiers and the build's constants belong to the
  system. All of these are the parameter \<open>provider_world\<close>, whose answers depend on the attempt and
  on the call within it.
\<close>

section \<open>Requests\<close>

record openai_wire_request =
  wire_url :: str
  wire_api_key :: str
  wire_extra_headers :: "(str \<times> str) list"
  wire_body :: json

record openai_stream_head =
  head_retry_after :: "nat option"
  head_status :: nat
  head_content_type :: "str option"

text \<open>Delays are milliseconds.\<close>

record provider_world =
  pw_stream :: "nat \<Rightarrow> nat \<Rightarrow> openai_wire_request
    \<Rightarrow> provider_error + openai_stream_head \<times> (provider_error + str) list"
  pw_bearer :: "nat \<Rightarrow> nat \<Rightarrow> str + str"
  pw_force_refresh :: "nat \<Rightarrow> nat \<Rightarrow> str + str"
  pw_supports_refresh :: bool
  pw_fresh_uuid :: "nat \<Rightarrow> nat \<Rightarrow> nat \<Rightarrow> str"
  pw_user_agent :: str
  pw_nanos :: "nat \<Rightarrow> nat"
  pw_deadline :: "nat \<Rightarrow> nat option"
  pw_hash :: "str \<Rightarrow> u64"
  pw_uuid :: uuid_lib
  pw_json :: json_lib

definition trim_end_slashes :: "str \<Rightarrow> str" where
  "trim_end_slashes s = rev (dropWhile (\<lambda>c. c = CHR ''/'') (rev s))"

definition endpoint_for :: "openai_config \<Rightarrow> openai_api_mode \<Rightarrow> provider_error + str" where
  "endpoint_for config mode =
     (let base = trim_end_slashes (trim (cfg_base_url config)) in
      if base = []
      then Inl (ProviderError ''OpenAI-compatible provider requires an explicit base URL.'')
      else Inr (base @ ''/'' @ (case mode of ChatCompletions \<Rightarrow> ''chat/completions'' | Responses \<Rightarrow> ''responses'')))"

definition oauth_request_headers ::
    "provider_world \<Rightarrow> nat \<Rightarrow> nat \<Rightarrow> str option \<Rightarrow> str \<Rightarrow> str option \<Rightarrow> (str \<times> str) list" where
  "oauth_request_headers W attempt call account_id session_key turn_state =
     (case opt_filter (\<lambda>a. trim a \<noteq> []) account_id of
        None \<Rightarrow> []
      | Some account \<Rightarrow>
          let session_id = (if trim session_key = [] then pw_fresh_uuid W attempt call 0 else session_key)
          in [(''ChatGPT-Account-ID'', account), (''version'', ''0.144.5''),
              (''originator'', ''codex_cli_rs''), (''user-agent'', pw_user_agent W),
              (''session-id'', session_id), (''thread-id'', session_id),
              (''x-client-request-id'', pw_fresh_uuid W attempt call 1), (''accept'', ''text/event-stream'')]
             @ (case opt_filter (\<lambda>t. t \<noteq> []) (map_option trim turn_state) of
                  None \<Rightarrow> [] | Some t \<Rightarrow> [(''x-codex-turn-state'', t)]))"

definition wire_request ::
    "provider_world \<Rightarrow> openai_config \<Rightarrow> nat \<Rightarrow> nat \<Rightarrow> openai_api_mode \<Rightarrow> json \<Rightarrow> str \<Rightarrow> str \<Rightarrow> str option
      \<Rightarrow> provider_error + openai_wire_request" where
  "wire_request W config attempt call mode body token session_key turn_state =
     map_sum id (\<lambda>url.
         \<lparr>wire_url = url, wire_api_key = token,
          wire_extra_headers =
            oauth_request_headers W attempt call (cfg_chatgpt_account_id config) session_key turn_state,
          wire_body = body\<rparr>)
       (endpoint_for config mode)"

definition resolve_bearer :: "provider_world \<Rightarrow> nat \<Rightarrow> nat \<Rightarrow> bool \<Rightarrow> provider_error + str" where
  "resolve_bearer W attempt call force =
     map_sum ProviderError id
       (if force then pw_force_refresh W attempt call else pw_bearer W attempt call)"

section \<open>One response\<close>

text \<open>The chunks of a response until it is complete; a chunk may be an error.\<close>

fun feed_results ::
    "(str \<Rightarrow> u64) \<Rightarrow> uuid_lib \<Rightarrow> json_lib \<Rightarrow> (provider_error + str) list \<Rightarrow> live_decoder
      \<Rightarrow> sink_event list \<times> (provider_error + model_turn)" where
  "feed_results H U L [] d = live_finish H U L d"
| "feed_results H U L (Inl e # cs) d = ([], Inl e)"
| "feed_results H U L (Inr c # cs) d =
     then_end (live_push H L c)
       (\<lambda>d'. if ld_complete d' then live_finish H U L d' else feed_results H U L cs d') d"

text \<open>The start of the body of an error, at most 4096 bytes.\<close>

fun read_preview :: "str \<Rightarrow> (provider_error + str) list \<Rightarrow> provider_error + str" where
  "read_preview raw [] = Inr raw"
| "read_preview raw (Inl e # cs) = Inl e"
| "read_preview raw (Inr c # cs) =
     (let raw' = raw @ take (4096 - length raw) c in
      if 4096 \<le> length raw' then Inr raw' else read_preview raw' cs)"

text \<open>What the sink of the family shows of the decoder's events, and the turn it ends in.\<close>

definition family_turn ::
    "api_family \<Rightarrow> sink_event list \<times> (provider_error + model_turn)
      \<Rightarrow> sink_event list \<times> (provider_error + model_turn)" where
  "family_turn family decoded =
     (case (family, decoded) of
        (FamilyKimi, (events, r)) \<Rightarrow>
          (case think_sink_all events think_filter_new of
             (shown, f) \<Rightarrow>
               (case r of
                  Inl e \<Rightarrow> (shown, Inl e)
                | Inr turn \<Rightarrow> (shown @ fst (think_flush f), Inr (apply_think_tags_to_turn turn))))
      | (FamilyQwen, (events, r)) \<Rightarrow>
          (fst (summary_sink_all events (summary_filter_new True)), map_sum id apply_summary_to_turn r)
      | (_, (events, r)) \<Rightarrow> (events, r))"

record streamed =
  st_status :: nat
  st_preview :: str
  st_turn :: "model_turn option"
  st_retry_after :: "nat option"

definition is_success :: "nat \<Rightarrow> bool" where
  "is_success status = (200 \<le> status \<and> status < 300)"

definition stream_turn ::
    "provider_world \<Rightarrow> openai_config \<Rightarrow> nat \<Rightarrow> nat \<Rightarrow> openai_api_mode \<Rightarrow> json \<Rightarrow> str \<Rightarrow> str \<Rightarrow> str option
      \<Rightarrow> sink_event list \<times> (provider_error + streamed)" where
  "stream_turn W config attempt call mode body token session_key turn_state =
     (case res_bind (wire_request W config attempt call mode body token session_key turn_state)
             (pw_stream W attempt call) of
        Inl e \<Rightarrow> ([], Inl e)
      | Inr (head, chunks) \<Rightarrow>
          let answer = (\<lambda>preview turn. \<lparr>st_status = head_status head, st_preview = preview,
                st_turn = turn, st_retry_after = head_retry_after head\<rparr>)
          in if \<not> is_success (head_status head)
             then (if head_status head = 401 \<or> is_retryable_http_status (head_status head)
                   then ([], Inr (answer [] None))
                   else ([], map_sum id (\<lambda>raw. answer (from_utf8_lossy raw) None) (read_preview [] chunks)))
             else
               let decoder = start_decoder mode (cfg_allow_cumulative_delta config) (head_content_type head)
                     (cfg_family config = FamilyDeepSeek) (cfg_family config = FamilyGemini)
               in case family_turn (cfg_family config)
                         (feed_results (pw_hash W) (pw_uuid W) (pw_json W) chunks decoder) of
                    (shown, r) \<Rightarrow> (shown, map_sum id (\<lambda>turn. answer [] (Some turn)) r))"

definition sanitized :: "str \<Rightarrow> provider_error \<Rightarrow> provider_error" where
  "sanitized token e = ProviderError (sanitize_provider_error (provider_error_message e) [token])"

text \<open>A fold of the two rounds of the loop: the second one follows a refresh and is the last.\<close>

definition stream_turn_with_auth ::
    "provider_world \<Rightarrow> openai_config \<Rightarrow> nat \<Rightarrow> nat \<Rightarrow> openai_api_mode \<Rightarrow> json \<Rightarrow> model_turn_request
      \<Rightarrow> sink_event list \<times> (provider_error + streamed \<times> str)" where
  "stream_turn_with_auth W config attempt call mode body request =
     (let turn_state = Option.bind (req_opaque_state request) (\<lambda>v. get_str v ''x-codex-turn-state'');
          session = (case req_session_key request of ProviderSessionKey k \<Rightarrow> k);
          send = (\<lambda>call' token.
            apsnd (map_sum (sanitized token) (\<lambda>s. (s, token)))
              (stream_turn W config attempt call' mode body token session turn_state))
      in case resolve_bearer W attempt call False of
           Inl e \<Rightarrow> ([], Inl e)
         | Inr token \<Rightarrow>
             (case send call token of
                (ev, Inl e) \<Rightarrow> (ev, Inl e)
              | (ev, Inr (s, _)) \<Rightarrow>
                  if st_status s = 401 \<and> pw_supports_refresh W
                  then (case resolve_bearer W attempt call True of
                          Inl e \<Rightarrow> (ev, Inl e)
                        | Inr token' \<Rightarrow> apfst (append ev) (send (call + 1) token'))
                  else (ev, Inr (s, token))))"

section \<open>Limits of DeepSeek\<close>

definition deepseek_image :: "message \<Rightarrow> (message_role \<times> image_content) list" where
  "deepseek_image m =
     List.map_filter (\<lambda>part. case part of PartImage i \<Rightarrow> Some (msg_role m, i) | PartText _ \<Rightarrow> None) (msg_content m)"

definition data_url_prefixes :: "str list" where
  "data_url_prefixes =
     [''data:image/jpeg;base64,'', ''data:image/png;base64,'', ''data:image/gif;base64,'',
      ''data:image/webp;base64,'']"

definition validate_deepseek_image_reference :: "str \<Rightarrow> provider_error + unit" where
  "validate_deepseek_image_reference raw =
     (let reference = trim raw in
      if starts_with reference ''file-api-'' then Inr ()
      else if starts_with reference ''http://'' \<or> starts_with reference ''https://''
      then (if length (char_groups reference) > 8192
            then Inl (ProviderError
              ''DeepSeek vision external image URLs may contain at most 8192 characters.'')
            else Inr ())
      else (case find (starts_with (to_ascii_lowercase reference)) data_url_prefixes of
              None \<Rightarrow> Inl (ProviderError (''DeepSeek vision image references must be supported base64 ''
                @ ''data URLs, public HTTP(S) URLs, or Files API file ids.''))
            | Some p \<Rightarrow>
                let payload = drop (length p) reference;
                    padding = length (takeWhile (\<lambda>c. c = CHR ''='') (rev payload));
                    decoded_bytes = length payload * 3 div 4 - min padding 2
                in if decoded_bytes > 32 * 1024 * 1024
                   then Inl (ProviderError ''DeepSeek vision inline images may not exceed 32 MiB each.'')
                   else Inr ()))"

definition validate_deepseek_image ::
    "openai_api_mode \<Rightarrow> message_role \<times> image_content \<Rightarrow> provider_error + unit" where
  "validate_deepseek_image mode ri =
     (let (role, i) = ri in
      if \<not> (role = RoleUser \<or> mode = Responses \<and> role = RoleTool)
      then Inl (ProviderError
        ''DeepSeek vision accepts images only in user messages or Responses tool outputs.'')
      else if to_ascii_lowercase (trim (img_mime_type i))
                \<notin> {''image/jpeg'', ''image/png'', ''image/gif'', ''image/webp''}
      then Inl (ProviderError (''DeepSeek vision does not support image MIME type `''
             @ img_mime_type i @ ''`.''))
      else validate_deepseek_image_reference (artifact_str (img_artifact i)))"

fun validate_each :: "('a \<Rightarrow> 'e + unit) \<Rightarrow> 'a list \<Rightarrow> 'e + unit" where
  "validate_each f [] = Inr ()"
| "validate_each f (x # xs) = res_bind (f x) (\<lambda>_. validate_each f xs)"

definition validate_deepseek_image_request ::
    "openai_config \<Rightarrow> openai_api_mode \<Rightarrow> model_turn_request \<Rightarrow> provider_error + unit" where
  "validate_deepseek_image_request config mode request =
     (if cfg_family config \<noteq> FamilyDeepSeek then Inr ()
      else
        let images = concat (map deepseek_image (req_messages request)) in
        if images = [] then Inr ()
        else if length images > 600
        then Inl (ProviderError ''DeepSeek vision accepts at most 600 images per request.'')
        else validate_each (validate_deepseek_image mode) images)"

definition validate_deepseek_request_body_size ::
    "json_lib \<Rightarrow> openai_config \<Rightarrow> model_turn_request \<Rightarrow> json \<Rightarrow> provider_error + unit" where
  "validate_deepseek_request_body_size L config request body =
     (if cfg_family config \<noteq> FamilyDeepSeek
         \<or> \<not> list_ex (\<lambda>m. deepseek_image m \<noteq> []) (req_messages request) then Inr ()
      else if length (lib_print L body) > 48 * 1024 * 1024
      then Inl (ProviderError (''DeepSeek vision request bodies may not exceed 48 MiB; upload ''
             @ ''large images through the Files API and pass their file ids.''))
      else Inr ())"

section \<open>One attempt\<close>

record turn_attempt_error =
  tae_error :: provider_error
  tae_retry_after :: "nat option"

definition plain_failure :: "provider_error \<Rightarrow> turn_attempt_error" where
  "plain_failure e = \<lparr>tae_error = e, tae_retry_after = None\<rparr>"

definition build_body ::
    "provider_world \<Rightarrow> openai_config \<Rightarrow> openai_api_mode \<Rightarrow> model_turn_request \<Rightarrow> provider_error + json" where
  "build_body W config mode request =
     (let body = decorate_turn_body config mode request
            (case mode of
               ChatCompletions \<Rightarrow> build_chat_completions_body (pw_uuid W) (pw_json W) request
             | Responses \<Rightarrow> build_responses_body (pw_uuid W) (pw_json W) request)
      in map_sum id (\<lambda>_. body) (validate_deepseek_request_body_size (pw_json W) config request body))"

definition without_tools :: "model_turn_request \<Rightarrow> model_turn_request" where
  "without_tools request =
     request\<lparr>req_tools := [],
       req_messages := req_messages request @
         [\<lparr>msg_role = RoleSystem,
           msg_content = [PartText (''Tool mode is unavailable for this DeepSeek request. Do not ''
             @ ''call tools. Answer based on the provided conversation and active file context only.'')],
           msg_tool_calls = [], msg_tool_call_id = None, msg_provider_state = None\<rparr>]\<rparr>"

definition send_body ::
    "provider_world \<Rightarrow> openai_config \<Rightarrow> nat \<Rightarrow> nat \<Rightarrow> openai_api_mode \<Rightarrow> model_turn_request
      \<Rightarrow> sink_event list \<times> (provider_error + streamed \<times> str)" where
  "send_body W config attempt call mode request =
     (case build_body W config mode request of
        Inl e \<Rightarrow> ([], Inl e)
      | Inr body \<Rightarrow> stream_turn_with_auth W config attempt call mode body request)"

text \<open>What the answer of the provider comes to, the request being the last that was sent.\<close>

definition accept_answer ::
    "openai_config \<Rightarrow> model_turn_request \<Rightarrow> streamed \<times> str \<Rightarrow> turn_attempt_error + model_turn" where
  "accept_answer config request answer =
     (let (s, token) = answer in
      if \<not> is_success (st_status s)
      then (if is_retryable_http_status (st_status s)
            then Inl \<lparr>tae_error = ProviderError (''PROVIDER_TRANSIENT_HTTP: Provider returned HTTP ''
                        @ decimal (st_status s) @ ''.''), tae_retry_after = st_retry_after s\<rparr>
            else Inl (plain_failure (sanitized token (ProviderError
                   (''Provider returned HTTP '' @ decimal (st_status s) @ '': '' @ st_preview s)))))
      else case st_turn s of
             None \<Rightarrow> Inl (plain_failure
               (ProviderError ''Provider returned a success status without a model turn.''))
           | Some turn0 \<Rightarrow>
               let turn = apply_turn_continuation (cfg_family config) (req_tools request \<noteq> []) turn0
               in map_sum plain_failure (\<lambda>_. turn) (validate_turn turn))"

definition next_turn_once ::
    "provider_world \<Rightarrow> openai_config \<Rightarrow> nat \<Rightarrow> model_turn_request
      \<Rightarrow> sink_event list \<times> (turn_attempt_error + model_turn)" where
  "next_turn_once W config attempt request =
     (let mode = effective_api_mode config (req_model request) in
      case validate_deepseek_image_request config mode request of
        Inl e \<Rightarrow> ([], Inl (plain_failure e))
      | Inr _ \<Rightarrow>
          (case send_body W config attempt 0 mode request of
             (ev, Inl e) \<Rightarrow> (ev, Inl (plain_failure e))
           | (ev, Inr (s, token)) \<Rightarrow>
               if cfg_retry_without_tools config \<and> req_tools request \<noteq> [] \<and> tool_mode_error_status (st_status s)
               then (case send_body W config attempt 2 mode (without_tools request) of
                       (ev', Inl e) \<Rightarrow> (ev @ ev', Inl (plain_failure e))
                     | (ev', Inr answer) \<Rightarrow> (ev @ ev', accept_answer config (without_tools request) answer))
               else (ev, accept_answer config request (s, token))))"

section \<open>The turn\<close>

definition attempt_deadline :: turn_attempt_error where
  "attempt_deadline =
     plain_failure (ProviderError ''PROVIDER_DEADLINE: Model attempt exceeded its time budget.'')"

text \<open>
  \<open>tokio::time::timeout\<close>: an attempt may be cut after it has shown some of its events.
\<close>

definition timed_attempt ::
    "provider_world \<Rightarrow> openai_config \<Rightarrow> nat \<Rightarrow> model_turn_request
      \<Rightarrow> sink_event list \<times> (turn_attempt_error + model_turn)" where
  "timed_attempt W config attempt request =
     (case pw_deadline W attempt of
        None \<Rightarrow> next_turn_once W config attempt request
      | Some k \<Rightarrow> (take k (fst (next_turn_once W config attempt request)), Inl attempt_deadline))"

definition may_retry ::
    "provider_world \<Rightarrow> nat \<Rightarrow> model_turn_request \<Rightarrow> sink_event list \<Rightarrow> turn_attempt_error \<Rightarrow> bool" where
  "may_retry W attempt request shown failure =
     (let delay = unwrap_or (retry_backoff (attempt + 1) (pw_nanos W attempt)) (tae_retry_after failure)
      in attempt < 2 \<and> delay \<le> 60000 \<and> \<not> has_visible_output shown
         \<and> \<not> feat_web_search (req_features request) \<and> \<not> feat_image_generation (req_features request)
         \<and> retryable_error (tae_error failure))"

text \<open>The loop over the attempts; an attempt that may not be repeated is the last.\<close>

function provider_attempts ::
    "provider_world \<Rightarrow> openai_config \<Rightarrow> nat \<Rightarrow> model_turn_request
      \<Rightarrow> sink_event list \<times> (provider_error + model_turn)" where
  "provider_attempts W config attempt request =
     (case timed_attempt W config attempt request of
        (shown, Inr turn) \<Rightarrow> (shown, Inr turn)
      | (shown, Inl failure) \<Rightarrow>
          if may_retry W attempt request shown failure
          then apfst (append shown) (provider_attempts W config (attempt + 1) request)
          else (shown, Inl (tae_error failure)))"
  by pat_completeness auto
termination
  by (relation "measure (\<lambda>(W, config, attempt, request). 2 - attempt)")
    (auto simp: may_retry_def Let_def)

declare provider_attempts.simps [simp del]

definition openai_next_turn ::
    "provider_world \<Rightarrow> openai_config \<Rightarrow> model_turn_request \<Rightarrow> sink_event list \<times> (provider_error + model_turn)" where
  "openai_next_turn W config request = provider_attempts W config 0 request"

section \<open>The attempts of a turn\<close>

definition attempt_retries :: "provider_world \<Rightarrow> openai_config \<Rightarrow> model_turn_request \<Rightarrow> nat \<Rightarrow> bool" where
  "attempt_retries W config request i =
     (case timed_attempt W config i request of
        (shown, Inl failure) \<Rightarrow> may_retry W i request shown failure
      | (shown, Inr turn) \<Rightarrow> False)"

lemma attempt_retries_before: "attempt_retries W config request i \<Longrightarrow> i < 2"
  by (auto simp: attempt_retries_def may_retry_def Let_def split: prod.splits sum.splits)

lemma retried_attempt_shows_nothing:
  assumes "attempt_retries W config request i"
  shows "shown_text (fst (timed_attempt W config i request)) = []
    \<and> shown_reasoning (fst (timed_attempt W config i request)) = []"
proof -
  have "\<not> list_ex shows_text events \<Longrightarrow> shown_text events = [] \<and> shown_reasoning events = []" for events
  proof (induction events)
    case (Cons e events)
    then show ?case by (cases e) (auto simp: shows_text_def)
  qed simp
  with assms show ?thesis
    by (auto simp: attempt_retries_def may_retry_def has_visible_output_iff Let_def
        split: prod.splits sum.splits)
qed

lemma provider_attempts_unfold:
  "provider_attempts W config i request =
     (if attempt_retries W config request i
      then apfst (append (fst (timed_attempt W config i request))) (provider_attempts W config (i + 1) request)
      else apsnd (map_sum tae_error id) (timed_attempt W config i request))"
  by (subst provider_attempts.simps) (simp add: attempt_retries_def split: prod.split sum.split)

lemma provider_attempts_run:
  "\<exists>n \<ge> i. (\<forall>j \<in> set [i..<n]. attempt_retries W config request j) \<and> \<not> attempt_retries W config request n
     \<and> provider_attempts W config i request =
         (concat (map (\<lambda>j. fst (timed_attempt W config j request)) [i..<n])
            @ fst (timed_attempt W config n request),
          map_sum tae_error id (snd (timed_attempt W config n request)))"
proof (induction "2 - i" arbitrary: i rule: less_induct)
  case less
  show ?case
  proof (cases "attempt_retries W config request i")
    case True
    then have "2 - Suc i < 2 - i" using attempt_retries_before [OF True] by linarith
    from less [OF this] obtain n where n: "n \<ge> Suc i"
      "\<forall>j \<in> set [Suc i..<n]. attempt_retries W config request j" "\<not> attempt_retries W config request n"
      "provider_attempts W config (Suc i) request =
         (concat (map (\<lambda>j. fst (timed_attempt W config j request)) [Suc i..<n])
            @ fst (timed_attempt W config n request),
          map_sum tae_error id (snd (timed_attempt W config n request)))" by auto
    moreover from n(1) have "[i..<n] = i # [Suc i..<n]" by (simp add: upt_conv_Cons)
    ultimately show ?thesis
      using True provider_attempts_unfold [of W config i request]
      by (intro exI [of _ n]) auto
  next
    case False
    then show ?thesis
      using provider_attempts_unfold [of W config i request]
      by (intro exI [of _ i]) (simp add: apsnd_def map_prod_def split: prod.split)
  qed
qed

lemma next_turn_run:
  obtains n where "n \<le> 2" "list_all (attempt_retries W config request) [0..<n]"
    "\<not> attempt_retries W config request n"
    "openai_next_turn W config request =
       (concat (map (\<lambda>i. fst (timed_attempt W config i request)) [0..<n])
          @ fst (timed_attempt W config n request),
        map_sum tae_error id (snd (timed_attempt W config n request)))"
proof -
  obtain n where n: "\<forall>j \<in> set [0..<n]. attempt_retries W config request j" "\<not> attempt_retries W config request n"
    "openai_next_turn W config request =
       (concat (map (\<lambda>i. fst (timed_attempt W config i request)) [0..<n])
          @ fst (timed_attempt W config n request),
        map_sum tae_error id (snd (timed_attempt W config n request)))"
    using provider_attempts_run [of 0 W config request] by (auto simp: openai_next_turn_def)
  moreover have "n \<le> 2"
  proof (rule ccontr)
    assume "\<not> n \<le> 2"
    then have "2 \<in> set [0..<n]" by simp
    with n(1) have "attempt_retries W config request 2" by blast
    then show False using attempt_retries_before by blast
  qed
  ultimately show ?thesis using that by (simp add: list_all_iff)
qed

lemma retried_texts:
  assumes "list_all (attempt_retries W config request) js"
  shows "shown_text (concat (map (\<lambda>i. fst (timed_attempt W config i request)) js) @ ev) = shown_text ev"
    "shown_reasoning (concat (map (\<lambda>i. fst (timed_attempt W config i request)) js) @ ev) = shown_reasoning ev"
  using assms by (induction js) (simp_all add: retried_attempt_shows_nothing)

text \<open>
  C21. A turn is attempted at most three times, and a repetition is never seen. The attempts run
  in order; each but the last failed in a way that allows another, and nothing it showed can be
  seen. What the sink is shown is the text and the reasoning of the last attempt, whose result
  is the result of the turn. An attempt that may have started a hosted search or the generation
  of an image is never repeated.
\<close>

theorem repeated_attempts_are_invisible:
  "\<exists>n \<le> 2. list_all (attempt_retries W config request) [0..<n] \<and> \<not> attempt_retries W config request n
     \<and> snd (openai_next_turn W config request) = map_sum tae_error id (snd (timed_attempt W config n request))
     \<and> shown_text (fst (openai_next_turn W config request)) = shown_text (fst (timed_attempt W config n request))
     \<and> shown_reasoning (fst (openai_next_turn W config request))
         = shown_reasoning (fst (timed_attempt W config n request))
     \<and> \<not> (n > 0 \<and> (feat_web_search (req_features request) \<or> feat_image_generation (req_features request)))"
proof -
  obtain n where n: "n \<le> 2" "list_all (attempt_retries W config request) [0..<n]"
    "\<not> attempt_retries W config request n"
    "openai_next_turn W config request =
       (concat (map (\<lambda>i. fst (timed_attempt W config i request)) [0..<n])
          @ fst (timed_attempt W config n request),
        map_sum tae_error id (snd (timed_attempt W config n request)))"
    by (rule next_turn_run)
  have hosted: "attempt_retries W config request 0 \<Longrightarrow>
      \<not> feat_web_search (req_features request) \<and> \<not> feat_image_generation (req_features request)"
    by (auto simp: attempt_retries_def may_retry_def Let_def split: prod.splits sum.splits)
  have "\<not> (n > 0 \<and> (feat_web_search (req_features request) \<or> feat_image_generation (req_features request)))"
  proof (cases n)
    case (Suc m)
    with n(2) have "attempt_retries W config request 0" by (simp add: list_all_iff del: upt_Suc)
    with hosted show ?thesis by simp
  qed simp
  with n retried_texts [OF n(2)] show ?thesis by (intro exI [of _ n]) simp
qed

section \<open>The answer of a turn\<close>

lemma feed_results_feed:
  "feed_results H U L chunks d = (ev, Inr turn) \<Longrightarrow> \<exists>cs. feed H U L cs d = (ev, Inr turn)"
proof (induction chunks arbitrary: d ev)
  case Nil
  then have "feed H U L [] d = (ev, Inr turn)" by simp
  then show ?case by blast
next
  case (Cons chunk chunks)
  then obtain c where c: "chunk = Inr c" by (cases chunk) auto
  obtain ev1 r d1 where push: "live_push H L c d = (ev1, r, d1)" by (metis surj_pair)
  obtain ev2 r2 where rest:
    "(if ld_complete d1 then live_finish H U L d1 else feed_results H U L chunks d1) = (ev2, r2)" by fastforce
  with Cons.prems c push obtain n where r: "r = Inr n" "ev = ev1 @ ev2" "r2 = Inr turn"
    by (cases r) (simp_all add: then_end_def del: if_splits)
  obtain cs where "(if ld_complete d1 then live_finish H U L d1 else feed H U L cs d1) = (ev2, Inr turn)"
    using rest r(3) Cons.IH [of d1 ev2] by (cases "ld_complete d1") auto
  with push r have "feed H U L (c # cs) d = (ev, Inr turn)" by (simp add: then_end_def)
  then show ?case by blast
qed

text \<open>The events a decoder makes of a response of the transport.\<close>

definition response_events :: "provider_world \<Rightarrow> openai_config \<Rightarrow> sink_event list \<Rightarrow> bool" where
  "response_events W config events =
     (\<exists>attempt call request head chunks mode turn.
        pw_stream W attempt call request = Inr (head, chunks)
        \<and> feed_results (pw_hash W) (pw_uuid W) (pw_json W) chunks
            (start_decoder mode (cfg_allow_cumulative_delta config) (head_content_type head)
              (cfg_family config = FamilyDeepSeek) (cfg_family config = FamilyGemini)) = (events, Inr turn))"

text \<open>
  What a turn owes to the text and the reasoning that were shown, by family. Qwen's summary and
  Kimi's thoughts are cut out of the text on its way, delta by delta for the sink, and from the
  whole for the turn.
\<close>

definition spelt :: "provider_world \<Rightarrow> openai_config \<Rightarrow> str \<Rightarrow> str \<Rightarrow> model_turn \<Rightarrow> bool" where
  "spelt W config said thought turn =
     (case cfg_family config of
        FamilyQwen \<Rightarrow> turn_reasoning turn = thought
          \<and> (\<exists>events. response_events W config events
               \<and> said = shown_text (fst (summary_sink_all events (summary_filter_new True)))
               \<and> turn_text turn = turn_text (apply_summary_to_turn (turn\<lparr>turn_text := shown_text events\<rparr>))
               \<and> (list_all valid_event events \<longrightarrow> turn_text turn = said
                    \<or> said = [] \<and> prefix (to_ascii_lowercase (trim_start (turn_text turn))) ''<summary>''))
      | FamilyKimi \<Rightarrow> turn_text turn = said
          \<and> (\<exists>native hidden. turn_reasoning turn = native @ hidden \<and> thought \<in> shuffles native hidden)
      | _ \<Rightarrow> turn_text turn = said \<and> turn_reasoning turn = thought)"

lemma family_turn_spelt:
  assumes "family_turn (cfg_family config) (feed_results (pw_hash W) (pw_uuid W) (pw_json W) chunks
      (start_decoder mode (cfg_allow_cumulative_delta config) (head_content_type head)
        (cfg_family config = FamilyDeepSeek) (cfg_family config = FamilyGemini))) = (shown, Inr turn)"
    and "pw_stream W attempt call request = Inr (head, chunks)"
  shows "spelt W config (shown_text shown) (shown_reasoning shown) turn"
proof -
  let ?d = "start_decoder mode (cfg_allow_cumulative_delta config) (head_content_type head)
    (cfg_family config = FamilyDeepSeek) (cfg_family config = FamilyGemini)"
  obtain ev r where run: "feed_results (pw_hash W) (pw_uuid W) (pw_json W) chunks ?d = (ev, r)" by fastforce
  with assms(1) obtain t where r: "r = Inr t"
    by (cases r; cases "cfg_family config") (auto simp: family_turn_def split: prod.splits)
  have events: "response_events W config ev" using run r assms(2) unfolding response_events_def by blast
  obtain cs where "feed (pw_hash W) (pw_uuid W) (pw_json W) cs ?d = (ev, Inr t)"
    using feed_results_feed run r by blast
  note t = decoded_turn_shown [OF this]
  show ?thesis
  proof (cases "cfg_family config")
    case FamilyQwen
    with assms(1) run r have shown: "shown = fst (summary_sink_all ev (summary_filter_new True))"
      "turn = apply_summary_to_turn t" by (simp_all add: family_turn_def)
    have "turn_text turn = turn_text (apply_summary_to_turn (turn\<lparr>turn_text := shown_text ev\<rparr>))"
      unfolding shown by (rule text_after_summary) (simp add: t)
    with summary_sink_turn [of ev turn] events FamilyQwen t show ?thesis
      by (auto simp: spelt_def shown summary_sink_reasoning reasoning_after_summary)
  next
    case FamilyKimi
    from t have same: "t\<lparr>turn_text := shown_text ev\<rparr> = t" by simp
    obtain said f where sink: "think_sink_all ev think_filter_new = (said, f)" by fastforce
    with FamilyKimi assms(1) run r have shown: "shown = said @ fst (think_flush f)"
      "turn = apply_think_tags_to_turn t" by (simp_all add: family_turn_def)
    from think_tags_agree [of ev t, unfolded same sink] FamilyKimi t show ?thesis
      unfolding spelt_def shown by auto
  qed (use assms(1) run r t in \<open>auto simp: spelt_def family_turn_def\<close>)
qed

lemma map_sum_Inr: "map_sum f g r = Inr y \<longleftrightarrow> (\<exists>x. r = Inr x \<and> y = g x)"
  by (cases r) auto

lemma stream_turn_spelt:
  assumes "stream_turn W config attempt call mode body token session turn_state = (ev, Inr s)"
  shows "case st_turn s of
      None \<Rightarrow> ev = [] \<and> \<not> is_success (st_status s)
    | Some turn \<Rightarrow> is_success (st_status s) \<and> spelt W config (shown_text ev) (shown_reasoning ev) turn"
  using assms family_turn_spelt
  by (cases "wire_request W config attempt call mode body token session turn_state")
    (auto simp: stream_turn_def Let_def map_sum_Inr split: sum.splits prod.splits if_splits)

lemma with_auth_spelt:
  assumes "stream_turn_with_auth W config attempt call mode body request = (ev, Inr (s, token))"
  shows "case st_turn s of
      None \<Rightarrow> ev = [] \<and> \<not> is_success (st_status s)
    | Some turn \<Rightarrow> is_success (st_status s) \<and> spelt W config (shown_text ev) (shown_reasoning ev) turn"
proof -
  have refused: "st_status s' = 401 \<Longrightarrow>
      stream_turn W config attempt call mode body tok session ts = (ev', Inr s') \<Longrightarrow> ev' = []"
    for s' tok session ts ev'
    using stream_turn_spelt [of W config attempt call mode body tok session ts ev' s']
    by (cases "st_turn s'") (auto simp: is_success_def)
  let ?turn_state = "Option.bind (req_opaque_state request) (\<lambda>v. get_str v ''x-codex-turn-state'')"
  let ?session = "case req_session_key request of ProviderSessionKey k \<Rightarrow> k"
  let ?send = "\<lambda>call' tok. stream_turn W config attempt call' mode body tok ?session ?turn_state"
  obtain tok where tok: "resolve_bearer W attempt call False = Inr tok"
    using assms by (cases "resolve_bearer W attempt call False") (simp_all add: stream_turn_with_auth_def Let_def)
  obtain ev1 r1 where first: "?send call tok = (ev1, r1)" by fastforce
  obtain s1 where s1: "r1 = Inr s1"
    using assms tok first by (cases r1) (simp_all add: stream_turn_with_auth_def Let_def)
  have "\<exists>call' tok. ?send call' tok = (ev, Inr s)"
  proof (cases "st_status s1 = 401 \<and> pw_supports_refresh W")
    case True
    obtain tok' where tok': "resolve_bearer W attempt call True = Inr tok'"
      using assms tok first s1 True
      by (cases "resolve_bearer W attempt call True") (simp_all add: stream_turn_with_auth_def Let_def)
    obtain ev2 r2 where again: "?send (call + 1) tok' = (ev2, r2)" by fastforce
    from True refused first s1 have "ev1 = []" by blast
    with assms tok first s1 True tok' again have "?send (call + 1) tok' = (ev, Inr s)"
      by (cases r2) (simp_all add: stream_turn_with_auth_def Let_def)
    then show ?thesis by blast
  next
    case False
    with assms tok first s1 have "?send call tok = (ev, Inr s)"
      by (simp add: stream_turn_with_auth_def Let_def)
    then show ?thesis by blast
  qed
  then show ?thesis using stream_turn_spelt by blast
qed

lemma send_body_spelt:
  "send_body W config attempt call mode request = (ev, Inr (s, token)) \<Longrightarrow>
     case st_turn s of
       None \<Rightarrow> ev = [] \<and> \<not> is_success (st_status s)
     | Some turn \<Rightarrow> is_success (st_status s) \<and> spelt W config (shown_text ev) (shown_reasoning ev) turn"
  by (auto simp: send_body_def dest: with_auth_spelt split: sum.splits)

lemma accepted_answer:
  assumes "accept_answer config request (s, token) = Inr turn"
  obtains turn0 where "st_turn s = Some turn0" "validate_turn turn = Inr ()"
    "turn = apply_turn_continuation (cfg_family config) (req_tools request \<noteq> []) turn0"
proof -
  from assms have "is_success (st_status s)" by (auto simp: accept_answer_def split: if_splits)
  moreover from this assms obtain turn0 where "st_turn s = Some turn0"
    by (cases "st_turn s") (simp_all add: accept_answer_def)
  ultimately show ?thesis
    using assms that by (auto simp: accept_answer_def Let_def map_sum_Inr)
qed

lemma spelt_continuation:
  "spelt W config said thought (apply_turn_continuation family b turn) = spelt W config said thought turn"
proof -
  let ?t = "apply_turn_continuation family b turn"
  have "turn_text (apply_summary_to_turn (?t\<lparr>turn_text := x\<rparr>))
      = turn_text (apply_summary_to_turn (turn\<lparr>turn_text := x\<rparr>))" for x
    by (rule text_after_summary) simp
  then show ?thesis by (cases "cfg_family config") (simp_all add: spelt_def)
qed

lemma once_spelt:
  assumes "next_turn_once W config attempt request = (shown, Inr turn)"
  shows "spelt W config (shown_text shown) (shown_reasoning shown) turn \<and> validate_turn turn = Inr ()"
proof -
  let ?mode = "effective_api_mode config (req_model request)"
  have answered: "spelt W config (shown_text ev) (shown_reasoning ev) turn \<and> validate_turn turn = Inr ()"
    if "send_body W config attempt call ?mode req = (ev, Inr (s, token))"
      "accept_answer config req (s, token) = Inr turn" for call req ev s token
    using send_body_spelt [OF that(1)] that(2)
    by (auto elim!: accepted_answer simp: spelt_continuation)
  have silent: "tool_mode_error_status (st_status s) \<Longrightarrow>
      send_body W config attempt call ?mode req = (ev, Inr (s, token)) \<Longrightarrow> ev = []" for call req ev s token
    using send_body_spelt [of W config attempt call ?mode req ev s token]
    by (cases "st_turn s") (auto simp: tool_mode_error_status_def is_success_def)
  have valid: "validate_deepseek_image_request config ?mode request = Inr ()"
    using assms by (cases "validate_deepseek_image_request config ?mode request")
      (simp_all add: next_turn_once_def Let_def)
  obtain ev1 r1 where first: "send_body W config attempt 0 ?mode request = (ev1, r1)" by fastforce
  obtain s1 token1 where r1: "r1 = Inr (s1, token1)"
    using assms valid first by (cases r1) (auto simp: next_turn_once_def Let_def)
  show ?thesis
  proof (cases "cfg_retry_without_tools config \<and> req_tools request \<noteq> [] \<and> tool_mode_error_status (st_status s1)")
    case True
    obtain ev2 r2 where again: "send_body W config attempt 2 ?mode (without_tools request) = (ev2, r2)"
      by fastforce
    from silent first r1 True have "ev1 = []" by blast
    moreover obtain a where r2: "r2 = Inr a"
      using assms valid first r1 True again by (cases r2) (auto simp: next_turn_once_def Let_def)
    ultimately show ?thesis
      using assms valid first r1 True again answered
      by (cases a) (auto simp: next_turn_once_def Let_def)
  next
    case False
    with assms valid first r1 answered show ?thesis
      by (auto simp: next_turn_once_def Let_def)
  qed
qed

lemma next_turn_spelt:
  assumes "openai_next_turn W config request = (shown, Inr turn)"
  shows "spelt W config (shown_text shown) (shown_reasoning shown) turn
    \<and> list_all dispatchable (turn_tool_calls turn)
    \<and> distinct (map call_provider_call_id (turn_tool_calls turn))"
proof -
  obtain n where n: "list_all (attempt_retries W config request) [0..<n]"
    "openai_next_turn W config request =
       (concat (map (\<lambda>i. fst (timed_attempt W config i request)) [0..<n])
          @ fst (timed_attempt W config n request),
        map_sum tae_error id (snd (timed_attempt W config n request)))"
    using next_turn_run [of W config request] by metis
  obtain ev where ev: "timed_attempt W config n request = (ev, Inr turn)"
  proof -
    from n(2) assms have "map_sum tae_error id (snd (timed_attempt W config n request)) = Inr turn" by simp
    then show ?thesis using that by (cases "timed_attempt W config n request") (auto simp: map_sum_Inr)
  qed
  then have "next_turn_once W config n request = (ev, Inr turn)"
    by (cases "pw_deadline W n") (simp_all add: timed_attempt_def)
  note once = once_spelt [OF this]
  have "shown_text shown = shown_text ev" "shown_reasoning shown = shown_reasoning ev"
    using retried_texts [OF n(1)] n(2) ev assms by auto
  with once validated_turn_calls [of turn] show ?thesis by simp
qed

text \<open>
  C2. The answer of a turn is what was shown, from the bytes of the response to the result. When
  the provider returns a turn, after whatever failed attempts, refreshed credentials and
  requests without tools, the turn is valid, so that its calls can be dispatched, and, by family:
  for all but Qwen and Kimi its text is the concatenation of the text the sink was shown, in
  order, and its reasoning that of the reasoning. For Kimi the text is, while the reasoning that was
  shown interleaves what the turn lists one after the other: the reasoning the model declared
  and the thoughts cut out of its text. For Qwen the reasoning is, while the text that was shown
  lacks, when the deltas are valid UTF-8, at most an answer that is no more than a possible start of the
  summary tag (the sink is not flushed); both are the filter's view of one list of deltas.
\<close>

theorem turn_is_what_the_caller_saw:
  assumes "openai_next_turn W config request = (shown, Inr turn)"
  shows "spelt W config (shown_text shown) (shown_reasoning shown) turn
    \<and> list_all dispatchable (turn_tool_calls turn)
    \<and> distinct (map call_provider_call_id (turn_tool_calls turn))"
  by (rule next_turn_spelt [OF assms])

text \<open>A provider without redirection: the transport answers every request with one body.\<close>

definition sample_provider_world :: provider_world where
  "sample_provider_world =
     \<lparr>pw_stream = (\<lambda>_ _ _. Inr (\<lparr>head_retry_after = None, head_status = 200, head_content_type = None\<rparr>,
        [Inr ''{'', Inr ''}''])),
      pw_bearer = (\<lambda>_ _. Inr ''key''), pw_force_refresh = (\<lambda>_ _. Inl ''no''), pw_supports_refresh = False,
      pw_fresh_uuid = (\<lambda>_ _ _. ''id''), pw_user_agent = ''agent'', pw_nanos = (\<lambda>_. 0),
      pw_deadline = (\<lambda>_. None), pw_hash = (\<lambda>_. 0), pw_uuid = sample_uuid_lib, pw_json = body_lib\<rparr>"

definition custom_config :: openai_config where
  "custom_config = config_with_credential ''x'' ''u'' ChatCompletions False"

lemma feed_results_whole: "feed_results H U L (map Inr cs) d = feed H U L cs d"
proof (induction cs arbitrary: d)
  case (Cons c cs)
  then show ?case by (simp cong: if_cong)
qed simp

lemma custom_config_simps:
  "cfg_family custom_config = FamilyCustom" "cfg_base_url custom_config = ''u''"
  "cfg_allow_cumulative_delta custom_config = False" "cfg_chatgpt_account_id custom_config = None"
  "effective_api_mode custom_config m = ChatCompletions" "cfg_retry_without_tools custom_config = False"
  by (simp_all add: custom_config_def config_with_credential_def family_of_provider_id_def
      trim_graphic graphic_def to_ascii_lowercase_def effective_api_mode_def)

lemma sample_stream:
  "stream_turn sample_provider_world custom_config attempt call ChatCompletions body token session turn_state
     = ([SinkText ''ok''],
        Inr \<lparr>st_status = 200, st_preview = [],
             st_turn = Some (chat_finish sample_uuid_lib body_lib sample_chat), st_retry_after = None\<rparr>)"
proof -
  have "feed_results (\<lambda>_. 0) sample_uuid_lib body_lib [Inr ''{'', Inr ''}'']
      (start_decoder ChatCompletions False None False False)
      = ([SinkText ''ok''], Inr (chat_finish sample_uuid_lib body_lib sample_chat))"
    using feed_results_whole [of "\<lambda>_. 0" sample_uuid_lib body_lib "[''{'', ''}'']"]
    by (simp only: list.map sample_feed)
  then show ?thesis
    by (simp add: stream_turn_def wire_request_def endpoint_for_def custom_config_simps trim_graphic graphic_def
        trim_end_slashes_def sample_provider_world_def is_success_def family_turn_def)
qed

lemma sample_next_turn:
  "openai_next_turn sample_provider_world custom_config sample_turn_request
     = ([SinkText ''ok''], Inr (chat_finish sample_uuid_lib body_lib sample_chat))"
proof -
  let ?turn = "chat_finish sample_uuid_lib body_lib sample_chat"
  have bearer: "resolve_bearer sample_provider_world a c False = Inr ''key''" for a c
    by (simp add: resolve_bearer_def sample_provider_world_def)
  have "\<exists>body. build_body sample_provider_world custom_config ChatCompletions sample_turn_request = Inr body"
    by (simp add: build_body_def validate_deepseek_request_body_size_def custom_config_simps Let_def)
  then have sent: "send_body sample_provider_world custom_config 0 0 ChatCompletions sample_turn_request
      = ([SinkText ''ok''],
         Inr (\<lparr>st_status = 200, st_preview = [], st_turn = Some ?turn, st_retry_after = None\<rparr>, ''key''))"
    by (auto simp: send_body_def stream_turn_with_auth_def bearer sample_stream)
  have "trim ''ok'' = ''ok''" by (simp add: trim_graphic graphic_def)
  then have "apply_turn_continuation FamilyCustom False ?turn = ?turn" "validate_turn ?turn = Inr ()"
    by (simp_all add: apply_turn_continuation_def validate_turn_def sample_chat_turn)
  then have "accept_answer custom_config sample_turn_request
      (\<lparr>st_status = 200, st_preview = [], st_turn = Some ?turn, st_retry_after = None\<rparr>, ''key'') = Inr ?turn"
    by (simp add: accept_answer_def is_success_def custom_config_simps sample_turn_request_def)
  with sent have "next_turn_once sample_provider_world custom_config 0 sample_turn_request
      = ([SinkText ''ok''], Inr ?turn)"
    by (simp add: next_turn_once_def custom_config_simps validate_deepseek_image_request_def)
  then show ?thesis
    by (simp add: openai_next_turn_def provider_attempts.simps timed_attempt_def sample_provider_world_def)
qed

theorem turn_is_what_the_caller_saw_witness:
  "case openai_next_turn sample_provider_world custom_config sample_turn_request of
     (shown, Inl _) \<Rightarrow> False
   | (shown, Inr turn) \<Rightarrow> turn_text turn = ''ok'' \<and> list_all dispatchable (turn_tool_calls turn)"
  using turn_is_what_the_caller_saw [OF sample_next_turn]
  by (simp add: sample_next_turn spelt_def custom_config_simps)

end
