(* ===== verification/Operations.thy ===== *)
theory Operations
  imports Core_Types
begin

text \<open>
  Operations that need the host (\<open>operations.rs\<close> of \<open>aifluxon-runtime\<close>):
  \<open>InMemoryOperationStore\<close>, a table of pending approvals and prepared effects behind one mutex.
  Every operation of the store is a section that runs under the lock and yields the \<open>Notify\<close>
  handles to wake, followed by \<open>notify_waiters\<close> on them after the lock is released; waiting is a
  loop of looks. The last sections interleave sections, notifications and waiters in any order.
\<close>

section \<open>Errors\<close>

datatype operation_error =
    OpIdentifierCollision
  | OpUnknownOperation
  | OpWrongRun
  | OpAlreadyResolved
  | OpBlockingWaitRequired
  | OpDeferredCommitRequired
  | OpInvalidState
  | OpRunTerminal
  | OpErrCancelled
  | OpErrExpired
  | OpCommitFailed str
  | OpStoreUnavailable

fun operation_error_message :: "operation_error \<Rightarrow> str" where
  "operation_error_message OpIdentifierCollision = ''Operation identifier collision.''"
| "operation_error_message OpUnknownOperation = ''Operation was not found.''"
| "operation_error_message OpWrongRun = ''Operation does not belong to the requested run.''"
| "operation_error_message OpAlreadyResolved = ''Operation was already resolved.''"
| "operation_error_message OpBlockingWaitRequired =
     ''Only blocking approvals can be awaited for a decision.''"
| "operation_error_message OpDeferredCommitRequired =
     ''Deferred operations must use the prepared-effect commit path.''"
| "operation_error_message OpInvalidState =
     ''Operation is not in a valid state for this action.''"
| "operation_error_message OpRunTerminal =
     ''The run is terminal and cannot accept operation changes.''"
| "operation_error_message OpErrCancelled = ''Operation was cancelled with its run.''"
| "operation_error_message OpErrExpired = ''Operation expired before it was resolved.''"
| "operation_error_message (OpCommitFailed m) = ''Prepared operation commit failed: '' @ m"
| "operation_error_message OpStoreUnavailable = ''Operation store is unavailable.''"

section \<open>The store\<close>

text \<open>
  A \<open>Notify\<close> is a handle into \<open>ops_wakes\<close>, the number of \<open>notify_waiters\<close> calls on it so far;
  \<open>ops_next\<close> is the next handle. The mutex is poisoned when \<open>ops_poisoned\<close>.
\<close>

record operation_record =
  rec_operation :: pending_operation
  rec_state :: operation_state
  rec_decision :: "operation_decision option"
  rec_notify :: nat

record operation_store =
  ops_operations :: "(operation_id \<times> operation_record) list"
  ops_terminal_runs :: "run_id set"
  ops_poisoned :: bool
  ops_next :: nat
  ops_wakes :: "nat \<Rightarrow> nat"

definition ops_new :: operation_store where
  "ops_new = \<lparr>ops_operations = [], ops_terminal_runs = {}, ops_poisoned = False, ops_next = 0,
              ops_wakes = (\<lambda>_. 0)\<rparr>"

definition ops_lock :: "operation_store \<Rightarrow> operation_error + operation_store" where
  "ops_lock s = (if ops_poisoned s then Inl OpStoreUnavailable else Inr s)"

definition ops_get :: "operation_store \<Rightarrow> operation_id \<Rightarrow> operation_record option" where
  "ops_get s i = map_of (ops_operations s) i"

definition ops_put :: "operation_id \<Rightarrow> operation_record \<Rightarrow> operation_store \<Rightarrow> operation_store" where
  "ops_put i r s = s\<lparr>ops_operations := AList.update i r (ops_operations s)\<rparr>"

definition record_for_run ::
    "operation_store \<Rightarrow> run_id \<Rightarrow> operation_id \<Rightarrow> operation_error + operation_record" where
  "record_for_run s run i =
     res_bind (ok_or OpUnknownOperation (ops_get s i))
       (\<lambda>r. if op_run_id (rec_operation r) \<noteq> run then Inl OpWrongRun else Inr r)"

definition notify_one :: "nat \<Rightarrow> operation_store \<Rightarrow> operation_store" where
  "notify_one h s = s\<lparr>ops_wakes := (ops_wakes s)(h := Suc (ops_wakes s h))\<rparr>"

definition notify_all :: "nat list \<Rightarrow> operation_store \<Rightarrow> operation_store" where
  "notify_all hs s = fold notify_one hs s"

text \<open>A locked section: an error leaves the store as it is, or the handles to notify and the
  new store.\<close>

type_synonym op_section = "operation_store \<Rightarrow> operation_error + nat list \<times> operation_store"

definition run_section ::
    "(nat list \<Rightarrow> 'a) \<Rightarrow> op_section \<Rightarrow> operation_store \<Rightarrow> (operation_error + 'a) \<times> operation_store"
  where
  "run_section f sec s =
     (case sec s of Inl e \<Rightarrow> (Inl e, s) | Inr (hs, t) \<Rightarrow> (Inr (f hs), notify_all hs t))"

section \<open>Operations of the store\<close>

definition past_deadline :: "nat \<Rightarrow> pending_operation \<Rightarrow> bool" where
  "past_deadline now p = (case op_deadline p of Some d \<Rightarrow> d \<le> now | None \<Rightarrow> False)"

definition register_section :: "nat \<Rightarrow> pending_operation \<Rightarrow> op_section" where
  "register_section now p s0 =
     res_bind (ops_lock s0) (\<lambda>s.
       if op_run_id p \<in> ops_terminal_runs s then Inl OpRunTerminal
       else if ops_get s (op_id p) \<noteq> None then Inl OpIdentifierCollision
       else if past_deadline now p then Inl OpErrExpired
       else Inr ([], ops_put (op_id p)
              \<lparr>rec_operation = p, rec_state = OpPending, rec_decision = None,
               rec_notify = ops_next s\<rparr> (s\<lparr>ops_next := Suc (ops_next s)\<rparr>)))"

definition op_register ::
    "nat \<Rightarrow> pending_operation \<Rightarrow> operation_store \<Rightarrow> (operation_error + unit) \<times> operation_store" where
  "op_register now p = run_section (\<lambda>_. ()) (register_section now p)"

definition snapshot_of :: "operation_record \<Rightarrow> operation_snapshot" where
  "snapshot_of r = \<lparr>snap_operation = rec_operation r, snap_state = rec_state r\<rparr>"

definition op_snapshot ::
    "uuid_lib \<Rightarrow> run_id \<Rightarrow> operation_store \<Rightarrow> operation_error + operation_snapshot list" where
  "op_snapshot U run s0 =
     res_bind (ops_lock s0) (\<lambda>s.
       Inr (sort_key (\<lambda>n. operation_hyphenated U (op_id (snap_operation n)))
             (map snapshot_of
               (filter (\<lambda>r. op_run_id (rec_operation r) = run) (map snd (ops_operations s))))))"

definition op_snapshot_operation ::
    "run_id \<Rightarrow> operation_id \<Rightarrow> operation_store \<Rightarrow> operation_error + operation_snapshot" where
  "op_snapshot_operation run i s0 =
     res_bind (ops_lock s0) (\<lambda>s.
       res_bind (record_for_run s run i) (\<lambda>r. Inr (snapshot_of r)))"

fun is_approve :: "operation_decision \<Rightarrow> bool" where
  "is_approve (Approve d) = True"
| "is_approve (Reject m) = False"

definition resolve_section :: "run_id \<Rightarrow> operation_id \<Rightarrow> operation_decision \<Rightarrow> op_section" where
  "resolve_section run i decision s0 =
     res_bind (ops_lock s0) (\<lambda>s.
       if run \<in> ops_terminal_runs s then Inl OpRunTerminal
       else res_bind (record_for_run s run i) (\<lambda>r.
         if rec_state r \<noteq> OpPending then Inl OpAlreadyResolved
         else if op_mode (rec_operation r) = DeferredCommit \<and> is_approve decision
           then Inl OpDeferredCommitRequired
         else Inr ([rec_notify r],
              ops_put i (r\<lparr>rec_state := (if is_approve decision then OpApproved else OpRejected),
                           rec_decision := Some decision\<rparr>) s)))"

definition op_resolve ::
    "run_id \<Rightarrow> operation_id \<Rightarrow> operation_decision \<Rightarrow> operation_store
       \<Rightarrow> (operation_error + unit) \<times> operation_store" where
  "op_resolve run i decision = run_section (\<lambda>_. ()) (resolve_section run i decision)"

definition begin_commit_section :: "run_id \<Rightarrow> operation_id \<Rightarrow> op_section" where
  "begin_commit_section run i s0 =
     res_bind (ops_lock s0) (\<lambda>s.
       if run \<in> ops_terminal_runs s then Inl OpRunTerminal
       else res_bind (record_for_run s run i) (\<lambda>r.
         if op_mode (rec_operation r) \<noteq> DeferredCommit then Inl OpDeferredCommitRequired
         else if rec_state r \<noteq> OpPending then Inl OpAlreadyResolved
         else Inr ([rec_notify r], ops_put i (r\<lparr>rec_state := OpCommitting\<rparr>) s)))"

definition op_begin_commit ::
    "run_id \<Rightarrow> operation_id \<Rightarrow> operation_store \<Rightarrow> (operation_error + unit) \<times> operation_store" where
  "op_begin_commit run i = run_section (\<lambda>_. ()) (begin_commit_section run i)"

fun outcome_state :: "str + unit \<Rightarrow> operation_state" where
  "outcome_state (Inr u) = OpCommitted"
| "outcome_state (Inl m) = OpFailed m"

definition finish_blocking_section :: "run_id \<Rightarrow> operation_id \<Rightarrow> str + unit \<Rightarrow> op_section" where
  "finish_blocking_section run i result s0 =
     res_bind (ops_lock s0) (\<lambda>s.
       res_bind (record_for_run s run i) (\<lambda>r.
         if op_mode (rec_operation r) \<noteq> BlockingApproval \<or> rec_state r \<noteq> OpApproved
         then Inl OpInvalidState
         else Inr ([], ops_put i (r\<lparr>rec_state := outcome_state result\<rparr>) s)))"

definition op_finish_blocking_approval ::
    "run_id \<Rightarrow> operation_id \<Rightarrow> str + unit \<Rightarrow> operation_store
       \<Rightarrow> (operation_error + unit) \<times> operation_store" where
  "op_finish_blocking_approval run i result =
     run_section (\<lambda>_. ()) (finish_blocking_section run i result)"

definition finish_commit_section :: "run_id \<Rightarrow> operation_id \<Rightarrow> str + unit \<Rightarrow> op_section" where
  "finish_commit_section run i result s0 =
     res_bind (ops_lock s0) (\<lambda>s.
       res_bind (record_for_run s run i) (\<lambda>r.
         if rec_state r \<noteq> OpCommitting then Inl OpInvalidState
         else Inr ([], ops_put i (r\<lparr>rec_state := outcome_state result\<rparr>) s)))"

definition op_finish_commit ::
    "run_id \<Rightarrow> operation_id \<Rightarrow> str + unit \<Rightarrow> operation_store
       \<Rightarrow> (operation_error + unit) \<times> operation_store" where
  "op_finish_commit run i result = run_section (\<lambda>_. ()) (finish_commit_section run i result)"

text \<open>The loops over \<open>values_mut\<close>: change the records that match, collect their handles.\<close>

definition sweep ::
    "(operation_record \<Rightarrow> bool) \<Rightarrow> operation_state \<Rightarrow> operation_store \<Rightarrow> nat list \<times> operation_store"
  where
  "sweep P st s =
     (map rec_notify (filter P (map snd (ops_operations s))),
      s\<lparr>ops_operations :=
          map_values (\<lambda>r. if P r then r\<lparr>rec_state := st\<rparr> else r) (ops_operations s)\<rparr>)"

definition cancellable :: "run_id \<Rightarrow> operation_record \<Rightarrow> bool" where
  "cancellable run r = (op_run_id (rec_operation r) = run \<and> rec_state r \<in> {OpPending, OpApproved})"

definition cancel_run_section :: "run_id \<Rightarrow> op_section" where
  "cancel_run_section run s0 =
     res_bind (ops_lock s0) (\<lambda>s.
       Inr (sweep (cancellable run) OpCancelled
             (s\<lparr>ops_terminal_runs := insert run (ops_terminal_runs s)\<rparr>)))"

definition op_cancel_run ::
    "run_id \<Rightarrow> operation_store \<Rightarrow> (operation_error + nat) \<times> operation_store" where
  "op_cancel_run run = run_section (\<lambda>hs. length hs) (cancel_run_section run)"

definition expirable :: "nat \<Rightarrow> operation_record \<Rightarrow> bool" where
  "expirable now r = (rec_state r = OpPending \<and> past_deadline now (rec_operation r))"

definition expire_section :: "nat \<Rightarrow> op_section" where
  "expire_section now s0 =
     res_bind (ops_lock s0) (\<lambda>s. Inr (sweep (expirable now) OpExpired s))"

definition op_expire :: "nat \<Rightarrow> operation_store \<Rightarrow> (operation_error + nat) \<times> operation_store" where
  "op_expire now = run_section (\<lambda>hs. length hs) (expire_section now)"

definition op_mark_run_terminal ::
    "run_id \<Rightarrow> operation_store \<Rightarrow> (operation_error + nat) \<times> operation_store" where
  "op_mark_run_terminal run = op_cancel_run run"

definition remove_section :: "run_id \<Rightarrow> operation_id \<Rightarrow> op_section" where
  "remove_section run i s0 =
     res_bind (ops_lock s0) (\<lambda>s.
       res_bind (record_for_run s run i) (\<lambda>r.
         Inr ([rec_notify r], s\<lparr>ops_operations := AList.delete i (ops_operations s)\<rparr>)))"

definition op_remove ::
    "run_id \<Rightarrow> operation_id \<Rightarrow> operation_store \<Rightarrow> (operation_error + unit) \<times> operation_store" where
  "op_remove run i = run_section (\<lambda>_. ()) (remove_section run i)"

section \<open>Waiting\<close>

text \<open>
  One look of the loops of \<open>wait\<close> and \<open>wait_for_commit_or_reject\<close>: a result, or blocked on the
  \<open>Notified\<close> future of a handle, created under the lock when the handle had woken \<open>n\<close> times.
\<close>

datatype look = Ready "operation_error + operation_decision" | Blocked nat nat

fun blocking_result ::
    "operation_state \<Rightarrow> operation_decision option \<Rightarrow> (operation_error + operation_decision) option"
  where
  "blocking_result OpPending d = None"
| "blocking_result OpApproved d = Some (ok_or OpInvalidState d)"
| "blocking_result OpRejected d = Some (ok_or OpInvalidState d)"
| "blocking_result OpCancelled d = Some (Inl OpErrCancelled)"
| "blocking_result OpExpired d = Some (Inl OpErrExpired)"
| "blocking_result (OpFailed m) d = Some (Inl (OpCommitFailed m))"
| "blocking_result OpCommitting d = Some (Inl OpInvalidState)"
| "blocking_result OpCommitted d = Some (Inl OpInvalidState)"

fun deferred_result ::
    "operation_state \<Rightarrow> operation_decision option \<Rightarrow> (operation_error + operation_decision) option"
  where
  "deferred_result OpPending d = None"
| "deferred_result OpCommitting d = Some (Inr (Approve None))"
| "deferred_result OpRejected d = Some (ok_or OpInvalidState d)"
| "deferred_result OpCancelled d = Some (Inl OpErrCancelled)"
| "deferred_result OpExpired d = Some (Inl OpErrExpired)"
| "deferred_result (OpFailed m) d = Some (Inl (OpCommitFailed m))"
| "deferred_result OpApproved d = Some (Inl OpInvalidState)"
| "deferred_result OpCommitted d = Some (Inl OpInvalidState)"

definition look_with ::
    "operation_mode \<Rightarrow> operation_error
       \<Rightarrow> (operation_state \<Rightarrow> operation_decision option \<Rightarrow> (operation_error + operation_decision) option)
       \<Rightarrow> run_id \<Rightarrow> operation_id \<Rightarrow> operation_store \<Rightarrow> look" where
  "look_with mode wrong_mode result run i s0 =
     (case res_bind (ops_lock s0) (\<lambda>s. record_for_run s run i) of
        Inl e \<Rightarrow> Ready (Inl e)
      | Inr r \<Rightarrow>
          (if op_mode (rec_operation r) \<noteq> mode then Ready (Inl wrong_mode)
           else case result (rec_state r) (rec_decision r) of
                  Some x \<Rightarrow> Ready x
                | None \<Rightarrow> Blocked (rec_notify r) (ops_wakes s0 (rec_notify r))))"

definition wait_look :: "run_id \<Rightarrow> operation_id \<Rightarrow> operation_store \<Rightarrow> look" where
  "wait_look = look_with BlockingApproval OpBlockingWaitRequired blocking_result"

definition wait_for_commit_look :: "run_id \<Rightarrow> operation_id \<Rightarrow> operation_store \<Rightarrow> look" where
  "wait_for_commit_look = look_with DeferredCommit OpDeferredCommitRequired deferred_result"

section \<open>Laws of the store\<close>

lemmas section_defs =
  register_section_def resolve_section_def begin_commit_section_def finish_blocking_section_def
  finish_commit_section_def cancel_run_section_def expire_section_def remove_section_def

lemma ops_lock_Inr_iff [simp]: "ops_lock s = Inr t \<longleftrightarrow> \<not> ops_poisoned s \<and> t = s"
  by (auto simp: ops_lock_def)

lemma ops_get_put [simp]: "ops_get (ops_put i r s) j = (if j = i then Some r else ops_get s j)"
  by (simp add: ops_get_def ops_put_def)

lemma ops_put_fields [simp]:
  "ops_terminal_runs (ops_put i r s) = ops_terminal_runs s"
  "ops_poisoned (ops_put i r s) = ops_poisoned s"
  "ops_next (ops_put i r s) = ops_next s"
  "ops_wakes (ops_put i r s) = ops_wakes s"
  by (simp_all add: ops_put_def)

lemma ops_get_cong [simp]:
  "ops_get (s\<lparr>ops_terminal_runs := x\<rparr>) j = ops_get s j"
  "ops_get (s\<lparr>ops_next := n\<rparr>) j = ops_get s j"
  "ops_get (s\<lparr>ops_wakes := w\<rparr>) j = ops_get s j"
  by (simp_all add: ops_get_def)

lemma record_for_run_Inr_iff [simp]:
  "record_for_run s run i = Inr r \<longleftrightarrow> ops_get s i = Some r \<and> op_run_id (rec_operation r) = run"
  by (auto simp: record_for_run_def res_bind_Inr_iff)

lemma notify_all_fields [simp]:
  "ops_operations (notify_all hs s) = ops_operations s"
  "ops_terminal_runs (notify_all hs s) = ops_terminal_runs s"
  "ops_poisoned (notify_all hs s) = ops_poisoned s"
  "ops_next (notify_all hs s) = ops_next s"
  by (induction hs arbitrary: s) (simp_all add: notify_all_def notify_one_def)

lemma ops_get_notify_all [simp]: "ops_get (notify_all hs s) i = ops_get s i"
  by (simp add: ops_get_def)

lemma notify_all_wakes: "ops_wakes (notify_all hs s) h = ops_wakes s h + count_list hs h"
  by (induction hs arbitrary: s) (auto simp: notify_all_def notify_one_def)

lemma sweep_get [simp]:
  "ops_get (snd (sweep P st s)) i =
     map_option (\<lambda>r. if P r then r\<lparr>rec_state := st\<rparr> else r) (ops_get s i)"
  by (simp add: sweep_def ops_get_def)

lemma sweep_fields [simp]:
  "ops_terminal_runs (snd (sweep P st s)) = ops_terminal_runs s"
  "ops_poisoned (snd (sweep P st s)) = ops_poisoned s"
  "ops_next (snd (sweep P st s)) = ops_next s"
  "ops_wakes (snd (sweep P st s)) = ops_wakes s"
  by (simp_all add: sweep_def)

lemma sweep_handles:
  "ops_get s i = Some r \<Longrightarrow> P r \<Longrightarrow> rec_notify r \<in> set (fst (sweep P st s))"
  unfolding sweep_def ops_get_def by (force dest: map_of_SomeD)

lemma delete_get [simp]:
  "ops_get (s\<lparr>ops_operations := AList.delete i (ops_operations s)\<rparr>) j =
     (if j = i then None else ops_get s j)"
  by (simp add: ops_get_def delete_conv')

subsection \<open>Calls and their effect\<close>

text \<open>The state-changing calls of the store, as data.\<close>

datatype op_call =
    CallRegister nat pending_operation
  | CallResolve run_id operation_id operation_decision
  | CallBeginCommit run_id operation_id
  | CallFinishBlocking run_id operation_id "str + unit"
  | CallFinishCommit run_id operation_id "str + unit"
  | CallCancelRun run_id
  | CallExpire nat
  | CallRemove run_id operation_id

fun section_of :: "op_call \<Rightarrow> op_section" where
  "section_of (CallRegister now p) = register_section now p"
| "section_of (CallResolve run i d) = resolve_section run i d"
| "section_of (CallBeginCommit run i) = begin_commit_section run i"
| "section_of (CallFinishBlocking run i x) = finish_blocking_section run i x"
| "section_of (CallFinishCommit run i x) = finish_commit_section run i x"
| "section_of (CallCancelRun run) = cancel_run_section run"
| "section_of (CallExpire now) = expire_section now"
| "section_of (CallRemove run i) = remove_section run i"

definition op_do :: "op_call \<Rightarrow> operation_store \<Rightarrow> operation_store" where
  "op_do c s = snd (run_section id (section_of c) s)"

definition op_history :: "op_call list \<Rightarrow> operation_store \<Rightarrow> operation_store" where
  "op_history cs s = fold op_do cs s"

text \<open>The life cycle of an operation: the edges its state may take, by its mode.\<close>

fun op_edge :: "operation_mode \<Rightarrow> operation_state \<Rightarrow> operation_state \<Rightarrow> bool" where
  "op_edge m OpPending OpApproved = (m = BlockingApproval)"
| "op_edge m OpPending OpCommitting = (m = DeferredCommit)"
| "op_edge m OpPending OpRejected = True"
| "op_edge m OpPending OpCancelled = True"
| "op_edge m OpPending OpExpired = True"
| "op_edge m OpApproved OpCommitted = True"
| "op_edge m OpApproved (OpFailed e) = True"
| "op_edge m OpApproved OpCancelled = True"
| "op_edge m OpCommitting OpCommitted = True"
| "op_edge m OpCommitting (OpFailed e) = True"
| "op_edge m _ _ = False"

lemma op_edge_not_terminal: "op_edge m a b \<Longrightarrow> \<not> op_is_terminal a"
  by (cases "(m, a, b)" rule: op_edge.cases) simp_all

definition decision_kept :: "operation_record \<Rightarrow> operation_record \<Rightarrow> bool" where
  "decision_kept a b = (rec_decision b = rec_decision a \<or> rec_state a = OpPending)"

definition record_evolves :: "operation_record \<Rightarrow> operation_record \<Rightarrow> bool" where
  "record_evolves a b =
     (b = a \<or> rec_operation b = rec_operation a \<and> rec_notify b = rec_notify a \<and> decision_kept a b
        \<and> op_edge (op_mode (rec_operation a)) (rec_state a) (rec_state b))"

text \<open>What a section does to each operation: it evolves along the life cycle, it appears as
  pending, or it is removed; one that leaves \<open>OpPending\<close> has its handle notified.\<close>

lemma section_effect:
  assumes "section_of c s = Inr (hs, t)"
  shows "case (ops_get s i, ops_get t i) of
      (Some a, Some b) \<Rightarrow> record_evolves a b
        \<and> (rec_state a = OpPending \<longrightarrow> rec_state b = OpPending \<or> rec_notify a \<in> set hs)
    | (None, Some b) \<Rightarrow> rec_state b = OpPending \<and> rec_decision b = None \<and> rec_notify b = ops_next s
    | (Some a, None) \<Rightarrow> rec_notify a \<in> set hs \<and> (\<exists>run. c = CallRemove run i)
    | (None, None) \<Rightarrow> True"
proof (cases c)
  case (CallRegister now p)
  with assms show ?thesis
    by (cases "ops_get s i")
      (auto simp: register_section_def res_bind_Inr_iff record_evolves_def split: if_splits)
next
  case (CallResolve run j d)
  with assms show ?thesis
    by (cases "ops_get s i"; cases "op_mode (rec_operation (the (ops_get s j)))")
      (auto simp: resolve_section_def res_bind_Inr_iff record_evolves_def decision_kept_def
        split: if_splits)
next
  case (CallBeginCommit run j)
  with assms show ?thesis
    by (cases "ops_get s i")
      (auto simp: begin_commit_section_def res_bind_Inr_iff record_evolves_def decision_kept_def
        split: if_splits)
next
  case (CallFinishBlocking run j x)
  with assms show ?thesis
    by (cases "ops_get s i"; cases x)
      (auto simp: finish_blocking_section_def res_bind_Inr_iff record_evolves_def decision_kept_def
        split: if_splits)
next
  case (CallFinishCommit run j x)
  with assms show ?thesis
    by (cases "ops_get s i"; cases x)
      (auto simp: finish_commit_section_def res_bind_Inr_iff record_evolves_def decision_kept_def
        split: if_splits)
next
  case (CallCancelRun run)
  let ?s = "s\<lparr>ops_terminal_runs := insert run (ops_terminal_runs s)\<rparr>"
  from CallCancelRun assms have sw: "(hs, t) = sweep (cancellable run) OpCancelled ?s"
    by (auto simp: cancel_run_section_def res_bind_Inr_iff)
  then have t: "t = snd (sweep (cancellable run) OpCancelled ?s)"
    and hs: "hs = fst (sweep (cancellable run) OpCancelled ?s)" by (metis snd_conv, metis fst_conv)
  show ?thesis
  proof (cases "ops_get s i")
    case None
    then show ?thesis by (simp add: t)
  next
    case (Some a)
    then have "cancellable run a \<Longrightarrow> rec_notify a \<in> set hs"
      unfolding hs by (intro sweep_handles) simp_all
    with Some show ?thesis
      by (auto simp: t record_evolves_def decision_kept_def cancellable_def)
  qed
next
  case (CallExpire now)
  from CallExpire assms have sw: "(hs, t) = sweep (expirable now) OpExpired s"
    by (auto simp: expire_section_def res_bind_Inr_iff)
  then have t: "t = snd (sweep (expirable now) OpExpired s)"
    and hs: "hs = fst (sweep (expirable now) OpExpired s)" by (metis snd_conv, metis fst_conv)
  show ?thesis
  proof (cases "ops_get s i")
    case None
    then show ?thesis by (simp add: t)
  next
    case (Some a)
    then have "expirable now a \<Longrightarrow> rec_notify a \<in> set hs"
      unfolding hs by (intro sweep_handles) simp_all
    with Some show ?thesis
      by (auto simp: t record_evolves_def decision_kept_def expirable_def)
  qed
next
  case (CallRemove run j)
  with assms show ?thesis
    by (cases "ops_get s i") (auto simp: remove_section_def res_bind_Inr_iff record_evolves_def)
qed

lemma op_do_cases:
  obtains (failed) e where "section_of c s = Inl e" "op_do c s = s"
  | (changed) hs t where "section_of c s = Inr (hs, t)" "op_do c s = notify_all hs t"
  by (cases "section_of c s") (auto simp: op_do_def run_section_def split: prod.splits)

lemma op_do_effect:
  "case (ops_get s i, ops_get (op_do c s) i) of
      (Some a, Some b) \<Rightarrow> record_evolves a b
    | (None, Some b) \<Rightarrow> rec_state b = OpPending \<and> rec_decision b = None
    | (Some a, None) \<Rightarrow> \<exists>run. c = CallRemove run i
    | (None, None) \<Rightarrow> True"
proof (cases rule: op_do_cases [of c s])
  case (failed e)
  then show ?thesis by (auto simp: record_evolves_def split: option.split)
next
  case (changed hs t)
  show ?thesis using section_effect [OF changed(1), of i] changed(2) by (auto split: option.splits)
qed

lemma record_evolves_terminal:
  "record_evolves a b \<Longrightarrow> op_is_terminal (rec_state a) \<Longrightarrow> b = a"
  by (auto simp: record_evolves_def dest: op_edge_not_terminal)

text \<open>
  C9. The life cycle of an operation. Every call of the store, failed ones included,
  leaves each operation as it was, or moves its state along an edge of the life cycle of its
  mode (an approval only for blocking operations, committing only for deferred ones) without
  changing the operation or an earlier decision, or removes it by \<open>remove\<close>; a new operation
  starts pending.
\<close>

theorem operation_lifecycle:
  "case (ops_get s i, ops_get (op_do c s) i) of
      (Some a, Some b) \<Rightarrow> b = a \<or> rec_operation b = rec_operation a
        \<and> op_edge (op_mode (rec_operation a)) (rec_state a) (rec_state b)
        \<and> (rec_decision b = rec_decision a \<or> rec_state a = OpPending)
    | (None, Some b) \<Rightarrow> rec_state b = OpPending \<and> rec_decision b = None
    | (Some a, None) \<Rightarrow> \<exists>run. c = CallRemove run i
    | (None, None) \<Rightarrow> True"
  using op_do_effect [where s = s and i = i and c = c]
  by (auto simp: record_evolves_def decision_kept_def split: option.splits)

lemma op_history_terminal:
  "ops_get s i = Some a \<Longrightarrow> op_is_terminal (rec_state a) \<Longrightarrow>
   \<forall>run. CallRemove run i \<notin> set cs \<Longrightarrow> ops_get (op_history cs s) i = Some a"
proof (induction cs arbitrary: s)
  case Nil
  then show ?case by (simp add: op_history_def)
next
  case (Cons c cs)
  have "ops_get (op_do c s) i = Some a"
    using op_do_effect [where s = s and i = i and c = c] Cons.prems
    by (auto split: option.splits dest: record_evolves_terminal)
  with Cons show ?case by (auto simp: op_history_def)
qed

text \<open>
  A terminal operation is final: whatever calls follow, unless one removes it, the record
  of an operation that was rejected, committed, failed, cancelled or expired never changes.
\<close>

theorem terminal_operation_is_final:
  assumes "ops_get s i = Some a" "op_is_terminal (rec_state a)"
    and "\<forall>run. CallRemove run i \<notin> set cs"
  shows "ops_get (op_history cs s) i = Some a"
  by (rule op_history_terminal [OF assms])

subsection \<open>The invariant\<close>

fun decision_fits :: "operation_state \<Rightarrow> operation_decision option \<Rightarrow> bool" where
  "decision_fits OpPending d = (d = None)"
| "decision_fits OpApproved d = (\<exists>x. d = Some (Approve x))"
| "decision_fits OpRejected d = (\<exists>x. d = Some (Reject x))"
| "decision_fits OpCommitting d = (d = None)"
| "decision_fits _ d = True"

definition record_ok :: "operation_store \<Rightarrow> operation_id \<Rightarrow> operation_record \<Rightarrow> bool" where
  "record_ok s i r =
     (op_id (rec_operation r) = i \<and> rec_notify r < ops_next s \<and>
      decision_fits (rec_state r) (rec_decision r) \<and>
      (op_run_id (rec_operation r) \<in> ops_terminal_runs s \<longrightarrow> rec_state r \<notin> {OpPending, OpApproved}))"

definition ops_ok :: "operation_store \<Rightarrow> bool" where
  "ops_ok s = (\<forall>i r. ops_get s i = Some r \<longrightarrow> record_ok s i r)"

lemma ops_ok_new: "ops_ok ops_new"
  by (simp add: ops_ok_def ops_new_def ops_get_def)

lemma ops_okD: "ops_ok s \<Longrightarrow> ops_get s i = Some r \<Longrightarrow> record_ok s i r"
  by (simp add: ops_ok_def)

text \<open>A change of one record keeps the invariant when the new record satisfies it.\<close>

lemma ops_ok_put:
  "ops_ok s \<Longrightarrow> record_ok s i r \<Longrightarrow> ops_ok (ops_put i r s)"
  by (simp add: ops_ok_def record_ok_def)

lemma section_terminal_runs:
  "section_of c s = Inr (hs, t) \<Longrightarrow> ops_terminal_runs s \<subseteq> ops_terminal_runs t"
  "section_of c s = Inr (hs, t) \<Longrightarrow> ops_poisoned t = ops_poisoned s"
  "section_of c s = Inr (hs, t) \<Longrightarrow> ops_wakes t = ops_wakes s"
  "section_of c s = Inr (hs, t) \<Longrightarrow> ops_next s \<le> ops_next t"
  by (cases c;
      force simp: section_defs res_bind_Inr_iff sweep_def split: if_splits)+

lemma outcome_state_ok [simp]:
  "outcome_state x \<noteq> OpPending" "outcome_state x \<noteq> OpApproved"
  "decision_fits (outcome_state x) d"
  by (cases x; simp)+

lemma section_ok:
  assumes ok: "ops_ok s" and sec: "section_of c s = Inr (hs, t)"
  shows "ops_ok t"
proof (cases c)
  case (CallRegister now p)
  with assms show ?thesis
    by (auto simp: register_section_def res_bind_Inr_iff ops_ok_def record_ok_def less_SucI
        split: if_splits)
next
  case (CallResolve run i d)
  with sec obtain r where r: "ops_get s i = Some r" "run \<notin> ops_terminal_runs s"
    "op_run_id (rec_operation r) = run"
    and t: "t = ops_put i (r\<lparr>rec_state := (if is_approve d then OpApproved else OpRejected),
      rec_decision := Some d\<rparr>) s"
    by (auto simp: resolve_section_def res_bind_Inr_iff split: if_splits)
  show ?thesis unfolding t
    using ops_okD [OF ok r(1)] r(2,3)
    by (intro ops_ok_put [OF ok]) (cases d; auto simp: record_ok_def)
next
  case (CallBeginCommit run i)
  with sec obtain r where r: "ops_get s i = Some r" "rec_state r = OpPending"
    and t: "t = ops_put i (r\<lparr>rec_state := OpCommitting\<rparr>) s"
    by (auto simp: begin_commit_section_def res_bind_Inr_iff split: if_splits)
  show ?thesis unfolding t
    using ops_okD [OF ok r(1)] r(2) by (intro ops_ok_put [OF ok]) (auto simp: record_ok_def)
next
  case (CallFinishBlocking run i x)
  then show ?thesis using sec ops_okD [OF ok]
    by (auto simp: finish_blocking_section_def res_bind_Inr_iff record_ok_def split: if_splits
        intro!: ops_ok_put [OF ok])
next
  case (CallFinishCommit run i x)
  then show ?thesis using sec ops_okD [OF ok]
    by (auto simp: finish_commit_section_def res_bind_Inr_iff record_ok_def split: if_splits
        intro!: ops_ok_put [OF ok])
next
  case (CallCancelRun run)
  let ?s = "s\<lparr>ops_terminal_runs := insert run (ops_terminal_runs s)\<rparr>"
  from CallCancelRun sec have t: "t = snd (sweep (cancellable run) OpCancelled ?s)"
    by (auto simp: cancel_run_section_def res_bind_Inr_iff; metis snd_conv)
  show ?thesis unfolding ops_ok_def
  proof (intro allI impI)
    fix i r assume "ops_get t i = Some r"
    then obtain z where z: "ops_get s i = Some z"
      and r: "r = (if cancellable run z then z\<lparr>rec_state := OpCancelled\<rparr> else z)" by (auto simp: t)
    from ops_okD [OF ok z] show "record_ok t i r"
      by (cases "cancellable run z") (auto simp: r t record_ok_def cancellable_def)
  qed
next
  case (CallExpire now)
  with sec have t: "t = snd (sweep (expirable now) OpExpired s)"
    by (auto simp: expire_section_def res_bind_Inr_iff; metis snd_conv)
  show ?thesis unfolding ops_ok_def
  proof (intro allI impI)
    fix i r assume "ops_get t i = Some r"
    then obtain z where z: "ops_get s i = Some z"
      and r: "r = (if expirable now z then z\<lparr>rec_state := OpExpired\<rparr> else z)" by (auto simp: t)
    from ops_okD [OF ok z] show "record_ok t i r"
      by (cases "expirable now z") (auto simp: r t record_ok_def expirable_def)
  qed
next
  case (CallRemove run i)
  with assms show ?thesis
    by (auto simp: remove_section_def res_bind_Inr_iff ops_ok_def record_ok_def split: if_splits)
qed

lemma ops_ok_notify [simp]: "ops_ok (notify_all hs s) = ops_ok s"
  by (simp add: ops_ok_def record_ok_def)

lemma op_do_ok: "ops_ok s \<Longrightarrow> ops_ok (op_do c s)"
  by (cases rule: op_do_cases [of c s]) (auto dest: section_ok)

lemma op_do_terminal_runs: "ops_terminal_runs s \<subseteq> ops_terminal_runs (op_do c s)"
  by (cases rule: op_do_cases [of c s]) (auto dest: section_terminal_runs)

lemma op_do_poisoned [simp]: "ops_poisoned (op_do c s) = ops_poisoned s"
  by (cases rule: op_do_cases [of c s]) (auto dest: section_terminal_runs)

lemma op_history_ok: "ops_ok s \<Longrightarrow> ops_ok (op_history cs s)"
  by (induction cs arbitrary: s) (auto simp: op_history_def op_do_ok)

lemma op_history_terminal_runs: "ops_terminal_runs s \<subseteq> ops_terminal_runs (op_history cs s)"
proof (induction cs arbitrary: s)
  case Nil
  then show ?case by (simp add: op_history_def)
next
  case (Cons c cs)
  show ?case using op_do_terminal_runs [of s c] Cons.IH [of "op_do c s"]
    by (auto simp: op_history_def)
qed

lemma op_history_poisoned [simp]: "ops_poisoned (op_history cs s) = ops_poisoned s"
  by (induction cs arbitrary: s) (auto simp: op_history_def)

lemma op_history_append: "op_history (as @ bs) s = op_history bs (op_history as s)"
  by (simp add: op_history_def)

lemma op_do_cancel_terminal:
  "\<not> ops_poisoned s \<Longrightarrow> run \<in> ops_terminal_runs (op_do (CallCancelRun run) s)"
  by (simp add: op_do_def run_section_def cancel_run_section_def ops_lock_def split: prod.split)
    (metis snd_conv sweep_fields(1) insertI1 operation_store.select_convs(2)
      operation_store.surjective operation_store.update_convs(2))

text \<open>
  Cancelling a run settles its operations for good. After any history of calls, once
  \<open>cancel_run\<close> (or \<open>mark_run_terminal\<close>, which is the same) has run for a run, then whatever calls
  follow, no operation of that run is pending or approved: each is settled, or is a deferred
  effect that had begun to commit before.
\<close>

theorem cancelled_run_stays_settled:
  assumes "ops_get (op_history (before @ CallCancelRun run # after) ops_new) i = Some r"
    and "op_run_id (rec_operation r) = run"
  shows "op_is_terminal (rec_state r) \<or> rec_state r = OpCommitting"
proof -
  let ?s = "op_history before ops_new"
  let ?t = "op_do (CallCancelRun run) ?s"
  have eq: "op_history (before @ CallCancelRun run # after) ops_new = op_history after ?t"
    by (simp add: op_history_def)
  have "\<not> ops_poisoned ?s" by (simp add: ops_new_def)
  then have "run \<in> ops_terminal_runs (op_history after ?t)"
    using op_do_cancel_terminal op_history_terminal_runs by blast
  moreover have "ops_ok (op_history after ?t)"
    by (intro op_history_ok op_do_ok ops_ok_new)
  ultimately have "rec_state r \<notin> {OpPending, OpApproved}"
    using assms unfolding eq by (auto simp: record_ok_def dest: ops_okD)
  then show ?thesis by (cases "rec_state r") auto
qed

text \<open>
  A wait never answers without a decision. After any history of calls, a look at a pending
  operation of the right run and mode blocks, at an approved blocking operation it returns the
  approval, at a rejected one the rejection, at a deferred operation that is committing it
  returns an approval: the error \<open>InvalidState\<close> is left for operations that were already
  finished, and a look never finds a decision missing.
\<close>

theorem wait_reports_the_decision:
  assumes "ops_get (op_history cs ops_new) i = Some r"
    and "op_run_id (rec_operation r) = run"
  shows "case (op_mode (rec_operation r), rec_state r) of
      (BlockingApproval, OpPending) \<Rightarrow>
        (\<exists>n. wait_look run i (op_history cs ops_new) = Blocked (rec_notify r) n)
    | (BlockingApproval, OpApproved) \<Rightarrow>
        (\<exists>x. wait_look run i (op_history cs ops_new) = Ready (Inr (Approve x)))
    | (BlockingApproval, OpRejected) \<Rightarrow>
        (\<exists>x. wait_look run i (op_history cs ops_new) = Ready (Inr (Reject x)))
    | (BlockingApproval, _) \<Rightarrow> (\<exists>e. wait_look run i (op_history cs ops_new) = Ready (Inl e))
    | (DeferredCommit, OpPending) \<Rightarrow>
        (\<exists>n. wait_for_commit_look run i (op_history cs ops_new) = Blocked (rec_notify r) n)
    | (DeferredCommit, OpCommitting) \<Rightarrow>
        wait_for_commit_look run i (op_history cs ops_new) = Ready (Inr (Approve None))
    | (DeferredCommit, OpRejected) \<Rightarrow>
        (\<exists>x. wait_for_commit_look run i (op_history cs ops_new) = Ready (Inr (Reject x)))
    | (DeferredCommit, _) \<Rightarrow>
        (\<exists>e. wait_for_commit_look run i (op_history cs ops_new) = Ready (Inl e))"
proof -
  let ?s = "op_history cs ops_new"
  have fits: "decision_fits (rec_state r) (rec_decision r)"
    using ops_okD [OF op_history_ok [OF ops_ok_new] assms(1)] by (simp add: record_ok_def)
  have rec: "res_bind (ops_lock ?s) (\<lambda>s. record_for_run s run i) = Inr r"
    using assms by (simp add: ops_lock_def ops_new_def)
  show ?thesis
    using fits rec
    by (cases "op_mode (rec_operation r)"; cases "rec_state r")
      (auto simp: wait_look_def wait_for_commit_look_def look_with_def)
qed

section \<open>Waiters, sections and notifications, interleaved\<close>

text \<open>
  The loop of a waiter is a look, then an await of the \<open>Notified\<close> future it created, then the
  next look. Sections and their notifications are separate steps: the handles of a section
  stay in \<open>osys_due\<close> until their \<open>notify_waiters\<close> is called.
\<close>

datatype op_waiter =
    Looking operation_mode run_id operation_id
  | Awaiting operation_mode run_id operation_id nat nat
  | Answered "operation_error + operation_decision"

record op_system =
  osys_store :: operation_store
  osys_due :: "nat list"
  osys_waiter :: "nat \<Rightarrow> op_waiter"

fun look_in :: "operation_mode \<Rightarrow> run_id \<Rightarrow> operation_id \<Rightarrow> operation_store \<Rightarrow> look" where
  "look_in BlockingApproval run i s = wait_look run i s"
| "look_in DeferredCommit run i s = wait_for_commit_look run i s"

fun op_waiter_step :: "operation_store \<Rightarrow> op_waiter \<Rightarrow> op_waiter" where
  "op_waiter_step s (Looking m run i) =
     (case look_in m run i s of Ready x \<Rightarrow> Answered x | Blocked h n \<Rightarrow> Awaiting m run i h n)"
| "op_waiter_step s (Awaiting m run i h n) =
     (if n < ops_wakes s h then Looking m run i else Awaiting m run i h n)"
| "op_waiter_step s (Answered x) = Answered x"

inductive op_sys_step :: "op_system \<Rightarrow> op_system \<Rightarrow> bool" where
  osys_section: "section_of c (osys_store s) = Inr (hs, t) \<Longrightarrow>
     op_sys_step s (s\<lparr>osys_store := t, osys_due := hs @ osys_due s\<rparr>)"
| osys_notify: "h \<in> set (osys_due s) \<Longrightarrow>
     op_sys_step s (s\<lparr>osys_store := notify_one h (osys_store s), osys_due := remove1 h (osys_due s)\<rparr>)"
| osys_waiter: "op_sys_step s
     (s\<lparr>osys_waiter := (osys_waiter s)(k := op_waiter_step (osys_store s) (osys_waiter s k))\<rparr>)"
| osys_new_wait: "op_sys_step s (s\<lparr>osys_waiter := (osys_waiter s)(k := Looking m run i)\<rparr>)"

definition op_sys_init :: op_system where
  "op_sys_init = \<lparr>osys_store = ops_new, osys_due = [],
     osys_waiter = (\<lambda>_. Answered (Inl OpUnknownOperation))\<rparr>"

definition still_pending :: "operation_store \<Rightarrow> operation_id \<Rightarrow> nat \<Rightarrow> bool" where
  "still_pending s i h = (\<exists>r. ops_get s i = Some r \<and> rec_state r = OpPending \<and> rec_notify r = h)"

definition waiter_ok :: "op_system \<Rightarrow> op_waiter \<Rightarrow> bool" where
  "waiter_ok s w = (case w of
      Awaiting m run i h n \<Rightarrow>
        n \<le> ops_wakes (osys_store s) h \<and>
        (n < ops_wakes (osys_store s) h \<or> h \<in> set (osys_due s) \<or> still_pending (osys_store s) i h)
    | _ \<Rightarrow> True)"

definition op_sys_ok :: "op_system \<Rightarrow> bool" where
  "op_sys_ok s = (\<forall>k. waiter_ok s (osys_waiter s k))"

lemma look_Blocked:
  assumes "look_in m run i s = Blocked h n"
  shows "still_pending s i h \<and> n = ops_wakes s h"
proof -
  have "blocking_result st d = None \<Longrightarrow> st = OpPending"
    "deferred_result st d = None \<Longrightarrow> st = OpPending" for st d by (cases st; simp)+
  with assms show ?thesis
    by (cases m) (fastforce simp: wait_look_def wait_for_commit_look_def look_with_def
        still_pending_def res_bind_Inr_iff split: sum.splits if_splits option.splits)+
qed

lemma section_still_pending:
  assumes "section_of c s = Inr (hs, t)" "still_pending s i h"
  shows "still_pending t i h \<or> h \<in> set hs"
  using section_effect [OF assms(1), of i] assms(2)
  by (auto simp: still_pending_def record_evolves_def split: option.splits)

lemma notify_one_wakes:
  "ops_wakes (notify_one h s) g = (if g = h then Suc (ops_wakes s h) else ops_wakes s g)"
  by (simp add: notify_one_def)

lemma waiter_ok_frame [simp]: "waiter_ok (s\<lparr>osys_waiter := f\<rparr>) w = waiter_ok s w"
  by (simp add: waiter_ok_def split: op_waiter.splits)

lemma op_sys_ok_step: "op_sys_step s t \<Longrightarrow> op_sys_ok s \<Longrightarrow> op_sys_ok t"
proof (induction rule: op_sys_step.induct)
  case (osys_section c s hs t)
  show ?case unfolding op_sys_ok_def
  proof
    fix k
    from osys_section have "waiter_ok s (osys_waiter s k)" by (simp add: op_sys_ok_def)
    with osys_section(1)
    show "waiter_ok (s\<lparr>osys_store := t, osys_due := hs @ osys_due s\<rparr>)
        (osys_waiter (s\<lparr>osys_store := t, osys_due := hs @ osys_due s\<rparr>) k)"
      by (auto simp: waiter_ok_def section_terminal_runs split: op_waiter.splits
          dest: section_still_pending)
  qed
next
  case (osys_notify h s)
  show ?case unfolding op_sys_ok_def
  proof
    fix k
    from osys_notify have "waiter_ok s (osys_waiter s k)" by (simp add: op_sys_ok_def)
    moreover have "still_pending (notify_one h (osys_store s)) i j
        = still_pending (osys_store s) i j" for i j
      by (simp add: still_pending_def notify_one_def)
    moreover have "g \<in> set (osys_due s) \<Longrightarrow> g = h \<or> g \<in> set (remove1 h (osys_due s))" for g
      by (metis in_set_remove1)
    ultimately
    show "waiter_ok (s\<lparr>osys_store := notify_one h (osys_store s), osys_due := remove1 h (osys_due s)\<rparr>)
      (osys_waiter (s\<lparr>osys_store := notify_one h (osys_store s), osys_due := remove1 h (osys_due s)\<rparr>) k)"
      by (auto simp: waiter_ok_def notify_one_wakes split: op_waiter.splits)
  qed
next
  case (osys_waiter s k)
  have "waiter_ok s w \<Longrightarrow> waiter_ok s (op_waiter_step (osys_store s) w)" for w
    by (cases w) (auto simp: waiter_ok_def split: look.splits dest: look_Blocked)
  then show ?case using osys_waiter by (simp add: op_sys_ok_def)
next
  case (osys_new_wait s k m run i)
  then show ?case by (simp add: op_sys_ok_def) (simp add: waiter_ok_def)
qed

lemma op_sys_reachable: "op_sys_step\<^sup>*\<^sup>* op_sys_init s \<Longrightarrow> op_sys_ok s"
proof (induction rule: rtranclp_induct)
  case base
  show ?case by (simp add: op_sys_ok_def waiter_ok_def op_sys_init_def)
next
  case (step s t)
  then show ?case using op_sys_ok_step by blast
qed

text \<open>
  C7. No wake-up of a waiter is lost. In every interleaving of the store's sections, of their
  notifications and of any number of waiters: when no notification is outstanding, a waiter that
  awaits an operation that is no longer pending (it was decided, began to commit, was
  cancelled, expired or removed) is woken, and answers after two steps of its own.
\<close>

theorem operation_wakeup_never_lost:
  assumes "op_sys_step\<^sup>*\<^sup>* op_sys_init s"
    and "osys_due s = []"
    and "osys_waiter s k = Awaiting m run i h n"
    and "\<forall>r. ops_get (osys_store s) i = Some r \<longrightarrow> rec_state r \<noteq> OpPending"
  shows "\<exists>x. op_waiter_step (osys_store s) (op_waiter_step (osys_store s) (osys_waiter s k)) = Answered x"
proof -
  from op_sys_reachable [OF assms(1)] assms(2-)
  have "n < ops_wakes (osys_store s) h"
    by (fastforce simp: op_sys_ok_def waiter_ok_def still_pending_def split: op_waiter.splits)
  then have "op_waiter_step (osys_store s) (osys_waiter s k) = Looking m run i"
    using assms(3) by simp
  moreover have "\<exists>x. look_in m run i (osys_store s) = Ready x"
    using look_Blocked [of m run i "osys_store s"] assms(4)
    by (cases "look_in m run i (osys_store s)") (auto simp: still_pending_def)
  ultimately show ?thesis by auto
qed

section \<open>Exactness of the sweeps\<close>

definition ops_distinct :: "operation_store \<Rightarrow> bool" where
  "ops_distinct s = distinct (map fst (ops_operations s))"

lemma section_distinct:
  "section_of c s = Inr (hs, t) \<Longrightarrow> ops_distinct s \<Longrightarrow> ops_distinct t"
  by (cases c) (auto simp: section_defs res_bind_Inr_iff sweep_def ops_put_def ops_distinct_def
      distinct_delete split: if_splits)

lemma op_history_distinct: "ops_distinct s \<Longrightarrow> ops_distinct (op_history cs s)"
proof (induction cs arbitrary: s)
  case Nil
  then show ?case by (simp add: op_history_def)
next
  case (Cons c cs)
  have "ops_distinct (op_do c s)"
    by (cases rule: op_do_cases [of c s])
      (use Cons.prems section_distinct in \<open>auto simp: ops_distinct_def\<close>)
  with Cons.IH show ?case by (simp add: op_history_def)
qed

lemma count_matching:
  assumes "distinct (map fst al)"
  shows "length (filter P (map snd al)) = card {i. \<exists>r. map_of al i = Some r \<and> P r}"
proof -
  have "length (filter P (map snd al)) = length (map fst (filter (P \<circ> snd) al))"
    by (simp add: filter_map)
  also have "\<dots> = card (set (map fst (filter (P \<circ> snd) al)))"
    using assms by (subst distinct_card) (auto intro: distinct_map_filter simp: distinct_map
        inj_on_def)
  also have "set (map fst (filter (P \<circ> snd) al)) = {i. \<exists>r. map_of al i = Some r \<and> P r}"
    using assms by (force simp: map_of_eq_Some_iff)
  finally show ?thesis .
qed

text \<open>
  Cancelling and expiring are exact. On the store any history of calls leads to,
  \<open>cancel_run\<close> returns the number of pending or approved operations of the run, and \<open>expire\<close>
  the number of pending operations whose deadline has come; these and no others change, in
  their state only.
\<close>

theorem sweeps_are_exact:
  "let s = op_history cs ops_new in
    fst (op_cancel_run run s) = Inr (card {i. \<exists>r. ops_get s i = Some r \<and> cancellable run r})
    \<and> fst (op_expire now s) = Inr (card {i. \<exists>r. ops_get s i = Some r \<and> expirable now r})
    \<and> ops_get (snd (op_cancel_run run s)) i
        = map_option (\<lambda>r. if cancellable run r then r\<lparr>rec_state := OpCancelled\<rparr> else r) (ops_get s i)
    \<and> ops_get (snd (op_expire now s)) i
        = map_option (\<lambda>r. if expirable now r then r\<lparr>rec_state := OpExpired\<rparr> else r) (ops_get s i)"
proof -
  let ?st = "op_history cs ops_new"
  define s where "s = ?st"
  have d: "distinct (map fst (ops_operations s))"
    using op_history_distinct [of ops_new cs] by (simp add: s_def ops_distinct_def ops_new_def)
  have p: "\<not> ops_poisoned s" by (simp add: s_def ops_new_def)
  let ?s = "s\<lparr>ops_terminal_runs := insert run (ops_terminal_runs s)\<rparr>"
  obtain hs t where c: "sweep (cancellable run) OpCancelled ?s = (hs, t)" by (metis surj_pair)
  obtain gs u where e: "sweep (expirable now) OpExpired s = (gs, u)" by (metis surj_pair)
  have "length hs = card {i. \<exists>r. ops_get s i = Some r \<and> cancellable run r}"
    using c count_matching [OF d, of "cancellable run"] by (auto simp: sweep_def ops_get_def)
  moreover have "length gs = card {i. \<exists>r. ops_get s i = Some r \<and> expirable now r}"
    using e count_matching [OF d, of "expirable now"] by (auto simp: sweep_def ops_get_def)
  moreover have "ops_get t i = map_option
      (\<lambda>r. if cancellable run r then r\<lparr>rec_state := OpCancelled\<rparr> else r) (ops_get s i)"
    using sweep_get [of "cancellable run" OpCancelled ?s i] c by simp
  moreover have "ops_get u i = map_option
      (\<lambda>r. if expirable now r then r\<lparr>rec_state := OpExpired\<rparr> else r) (ops_get s i)"
    using sweep_get [of "expirable now" OpExpired s i] e by simp
  ultimately show ?thesis
    unfolding Let_def s_def [symmetric]
    using p c e by (simp add: op_cancel_run_def op_expire_def run_section_def
        cancel_run_section_def expire_section_def ops_lock_def)
qed

section \<open>Concrete instances\<close>

definition sample_run :: run_id where
  "sample_run = RunId 1"

definition sample_operation :: operation_id where
  "sample_operation = OperationId 7"

definition sample_pending :: "operation_mode \<Rightarrow> pending_operation" where
  "sample_pending m =
     \<lparr>op_id = sample_operation, op_run_id = sample_run, op_invocation_id = None, op_effect = FsWrite,
      op_mode = m, op_summary = ''write a file'', op_payload = JNull, op_deadline = Some 10\<rparr>"

lemmas sample_simps =
  op_history_def op_do_def run_section_def notify_all_def notify_one_def ops_lock_def
  res_bind_def ok_or_def ops_get_def ops_put_def ops_new_def record_for_run_def past_deadline_def
  sample_pending_def sample_run_def sample_operation_def section_defs sweep_def map_values_def
  cancellable_def expirable_def

lemma sample_rejected:
  "ops_get (op_history [CallRegister 3 (sample_pending DeferredCommit),
      CallResolve sample_run sample_operation (Reject None)] ops_new) sample_operation
   = Some \<lparr>rec_operation = sample_pending DeferredCommit, rec_state = OpRejected,
           rec_decision = Some (Reject None), rec_notify = 0\<rparr>"
  by (simp add: sample_simps)

theorem terminal_operation_is_final_witness:
  "ops_get (op_history [CallCancelRun sample_run, CallExpire 20]
     (op_history [CallRegister 3 (sample_pending DeferredCommit),
        CallResolve sample_run sample_operation (Reject None)] ops_new)) sample_operation
   = Some \<lparr>rec_operation = sample_pending DeferredCommit, rec_state = OpRejected,
           rec_decision = Some (Reject None), rec_notify = 0\<rparr>"
  by (rule terminal_operation_is_final [OF sample_rejected]) simp_all

theorem cancelled_run_stays_settled_witness:
  "op_is_terminal OpCancelled \<or> OpCancelled = OpCommitting"
proof -
  have "ops_get (op_history ([CallRegister 3 (sample_pending BlockingApproval)]
      @ CallCancelRun sample_run # [CallExpire 20]) ops_new) sample_operation
    = Some \<lparr>rec_operation = sample_pending BlockingApproval, rec_state = OpCancelled,
            rec_decision = None, rec_notify = 0\<rparr>"
    by (simp add: sample_simps)
  from cancelled_run_stays_settled [OF this]
  show ?thesis by (simp add: sample_pending_def sample_run_def)
qed

theorem wait_reports_the_decision_witness:
  "\<exists>x. wait_for_commit_look sample_run sample_operation
     (op_history [CallRegister 3 (sample_pending DeferredCommit),
        CallResolve sample_run sample_operation (Reject None)] ops_new) = Ready (Inr (Reject x))"
  using wait_reports_the_decision [OF sample_rejected, of sample_run]
  by (simp add: sample_pending_def)

lemma sample_wait_reachable:
  "\<exists>s. op_sys_step\<^sup>*\<^sup>* op_sys_init s \<and> osys_due s = []
     \<and> osys_waiter s 0 = Awaiting DeferredCommit sample_run sample_operation 0 0
     \<and> ops_get (osys_store s) sample_operation = None"
proof -
  let ?r = "\<lparr>rec_operation = sample_pending DeferredCommit, rec_state = OpPending,
              rec_decision = None, rec_notify = 0\<rparr>"
  let ?t = "\<lparr>ops_operations = [(sample_operation, ?r)], ops_terminal_runs = {},
              ops_poisoned = False, ops_next = 1, ops_wakes = (\<lambda>_. 0)\<rparr>"
  let ?u = "?t\<lparr>ops_operations := []\<rparr>"
  let ?w0 = "osys_waiter op_sys_init"
  let ?wl = "?w0(0 := Looking DeferredCommit sample_run sample_operation)"
  let ?wa = "?w0(0 := Awaiting DeferredCommit sample_run sample_operation 0 0)"
  let ?s1 = "\<lparr>osys_store = ?t, osys_due = [], osys_waiter = ?w0\<rparr>"
  let ?s2 = "\<lparr>osys_store = ?t, osys_due = [], osys_waiter = ?wl\<rparr>"
  let ?s3 = "\<lparr>osys_store = ?t, osys_due = [], osys_waiter = ?wa\<rparr>"
  let ?s4 = "\<lparr>osys_store = ?u, osys_due = [0], osys_waiter = ?wa\<rparr>"
  let ?s5 = "\<lparr>osys_store = notify_one 0 ?u, osys_due = [], osys_waiter = ?wa\<rparr>"
  have "op_sys_step op_sys_init ?s1"
    using osys_section [of "CallRegister 3 (sample_pending DeferredCommit)" op_sys_init "[]" ?t]
    by (simp add: op_sys_init_def sample_simps)
  moreover have "op_sys_step ?s1 ?s2"
    using osys_new_wait [of ?s1 0 DeferredCommit sample_run sample_operation] by simp
  moreover have "op_sys_step ?s2 ?s3"
    using osys_waiter [of ?s2 0]
    by (simp add: wait_for_commit_look_def look_with_def sample_simps)
  moreover have "op_sys_step ?s3 ?s4"
    using osys_section [of "CallRemove sample_run sample_operation" ?s3 "[0]" ?u]
    by (simp add: sample_simps)
  moreover have "op_sys_step ?s4 ?s5"
    using osys_notify [of 0 ?s4] by simp
  ultimately have "op_sys_step\<^sup>*\<^sup>* op_sys_init ?s5"
    by (meson rtranclp.rtrancl_into_rtrancl rtranclp.rtrancl_refl)
  then show ?thesis
    by (intro exI [of _ ?s5]) (simp add: ops_get_def notify_one_def)
qed

theorem operation_wakeup_never_lost_witness:
  "\<exists>s x. op_sys_step\<^sup>*\<^sup>* op_sys_init s
     \<and> osys_waiter s 0 = Awaiting DeferredCommit sample_run sample_operation 0 0
     \<and> op_waiter_step (osys_store s) (op_waiter_step (osys_store s) (osys_waiter s 0)) = Answered x"
proof -
  obtain s where s: "op_sys_step\<^sup>*\<^sup>* op_sys_init s" "osys_due s = []"
    "osys_waiter s 0 = Awaiting DeferredCommit sample_run sample_operation 0 0"
    "\<forall>r. ops_get (osys_store s) sample_operation = Some r \<longrightarrow> rec_state r \<noteq> OpPending"
    using sample_wait_reachable by auto
  from operation_wakeup_never_lost [OF s] s(1,3) show ?thesis by blast
qed

end
