(* ===== verification/Budget.thy ===== *)
theory Budget
  imports Core_Types
begin

text \<open>
  The loop budget of one run (\<open>budget.rs\<close> of \<open>aifluxon-runtime\<close>). The clock is an argument of the
  operations that read it; the theorems say how many calls a history of them grants.
\<close>

section \<open>The loop budget\<close>

datatype budget_kind =
  BkModelRounds | BkToolInvocations | BkWallTime | BkInputTokens | BkOutputTokens | BkReasoningTokens

record loop_budget =
  bud_max_model_rounds :: u32
  bud_max_tool_invocations :: u32
  bud_max_wall_time :: nat
  bud_max_input_tokens :: u64
  bud_max_output_tokens :: u64
  bud_max_reasoning_tokens :: u64
  bud_model_rounds :: u32
  bud_tool_invocations :: u32
  bud_input_tokens :: u64
  bud_output_tokens :: u64
  bud_reasoning_tokens :: u64
  bud_started_at :: nat

text \<open>Durations are nanoseconds; \<open>Duration::MAX\<close> is \<open>u64::MAX\<close> seconds and 999999999 ns.\<close>

definition duration_max :: nat where
  "duration_max = (2 ^ 64 - 1) * 10 ^ 9 + 999999999"

definition wall_time_30_minutes :: nat where
  "wall_time_30_minutes = 30 * 60 * 10 ^ 9"

definition elapsed :: "nat \<Rightarrow> nat \<Rightarrow> nat" where
  "elapsed now started = min (now - started) duration_max"

definition budget_from_run_limits :: "run_limits \<Rightarrow> nat \<Rightarrow> loop_budget" where
  "budget_from_run_limits limits now =
     \<lparr>bud_max_model_rounds = max_model_rounds limits,
      bud_max_tool_invocations = max_tool_invocations limits,
      bud_max_wall_time = (if is_unlimited limits then duration_max else wall_time_30_minutes),
      bud_max_input_tokens = - 1, bud_max_output_tokens = - 1, bud_max_reasoning_tokens = - 1,
      bud_model_rounds = 0, bud_tool_invocations = 0,
      bud_input_tokens = 0, bud_output_tokens = 0, bud_reasoning_tokens = 0,
      bud_started_at = now\<rparr>"

definition with_tool_round_limit :: "u32 \<Rightarrow> nat \<Rightarrow> loop_budget" where
  "with_tool_round_limit n now =
     budget_from_run_limits \<lparr>max_model_rounds = n, max_tool_invocations = n\<rparr> now"

definition default_agent_loop_budget :: "nat \<Rightarrow> loop_budget" where
  "default_agent_loop_budget now = with_tool_round_limit 64 now"

definition check_wall_time :: "nat \<Rightarrow> loop_budget \<Rightarrow> budget_kind + unit" where
  "check_wall_time now b =
     (if elapsed now (bud_started_at b) > bud_max_wall_time b then Inl BkWallTime else Inr ())"

definition budget_consume_model_round ::
    "nat \<Rightarrow> loop_budget \<Rightarrow> (budget_kind + unit) \<times> loop_budget" where
  "budget_consume_model_round now b =
     (if bud_max_model_rounds b \<noteq> - 1 \<and> bud_model_rounds b \<ge> bud_max_model_rounds b
      then (Inl BkModelRounds, b)
      else (let b' = b\<lparr>bud_model_rounds := saturating_add (bud_model_rounds b) 1\<rparr>
            in (check_wall_time now b', b')))"

definition budget_consume_tool_invocation ::
    "nat \<Rightarrow> loop_budget \<Rightarrow> (budget_kind + unit) \<times> loop_budget" where
  "budget_consume_tool_invocation now b =
     (if bud_max_tool_invocations b \<noteq> - 1 \<and> bud_tool_invocations b \<ge> bud_max_tool_invocations b
      then (Inl BkToolInvocations, b)
      else (let b' = b\<lparr>bud_tool_invocations := saturating_add (bud_tool_invocations b) 1\<rparr>
            in (check_wall_time now b', b')))"

definition budget_consume_tokens ::
    "nat \<Rightarrow> u64 \<Rightarrow> u64 \<Rightarrow> u64 \<Rightarrow> loop_budget \<Rightarrow> (budget_kind + unit) \<times> loop_budget" where
  "budget_consume_tokens now i out r b =
     (let b' = b\<lparr>bud_input_tokens := saturating_add (bud_input_tokens b) i,
                bud_output_tokens := saturating_add (bud_output_tokens b) out,
                bud_reasoning_tokens := saturating_add (bud_reasoning_tokens b) r\<rparr>
      in (if bud_input_tokens b' > bud_max_input_tokens b' then Inl BkInputTokens
          else if bud_output_tokens b' > bud_max_output_tokens b' then Inl BkOutputTokens
          else if bud_reasoning_tokens b' > bud_max_reasoning_tokens b' then Inl BkReasoningTokens
          else check_wall_time now b', b'))"

text \<open>The calls on one budget in the order they take its lock, each at a time of the clock.\<close>

datatype budget_call = CallModelRound | CallToolInvocation | CallTokens u64 u64 u64

fun budget_call_step :: "nat \<Rightarrow> budget_call \<Rightarrow> loop_budget \<Rightarrow> (budget_kind + unit) \<times> loop_budget"
  where
  "budget_call_step now CallModelRound b = budget_consume_model_round now b"
| "budget_call_step now CallToolInvocation b = budget_consume_tool_invocation now b"
| "budget_call_step now (CallTokens i out r) b = budget_consume_tokens now i out r b"

fun budget_run :: "(nat \<times> budget_call) list \<Rightarrow> loop_budget \<Rightarrow> (budget_kind + unit) list \<times> loop_budget"
  where
  "budget_run [] b = ([], b)"
| "budget_run ((now, c) # cs) b =
     (case budget_call_step now c b of (r, b') \<Rightarrow>
       (case budget_run cs b' of (rs, b'') \<Rightarrow> (r # rs, b'')))"

section \<open>Laws of the budget\<close>

lemmas budget_defs = budget_consume_model_round_def budget_consume_tool_invocation_def
  budget_consume_tokens_def check_wall_time_def Let_def

definition budget_limits_of :: "loop_budget \<Rightarrow> u32 \<times> u32 \<times> nat \<times> u64 \<times> u64 \<times> u64 \<times> nat" where
  "budget_limits_of b =
     (bud_max_model_rounds b, bud_max_tool_invocations b, bud_max_wall_time b,
      bud_max_input_tokens b, bud_max_output_tokens b, bud_max_reasoning_tokens b,
      bud_started_at b)"

lemma budget_call_step_limits:
  "budget_call_step now c b = (r, b') \<Longrightarrow> budget_limits_of b' = budget_limits_of b"
  by (cases c) (auto simp: budget_defs budget_limits_of_def split: if_splits)

lemma max_word_not_less [simp]: "\<not> (- 1 :: 'n::len word) < x"
proof -
  have "unat x < 2 ^ LENGTH('n)" by (rule unsigned_less)
  then show ?thesis unfolding word_less_nat_alt unat_max_word by linarith
qed

lemma elapsed_le_max: "elapsed now s \<le> duration_max"
  by (simp add: elapsed_def)

text \<open>Which operations can spend an allowance, and how far: the counter never passes its limit.\<close>

definition budget_ok :: "loop_budget \<Rightarrow> bool" where
  "budget_ok b =
     ((bud_max_model_rounds b = - 1 \<or> bud_model_rounds b \<le> bud_max_model_rounds b) \<and>
      (bud_max_tool_invocations b = - 1 \<or> bud_tool_invocations b \<le> bud_max_tool_invocations b))"

lemma saturating_add_one_le:
  "(a :: 'n::len word) < m \<Longrightarrow> saturating_add a 1 \<le> m"
  by (simp add: word_le_nat_alt word_less_nat_alt saturating_add_one)

lemma budget_call_step_ok:
  "budget_call_step now c b = (r, b') \<Longrightarrow> budget_ok b \<Longrightarrow> budget_ok b'"
  by (cases c)
     (auto simp: budget_defs budget_ok_def not_le split: if_splits
       dest: saturating_add_one_le [THEN leD])

lemma budget_ok_from_limits: "budget_ok (budget_from_run_limits l now)"
  by (simp add: budget_ok_def budget_from_run_limits_def)

text \<open>How many calls of a kind a history makes, and how many of them are accepted.\<close>

fun calls_of :: "budget_call \<Rightarrow> (nat \<times> budget_call) list \<Rightarrow> nat" where
  "calls_of c [] = 0"
| "calls_of c ((now, c') # cs) = (if c' = c then 1 else 0) + calls_of c cs"

fun accepted :: "budget_call \<Rightarrow> (nat \<times> budget_call) list \<Rightarrow> loop_budget \<Rightarrow> nat" where
  "accepted c [] b = 0"
| "accepted c ((now, c') # cs) b =
     (case budget_call_step now c' b of (r, b') \<Rightarrow>
       (if c' = c \<and> r = Inr () then 1 else 0) + accepted c cs b')"

text \<open>What is left of an allowance; \<open>u32::MAX\<close> stands for no limit.\<close>

definition allowance :: "u32 \<Rightarrow> u32 \<Rightarrow> nat \<Rightarrow> nat" where
  "allowance limit used wanted = (if limit = - 1 then wanted else min wanted (unat limit - unat used))"

definition in_time :: "(nat \<times> budget_call) list \<Rightarrow> loop_budget \<Rightarrow> bool" where
  "in_time cs b = (\<forall>(t, c) \<in> set cs. elapsed t (bud_started_at b) \<le> bud_max_wall_time b)"

lemma unat_saturating_add_one_less:
  "(a :: u32) < m \<Longrightarrow> unat (saturating_add a 1) = Suc (unat a)"
proof -
  assume "a < m"
  moreover have "unat m < 2 ^ LENGTH(32)" by (rule unsigned_less)
  ultimately show ?thesis by (simp add: saturating_add_one word_less_nat_alt)
qed

lemma model_round_in_time:
  "elapsed t (bud_started_at b) \<le> bud_max_wall_time b \<Longrightarrow>
   budget_consume_model_round t b =
     (if bud_max_model_rounds b \<noteq> - 1 \<and> bud_max_model_rounds b \<le> bud_model_rounds b
      then (Inl BkModelRounds, b)
      else (Inr (), b\<lparr>bud_model_rounds := saturating_add (bud_model_rounds b) 1\<rparr>))"
  by (simp add: budget_defs)

lemma tool_invocation_in_time:
  "elapsed t (bud_started_at b) \<le> bud_max_wall_time b \<Longrightarrow>
   budget_consume_tool_invocation t b =
     (if bud_max_tool_invocations b \<noteq> - 1 \<and> bud_max_tool_invocations b \<le> bud_tool_invocations b
      then (Inl BkToolInvocations, b)
      else (Inr (), b\<lparr>bud_tool_invocations := saturating_add (bud_tool_invocations b) 1\<rparr>))"
  by (simp add: budget_defs)

lemma allowance_step:
  "limit \<noteq> - 1 \<Longrightarrow> used < limit \<Longrightarrow>
   allowance limit used (Suc n) = Suc (allowance limit (saturating_add used 1) n)"
  by (simp add: allowance_def unat_saturating_add_one_less) (simp add: word_less_nat_alt)

lemma allowance_spent:
  "limit \<noteq> - 1 \<Longrightarrow> limit \<le> used \<Longrightarrow> allowance limit used n = 0"
  by (simp add: allowance_def word_le_nat_alt)

lemma allowance_unlimited: "allowance (- 1) used n = n"
  by (simp add: allowance_def)

lemma accepted_model_rounds:
  assumes "in_time cs b" "budget_ok b"
  shows "accepted CallModelRound cs b
    = allowance (bud_max_model_rounds b) (bud_model_rounds b) (calls_of CallModelRound cs)"
  using assms
proof (induction cs arbitrary: b)
  case Nil
  then show ?case by (simp add: allowance_def)
next
  case (Cons tc cs)
  obtain t c where tc: "tc = (t, c)" by (cases tc)
  obtain r b' where step: "budget_call_step t c b = (r, b')" by (metis surj_pair)
  have lim: "budget_limits_of b' = budget_limits_of b" by (rule budget_call_step_limits [OF step])
  have IH: "accepted CallModelRound cs b' =
      allowance (bud_max_model_rounds b') (bud_model_rounds b') (calls_of CallModelRound cs)"
    using Cons.prems lim by (intro Cons.IH budget_call_step_ok [OF step])
      (auto simp: in_time_def budget_limits_of_def)
  show ?case
  proof (cases "c = CallModelRound")
    case True
    have t: "elapsed t (bud_started_at b) \<le> bud_max_wall_time b"
      using Cons.prems(1) by (simp add: in_time_def tc)
    consider "bud_max_model_rounds b = - 1"
      | "bud_max_model_rounds b \<noteq> - 1" "bud_max_model_rounds b \<le> bud_model_rounds b"
      | "bud_max_model_rounds b \<noteq> - 1" "bud_model_rounds b < bud_max_model_rounds b"
      by fastforce
    moreover have "accepted CallModelRound (tc # cs) b
        = (if r = Inr () then 1 else 0) + accepted CallModelRound cs b'"
      using step by (simp add: tc True)
    moreover from step have "(r, b') =
        (if bud_max_model_rounds b \<noteq> - 1 \<and> bud_max_model_rounds b \<le> bud_model_rounds b
         then (Inl BkModelRounds, b)
         else (Inr (), b\<lparr>bud_model_rounds := saturating_add (bud_model_rounds b) 1\<rparr>))"
      by (simp add: True model_round_in_time [OF t])
    ultimately show ?thesis
      using IH by cases (auto simp: tc True allowance_unlimited allowance_spent allowance_step
        not_le [symmetric])
  next
    case False
    then have "bud_model_rounds b' = bud_model_rounds b"
      using step by (cases c) (auto simp: budget_defs split: if_splits)
    with False step IH lim show ?thesis by (simp add: tc budget_limits_of_def)
  qed
qed

lemma accepted_tool_invocations:
  assumes "in_time cs b" "budget_ok b"
  shows "accepted CallToolInvocation cs b
    = allowance (bud_max_tool_invocations b) (bud_tool_invocations b)
        (calls_of CallToolInvocation cs)"
  using assms
proof (induction cs arbitrary: b)
  case Nil
  then show ?case by (simp add: allowance_def)
next
  case (Cons tc cs)
  obtain t c where tc: "tc = (t, c)" by (cases tc)
  obtain r b' where step: "budget_call_step t c b = (r, b')" by (metis surj_pair)
  have lim: "budget_limits_of b' = budget_limits_of b" by (rule budget_call_step_limits [OF step])
  have IH: "accepted CallToolInvocation cs b' =
      allowance (bud_max_tool_invocations b') (bud_tool_invocations b')
        (calls_of CallToolInvocation cs)"
    using Cons.prems lim by (intro Cons.IH budget_call_step_ok [OF step])
      (auto simp: in_time_def budget_limits_of_def)
  show ?case
  proof (cases "c = CallToolInvocation")
    case True
    have t: "elapsed t (bud_started_at b) \<le> bud_max_wall_time b"
      using Cons.prems(1) by (simp add: in_time_def tc)
    consider "bud_max_tool_invocations b = - 1"
      | "bud_max_tool_invocations b \<noteq> - 1" "bud_max_tool_invocations b \<le> bud_tool_invocations b"
      | "bud_max_tool_invocations b \<noteq> - 1" "bud_tool_invocations b < bud_max_tool_invocations b"
      by fastforce
    moreover have "accepted CallToolInvocation (tc # cs) b
        = (if r = Inr () then 1 else 0) + accepted CallToolInvocation cs b'"
      using step by (simp add: tc True)
    moreover from step have "(r, b') =
        (if bud_max_tool_invocations b \<noteq> - 1 \<and> bud_max_tool_invocations b \<le> bud_tool_invocations b
         then (Inl BkToolInvocations, b)
         else (Inr (), b\<lparr>bud_tool_invocations := saturating_add (bud_tool_invocations b) 1\<rparr>))"
      by (simp add: True tool_invocation_in_time [OF t])
    ultimately show ?thesis
      using IH by cases (auto simp: tc True allowance_unlimited allowance_spent allowance_step
        not_le [symmetric])
  next
    case False
    then have "bud_tool_invocations b' = bud_tool_invocations b"
      using step by (cases c) (auto simp: budget_defs split: if_splits)
    with False step IH lim show ?thesis by (simp add: tc budget_limits_of_def)
  qed
qed

text \<open>
  A run whose calls all fall within its wall time is granted exactly what its limits say:
  in any history of model rounds, tool invocations and token reports, the accepted rounds
  (invocations) are all of them when the limit is \<open>u32::MAX\<close>, and the first \<open>limit\<close> ones
  otherwise. Rejected calls consume nothing.
\<close>

theorem budget_grants_exactly_the_limits:
  assumes "\<forall>(t, c) \<in> set cs. t \<le> start + wall_time_30_minutes"
  shows "accepted CallModelRound cs (budget_from_run_limits l start)
           = allowance (max_model_rounds l) 0 (calls_of CallModelRound cs)
       \<and> accepted CallToolInvocation cs (budget_from_run_limits l start)
           = allowance (max_tool_invocations l) 0 (calls_of CallToolInvocation cs)"
proof -
  let ?b = "budget_from_run_limits l start"
  have "in_time cs ?b"
    using assms by (fastforce simp: in_time_def budget_from_run_limits_def elapsed_def)
  from accepted_model_rounds [OF this budget_ok_from_limits]
    accepted_tool_invocations [OF this budget_ok_from_limits]
  show ?thesis by (simp add: budget_from_run_limits_def)
qed

theorem budget_grants_exactly_the_limits_witness:
  "accepted CallModelRound
     [(5, CallModelRound), (6, CallToolInvocation), (7, CallModelRound), (8, CallModelRound)]
     (budget_from_run_limits \<lparr>max_model_rounds = 2, max_tool_invocations = - 1\<rparr> 5) = 2"
proof -
  have "\<forall>(t, c) \<in> set [(5, CallModelRound), (6, CallToolInvocation), (7, CallModelRound),
      (8, CallModelRound)]. t \<le> 5 + wall_time_30_minutes"
    by (simp add: wall_time_30_minutes_def)
  from budget_grants_exactly_the_limits [OF this,
      of "\<lparr>max_model_rounds = 2, max_tool_invocations = - 1\<rparr>"]
  show ?thesis by (simp add: allowance_def)
qed

end
