(* ===== verification/Latch.thy ===== *)
theory Latch
  imports Prelude
begin

text \<open>
  The two one-way switches of the runtime: \<open>AgentTerminalGuard\<close> (\<open>terminal.rs\<close>), an atomic byte
  that keeps the first terminal outcome of an agent, and \<open>RunCancellationToken\<close>
  (\<open>run_table.rs\<close>), an atomic flag with a \<open>Notify\<close> for those who wait for it. The locale
  \<open>once_latch\<close> is the contract they share; the interleavings of cancelling and waiting are a
  step relation over the atomic operations of \<open>cancel\<close> and \<open>cancelled\<close>.
\<close>

section \<open>The contract of a latch\<close>

locale once_latch =
  fixes empty :: 's
    and enter :: "'o \<Rightarrow> 's \<Rightarrow> bool \<times> 's"
    and outcome :: "'s \<Rightarrow> 'o option"
    and invar :: "'s \<Rightarrow> bool"
  assumes invar_empty: "invar empty"
    and outcome_empty: "outcome empty = None"
    and enter_accepts: "invar s \<Longrightarrow> fst (enter x s) = (outcome s = None)"
    and enter_outcome: "invar s \<Longrightarrow> outcome (snd (enter x s)) = or_else (outcome s) (Some x)"
    and enter_invar: "invar s \<Longrightarrow> invar (snd (enter x s))"
begin

fun enter_all :: "'o list \<Rightarrow> 's \<Rightarrow> bool list \<times> 's" where
  "enter_all [] s = ([], s)"
| "enter_all (x # xs) s =
     (case enter x s of (ok, s') \<Rightarrow> (case enter_all xs s' of (oks, t) \<Rightarrow> (ok # oks, t)))"

lemma enter_all_set:
  "invar s \<Longrightarrow> outcome s = Some y \<Longrightarrow>
     fst (enter_all xs s) = replicate (length xs) False \<and> outcome (snd (enter_all xs s)) = Some y"
proof (induction xs arbitrary: s)
  case Nil
  then show ?case by simp
next
  case (Cons x xs)
  obtain ok s' where e: "enter x s = (ok, s')" by (metis surj_pair)
  from Cons.prems e have "\<not> ok" "invar s'" "outcome s' = Some y"
    using enter_accepts [of s x] enter_outcome [of s x] enter_invar [of s x] by auto
  with Cons.IH [of s'] e show ?case by (auto split: prod.splits)
qed

lemma first_wins:
  "fst (enter_all (x # xs) empty) = True # replicate (length xs) False"
  "outcome (snd (enter_all (x # xs) empty)) = Some x"
proof -
  obtain ok s' where e: "enter x empty = (ok, s')" by (metis surj_pair)
  have "ok" "invar s'" "outcome s' = Some x"
    using e enter_accepts [OF invar_empty, of x] enter_outcome [OF invar_empty, of x]
      enter_invar [OF invar_empty, of x] outcome_empty by auto
  with enter_all_set [of s' x xs] e
  show "fst (enter_all (x # xs) empty) = True # replicate (length xs) False"
    "outcome (snd (enter_all (x # xs) empty)) = Some x"
    by (auto split: prod.splits)
qed

end

section \<open>The terminal guard\<close>

datatype terminal_outcome =
  OutcomeCompleted | OutcomeFailed | OutcomeCancelled | OutcomeBudgetExceeded

fun outcome_code :: "terminal_outcome \<Rightarrow> u8" where
  "outcome_code OutcomeCompleted = 1"
| "outcome_code OutcomeFailed = 2"
| "outcome_code OutcomeCancelled = 3"
| "outcome_code OutcomeBudgetExceeded = 4"

record terminal_guard =
  guard_inner :: u8

definition guard_new :: terminal_guard where
  "guard_new = \<lparr>guard_inner = 0\<rparr>"

definition guard_try_enter :: "terminal_outcome \<Rightarrow> terminal_guard \<Rightarrow> bool \<times> terminal_guard" where
  "guard_try_enter x g =
     (if guard_inner g = 0 then (True, g\<lparr>guard_inner := outcome_code x\<rparr>) else (False, g))"

definition guard_outcome :: "terminal_guard \<Rightarrow> terminal_outcome option" where
  "guard_outcome g =
     (if guard_inner g = 1 then Some OutcomeCompleted
      else if guard_inner g = 2 then Some OutcomeFailed
      else if guard_inner g = 3 then Some OutcomeCancelled
      else if guard_inner g = 4 then Some OutcomeBudgetExceeded
      else None)"

definition guard_ok :: "terminal_guard \<Rightarrow> bool" where
  "guard_ok g = (guard_inner g \<in> {0, 1, 2, 3, 4})"

interpretation guard: once_latch guard_new guard_try_enter guard_outcome guard_ok
proof
  show "guard_ok guard_new" "guard_outcome guard_new = None"
    by (simp_all add: guard_new_def guard_ok_def guard_outcome_def)
next
  fix s x assume "guard_ok s"
  then show "fst (guard_try_enter x s) = (guard_outcome s = None)"
    by (auto simp: guard_ok_def guard_try_enter_def guard_outcome_def)
next
  fix s x assume "guard_ok s"
  then show "guard_outcome (snd (guard_try_enter x s)) = or_else (guard_outcome s) (Some x)"
    by (cases x) (auto simp: guard_ok_def guard_try_enter_def guard_outcome_def)
next
  fix s x assume "guard_ok s"
  then show "guard_ok (snd (guard_try_enter x s))"
    by (cases x) (auto simp: guard_ok_def guard_try_enter_def)
qed

section \<open>The cancellation token\<close>

text \<open>
  A \<open>Notify\<close> is the number of \<open>notify_waiters\<close> calls so far: a \<open>Notified\<close> future created when
  that number was \<open>n\<close> is ready once it exceeds \<open>n\<close>, as Tokio documents.
\<close>

record cancellation_token =
  tok_cancelled :: bool
  tok_wakes :: nat

definition token_new :: cancellation_token where
  "token_new = \<lparr>tok_cancelled = False, tok_wakes = 0\<rparr>"

definition notified_ready :: "nat \<Rightarrow> nat \<Rightarrow> bool" where
  "notified_ready n wakes = (n < wakes)"

text \<open>\<open>cancel\<close> is a swap of the flag, then a \<open>notify_waiters\<close> when the flag was unset.\<close>

definition token_swap :: "cancellation_token \<Rightarrow> bool \<times> cancellation_token" where
  "token_swap t = (tok_cancelled t, t\<lparr>tok_cancelled := True\<rparr>)"

definition token_notify :: "cancellation_token \<Rightarrow> cancellation_token" where
  "token_notify t = t\<lparr>tok_wakes := Suc (tok_wakes t)\<rparr>"

definition token_cancel :: "cancellation_token \<Rightarrow> bool \<times> cancellation_token" where
  "token_cancel t =
     (case token_swap t of (was, t') \<Rightarrow> if was then (False, t') else (True, token_notify t'))"

lemma token_cancel_simps [simp]:
  "fst (token_cancel t) = (\<not> tok_cancelled t)"
  "tok_cancelled (snd (token_cancel t))"
  by (simp_all add: token_cancel_def token_swap_def token_notify_def)

interpretation token: once_latch token_new "\<lambda>(_ :: unit) t. token_cancel t"
  "\<lambda>t. if tok_cancelled t then Some () else None" "\<lambda>_. True"
  by unfold_locales (auto simp: token_new_def)

subsection \<open>Waiting and cancelling, interleaved\<close>

text \<open>
  The loop of \<open>cancelled\<close>: create the \<open>Notified\<close> future, look at the flag, return or await.
  Any number of waiters and of cancellers, each an index, take their atomic steps in any order.
\<close>

datatype waiter_at = WCreate | WCheck nat | WAwait nat | WReturned
datatype canceller_at = CSwap | CNotify | CReturned bool

record cancel_system =
  sys_token :: cancellation_token
  sys_waiter :: "nat \<Rightarrow> waiter_at"
  sys_canceller :: "nat \<Rightarrow> canceller_at"

definition waiter_step :: "cancellation_token \<Rightarrow> waiter_at \<Rightarrow> waiter_at" where
  "waiter_step t w =
     (case w of
        WCreate \<Rightarrow> WCheck (tok_wakes t)
      | WCheck n \<Rightarrow> (if tok_cancelled t then WReturned else WAwait n)
      | WAwait n \<Rightarrow> (if notified_ready n (tok_wakes t) then WCreate else WAwait n)
      | WReturned \<Rightarrow> WReturned)"

definition canceller_step ::
    "cancellation_token \<Rightarrow> canceller_at \<Rightarrow> cancellation_token \<times> canceller_at" where
  "canceller_step t c =
     (case c of
        CSwap \<Rightarrow> (case token_swap t of (was, t') \<Rightarrow> (t', if was then CReturned False else CNotify))
      | CNotify \<Rightarrow> (token_notify t, CReturned True)
      | CReturned b \<Rightarrow> (t, CReturned b))"

inductive cancel_step :: "cancel_system \<Rightarrow> cancel_system \<Rightarrow> bool" where
  waiter_moves:
    "cancel_step s (s\<lparr>sys_waiter := (sys_waiter s)(i := waiter_step (sys_token s) (sys_waiter s i))\<rparr>)"
| canceller_moves:
    "canceller_step (sys_token s) (sys_canceller s j) = (t, c) \<Longrightarrow>
     cancel_step s (s\<lparr>sys_token := t, sys_canceller := (sys_canceller s)(j := c)\<rparr>)"

definition cancel_init :: cancel_system where
  "cancel_init = \<lparr>sys_token = token_new, sys_waiter = (\<lambda>_. WCreate), sys_canceller = (\<lambda>_. CSwap)\<rparr>"

definition cancel_inv :: "cancel_system \<Rightarrow> bool" where
  "cancel_inv s =
     ((0 < tok_wakes (sys_token s) \<longrightarrow> tok_cancelled (sys_token s)) \<and>
      (tok_cancelled (sys_token s) \<longrightarrow>
         0 < tok_wakes (sys_token s) \<or> (\<exists>j. sys_canceller s j = CNotify)) \<and>
      (\<forall>j. sys_canceller s j = CNotify \<longrightarrow> tok_cancelled (sys_token s)) \<and>
      (\<forall>i n. sys_waiter s i = WAwait n \<longrightarrow> n = 0))"

lemma cancel_inv_init: "cancel_inv cancel_init"
  by (simp add: cancel_inv_def cancel_init_def token_new_def)

text \<open>
  A waiter that has created its future when the flag was already set returns at its check, so
  one that awaits created it before any notification: its count is \<open>0\<close>.
\<close>

definition check_inv :: "cancel_system \<Rightarrow> bool" where
  "check_inv s = (\<forall>i n. sys_waiter s i = WCheck n \<longrightarrow> 0 < n \<longrightarrow> tok_cancelled (sys_token s))"

lemma cancel_inv_step:
  "cancel_step s t \<Longrightarrow> cancel_inv s \<and> check_inv s \<Longrightarrow> cancel_inv t \<and> check_inv t"
proof (induction rule: cancel_step.induct)
  case (waiter_moves s i)
  then show ?case
    by (cases "sys_waiter s i")
      (auto simp: cancel_inv_def check_inv_def waiter_step_def split: if_splits)
next
  case (canceller_moves s j t c)
  show ?case
  proof (cases "sys_canceller s j")
    case CSwap
    have "sys_canceller s k = CNotify \<Longrightarrow> k \<noteq> j" for k using CSwap by auto
    with canceller_moves CSwap show ?thesis
      by (auto simp: cancel_inv_def check_inv_def canceller_step_def token_swap_def
          split: if_splits)
  qed (use canceller_moves in
      \<open>auto simp: cancel_inv_def check_inv_def canceller_step_def token_notify_def\<close>)
qed

lemma cancel_reachable:
  "cancel_step\<^sup>*\<^sup>* cancel_init s \<Longrightarrow> cancel_inv s \<and> check_inv s"
proof (induction rule: rtranclp_induct)
  case base
  show ?case using cancel_inv_init by (auto simp: check_inv_def cancel_init_def)
next
  case (step s t)
  then show ?case using cancel_inv_step by blast
qed

definition wakes_up :: "cancellation_token \<Rightarrow> waiter_at \<Rightarrow> bool" where
  "wakes_up t w = ((waiter_step t ^^ 3) w = WReturned)"

text \<open>
  C39. A cancellation is never lost. In every interleaving of any number of waiters in
  \<open>cancelled\<close> and callers of \<open>cancel\<close>: once the flag is set and no caller stands between its swap
  and its \<open>notify_waiters\<close>, every waiter, wherever in its loop, returns after at most three more
  steps of its own.
\<close>

theorem cancellation_never_lost:
  assumes "cancel_step\<^sup>*\<^sup>* cancel_init s"
    and "tok_cancelled (sys_token s)"
    and "\<forall>j. sys_canceller s j \<noteq> CNotify"
  shows "wakes_up (sys_token s) (sys_waiter s i)"
proof -
  from cancel_reachable [OF assms(1)] have inv: "cancel_inv s" by blast
  with assms(2,3) have wakes: "0 < tok_wakes (sys_token s)" by (auto simp: cancel_inv_def)
  show ?thesis
  proof (cases "sys_waiter s i")
    case (WAwait n)
    with inv have "n = 0" by (auto simp: cancel_inv_def)
    with WAwait wakes assms(2) show ?thesis
      by (simp add: wakes_up_def waiter_step_def notified_ready_def numeral_3_eq_3)
  qed (use assms(2) in \<open>simp_all add: wakes_up_def waiter_step_def numeral_3_eq_3\<close>)
qed

definition one_wait_one_cancel :: cancel_system where
  "one_wait_one_cancel =
     \<lparr>sys_token = \<lparr>tok_cancelled = True, tok_wakes = 1\<rparr>,
      sys_waiter = (\<lambda>_. WCreate)(0 := WAwait 0),
      sys_canceller = (\<lambda>_. CSwap)(0 := CReturned True)\<rparr>"

lemma one_wait_one_cancel_reachable: "cancel_step\<^sup>*\<^sup>* cancel_init one_wait_one_cancel"
proof -
  let ?s1 = "cancel_init\<lparr>sys_waiter := (\<lambda>_. WCreate)(0 := WCheck 0)\<rparr>"
  let ?s2 = "cancel_init\<lparr>sys_waiter := (\<lambda>_. WCreate)(0 := WAwait 0)\<rparr>"
  let ?s3 = "?s2\<lparr>sys_token := \<lparr>tok_cancelled = True, tok_wakes = 0\<rparr>,
                sys_canceller := (\<lambda>_. CSwap)(0 := CNotify)\<rparr>"
  have "cancel_step cancel_init ?s1"
    using waiter_moves [of cancel_init 0]
    by (simp add: cancel_init_def waiter_step_def token_new_def)
  moreover have "cancel_step ?s1 ?s2"
    using waiter_moves [of ?s1 0] by (simp add: cancel_init_def waiter_step_def token_new_def)
  moreover have "cancel_step ?s2 ?s3"
    using canceller_moves [of ?s2 0 "\<lparr>tok_cancelled = True, tok_wakes = 0\<rparr>" CNotify]
    by (simp add: cancel_init_def canceller_step_def token_swap_def token_new_def)
  moreover have "cancel_step ?s3 one_wait_one_cancel"
    using canceller_moves [of ?s3 0 "\<lparr>tok_cancelled = True, tok_wakes = 1\<rparr>" "CReturned True"]
    by (simp add: cancel_init_def canceller_step_def token_notify_def one_wait_one_cancel_def)
  ultimately show ?thesis by (meson rtranclp.rtrancl_into_rtrancl rtranclp.rtrancl_refl)
qed

theorem cancellation_never_lost_witness:
  "wakes_up (sys_token one_wait_one_cancel) (sys_waiter one_wait_one_cancel 0)"
  by (rule cancellation_never_lost [OF one_wait_one_cancel_reachable])
    (simp_all add: one_wait_one_cancel_def)

text \<open>
  The first terminal outcome wins: of any sequence of attempts to enter a terminal
  outcome, exactly the first is accepted and its outcome is the one the guard reports for ever.
\<close>

theorem first_terminal_outcome_wins:
  "fst (guard.enter_all (x # xs) guard_new) = True # replicate (length xs) False \<and>
   guard_outcome (snd (guard.enter_all (x # xs) guard_new)) = Some x"
  by (simp only: guard.first_wins simp_thms)

end
