(* ===== verification/Run_Table.thy ===== *)
theory Run_Table
  imports Tools Operations Budget Latch
begin

text \<open>
  The run table (\<open>run_table.rs\<close> of \<open>aifluxon-runtime\<close>): the record of each run with its state,
  its event log, its budget, ledger, cancellation token and hooks, behind one mutex, beside the
  operation store. An operation of the table is a sequence of sections under the lock; those that
  change a record are named \<open>..._section\<close>, and the operations compose them with the calls on
  the operation store the way the code does.
\<close>

section \<open>Errors\<close>

datatype run_table_error =
    TabIdentifierCollision
  | TabUnknownRun
  | TabRunTerminal
  | TabInvalidTransition run_state run_state
  | TabPendingOperations
  | TabStoreUnavailable
  | TabOperation operation_error

fun run_state_debug :: "run_state \<Rightarrow> str" where
  "run_state_debug Running = ''Running''"
| "run_state_debug AwaitingOperation = ''AwaitingOperation''"
| "run_state_debug Completed = ''Completed''"
| "run_state_debug Failed = ''Failed''"
| "run_state_debug Cancelled = ''Cancelled''"

fun run_table_error_message :: "run_table_error \<Rightarrow> str" where
  "run_table_error_message TabIdentifierCollision = ''Run identifier collision.''"
| "run_table_error_message TabUnknownRun = ''Run was not found.''"
| "run_table_error_message TabRunTerminal = ''Run is already terminal.''"
| "run_table_error_message (TabInvalidTransition a b) =
     ''Invalid run state transition from '' @ run_state_debug a @ '' to '' @ run_state_debug b @ ''.''"
| "run_table_error_message TabPendingOperations =
     ''Run cannot finish while operations are still pending.''"
| "run_table_error_message TabStoreUnavailable = ''Run table is unavailable.''"
| "run_table_error_message (TabOperation e) = operation_error_message e"

section \<open>The table\<close>

text \<open>A cancellation hook is what its \<open>on_run_cancelled\<close> returns.\<close>

type_synonym cancellation_hook = "run_id \<Rightarrow> str + unit"

record run_record =
  rr_context :: run_context
  rr_limits :: run_limits
  rr_state :: run_state
  rr_cancellation :: cancellation_token
  rr_budget :: loop_budget
  rr_ledger :: tool_ledger
  rr_hooks :: "cancellation_hook list"
  rr_events :: "run_event_envelope list"

record run_table =
  tab_runs :: "(run_id \<times> run_record) list"
  tab_poisoned :: bool
  tab_operations :: operation_store
  tab_event_wakes :: nat

record canonical_run_snapshot =
  csnap_context :: run_context
  csnap_state :: run_state
  csnap_last_event_sequence :: u64
  csnap_pending_operations :: "operation_snapshot list"

record cancellation_report =
  report_snapshot :: canonical_run_snapshot
  report_hook_errors :: "str list"

definition tab_new :: run_table where
  "tab_new = \<lparr>tab_runs = [], tab_poisoned = False, tab_operations = ops_new, tab_event_wakes = 0\<rparr>"

definition is_terminal :: "run_state \<Rightarrow> bool" where
  "is_terminal s = (s \<in> {Completed, Failed, Cancelled})"

definition tab_get :: "run_table \<Rightarrow> run_id \<Rightarrow> run_record option" where
  "tab_get t run = map_of (tab_runs t) run"

definition tab_put :: "run_id \<Rightarrow> run_record \<Rightarrow> run_table \<Rightarrow> run_table" where
  "tab_put run r t = t\<lparr>tab_runs := AList.update run r (tab_runs t)\<rparr>"

text \<open>The lock, then the record of the run.\<close>

definition tab_record :: "run_table \<Rightarrow> run_id \<Rightarrow> run_table_error + run_record" where
  "tab_record t run =
     (if tab_poisoned t then Inl TabStoreUnavailable else ok_or TabUnknownRun (tab_get t run))"

definition wake_event_waiters :: "run_table \<Rightarrow> run_table" where
  "wake_event_waiters t = t\<lparr>tab_event_wakes := Suc (tab_event_wakes t)\<rparr>"

section \<open>Events\<close>

definition last_event :: "run_record \<Rightarrow> run_event_envelope option" where
  "last_event r = (case rr_events r of [] \<Rightarrow> None | e # es \<Rightarrow> Some (last (e # es)))"

definition append_event :: "run_event \<Rightarrow> run_record \<Rightarrow> (run_table_error + u64) \<times> run_record" where
  "append_event ev r =
     (case last_event r of
        Some l \<Rightarrow>
          (if terminal_state (env_event l) \<noteq> None then (Inl TabRunTerminal, r)
           else (let n = saturating_add (env_sequence l) 1 in
             (Inr n, r\<lparr>rr_events := rr_events r
                @ [\<lparr>env_sequence = n, env_run_id = ctx_run_id (rr_context r), env_event = ev\<rparr>]\<rparr>)))
      | None \<Rightarrow>
          (Inr 1, r\<lparr>rr_events := rr_events r
             @ [\<lparr>env_sequence = 1, env_run_id = ctx_run_id (rr_context r), env_event = ev\<rparr>]\<rparr>))"

section \<open>Sections under the lock\<close>

text \<open>A section that looks up a record and replaces it, whatever the result.\<close>

definition record_section ::
    "run_id \<Rightarrow> (run_record \<Rightarrow> (run_table_error + 'a) \<times> run_record) \<Rightarrow> run_table
       \<Rightarrow> (run_table_error + 'a) \<times> run_table" where
  "record_section run f t =
     (case tab_record t run of
        Inl e \<Rightarrow> (Inl e, t)
      | Inr r \<Rightarrow> (case f r of (x, r') \<Rightarrow> (x, tab_put run r' t)))"

definition waking :: "(run_table_error + 'a) \<times> run_table \<Rightarrow> (run_table_error + 'a) \<times> run_table" where
  "waking p = (case p of (Inr x, t) \<Rightarrow> (Inr x, wake_event_waiters t) | (Inl e, t) \<Rightarrow> (Inl e, t))"

definition new_record :: "run_context \<Rightarrow> run_limits \<Rightarrow> nat \<Rightarrow> run_record" where
  "new_record ctx limits now =
     \<lparr>rr_context = ctx, rr_limits = limits, rr_state = Running, rr_cancellation = token_new,
      rr_budget = budget_from_run_limits limits now, rr_ledger = ledger_new, rr_hooks = [],
      rr_events = [\<lparr>env_sequence = 1, env_run_id = ctx_run_id ctx, env_event = EvRunStarted ctx\<rparr>]\<rparr>"

definition tab_register ::
    "run_context \<Rightarrow> run_limits \<Rightarrow> nat \<Rightarrow> run_table \<Rightarrow> (run_table_error + run_context) \<times> run_table" where
  "tab_register ctx limits now t =
     (if tab_poisoned t then (Inl TabStoreUnavailable, t)
      else if tab_get t (ctx_run_id ctx) \<noteq> None then (Inl TabIdentifierCollision, t)
      else (Inr ctx, wake_event_waiters (tab_put (ctx_run_id ctx) (new_record ctx limits now) t)))"

text \<open>\<open>start\<close> registers a fresh identifier, which the caller supplies here.\<close>

definition tab_start ::
    "run_id \<Rightarrow> session_id option \<Rightarrow> run_id option \<Rightarrow> run_limits \<Rightarrow> nat \<Rightarrow> run_table
       \<Rightarrow> (run_table_error + run_context) \<times> run_table" where
  "tab_start fresh session parent limits now =
     tab_register \<lparr>ctx_run_id = fresh, ctx_session_id = session, ctx_parent_run_id = parent\<rparr> limits now"

definition tab_contains :: "run_id \<Rightarrow> run_table \<Rightarrow> run_table_error + bool" where
  "tab_contains run t =
     (if tab_poisoned t then Inl TabStoreUnavailable else Inr (tab_get t run \<noteq> None))"

definition tab_context :: "run_id \<Rightarrow> run_table \<Rightarrow> run_table_error + run_context" where
  "tab_context run t = res_bind (tab_record t run) (\<lambda>r. Inr (rr_context r))"

definition tab_cancellation_token :: "run_id \<Rightarrow> run_table \<Rightarrow> run_table_error + cancellation_token" where
  "tab_cancellation_token run t = res_bind (tab_record t run) (\<lambda>r. Inr (rr_cancellation r))"

definition tab_limits :: "run_id \<Rightarrow> run_table \<Rightarrow> run_table_error + run_limits" where
  "tab_limits run t = res_bind (tab_record t run) (\<lambda>r. Inr (rr_limits r))"

definition tab_register_hook ::
    "run_id \<Rightarrow> cancellation_hook \<Rightarrow> run_table \<Rightarrow> (run_table_error + unit) \<times> run_table" where
  "tab_register_hook run hook =
     record_section run (\<lambda>r. if is_terminal (rr_state r) then (Inl TabRunTerminal, r)
       else (Inr (), r\<lparr>rr_hooks := rr_hooks r @ [hook]\<rparr>))"

definition tab_snapshot ::
    "uuid_lib \<Rightarrow> run_id \<Rightarrow> run_table \<Rightarrow> run_table_error + canonical_run_snapshot" where
  "tab_snapshot U run t =
     res_bind (tab_record t run) (\<lambda>r.
     res_bind (map_err TabOperation (op_snapshot U run (tab_operations t))) (\<lambda>pending.
       Inr \<lparr>csnap_context = rr_context r, csnap_state = rr_state r,
            csnap_last_event_sequence = unwrap_or 0 (map_option env_sequence (last_event r)),
            csnap_pending_operations = pending\<rparr>))"

definition events_since ::
    "run_id \<Rightarrow> u64 \<Rightarrow> run_table \<Rightarrow> run_table_error + run_event_envelope list" where
  "events_since run n t =
     res_bind (tab_record t run) (\<lambda>r. Inr (filter (\<lambda>e. env_sequence e > n) (rr_events r)))"

section \<open>States and events of a run\<close>

fun allowed_transition :: "run_state \<Rightarrow> run_state \<Rightarrow> bool" where
  "allowed_transition Running Running = True"
| "allowed_transition Running AwaitingOperation = True"
| "allowed_transition AwaitingOperation AwaitingOperation = True"
| "allowed_transition AwaitingOperation Running = True"
| "allowed_transition _ _ = False"

definition set_state_section :: "run_state \<Rightarrow> run_record \<Rightarrow> (run_table_error + u64) \<times> run_record" where
  "set_state_section st r =
     (if is_terminal (rr_state r) then (Inl TabRunTerminal, r)
      else if \<not> allowed_transition (rr_state r) st
        then (Inl (TabInvalidTransition (rr_state r) st), r)
      else append_event (EvStateChanged st) (r\<lparr>rr_state := st\<rparr>))"

definition set_state ::
    "uuid_lib \<Rightarrow> run_id \<Rightarrow> run_state \<Rightarrow> run_table \<Rightarrow> (run_table_error + u64) \<times> run_table" where
  "set_state U run st t =
     (if is_terminal st then
        (res_bind (tab_snapshot U run t) (\<lambda>s. Inl (TabInvalidTransition (csnap_state s) st)), t)
      else waking (record_section run (set_state_section st) t))"

fun is_run_started :: "run_event \<Rightarrow> bool" where
  "is_run_started (EvRunStarted c) = True"
| "is_run_started _ = False"

definition emit_section :: "run_event \<Rightarrow> run_record \<Rightarrow> (run_table_error + u64) \<times> run_record" where
  "emit_section ev r =
     (if is_terminal (rr_state r) then (Inl TabRunTerminal, r) else append_event ev r)"

definition emit ::
    "uuid_lib \<Rightarrow> run_id \<Rightarrow> run_event \<Rightarrow> run_table \<Rightarrow> (run_table_error + u64) \<times> run_table" where
  "emit U run ev t =
     (if terminal_state ev \<noteq> None \<or> is_run_started ev then
        (res_bind (tab_snapshot U run t) (\<lambda>s.
           Inl (TabInvalidTransition (csnap_state s) (unwrap_or Running (terminal_state ev)))), t)
      else waking (record_section run (emit_section ev) t))"

definition finish_section ::
    "run_state \<Rightarrow> run_event \<Rightarrow> run_record \<Rightarrow> (run_table_error + u64) \<times> run_record" where
  "finish_section st ev r =
     (if is_terminal (rr_state r) then (Inl TabRunTerminal, r)
      else append_event ev (r\<lparr>rr_state := st\<rparr>))"

text \<open>Run a call of the operation store inside the table.\<close>

definition with_operations ::
    "(operation_store \<Rightarrow> (operation_error + 'a) \<times> operation_store) \<Rightarrow> run_table
       \<Rightarrow> (run_table_error + 'a) \<times> run_table" where
  "with_operations f t =
     (case f (tab_operations t) of (x, s) \<Rightarrow> (map_err TabOperation x, t\<lparr>tab_operations := s\<rparr>))"

text \<open>\<open>finish\<close> is called with terminal events only; \<open>st\<close> is the state of the event.\<close>

definition tab_finish ::
    "uuid_lib \<Rightarrow> run_id \<Rightarrow> run_state \<Rightarrow> run_event \<Rightarrow> run_table \<Rightarrow> (run_table_error + u64) \<times> run_table" where
  "tab_finish U run st ev t =
     (case op_snapshot U run (tab_operations t) of
        Inl e \<Rightarrow> (Inl (TabOperation e), t)
      | Inr snaps \<Rightarrow>
          (if \<exists>s \<in> set snaps. \<not> op_is_terminal (snap_state s) then (Inl TabPendingOperations, t)
           else case waking (record_section run (finish_section st ev) t) of
               (Inl e, t') \<Rightarrow> (Inl e, t')
             | (Inr n, t') \<Rightarrow> (case with_operations (op_mark_run_terminal run) t' of
                   (Inl e, t'') \<Rightarrow> (Inl e, t'')
                 | (Inr _, t'') \<Rightarrow> (Inr n, t''))))"

definition finish_completed ::
    "uuid_lib \<Rightarrow> run_id \<Rightarrow> message list \<Rightarrow> run_table \<Rightarrow> (run_table_error + u64) \<times> run_table" where
  "finish_completed U run output = tab_finish U run Completed (EvCompleted output)"

definition finish_failed ::
    "uuid_lib \<Rightarrow> run_id \<Rightarrow> str \<Rightarrow> run_table \<Rightarrow> (run_table_error + u64) \<times> run_table" where
  "finish_failed U run m = tab_finish U run Failed (EvFailed m)"

section \<open>Cancellation\<close>

definition cancel_section ::
    "run_record \<Rightarrow> (run_table_error + cancellation_hook list) \<times> run_record" where
  "cancel_section r =
     (if is_terminal (rr_state r) then (Inl TabRunTerminal, r)
      else (let r' = r\<lparr>rr_state := Cancelled,
                      rr_cancellation := snd (token_cancel (rr_cancellation r))\<rparr> in
        (case append_event EvCancelled r' of
           (Inl e, r'') \<Rightarrow> (Inl e, r'')
         | (Inr n, r'') \<Rightarrow> (Inr (rr_hooks r''), r''\<lparr>rr_hooks := []\<rparr>))))"

definition hook_errors :: "run_id \<Rightarrow> cancellation_hook list \<Rightarrow> str list" where
  "hook_errors run hooks =
     List.map_filter (\<lambda>h. case h run of Inl e \<Rightarrow> Some e | Inr _ \<Rightarrow> None) hooks"

definition tab_cancel ::
    "uuid_lib \<Rightarrow> run_id \<Rightarrow> run_table \<Rightarrow> (run_table_error + cancellation_report) \<times> run_table" where
  "tab_cancel U run t =
     (case waking (record_section run cancel_section t) of
        (Inl e, t') \<Rightarrow> (Inl e, t')
      | (Inr hooks, t') \<Rightarrow> (case with_operations (op_cancel_run run) t' of
          (Inl e, t'') \<Rightarrow> (Inl e, t'')
        | (Inr _, t'') \<Rightarrow>
            (res_bind (tab_snapshot U run t'') (\<lambda>s.
               Inr \<lparr>report_snapshot = s, report_hook_errors = hook_errors run hooks\<rparr>), t'')))"

definition children_of :: "(run_id \<times> run_record) list \<Rightarrow> run_id \<Rightarrow> run_id list" where
  "children_of runs parent =
     map (\<lambda>(_, r). ctx_run_id (rr_context r))
       (filter (\<lambda>(_, r). ctx_parent_run_id (rr_context r) = Some parent) runs)"

definition known_ids :: "(run_id \<times> run_record) list \<Rightarrow> run_id set" where
  "known_ids runs = set (map (\<lambda>(_, r). ctx_run_id (rr_context r)) runs)"

lemma children_known: "set (children_of runs p) \<subseteq> known_ids runs"
  by (auto simp: children_of_def known_ids_def)

text \<open>
  The collection loop of \<open>cancel_tree\<close>. The stack \<open>pending\<close> has its top first here: the code
  extends and pops it at the end.
\<close>

function (sequential) collect_targets ::
    "(run_id \<times> run_record) list \<Rightarrow> run_id list \<Rightarrow> run_id list \<Rightarrow> run_id list" where
  "collect_targets runs [] targets = targets"
| "collect_targets runs (parent # pending) targets =
     (if parent \<in> set targets then collect_targets runs pending targets
      else collect_targets runs (rev (children_of runs parent) @ pending) (targets @ [parent]))"
  by pat_completeness auto
termination
proof (relation "measures [\<lambda>(runs, pending, targets).
          card ((known_ids runs \<union> set pending) - set targets), \<lambda>(runs, pending, targets). length pending]",
    goal_cases)
  case 1
  then show ?case by simp
next
  case (2 runs parent pending targets)
  have "card (known_ids runs \<union> set pending - set targets)
      \<le> card (known_ids runs \<union> set (parent # pending) - set targets)"
    by (rule card_mono) (auto simp: known_ids_def)
  then show ?case by auto
next
  case (3 runs parent pending targets)
  have "known_ids runs \<union> set (rev (children_of runs parent) @ pending) - set (targets @ [parent])
      \<subset> known_ids runs \<union> set (parent # pending) - set targets"
    using 3 children_known [of runs parent] by auto
  then have "card (known_ids runs \<union> set (rev (children_of runs parent) @ pending) - set (targets @ [parent]))
      < card (known_ids runs \<union> set (parent # pending) - set targets)"
    by (rule psubset_card_mono [rotated]) (simp add: known_ids_def)
  then show ?case by simp
qed

text \<open>Cancel the targets in order; a run that is already terminal is skipped.\<close>

fun cancel_each ::
    "uuid_lib \<Rightarrow> run_id list \<Rightarrow> run_table \<Rightarrow> (run_table_error + cancellation_report list) \<times> run_table"
  where
  "cancel_each U [] t = (Inr [], t)"
| "cancel_each U (run # runs) t =
     (case tab_cancel U run t of
        (Inr report, t') \<Rightarrow> (case cancel_each U runs t' of
            (Inr reports, t'') \<Rightarrow> (Inr (report # reports), t'') | (Inl e, t'') \<Rightarrow> (Inl e, t''))
      | (Inl TabRunTerminal, t') \<Rightarrow> cancel_each U runs t'
      | (Inl e, t') \<Rightarrow> (Inl e, t'))"

definition cancel_tree ::
    "uuid_lib \<Rightarrow> run_id \<Rightarrow> run_table \<Rightarrow> (run_table_error + cancellation_report list) \<times> run_table" where
  "cancel_tree U root t =
     (case tab_contains root t of
        Inl e \<Rightarrow> (Inl e, t)
      | Inr False \<Rightarrow> (Inl TabUnknownRun, t)
      | Inr True \<Rightarrow> cancel_each U (collect_targets (tab_runs t) [root] []) t)"

section \<open>Budget and ledger of a run\<close>

text \<open>
  The budget and the ledger are shared cells reached through the record: their own lock recovers
  from poisoning (the budget) or not (the ledger).
\<close>

definition on_budget ::
    "budget_kind \<Rightarrow> (loop_budget \<Rightarrow> (budget_kind + unit) \<times> loop_budget) \<Rightarrow> run_id \<Rightarrow> run_table
       \<Rightarrow> (budget_kind + unit) \<times> run_table" where
  "on_budget missing f run t =
     (case tab_record t run of
        Inl e \<Rightarrow> (Inl missing, t)
      | Inr r \<Rightarrow> (case f (rr_budget r) of (x, b) \<Rightarrow> (x, tab_put run (r\<lparr>rr_budget := b\<rparr>) t)))"

definition consume_model_round ::
    "nat \<Rightarrow> run_id \<Rightarrow> run_table \<Rightarrow> (budget_kind + unit) \<times> run_table" where
  "consume_model_round now = on_budget BkModelRounds (budget_consume_model_round now)"

definition consume_tool_invocation ::
    "nat \<Rightarrow> run_id \<Rightarrow> run_table \<Rightarrow> (budget_kind + unit) \<times> run_table" where
  "consume_tool_invocation now = on_budget BkToolInvocations (budget_consume_tool_invocation now)"

definition model_rounds :: "run_id \<Rightarrow> run_table \<Rightarrow> run_table_error + u32" where
  "model_rounds run t = res_bind (tab_record t run) (\<lambda>r. Inr (bud_model_rounds (rr_budget r)))"

definition execute_tool_once ::
    "run_id \<Rightarrow> tool_invocation_id \<Rightarrow> ('w \<Rightarrow> json \<times> 'w) \<Rightarrow> run_table \<Rightarrow> 'w
       \<Rightarrow> (run_table_error + json) \<times> run_table \<times> 'w" where
  "execute_tool_once run i execute t w =
     (case tab_record t run of
        Inl e \<Rightarrow> (Inl e, t, w)
      | Inr r \<Rightarrow>
          (case execute_once i (\<lambda>v. case execute v of (x, v') \<Rightarrow> (Inr (result_from_value x), v'))
                  (rr_ledger r) w of
             (res, l, w') \<Rightarrow>
               (case res of Inr x \<Rightarrow> Inr (res_value x) | Inl _ \<Rightarrow> Inl TabStoreUnavailable,
                tab_put run (r\<lparr>rr_ledger := l\<rparr>) t, w')))"

definition cached_tool_execution ::
    "run_id \<Rightarrow> tool_invocation_id \<Rightarrow> run_table \<Rightarrow> run_table_error + tool_result option" where
  "cached_tool_execution run i t =
     res_bind (tab_record t run) (\<lambda>r. Inr (ledger_get i (rr_ledger r)))"

definition cached_tool_result ::
    "run_id \<Rightarrow> tool_invocation_id \<Rightarrow> run_table \<Rightarrow> run_table_error + json option" where
  "cached_tool_result run i t =
     res_bind (tab_record t run) (\<lambda>r. Inr (map_option res_value (ledger_get i (rr_ledger r))))"

definition record_tool_execution ::
    "run_id \<Rightarrow> tool_invocation_id \<Rightarrow> tool_result \<Rightarrow> run_table \<Rightarrow> (run_table_error + unit) \<times> run_table"
  where
  "record_tool_execution run i x =
     record_section run (\<lambda>r. (Inr (), r\<lparr>rr_ledger := ledger_record i x (rr_ledger r)\<rparr>))"

definition record_tool_result ::
    "run_id \<Rightarrow> tool_invocation_id \<Rightarrow> json \<Rightarrow> run_table \<Rightarrow> (run_table_error + unit) \<times> run_table" where
  "record_tool_result run i v = record_tool_execution run i (result_from_value v)"

definition tool_execution_count :: "run_id \<Rightarrow> run_table \<Rightarrow> run_table_error + nat" where
  "tool_execution_count run t =
     res_bind (tab_record t run) (\<lambda>r. Inr (execution_count (rr_ledger r)))"

section \<open>The invariant of a run\<close>

text \<open>
  The event log: it starts with the run's \<open>RunStarted\<close> and holds no other, its sequence numbers
  count from one (up to the saturation of \<open>u64\<close>), and only its last event can be terminal.
\<close>

definition log_ok :: "run_context \<Rightarrow> run_event_envelope list \<Rightarrow> bool" where
  "log_ok ctx es =
     (es \<noteq> [] \<and> env_event (hd es) = EvRunStarted ctx \<and>
      (\<forall>e \<in> set (tl es). \<not> is_run_started (env_event e)) \<and>
      (\<forall>e \<in> set es. env_run_id e = ctx_run_id ctx) \<and>
      (\<forall>k < length es. unat (env_sequence (es ! k)) = min (Suc k) (2 ^ 64 - 1)) \<and>
      (\<forall>e \<in> set (butlast es). terminal_state (env_event e) = None))"

definition run_ok :: "run_record \<Rightarrow> bool" where
  "run_ok r =
     (log_ok (rr_context r) (rr_events r) \<and>
      terminal_state (env_event (last (rr_events r)))
        = (if is_terminal (rr_state r) then Some (rr_state r) else None) \<and>
      tok_cancelled (rr_cancellation r) = (rr_state r = Cancelled) \<and>
      budget_ok (rr_budget r))"

text \<open>How a record may change: its log grows, and a terminal run keeps state, log and token.\<close>

definition run_grows :: "run_record \<Rightarrow> run_record \<Rightarrow> bool" where
  "run_grows r r' =
     (rr_context r' = rr_context r \<and> rr_limits r' = rr_limits r \<and>
      prefix (rr_events r) (rr_events r') \<and>
      (run_ok r \<longrightarrow> run_ok r') \<and>
      (run_ok r \<longrightarrow> is_terminal (rr_state r) \<longrightarrow>
         rr_state r' = rr_state r \<and> rr_events r' = rr_events r \<and>
         rr_cancellation r' = rr_cancellation r))"

lemma run_grows_refl [simp]: "run_grows r r"
  by (simp add: run_grows_def)

lemma run_grows_trans: "run_grows a b \<Longrightarrow> run_grows b c \<Longrightarrow> run_grows a c"
  by (auto simp: run_grows_def intro: prefix_order.trans)

lemma log_ok_append:
  assumes "log_ok ctx es" "terminal_state (env_event (last es)) = None" "\<not> is_run_started ev"
  shows "log_ok ctx (es @ [\<lparr>env_sequence = saturating_add (env_sequence (last es)) 1,
      env_run_id = ctx_run_id ctx, env_event = ev\<rparr>])"
proof -
  let ?e = "\<lparr>env_sequence = saturating_add (env_sequence (last es)) 1,
      env_run_id = ctx_run_id ctx, env_event = ev\<rparr>"
  from assms(1) have ne: "es \<noteq> []"
    and seq: "\<And>k. k < length es \<Longrightarrow> unat (env_sequence (es ! k)) = min (Suc k) (2 ^ 64 - 1)"
    by (auto simp: log_ok_def)
  have "unat (env_sequence (last es)) = min (length es) (2 ^ 64 - 1)"
    using seq [of "length es - 1"] ne by (simp add: last_conv_nth)
  then have "unat (saturating_add (env_sequence (last es)) 1) = min (Suc (length es)) (2 ^ 64 - 1)"
    by (simp add: saturating_add_one)
  then have "unat (env_sequence ((es @ [?e]) ! k)) = min (Suc k) (2 ^ 64 - 1)"
    if "k < length (es @ [?e])" for k
    using seq that by (auto simp: nth_append less_Suc_eq)
  moreover have "terminal_state (env_event e) = None" if "e \<in> set es" for e
  proof -
    from that ne have "e \<in> set (butlast es) \<or> e = last es"
      by (cases es rule: rev_cases) auto
    with assms(1,2) show ?thesis by (auto simp: log_ok_def)
  qed
  ultimately show ?thesis
    using assms ne unfolding log_ok_def by (cases es) auto
qed

lemma last_event_Some: "rr_events r \<noteq> [] \<Longrightarrow> last_event r = Some (last (rr_events r))"
  by (cases "rr_events r") (simp_all add: last_event_def)

lemma append_event_open:
  assumes "log_ok (rr_context r) (rr_events r)"
    and "terminal_state (env_event (last (rr_events r))) = None"
  shows "append_event ev r = (Inr (saturating_add (env_sequence (last (rr_events r))) 1),
      r\<lparr>rr_events := rr_events r @ [\<lparr>env_sequence = saturating_add (env_sequence (last (rr_events r))) 1,
          env_run_id = ctx_run_id (rr_context r), env_event = ev\<rparr>]\<rparr>)"
  using assms by (simp add: append_event_def last_event_Some log_ok_def Let_def)

lemma append_event_prefix: "prefix (rr_events r) (rr_events (snd (append_event ev r)))"
  by (auto simp: append_event_def Let_def split: option.split)

lemma append_event_frame:
  "rr_context (snd (append_event ev r)) = rr_context r"
  "rr_limits (snd (append_event ev r)) = rr_limits r"
  "rr_state (snd (append_event ev r)) = rr_state r"
  "rr_cancellation (snd (append_event ev r)) = rr_cancellation r"
  "rr_budget (snd (append_event ev r)) = rr_budget r"
  "rr_ledger (snd (append_event ev r)) = rr_ledger r"
  "rr_hooks (snd (append_event ev r)) = rr_hooks r"
  by (simp_all add: append_event_def Let_def split: option.split)

lemma run_grows_append:
  assumes "\<not> is_run_started ev"
    and "terminal_state ev = (if is_terminal st then Some st else None)"
    and "run_ok r \<Longrightarrow> tok_cancelled tok = (st = Cancelled)"
    and "\<not> is_terminal (rr_state r)"
  shows "run_grows r (snd (append_event ev (r\<lparr>rr_state := st, rr_cancellation := tok\<rparr>)))"
proof -
  let ?r = "r\<lparr>rr_state := st, rr_cancellation := tok\<rparr>"
  have "run_ok (snd (append_event ev ?r))" if "run_ok r"
  proof -
    from that assms(4) have log: "log_ok (rr_context ?r) (rr_events ?r)"
      "terminal_state (env_event (last (rr_events ?r))) = None"
      by (simp_all add: run_ok_def)
    from append_event_open [OF this, of ev] log_ok_append [OF this assms(1)] that assms(2,3)
    show ?thesis by (simp add: run_ok_def)
  qed
  with assms(4) append_event_prefix [of ?r ev] show ?thesis
    by (simp add: run_grows_def append_event_frame)
qed

lemma new_record_ok: "run_ok (new_record ctx limits now)"
  by (simp add: run_ok_def new_record_def log_ok_def is_terminal_def token_new_def
      budget_ok_from_limits)

section \<open>Steps\<close>

text \<open>
  The atomic steps of the table: the sections under the lock, the calls on the operation store,
  the wake-ups. Any interleaving of threads that use the table is a sequence of these.
\<close>

definition ledger_actions :: "(tool_ledger \<Rightarrow> tool_ledger) set" where
  "ledger_actions = {ledger_record i x | i x. True}
     \<union> {(\<lambda>l. fst (snd (execute_once i f l ()))) | i f. True}"

lemma ledger_actionsI [intro]:
  "ledger_record i x \<in> ledger_actions"
  "(\<lambda>l. fst (snd (execute_once i f l ()))) \<in> ledger_actions"
  unfolding ledger_actions_def by blast+

inductive tab_step :: "run_table \<Rightarrow> run_table \<Rightarrow> bool" where
  step_register: "tab_get t (ctx_run_id ctx) = None \<Longrightarrow>
     tab_step t (tab_put (ctx_run_id ctx) (new_record ctx limits now) t)"
| step_set_state: "\<not> is_terminal st \<Longrightarrow>
     tab_step t (snd (record_section run (set_state_section st) t))"
| step_emit: "terminal_state ev = None \<Longrightarrow> \<not> is_run_started ev \<Longrightarrow>
     tab_step t (snd (record_section run (emit_section ev) t))"
| step_finish: "terminal_state ev = Some st \<Longrightarrow> st \<noteq> Cancelled \<Longrightarrow>
     tab_step t (snd (record_section run (finish_section st ev) t))"
| step_cancel: "tab_step t (snd (record_section run cancel_section t))"
| step_hook: "tab_step t (snd (tab_register_hook run h t))"
| step_budget: "tab_step t (snd (on_budget missing (budget_call_step now c) run t))"
| step_ledger: "g \<in> ledger_actions \<Longrightarrow>
     tab_step t (snd (record_section run (\<lambda>r. (Inr (), r\<lparr>rr_ledger := g (rr_ledger r)\<rparr>)) t))"
| step_operations: "tab_step t (t\<lparr>tab_operations := op_do c (tab_operations t)\<rparr>)"
| step_wake: "tab_step t (wake_event_waiters t)"

definition fresh_ok :: "run_id \<Rightarrow> run_record \<Rightarrow> bool" where
  "fresh_ok run r = (ctx_run_id (rr_context r) = run \<and> run_ok r)"

definition table_evolves :: "run_table \<Rightarrow> run_table \<Rightarrow> bool" where
  "table_evolves t t' = (\<forall>run. case (tab_get t run, tab_get t' run) of
      (Some r, Some r') \<Rightarrow> run_grows r r'
    | (Some r, None) \<Rightarrow> False
    | (None, Some r') \<Rightarrow> fresh_ok run r'
    | (None, None) \<Rightarrow> True)"

lemma tab_get_put [simp]: "tab_get (tab_put run r t) k = (if k = run then Some r else tab_get t k)"
  by (simp add: tab_get_def tab_put_def)

lemma tab_get_frame [simp]:
  "tab_get (t\<lparr>tab_operations := s\<rparr>) k = tab_get t k"
  "tab_get (wake_event_waiters t) k = tab_get t k"
  by (simp_all add: tab_get_def wake_event_waiters_def)

lemma tab_record_Inr_iff [simp]:
  "tab_record t run = Inr r \<longleftrightarrow> \<not> tab_poisoned t \<and> tab_get t run = Some r"
  by (simp add: tab_record_def)

lemma table_evolves_refl [simp]: "table_evolves t t"
  by (simp add: table_evolves_def split: option.split)

lemma table_evolvesI:
  assumes "\<And>run r. tab_get t run = Some r \<Longrightarrow> \<exists>r'. tab_get t' run = Some r' \<and> run_grows r r'"
    and "\<And>run r'. tab_get t run = None \<Longrightarrow> tab_get t' run = Some r' \<Longrightarrow> fresh_ok run r'"
  shows "table_evolves t t'"
  unfolding table_evolves_def
proof
  fix run
  show "case (tab_get t run, tab_get t' run) of
      (Some r, Some r') \<Rightarrow> run_grows r r' | (Some r, None) \<Rightarrow> False
    | (None, Some r') \<Rightarrow> fresh_ok run r' | (None, None) \<Rightarrow> True"
    using assms [of run] by (cases "tab_get t run"; cases "tab_get t' run") auto
qed

lemma table_evolves_SomeD:
  "table_evolves t t' \<Longrightarrow> tab_get t run = Some r \<Longrightarrow> \<exists>r'. tab_get t' run = Some r' \<and> run_grows r r'"
  unfolding table_evolves_def by (drule spec [of _ run]) (auto split: option.splits)

lemma table_evolves_NoneD:
  "table_evolves t t' \<Longrightarrow> tab_get t run = None \<Longrightarrow> tab_get t' run = Some r' \<Longrightarrow> fresh_ok run r'"
  unfolding table_evolves_def by (drule spec [of _ run]) simp

lemma fresh_ok_grows: "fresh_ok run r \<Longrightarrow> run_grows r r' \<Longrightarrow> fresh_ok run r'"
  by (simp add: fresh_ok_def run_grows_def)

lemma table_evolves_trans:
  assumes "table_evolves a b" "table_evolves b c"
  shows "table_evolves a c"
proof (rule table_evolvesI)
  fix run r assume "tab_get a run = Some r"
  then obtain r1 where "tab_get b run = Some r1" "run_grows r r1"
    using table_evolves_SomeD [OF assms(1)] by blast
  moreover from this obtain r2 where "tab_get c run = Some r2" "run_grows r1 r2"
    using table_evolves_SomeD [OF assms(2)] by blast
  ultimately show "\<exists>r'. tab_get c run = Some r' \<and> run_grows r r'"
    using run_grows_trans by blast
next
  fix run r' assume n: "tab_get a run = None" and s: "tab_get c run = Some r'"
  show "fresh_ok run r'"
  proof (cases "tab_get b run")
    case None
    from table_evolves_NoneD [OF assms(2) this s] show ?thesis .
  next
    case (Some r)
    have "fresh_ok run r" using table_evolves_NoneD [OF assms(1) n Some] .
    moreover obtain r2 where "tab_get c run = Some r2" "run_grows r r2"
      using table_evolves_SomeD [OF assms(2) Some] by blast
    ultimately show ?thesis using s fresh_ok_grows by simp
  qed
qed

lemma put_evolves:
  assumes "tab_get t run = Some r" "run_grows r r'" "t' = tab_put run r' t"
  shows "table_evolves t t'"
  by (rule table_evolvesI) (use assms in \<open>auto split: if_splits\<close>)

lemma record_section_evolves:
  assumes "\<And>r. run_grows r (snd (f r))"
  shows "table_evolves t (snd (record_section run f t))"
proof (cases "tab_record t run")
  case (Inr r)
  obtain x r' where f: "f r = (x, r')" by (metis surj_pair)
  with assms [of r] have "run_grows r r'" by simp
  moreover have "snd (record_section run f t) = tab_put run r' t"
    by (simp add: record_section_def Inr f)
  ultimately show ?thesis using Inr by (intro put_evolves) simp_all
qed (simp add: record_section_def)

lemma set_state_grows: "\<not> is_terminal st \<Longrightarrow> run_grows r (snd (set_state_section st r))"
  using run_grows_append [of "EvStateChanged st" st r "rr_cancellation r"]
  by (auto simp: set_state_section_def run_ok_def is_terminal_def)

lemma emit_grows:
  "terminal_state ev = None \<Longrightarrow> \<not> is_run_started ev \<Longrightarrow> run_grows r (snd (emit_section ev r))"
  using run_grows_append [of ev "rr_state r" r "rr_cancellation r"]
  by (auto simp: emit_section_def run_ok_def is_terminal_def)

lemma terminal_state_facts:
  "terminal_state ev = Some st \<Longrightarrow> is_terminal st" "terminal_state ev = Some st \<Longrightarrow> \<not> is_run_started ev"
  by (cases ev; auto simp: is_terminal_def)+

lemma finish_grows:
  "terminal_state ev = Some st \<Longrightarrow> st \<noteq> Cancelled \<Longrightarrow> run_grows r (snd (finish_section st ev r))"
  using run_grows_append [of ev st r "rr_cancellation r"] terminal_state_facts [of ev st]
  by (auto simp: finish_section_def run_ok_def is_terminal_def)

lemma run_grows_other:
  "rr_context r' = rr_context r \<Longrightarrow> rr_limits r' = rr_limits r \<Longrightarrow> rr_events r' = rr_events r \<Longrightarrow>
   rr_state r' = rr_state r \<Longrightarrow> rr_cancellation r' = rr_cancellation r \<Longrightarrow>
   (budget_ok (rr_budget r) \<Longrightarrow> budget_ok (rr_budget r')) \<Longrightarrow> run_grows r r'"
  by (simp add: run_grows_def run_ok_def)

lemma cancel_grows: "run_grows r (snd (cancel_section r))"
proof (cases "is_terminal (rr_state r)")
  case True
  then show ?thesis by (simp add: cancel_section_def)
next
  case False
  let ?tok = "snd (token_cancel (rr_cancellation r))"
  let ?p = "append_event EvCancelled (r\<lparr>rr_state := Cancelled, rr_cancellation := ?tok\<rparr>)"
  have g: "run_grows r (snd ?p)"
    using False by (intro run_grows_append) (simp_all add: is_terminal_def)
  obtain x r' where p: "?p = (x, r')" by (metis surj_pair)
  have "run_grows r' (r'\<lparr>rr_hooks := []\<rparr>)" by (rule run_grows_other) simp_all
  with g p have "run_grows r (r'\<lparr>rr_hooks := []\<rparr>)" by (metis run_grows_trans snd_conv)
  with g p False show ?thesis by (cases x) (simp_all add: cancel_section_def Let_def)
qed

lemma on_budget_evolves:
  assumes "\<And>b x b'. f b = (x, b') \<Longrightarrow> budget_ok b \<Longrightarrow> budget_ok b'"
  shows "table_evolves t (snd (on_budget missing f run t))"
proof (cases "tab_record t run")
  case (Inr r)
  obtain x b where f: "f (rr_budget r) = (x, b)" by (metis surj_pair)
  have "run_grows r (r\<lparr>rr_budget := b\<rparr>)"
    by (rule run_grows_other) (use assms [OF f] in simp_all)
  moreover have "snd (on_budget missing f run t) = tab_put run (r\<lparr>rr_budget := b\<rparr>) t"
    by (simp add: on_budget_def Inr f)
  ultimately show ?thesis using Inr by (intro put_evolves) simp_all
qed (simp add: on_budget_def)

lemma tab_step_evolves: "tab_step t t' \<Longrightarrow> table_evolves t t'"
proof (induction rule: tab_step.induct)
  case (step_register t ctx limits now)
  then show ?case by (auto intro!: table_evolvesI simp: fresh_ok_def new_record_ok split: if_splits)
      (simp add: new_record_def)
next
  case (step_hook t run h)
  show ?case unfolding tab_register_hook_def
    by (rule record_section_evolves) (auto intro: run_grows_other)
next
  case (step_budget t missing now c run)
  show ?case by (rule on_budget_evolves) (rule budget_call_step_ok)
next
  case (step_ledger g t run)
  show ?case by (rule record_section_evolves) (auto intro: run_grows_other)
next
  case (step_operations t c)
  show ?case by (auto intro!: table_evolvesI)
next
  case (step_wake t)
  show ?case by (auto intro!: table_evolvesI)
qed (auto intro!: record_section_evolves set_state_grows emit_grows finish_grows cancel_grows)

lemma tab_steps_evolve: "tab_step\<^sup>*\<^sup>* t t' \<Longrightarrow> table_evolves t t'"
  by (induction rule: rtranclp_induct) (auto intro: table_evolves_trans tab_step_evolves)

lemma tab_reachable_ok:
  "tab_step\<^sup>*\<^sup>* tab_new t \<Longrightarrow> tab_get t run = Some r \<Longrightarrow> fresh_ok run r"
  using table_evolves_NoneD [OF tab_steps_evolve, of tab_new t run r]
  by (simp add: tab_new_def tab_get_def)

text \<open>
  A relation between the successive records of a run that is kept by every section, because it
  looks at the budget and the ledger only, holds along all steps.
\<close>

lemma section_shared_cells:
  "rr_budget (snd (set_state_section st r)) = rr_budget r"
  "rr_ledger (snd (set_state_section st r)) = rr_ledger r"
  "rr_budget (snd (emit_section ev r)) = rr_budget r"
  "rr_ledger (snd (emit_section ev r)) = rr_ledger r"
  "rr_budget (snd (finish_section st ev r)) = rr_budget r"
  "rr_ledger (snd (finish_section st ev r)) = rr_ledger r"
  by (simp_all add: set_state_section_def emit_section_def finish_section_def append_event_frame)

lemma cancel_section_shared_cells:
  "rr_budget (snd (cancel_section r)) = rr_budget r \<and> rr_ledger (snd (cancel_section r)) = rr_ledger r"
proof -
  let ?p = "append_event EvCancelled (r\<lparr>rr_state := Cancelled,
      rr_cancellation := snd (token_cancel (rr_cancellation r))\<rparr>)"
  have "rr_budget (snd ?p) = rr_budget r" "rr_ledger (snd ?p) = rr_ledger r"
    by (simp_all add: append_event_frame)
  then show ?thesis by (auto simp: cancel_section_def Let_def split: prod.split sum.split)
qed

definition runs_related :: "(run_record \<Rightarrow> run_record \<Rightarrow> bool) \<Rightarrow> run_table \<Rightarrow> run_table \<Rightarrow> bool" where
  "runs_related R t t' = (\<forall>run r. tab_get t run = Some r \<longrightarrow>
     (\<exists>r'. tab_get t' run = Some r' \<and> R r r'))"

lemma record_section_related:
  assumes "\<And>r. R r r" "\<And>r. R r (snd (f r))"
  shows "runs_related R t (snd (record_section k f t))"
proof (cases "tab_record t k")
  case (Inl e)
  show ?thesis by (simp add: record_section_def Inl runs_related_def assms(1))
next
  case (Inr r)
  then have get: "tab_get t k = Some r" by simp
  have "snd (record_section k f t) = tab_put k (snd (f r)) t"
    by (simp add: record_section_def Inr split: prod.split)
  with get assms show ?thesis by (auto simp: runs_related_def)
qed

locale cell_relation =
  fixes R :: "run_record \<Rightarrow> run_record \<Rightarrow> bool"
  assumes same: "rr_budget r' = rr_budget r \<Longrightarrow> rr_ledger r' = rr_ledger r \<Longrightarrow> R r r'"
    and budget: "budget_call_step now c (rr_budget r) = (x, b) \<Longrightarrow> R r (r\<lparr>rr_budget := b\<rparr>)"
    and ledger: "g \<in> ledger_actions \<Longrightarrow> R r (r\<lparr>rr_ledger := g (rr_ledger r)\<rparr>)"
    and trans: "R r1 r2 \<Longrightarrow> R r2 r3 \<Longrightarrow> R r1 r3"
begin

lemma step_related: "tab_step t t' \<Longrightarrow> runs_related R t t'"
proof (induction rule: tab_step.induct)
  case (step_register t ctx limits now)
  then show ?case by (auto simp: runs_related_def same)
next
  case (step_hook t k h)
  show ?case unfolding tab_register_hook_def by (rule record_section_related) (auto intro: same)
next
  case (step_budget t missing now c k)
  show ?case
  proof (cases "tab_record t k")
    case (Inl e)
    show ?thesis by (simp add: on_budget_def Inl runs_related_def same)
  next
    case (Inr r)
    then have get: "tab_get t k = Some r" by simp
    obtain x b where b: "budget_call_step now c (rr_budget r) = (x, b)" by (metis surj_pair)
    have "snd (on_budget missing (budget_call_step now c) k t) = tab_put k (r\<lparr>rr_budget := b\<rparr>) t"
      by (simp add: on_budget_def Inr b)
    with get budget [OF b] same show ?thesis by (auto simp: runs_related_def)
  qed
next
  case (step_operations t c)
  show ?case by (simp add: runs_related_def same)
next
  case (step_wake t)
  show ?case by (simp add: runs_related_def same)
qed (rule record_section_related; simp add: same section_shared_cells cancel_section_shared_cells ledger)+

lemma steps_related: "tab_step\<^sup>*\<^sup>* t t' \<Longrightarrow> runs_related R t t'"
proof (induction rule: rtranclp_induct)
  case base
  show ?case by (simp add: runs_related_def same)
next
  case (step a b)
  have "runs_related R a b" using step.hyps(2) by (rule step_related)
  with step.IH show ?case unfolding runs_related_def using trans by blast
qed

end

section \<open>Every operation is a sequence of steps\<close>

lemmas steps_trans = rtranclp_trans [of tab_step]
lemmas step_then = rtranclp.rtrancl_into_rtrancl [of tab_step]

lemma one_step: "tab_step t t' \<Longrightarrow> tab_step\<^sup>*\<^sup>* t t'"
  by (rule r_into_rtranclp)

lemma waking_steps: "tab_step\<^sup>*\<^sup>* t (snd p) \<Longrightarrow> tab_step\<^sup>*\<^sup>* t (snd (waking p))"
  by (auto simp: waking_def intro: step_then step_wake split: prod.split sum.split)

lemma run_section_snd: "snd (run_section f sec s) = snd (run_section g sec s)"
  by (simp add: run_section_def split: sum.split)

lemma op_cancel_run_do: "snd (op_cancel_run run s) = op_do (CallCancelRun run) s"
  by (simp add: op_cancel_run_def op_do_def) (rule run_section_snd)

lemma with_cancel_run_snd:
  "snd (with_operations (op_cancel_run run) t) =
     t\<lparr>tab_operations := op_do (CallCancelRun run) (tab_operations t)\<rparr>"
  using op_cancel_run_do [of run "tab_operations t"]
  by (auto simp: with_operations_def split: prod.split)

lemma with_cancel_run_steps: "tab_step\<^sup>*\<^sup>* t (snd (with_operations (op_cancel_run run) t))"
  unfolding with_cancel_run_snd by (intro one_step step_operations)

lemma finish_steps:
  assumes "terminal_state ev = Some st" "st \<noteq> Cancelled"
  shows "tab_step\<^sup>*\<^sup>* t (snd (tab_finish U run st ev t))"
proof -
  let ?p = "waking (record_section run (finish_section st ev) t)"
  have "tab_step\<^sup>*\<^sup>* t (snd ?p)" using assms by (intro waking_steps one_step step_finish)
  moreover have "tab_step\<^sup>*\<^sup>* (snd ?p) (snd (with_operations (op_mark_run_terminal run) (snd ?p)))"
    using with_cancel_run_steps [of "snd ?p" run]
    unfolding op_mark_run_terminal_def [abs_def] by simp
  ultimately show ?thesis
    by (auto simp: tab_finish_def split: sum.split prod.split dest: steps_trans)
qed

lemma cancel_steps: "tab_step\<^sup>*\<^sup>* t (snd (tab_cancel U run t))"
proof -
  let ?p = "waking (record_section run cancel_section t)"
  have "tab_step\<^sup>*\<^sup>* t (snd ?p)" by (intro waking_steps one_step step_cancel)
  with with_cancel_run_steps [of "snd ?p" run] show ?thesis
    by (auto simp: tab_cancel_def split: sum.split prod.split dest: steps_trans)
qed

lemma cancel_each_steps: "tab_step\<^sup>*\<^sup>* t (snd (cancel_each U runs t))"
proof (induction runs arbitrary: t)
  case Nil
  then show ?case by simp
next
  case (Cons run runs)
  obtain x t1 where c: "tab_cancel U run t = (x, t1)" by (metis surj_pair)
  with cancel_steps [of t U run] have "tab_step\<^sup>*\<^sup>* t t1" by simp
  then have "tab_step\<^sup>*\<^sup>* t (snd (cancel_each U runs t1))" using Cons.IH by (rule steps_trans)
  with \<open>tab_step\<^sup>*\<^sup>* t t1\<close> show ?case
    by (auto simp: c split: sum.split run_table_error.split prod.split)
qed

text \<open>The operations of the table, as data.\<close>

datatype table_call =
    TabRegister run_context run_limits nat
  | TabHook run_id cancellation_hook
  | TabSetState run_id run_state
  | TabEmit run_id run_event
  | TabFinishCompleted run_id "message list"
  | TabFinishFailed run_id str
  | TabCancel run_id
  | TabCancelTree run_id
  | TabModelRound run_id nat
  | TabToolInvocation run_id nat
  | TabExecuteOnce run_id tool_invocation_id json
  | TabRecord run_id tool_invocation_id tool_result
  | TabOp op_call

fun table_do :: "uuid_lib \<Rightarrow> table_call \<Rightarrow> run_table \<Rightarrow> run_table" where
  "table_do U (TabRegister ctx limits now) t = snd (tab_register ctx limits now t)"
| "table_do U (TabHook run h) t = snd (tab_register_hook run h t)"
| "table_do U (TabSetState run st) t = snd (set_state U run st t)"
| "table_do U (TabEmit run ev) t = snd (emit U run ev t)"
| "table_do U (TabFinishCompleted run out) t = snd (finish_completed U run out t)"
| "table_do U (TabFinishFailed run m) t = snd (finish_failed U run m t)"
| "table_do U (TabCancel run) t = snd (tab_cancel U run t)"
| "table_do U (TabCancelTree run) t = snd (cancel_tree U run t)"
| "table_do U (TabModelRound run now) t = snd (consume_model_round now run t)"
| "table_do U (TabToolInvocation run now) t = snd (consume_tool_invocation now run t)"
| "table_do U (TabExecuteOnce run i v) t = fst (snd (execute_tool_once run i (\<lambda>w. (v, w)) t ()))"
| "table_do U (TabRecord run i x) t = snd (record_tool_execution run i x t)"
| "table_do U (TabOp c) t = t\<lparr>tab_operations := op_do c (tab_operations t)\<rparr>"

definition table_history :: "uuid_lib \<Rightarrow> table_call list \<Rightarrow> run_table \<Rightarrow> run_table" where
  "table_history U cs t = fold (table_do U) cs t"

lemma execute_tool_once_section:
  "fst (snd (execute_tool_once run i (\<lambda>w. (v, w)) t ())) =
     snd (record_section run (\<lambda>r. (Inr (), r\<lparr>rr_ledger :=
       fst (snd (execute_once i (\<lambda>w. (Inr (result_from_value v), w)) (rr_ledger r) ()))\<rparr>)) t)"
proof (cases "tab_record t run")
  case (Inl e)
  show ?thesis by (simp add: execute_tool_once_def record_section_def Inl)
next
  case (Inr r)
  show ?thesis by (simp add: execute_tool_once_def record_section_def Inr split: prod.split)
qed

lemma table_do_steps: "tab_step\<^sup>*\<^sup>* t (table_do U c t)"
proof (cases c)
  case (TabRegister ctx limits now)
  show ?thesis
  proof (cases "tab_get t (ctx_run_id ctx) = None \<and> \<not> tab_poisoned t")
    case True
    then have "tab_step\<^sup>*\<^sup>* t (tab_put (ctx_run_id ctx) (new_record ctx limits now) t)"
      by (intro one_step step_register) simp
    from step_then [OF this step_wake] True TabRegister show ?thesis by (simp add: tab_register_def)
  qed (auto simp: TabRegister tab_register_def)
next
  case (TabHook run h)
  then show ?thesis by (simp add: one_step step_hook)
next
  case (TabSetState run st)
  then show ?thesis by (simp add: set_state_def waking_steps one_step step_set_state)
next
  case (TabEmit run ev)
  then show ?thesis by (simp add: emit_def waking_steps one_step step_emit)
next
  case (TabFinishCompleted run out)
  then show ?thesis by (simp add: finish_completed_def finish_steps)
next
  case (TabFinishFailed run m)
  then show ?thesis by (simp add: finish_failed_def finish_steps)
next
  case (TabCancel run)
  then show ?thesis by (simp add: cancel_steps)
next
  case (TabCancelTree run)
  then show ?thesis
    by (simp add: cancel_tree_def cancel_each_steps split: sum.split bool.split)
next
  case (TabModelRound run now)
  then show ?thesis
    using step_budget [of t BkModelRounds now CallModelRound run]
    by (simp add: consume_model_round_def one_step budget_call_step.simps(1) [abs_def])
next
  case (TabToolInvocation run now)
  then show ?thesis
    using step_budget [of t BkToolInvocations now CallToolInvocation run]
    by (simp add: consume_tool_invocation_def one_step budget_call_step.simps(2) [abs_def])
next
  case (TabExecuteOnce run i v)
  have "tab_step t (snd (record_section run (\<lambda>r. (Inr (), r\<lparr>rr_ledger :=
       fst (snd (execute_once i (\<lambda>w. (Inr (result_from_value v), w)) (rr_ledger r) ()))\<rparr>)) t))"
    by (intro step_ledger ledger_actionsI)
  then show ?thesis
    by (simp only: TabExecuteOnce table_do.simps execute_tool_once_section one_step)
next
  case (TabRecord run i x)
  then show ?thesis
    by (simp add: record_tool_execution_def one_step step_ledger ledger_actionsI)
next
  case (TabOp c)
  then show ?thesis by (simp add: one_step step_operations)
qed

lemma table_history_steps: "tab_step\<^sup>*\<^sup>* t (table_history U cs t)"
proof (induction cs arbitrary: t)
  case Nil
  then show ?case by (simp add: table_history_def)
next
  case (Cons c cs)
  show ?case using steps_trans [OF table_do_steps [of t U c] Cons.IH]
    by (simp add: table_history_def)
qed

section \<open>The event log\<close>

text \<open>
  C4. The event log of a run is well-formed in every interleaving of the threads that use the
  table: it opens with the run's \<open>RunStarted\<close>, which does not occur again; the events carry
  the run's identifier and the sequence numbers 1, 2, 3, \<dots>; no event but the last is terminal,
  and the last is terminal exactly when the run's state is, with the same outcome; the
  cancellation token is set exactly for cancelled runs.
\<close>

theorem run_log_wellformed:
  assumes "tab_step\<^sup>*\<^sup>* tab_new t" "tab_get t run = Some r"
  shows "(\<exists>first rest. rr_events r = first # rest \<and> env_event first = EvRunStarted (rr_context r)
           \<and> (\<forall>e \<in> set rest. \<not> is_run_started (env_event e)))
    \<and> (\<forall>e \<in> set (rr_events r). env_run_id e = run)
    \<and> (\<forall>k < length (rr_events r). unat (env_sequence (rr_events r ! k)) = min (Suc k) (2 ^ 64 - 1))
    \<and> (\<forall>e \<in> set (butlast (rr_events r)). terminal_state (env_event e) = None)
    \<and> terminal_state (env_event (last (rr_events r)))
        = (if is_terminal (rr_state r) then Some (rr_state r) else None)
    \<and> tok_cancelled (rr_cancellation r) = (rr_state r = Cancelled)"
proof -
  from tab_reachable_ok [OF assms] have ok: "run_ok r" and id: "ctx_run_id (rr_context r) = run"
    by (simp_all add: fresh_ok_def)
  from ok have "log_ok (rr_context r) (rr_events r)" by (simp add: run_ok_def)
  then have "\<exists>first rest. rr_events r = first # rest \<and> env_event first = EvRunStarted (rr_context r)
      \<and> (\<forall>e \<in> set rest. \<not> is_run_started (env_event e))"
    by (cases "rr_events r") (auto simp: log_ok_def)
  with ok id show ?thesis by (auto simp: run_ok_def log_ok_def)
qed

text \<open>
  C24. A terminal run is frozen: whatever the threads do afterwards, its state, its event log
  and its cancellation token never change.
\<close>

theorem terminal_run_is_frozen:
  assumes "tab_step\<^sup>*\<^sup>* tab_new t" "tab_get t run = Some r" "is_terminal (rr_state r)"
    and "tab_step\<^sup>*\<^sup>* t t'"
  shows "\<exists>r'. tab_get t' run = Some r' \<and> rr_state r' = rr_state r \<and> rr_events r' = rr_events r
    \<and> rr_cancellation r' = rr_cancellation r"
proof -
  from tab_reachable_ok [OF assms(1,2)] have "run_ok r" by (simp add: fresh_ok_def)
  moreover obtain r' where "tab_get t' run = Some r'" "run_grows r r'"
    using table_evolves_SomeD [OF tab_steps_evolve [OF assms(4)] assms(2)] by blast
  ultimately show ?thesis using assms(3) by (auto simp: run_grows_def)
qed

lemma tab_step_poisoned: "tab_step t t' \<Longrightarrow> tab_poisoned t' = tab_poisoned t"
  by (induction rule: tab_step.induct)
    (auto simp: record_section_def tab_register_hook_def on_budget_def tab_put_def
      wake_event_waiters_def split: sum.split prod.split)

lemma tab_step_ops_poisoned:
  "tab_step t t' \<Longrightarrow> ops_poisoned (tab_operations t') = ops_poisoned (tab_operations t)"
  by (induction rule: tab_step.induct)
    (auto simp: record_section_def tab_register_hook_def on_budget_def tab_put_def
      wake_event_waiters_def split: sum.split prod.split)

lemma tab_steps_poisoned:
  "tab_step\<^sup>*\<^sup>* t t' \<Longrightarrow> tab_poisoned t' = tab_poisoned t
     \<and> ops_poisoned (tab_operations t') = ops_poisoned (tab_operations t)"
  by (induction rule: rtranclp_induct) (auto simp: tab_step_poisoned tab_step_ops_poisoned)

lemma tab_reachable_unpoisoned:
  "tab_step\<^sup>*\<^sup>* tab_new t \<Longrightarrow> \<not> tab_poisoned t \<and> \<not> ops_poisoned (tab_operations t)"
  by (drule tab_steps_poisoned) (simp add: tab_new_def ops_new_def)

lemma filter_sequence_drop:
  assumes "\<And>k. k < length es \<Longrightarrow> unat (env_sequence (es ! k)) = Suc (b + k)"
    and "b \<le> unat n"
  shows "filter (\<lambda>e. env_sequence e > n) es = drop (unat n - b) es"
  using assms
proof (induction es arbitrary: b)
  case Nil
  then show ?case by simp
next
  case (Cons e es)
  have e: "unat (env_sequence e) = Suc b" using Cons.prems(1) [of 0] by simp
  have tl: "unat (env_sequence (es ! k)) = Suc (Suc b + k)" if "k < length es" for k
    using Cons.prems(1) [of "Suc k"] that by simp
  show ?case
  proof (cases "b = unat n")
    case True
    have "\<forall>x \<in> set es. env_sequence x > n"
      using tl True by (auto simp: in_set_conv_nth word_less_nat_alt)
    with e True show ?thesis by (simp add: word_less_nat_alt)
  next
    case False
    with Cons.prems(2) have "Suc b \<le> unat n" by simp
    with Cons.IH [of "Suc b", OF tl] e show ?thesis
      by (simp add: word_less_nat_alt drop_Cons' Suc_diff_Suc)
  qed
qed

lemma tab_reachable_log_ok:
  "tab_step\<^sup>*\<^sup>* tab_new t \<Longrightarrow> tab_get t run = Some r \<Longrightarrow> log_ok (rr_context r) (rr_events r)"
  using tab_reachable_ok [of t run r] by (simp add: fresh_ok_def run_ok_def)

lemma events_since_drop:
  assumes "tab_step\<^sup>*\<^sup>* tab_new t" "tab_get t run = Some r" "length (rr_events r) < 2 ^ 64 - 1"
  shows "events_since run n t = Inr (drop (unat n) (rr_events r))"
proof -
  from tab_reachable_log_ok [OF assms(1,2)]
  have "unat (env_sequence (rr_events r ! k)) = Suc (0 + k)" if "k < length (rr_events r)" for k
    using that assms(3) by (auto simp: log_ok_def)
  from filter_sequence_drop [OF this, of n]
  have "filter (\<lambda>e. env_sequence e > n) (rr_events r) = drop (unat n) (rr_events r)" by simp
  moreover have "tab_record t run = Inr r" using tab_reachable_unpoisoned [OF assms(1)] assms(2) by simp
  ultimately show ?thesis unfolding events_since_def by (simp only: res_bind_simps)
qed

lemma last_sequence:
  assumes "tab_step\<^sup>*\<^sup>* tab_new t" "tab_get t run = Some r" "length (rr_events r) < 2 ^ 64 - 1"
  shows "unat (env_sequence (last (rr_events r))) = length (rr_events r)"
proof -
  from tab_reachable_log_ok [OF assms(1,2)] have ne: "rr_events r \<noteq> []"
    and num: "k < length (rr_events r) \<Longrightarrow> unat (env_sequence (rr_events r ! k)) = min (Suc k) (2 ^ 64 - 1)" for k
    by (simp_all add: log_ok_def)
  from num [of "length (rr_events r) - 1"] ne assms(3) show ?thesis by (simp add: last_conv_nth)
qed

text \<open>
  C22. Polling is exact. A reader that has seen the log of a run up to its last sequence number
  gets, from \<open>events_since\<close> with that number at any later time, the events appended in between,
  all of them, once, in order (for logs below \<open>2^64 - 1\<close> events, where the numbers saturate).
\<close>

theorem polling_gets_exactly_the_new_events:
  assumes "tab_step\<^sup>*\<^sup>* tab_new t" "tab_get t run = Some r"
    and "tab_step\<^sup>*\<^sup>* t t'" "tab_get t' run = Some r'"
    and "length (rr_events r') < 2 ^ 64 - 1"
  shows "\<exists>new. events_since run (env_sequence (last (rr_events r))) t' = Inr new
    \<and> rr_events r' = rr_events r @ new"
proof -
  obtain new where new: "rr_events r' = rr_events r @ new"
    using table_evolves_SomeD [OF tab_steps_evolve [OF assms(3)] assms(2)] assms(4)
    by (auto simp: run_grows_def prefix_def)
  with assms(5) have "length (rr_events r) < 2 ^ 64 - 1" by simp
  note last_sequence [OF assms(1,2) this]
  with events_since_drop [OF steps_trans [OF assms(1,3)] assms(4,5)] new show ?thesis by simp
qed

section \<open>Finishing a run\<close>

lemma op_cancel_run_succeeds:
  "\<not> ops_poisoned s \<Longrightarrow> \<exists>k s'. op_cancel_run run s = (Inr k, s')"
  by (cases "sweep (cancellable run) OpCancelled
        (s\<lparr>ops_terminal_runs := insert run (ops_terminal_runs s)\<rparr>)")
    (simp add: op_cancel_run_def run_section_def cancel_run_section_def ops_lock_def)

lemma update_same: "map_of al k = Some v \<Longrightarrow> AList.update k v al = al"
  by (induction al) auto

lemma tab_put_same [simp]: "tab_get t run = Some r \<Longrightarrow> tab_put run r t = t"
  by (simp add: tab_put_def tab_get_def update_same)

definition unsettled :: "run_id \<Rightarrow> operation_store \<Rightarrow> bool" where
  "unsettled run s = (\<exists>(i, r) \<in> set (ops_operations s).
     op_run_id (rec_operation r) = run \<and> \<not> op_is_terminal (rec_state r))"

lemma op_snapshot_unsettled:
  assumes "\<not> ops_poisoned s"
  obtains snaps where "op_snapshot U run s = Inr snaps"
    "(\<exists>n \<in> set snaps. \<not> op_is_terminal (snap_state n)) = unsettled run s"
proof
  let ?snaps = "sort_key (\<lambda>n. operation_hyphenated U (op_id (snap_operation n)))
     (map snapshot_of (filter (\<lambda>r. op_run_id (rec_operation r) = run) (map snd (ops_operations s))))"
  show "op_snapshot U run s = Inr ?snaps" using assms by (simp add: op_snapshot_def ops_lock_def)
  show "(\<exists>n \<in> set ?snaps. \<not> op_is_terminal (snap_state n)) = unsettled run s"
    by (force simp: unsettled_def snapshot_of_def)
qed

lemma tab_finish_decides:
  assumes "tab_step\<^sup>*\<^sup>* tab_new t" "tab_get t run = Some r"
  shows "(if unsettled run (tab_operations t)
          then tab_finish U run st ev t = (Inl TabPendingOperations, t)
          else if is_terminal (rr_state r)
          then tab_finish U run st ev t = (Inl TabRunTerminal, t)
          else \<exists>t' r' n. tab_finish U run st ev t = (Inr n, t') \<and> tab_get t' run = Some r'
             \<and> rr_state r' = st
             \<and> rr_events r' = rr_events r @ [\<lparr>env_sequence = n, env_run_id = run,
                                              env_event = ev\<rparr>]
             \<and> n = saturating_add (env_sequence (last (rr_events r))) 1
             \<and> run \<in> ops_terminal_runs (tab_operations t'))"
proof -
  from tab_reachable_unpoisoned [OF assms(1)] have p: "\<not> tab_poisoned t"
    and op: "\<not> ops_poisoned (tab_operations t)" by simp_all
  obtain snaps where snaps: "op_snapshot U run (tab_operations t) = Inr snaps"
    "(\<exists>n \<in> set snaps. \<not> op_is_terminal (snap_state n)) = unsettled run (tab_operations t)"
    by (rule op_snapshot_unsettled [OF op])
  have rec: "tab_record t run = Inr r" using p assms(2) by simp
  show ?thesis
  proof (cases "unsettled run (tab_operations t) \<or> is_terminal (rr_state r)")
    case True
    then show ?thesis using snaps assms(2)
      by (auto simp: tab_finish_def record_section_def rec finish_section_def
          waking_def)
  next
    case False
    from tab_reachable_ok [OF assms] have ok: "run_ok r" and id: "ctx_run_id (rr_context r) = run"
      by (simp_all add: fresh_ok_def)
    let ?r = "r\<lparr>rr_state := st\<rparr>"
    from ok False have open_log: "log_ok (rr_context ?r) (rr_events ?r)"
      "terminal_state (env_event (last (rr_events ?r))) = None" by (simp_all add: run_ok_def)
    let ?n = "saturating_add (env_sequence (last (rr_events r))) 1"
    let ?r' = "r\<lparr>rr_state := st, rr_events := rr_events r @ [\<lparr>env_sequence = ?n,
        env_run_id = run, env_event = ev\<rparr>]\<rparr>"
    have sec: "finish_section st ev r = (Inr ?n, ?r')"
      using False append_event_open [OF open_log, of "ev"] id
      by (simp add: finish_section_def)
    let ?t1 = "wake_event_waiters (tab_put run ?r' t)"
    have w: "waking (record_section run (finish_section st ev) t) = (Inr ?n, ?t1)"
      by (simp add: record_section_def rec sec waking_def)
    have ops: "tab_operations ?t1 = tab_operations t"
      by (simp add: wake_event_waiters_def tab_put_def)
    obtain k s where m: "op_cancel_run run (tab_operations t) = (Inr k, s)"
      using op_cancel_run_succeeds [OF op] by blast
    have "run \<in> ops_terminal_runs s"
      using op_do_cancel_terminal [OF op, of run] op_cancel_run_do [of run "tab_operations t"] m by simp
    with False snaps w m ops show ?thesis
      by (auto simp: tab_finish_def with_operations_def op_mark_run_terminal_def)
  qed
qed

text \<open>
  C26. When a run finishes. On any reachable table, \<open>finish_completed\<close> refuses while an operation
  of the run is unsettled, and a run that is already terminal; otherwise it appends the
  completion as the log's last event with the next sequence number and returns that number, and
  from then on the operation store accepts nothing for the run.
\<close>

theorem finish_completed_decides:
  assumes "tab_step\<^sup>*\<^sup>* tab_new t" "tab_get t run = Some r"
  shows "(if unsettled run (tab_operations t)
          then finish_completed U run out t = (Inl TabPendingOperations, t)
          else if is_terminal (rr_state r)
          then finish_completed U run out t = (Inl TabRunTerminal, t)
          else \<exists>t' r' n. finish_completed U run out t = (Inr n, t') \<and> tab_get t' run = Some r'
             \<and> rr_state r' = Completed
             \<and> rr_events r' = rr_events r @ [\<lparr>env_sequence = n, env_run_id = run,
                                              env_event = EvCompleted out\<rparr>]
             \<and> n = saturating_add (env_sequence (last (rr_events r))) 1
             \<and> run \<in> ops_terminal_runs (tab_operations t'))"
  unfolding finish_completed_def by (rule tab_finish_decides [OF assms])

section \<open>Cancelling a tree of runs\<close>

text \<open>The parent relation of the table, and the runs below one.\<close>

definition child_of :: "run_table \<Rightarrow> run_id \<Rightarrow> run_id \<Rightarrow> bool" where
  "child_of t parent c =
     (\<exists>r. tab_get t c = Some r \<and> ctx_parent_run_id (rr_context r) = Some parent)"

definition descendant :: "run_table \<Rightarrow> run_id \<Rightarrow> run_id \<Rightarrow> bool" where
  "descendant t root run = (child_of t)\<^sup>*\<^sup>* root run"

definition table_ok :: "run_table \<Rightarrow> bool" where
  "table_ok t = (distinct (map fst (tab_runs t)) \<and>
     (\<forall>run r. tab_get t run = Some r \<longrightarrow> fresh_ok run r))"

lemma tab_step_distinct:
  "tab_step t t' \<Longrightarrow> distinct (map fst (tab_runs t)) \<Longrightarrow> distinct (map fst (tab_runs t'))"
  by (induction rule: tab_step.induct)
    (auto simp: record_section_def tab_register_hook_def on_budget_def tab_put_def
      wake_event_waiters_def split: sum.split prod.split)

lemma tab_reachable_distinct: "tab_step\<^sup>*\<^sup>* tab_new t \<Longrightarrow> distinct (map fst (tab_runs t))"
  by (induction rule: rtranclp_induct) (auto simp: tab_new_def intro: tab_step_distinct)

lemma tab_reachable_table_ok: "tab_step\<^sup>*\<^sup>* tab_new t \<Longrightarrow> table_ok t"
  by (simp add: table_ok_def tab_reachable_distinct tab_reachable_ok)

lemma children_of_iff:
  "table_ok t \<Longrightarrow> c \<in> set (children_of (tab_runs t) p) \<longleftrightarrow> child_of t p c"
  unfolding children_of_def child_of_def table_ok_def tab_get_def fresh_ok_def
  by (force simp: map_of_eq_Some_iff)

lemma collect_targets_distinct:
  "distinct targets \<Longrightarrow> distinct (collect_targets runs pending targets)"
  by (induction runs pending targets rule: collect_targets.induct) auto

text \<open>The collected set holds the targets and the stack, is closed under children, and holds
  nothing that is not below one of them.\<close>

lemma collect_targets_closed:
  assumes "table_ok t"
    and "\<forall>x \<in> set targets. \<forall>y. child_of t x y \<longrightarrow> y \<in> set targets \<union> set pending"
  shows "set targets \<union> set pending \<subseteq> set (collect_targets (tab_runs t) pending targets)
    \<and> (\<forall>x \<in> set (collect_targets (tab_runs t) pending targets). \<forall>y. child_of t x y \<longrightarrow>
         y \<in> set (collect_targets (tab_runs t) pending targets))
    \<and> (\<forall>y \<in> set (collect_targets (tab_runs t) pending targets).
         y \<in> set targets \<or> (\<exists>x \<in> set pending. descendant t x y))"
  using assms(2)
proof (induction "tab_runs t" pending targets rule: collect_targets.induct)
  case (1 targets)
  then show ?case by simp
next
  case (2 parent pending targets)
  show ?case
  proof (cases "parent \<in> set targets")
    case True
    with 2 show ?thesis by (auto simp: insert_absorb)
  next
    case False
    let ?ch = "rev (children_of (tab_runs t) parent)"
    have ch: "set ?ch = {y. child_of t parent y}" using children_of_iff [OF assms(1)] by auto
    have below: "child_of t parent x \<Longrightarrow> descendant t x y \<Longrightarrow> descendant t parent y" for x y
      unfolding descendant_def by (rule converse_rtranclp_into_rtranclp)
    have self: "descendant t parent parent" by (simp add: descendant_def)
    let ?C = "collect_targets (tab_runs t) (?ch @ pending) (targets @ [parent])"
    have "\<forall>x \<in> set (targets @ [parent]). \<forall>y. child_of t x y \<longrightarrow>
        y \<in> set (targets @ [parent]) \<union> set (?ch @ pending)" using 2(3) ch by auto
    from 2(2) [OF False this]
    have sub: "set (targets @ [parent]) \<union> set (?ch @ pending) \<subseteq> set ?C"
      and closed: "\<forall>x \<in> set ?C. \<forall>y. child_of t x y \<longrightarrow> y \<in> set ?C"
      and down: "\<forall>y \<in> set ?C. y \<in> set (targets @ [parent])
        \<or> (\<exists>x \<in> set (?ch @ pending). descendant t x y)" by blast+
    have "\<forall>y \<in> set ?C. y \<in> set targets \<or> (\<exists>x \<in> set (parent # pending). descendant t x y)"
    proof
      fix y assume "y \<in> set ?C"
      with down consider "y \<in> set targets" | "y = parent" | x where "child_of t parent x" "descendant t x y"
        | x where "x \<in> set pending" "descendant t x y" using ch by auto
      then show "y \<in> set targets \<or> (\<exists>x \<in> set (parent # pending). descendant t x y)"
        by cases (use self below in auto)
    qed
    moreover have "collect_targets (tab_runs t) (parent # pending) targets = ?C" using False by simp
    ultimately show ?thesis using sub closed by auto
  qed
qed

lemma collect_targets_exact:
  assumes "table_ok t"
  shows "set (collect_targets (tab_runs t) [root] []) = {run. descendant t root run}"
proof -
  let ?R = "set (collect_targets (tab_runs t) [root] [])"
  have "\<forall>x \<in> set []. \<forall>y. child_of t x y \<longrightarrow> y \<in> set [] \<union> set [root]" by simp
  from collect_targets_closed [OF assms this]
  have root: "root \<in> ?R" and closed: "\<And>x y. x \<in> ?R \<Longrightarrow> child_of t x y \<Longrightarrow> y \<in> ?R"
    and below: "\<And>y. y \<in> ?R \<Longrightarrow> descendant t root y"
    by (auto simp del: collect_targets.simps)
  have "y \<in> ?R" if "(child_of t)\<^sup>*\<^sup>* root y" for y
    using that
  proof (induction rule: rtranclp_induct)
    case base
    show ?case by (rule root)
  next
    case (step y z)
    from closed [OF step.IH step.hyps(2)] show ?case .
  qed
  with below show ?thesis by (auto simp: descendant_def)
qed

definition cancelled_record :: "run_record \<Rightarrow> run_record" where
  "cancelled_record r =
     r\<lparr>rr_state := Cancelled, rr_cancellation := snd (token_cancel (rr_cancellation r)), rr_hooks := [],
       rr_events := rr_events r
         @ [\<lparr>env_sequence = saturating_add (env_sequence (last (rr_events r))) 1,
             env_run_id = ctx_run_id (rr_context r), env_event = EvCancelled\<rparr>]\<rparr>"

definition unpoisoned :: "run_table \<Rightarrow> bool" where
  "unpoisoned t = (\<not> tab_poisoned t \<and> \<not> ops_poisoned (tab_operations t))"

lemma tab_cancel_effect:
  assumes "unpoisoned t" "tab_get t run = Some r" "run_ok r"
  shows "if is_terminal (rr_state r) then tab_cancel U run t = (Inl TabRunTerminal, t)
    else \<exists>rep t'. tab_cancel U run t = (Inr rep, t') \<and> unpoisoned t'
      \<and> tab_get t' = (tab_get t)(run \<mapsto> cancelled_record r)"
proof -
  have rec: "tab_record t run = Inr r" using assms by (simp add: unpoisoned_def)
  show ?thesis
  proof (cases "is_terminal (rr_state r)")
    case True
    then show ?thesis using assms(2)
      by (simp add: tab_cancel_def record_section_def rec cancel_section_def waking_def)
  next
    case False
    let ?tok = "snd (token_cancel (rr_cancellation r))"
    let ?r = "r\<lparr>rr_state := Cancelled, rr_cancellation := ?tok\<rparr>"
    from assms(3) False have op: "log_ok (rr_context ?r) (rr_events ?r)"
      "terminal_state (env_event (last (rr_events ?r))) = None" by (simp_all add: run_ok_def)
    have sec: "cancel_section r = (Inr (rr_hooks r), cancelled_record r)"
      using False append_event_open [OF op, of EvCancelled]
      by (simp add: cancel_section_def cancelled_record_def Let_def)
    let ?t1 = "wake_event_waiters (tab_put run (cancelled_record r) t)"
    have w: "waking (record_section run cancel_section t) = (Inr (rr_hooks r), ?t1)"
      by (simp add: record_section_def rec sec waking_def)
    have t1: "unpoisoned ?t1" "tab_operations ?t1 = tab_operations t"
      using assms(1) by (simp_all add: unpoisoned_def wake_event_waiters_def tab_put_def)
    obtain k s where m: "op_cancel_run run (tab_operations t) = (Inr k, s)"
      using op_cancel_run_succeeds [of "tab_operations t" run] assms(1) unpoisoned_def by blast
    let ?t2 = "?t1\<lparr>tab_operations := s\<rparr>"
    have "s = op_do (CallCancelRun run) (tab_operations t)"
      using op_cancel_run_do [of run "tab_operations t"] m by simp
    then have t2: "unpoisoned ?t2" using t1 by (simp add: unpoisoned_def)
    have "tab_record ?t2 run = Inr (cancelled_record r)" using t2 by (simp add: unpoisoned_def)
    then have "\<exists>sn. tab_snapshot U run ?t2 = Inr sn"
      using t2 by (simp only: tab_snapshot_def res_bind_simps)
        (simp add: op_snapshot_def ops_lock_def unpoisoned_def)
    then obtain sn where sn: "tab_snapshot U run ?t2 = Inr sn" by blast
    have get: "tab_get ?t2 = (tab_get t)(run \<mapsto> cancelled_record r)" by auto
    have "tab_cancel U run t = (Inr \<lparr>report_snapshot = sn,
        report_hook_errors = hook_errors run (rr_hooks r)\<rparr>, ?t2)"
      by (simp add: tab_cancel_def w with_operations_def m t1(2) sn del: fun_upd_apply)
    with False t2 get show ?thesis by auto
  qed
qed

definition cancel_outcome :: "run_record \<Rightarrow> run_record" where
  "cancel_outcome r = (if is_terminal (rr_state r) then r else cancelled_record r)"

lemma cancel_each_effect:
  assumes "unpoisoned t" "distinct runs" "\<forall>run \<in> set runs. \<exists>r. tab_get t run = Some r"
    and "\<forall>run r. tab_get t run = Some r \<longrightarrow> run_ok r"
  shows "\<exists>reps t'. cancel_each U runs t = (Inr reps, t')
    \<and> (\<forall>run. tab_get t' run =
         (if run \<in> set runs then map_option cancel_outcome (tab_get t run) else tab_get t run))"
  using assms
proof (induction runs arbitrary: t)
  case Nil
  then show ?case by simp
next
  case (Cons run runs)
  then obtain r where r: "tab_get t run = Some r" "run_ok r" by auto
  note eff = tab_cancel_effect [OF Cons.prems(1) r, of U]
  show ?case
  proof (cases "is_terminal (rr_state r)")
    case True
    then have c: "tab_cancel U run t = (Inl TabRunTerminal, t)" using eff by simp
    from Cons.IH [of t] Cons.prems obtain reps t' where
      "cancel_each U runs t = (Inr reps, t')"
      "\<forall>k. tab_get t' k =
         (if k \<in> set runs then map_option cancel_outcome (tab_get t k) else tab_get t k)"
      by auto
    with True r Cons.prems(2) show ?thesis by (auto simp: c cancel_outcome_def)
  next
    case False
    with eff obtain rep t1 where c: "tab_cancel U run t = (Inr rep, t1)" "unpoisoned t1"
      "tab_get t1 = (tab_get t)(run \<mapsto> cancelled_record r)" by auto
    have ok1: "\<forall>k q. tab_get t1 k = Some q \<longrightarrow> run_ok q"
    proof (intro allI impI)
      fix k q assume q: "tab_get t1 k = Some q"
      have "table_evolves t t1"
        using tab_steps_evolve [OF cancel_steps [of t U run]] c(1) by simp
      then show "run_ok q"
        using q Cons.prems(4) table_evolves_SomeD [of t t1 k] table_evolves_NoneD [of t t1 k q]
        by (cases "tab_get t k") (auto simp: fresh_ok_def run_grows_def)
    qed
    have "distinct runs" using Cons.prems(2) by simp
    moreover have "\<forall>k \<in> set runs. \<exists>q. tab_get t1 k = Some q" using Cons.prems(3) c(3) by auto
    ultimately obtain reps t' where
      "cancel_each U runs t1 = (Inr reps, t')"
      "\<forall>k. tab_get t' k =
         (if k \<in> set runs then map_option cancel_outcome (tab_get t1 k) else tab_get t1 k)"
      using Cons.IH [OF c(2) _ _ ok1] by blast
    with False r Cons.prems(2) show ?thesis by (auto simp: c cancel_outcome_def)
  qed
qed

text \<open>
  C1. \<open>cancel_tree\<close> cancels exactly the runs below the root. On any reachable table that knows
  the root it succeeds; every run that is the root or below it through the parent links, and was
  not terminal, is then cancelled, with its token set, its hooks taken and \<open>Cancelled\<close> appended as
  the last event; every other run is as it was. The collection of the targets terminates
  also when the parent links form a cycle.
\<close>

theorem cancel_tree_exact:
  assumes "tab_step\<^sup>*\<^sup>* tab_new t" "tab_get t root \<noteq> None"
  shows "\<exists>reps t'. cancel_tree U root t = (Inr reps, t')
    \<and> (\<forall>run. tab_get t' run =
         map_option (\<lambda>r. if descendant t root run \<and> \<not> is_terminal (rr_state r)
            then cancelled_record r else r) (tab_get t run))"
proof -
  have ok: "table_ok t" and up: "unpoisoned t"
    using tab_reachable_table_ok [OF assms(1)] tab_reachable_unpoisoned [OF assms(1)]
    by (simp_all add: unpoisoned_def)
  let ?R = "collect_targets (tab_runs t) [root] []"
  have R: "set ?R = {run. descendant t root run}" by (rule collect_targets_exact [OF ok])
  have known: "\<exists>r. tab_get t run = Some r" if "descendant t root run" for run
    using that assms(2) unfolding descendant_def
    by (cases rule: rtranclp.cases) (auto simp: child_of_def)
  from cancel_each_effect [OF up, of ?R U] obtain reps t' where
    c: "cancel_each U ?R t = (Inr reps, t')"
    "\<forall>run. tab_get t' run =
       (if run \<in> set ?R then map_option cancel_outcome (tab_get t run) else tab_get t run)"
    using ok known R by (auto simp: table_ok_def fresh_ok_def collect_targets_distinct)
  have "cancel_tree U root t = (Inr reps, t')"
    using up assms(2) c(1) by (auto simp: cancel_tree_def tab_contains_def unpoisoned_def)
  moreover have "tab_get t' run = map_option (\<lambda>r. if descendant t root run \<and> \<not> is_terminal (rr_state r)
      then cancelled_record r else r) (tab_get t run)" for run
    using c(2) R by (cases "tab_get t run") (auto simp: cancel_outcome_def)
  ultimately show ?thesis by blast
qed

section \<open>Concrete instances\<close>

definition sample_context :: "nat \<Rightarrow> run_id option \<Rightarrow> run_context" where
  "sample_context n parent =
     \<lparr>ctx_run_id = RunId (word_of_nat n), ctx_session_id = None, ctx_parent_run_id = parent\<rparr>"

definition sample_tree :: run_table where
  "sample_tree = table_history sample_uuid_lib
     [TabRegister (sample_context 1 None) default_limits 0,
      TabRegister (sample_context 2 (Some (RunId 1))) default_limits 0] tab_new"

definition sample_tree_later :: run_table where
  "sample_tree_later = table_history sample_uuid_lib [TabEmit (RunId 2) (EvModelDelta ''hi'')] sample_tree"

definition sample_tree_done :: run_table where
  "sample_tree_done = table_history sample_uuid_lib [TabFinishFailed (RunId 2) ''no''] sample_tree"

lemmas sample_table_simps =
  sample_tree_def sample_tree_later_def sample_tree_done_def table_history_def sample_context_def
  tab_register_def tab_get_def tab_put_def wake_event_waiters_def tab_new_def ops_new_def
  emit_def waking_def record_section_def tab_record_def emit_section_def append_event_def
  last_event_def new_record_def is_terminal_def saturating_add_def Let_def finish_failed_def
  tab_finish_def op_snapshot_def ops_lock_def with_operations_def op_mark_run_terminal_def
  op_cancel_run_def run_section_def cancel_run_section_def sweep_def map_values_def
  notify_all_def finish_section_def

lemma sample_tree_reachable: "tab_step\<^sup>*\<^sup>* tab_new sample_tree"
  unfolding sample_tree_def by (rule table_history_steps)

lemma sample_tree_later_reachable: "tab_step\<^sup>*\<^sup>* sample_tree sample_tree_later"
  unfolding sample_tree_later_def by (rule table_history_steps)

lemma sample_tree_done_reachable: "tab_step\<^sup>*\<^sup>* sample_tree sample_tree_done"
  unfolding sample_tree_done_def by (rule table_history_steps)

lemma sample_tree_run2:
  "tab_get sample_tree (RunId 2) = Some (new_record (sample_context 2 (Some (RunId 1))) default_limits 0)"
  by (simp add: sample_table_simps)

definition sample_child :: run_record where
  "sample_child = new_record (sample_context 2 (Some (RunId 1))) default_limits 0"

lemma sample_tree_later_run2:
  "tab_get sample_tree_later (RunId 2) = Some (sample_child\<lparr>rr_events := rr_events sample_child
     @ [\<lparr>env_sequence = 2, env_run_id = RunId 2, env_event = EvModelDelta ''hi''\<rparr>]\<rparr>)"
  by (simp add: sample_table_simps sample_child_def)

lemma sample_tree_done_run2:
  "tab_get sample_tree_done (RunId 2) = Some (sample_child\<lparr>rr_state := Failed,
     rr_events := rr_events sample_child
       @ [\<lparr>env_sequence = 2, env_run_id = RunId 2, env_event = EvFailed ''no''\<rparr>]\<rparr>)"
  by (simp add: sample_table_simps sample_child_def)

theorem run_log_wellformed_witness:
  "terminal_state (env_event (last (rr_events sample_child))) = None
   \<and> tok_cancelled (rr_cancellation sample_child) = (rr_state sample_child = Cancelled)"
proof -
  have "\<not> is_terminal (rr_state sample_child)"
    by (simp add: sample_child_def new_record_def is_terminal_def)
  then show ?thesis
    using run_log_wellformed [OF sample_tree_reachable sample_tree_run2]
    unfolding sample_child_def by (simp only: if_False simp_thms)
qed

theorem terminal_run_is_frozen_witness:
  "\<exists>r'. tab_get (table_history sample_uuid_lib [TabCancelTree (RunId 1)] sample_tree_done) (RunId 2)
     = Some r' \<and> rr_state r' = Failed"
proof -
  have "tab_step\<^sup>*\<^sup>* tab_new sample_tree_done"
    by (rule steps_trans [OF sample_tree_reachable sample_tree_done_reachable])
  from terminal_run_is_frozen [OF this sample_tree_done_run2 _ table_history_steps]
  show ?thesis by (auto simp: is_terminal_def)
qed

theorem polling_gets_exactly_the_new_events_witness:
  "events_since (RunId 2) 1 sample_tree_later =
     Inr [\<lparr>env_sequence = 2, env_run_id = RunId 2, env_event = EvModelDelta ''hi''\<rparr>]"
  using polling_gets_exactly_the_new_events [OF sample_tree_reachable sample_tree_run2
      sample_tree_later_reachable sample_tree_later_run2]
  by (simp add: sample_child_def new_record_def)

theorem finish_completed_decides_witness:
  "\<exists>t' n. finish_completed sample_uuid_lib (RunId 2) [] sample_tree = (Inr n, t')"
proof -
  have "\<not> unsettled (RunId 2) (tab_operations sample_tree)"
    by (simp add: sample_table_simps unsettled_def)
  with finish_completed_decides [OF sample_tree_reachable sample_tree_run2, of sample_uuid_lib "[]"]
  show ?thesis by (auto simp: new_record_def is_terminal_def)
qed

theorem cancel_tree_exact_witness:
  "\<exists>reps t'. cancel_tree sample_uuid_lib (RunId 1) sample_tree = (Inr reps, t')
     \<and> tab_get t' (RunId 2) = Some (cancelled_record sample_child)"
proof -
  have "tab_get sample_tree (RunId 1) \<noteq> None" by (simp add: sample_table_simps)
  from cancel_tree_exact [OF sample_tree_reachable this, of sample_uuid_lib]
  obtain reps t' where c: "cancel_tree sample_uuid_lib (RunId 1) sample_tree = (Inr reps, t')"
    "tab_get t' (RunId 2) = map_option (\<lambda>r. if descendant sample_tree (RunId 1) (RunId 2)
        \<and> \<not> is_terminal (rr_state r) then cancelled_record r else r) (tab_get sample_tree (RunId 2))"
    by blast
  have "child_of sample_tree (RunId 1) (RunId 2)"
    by (simp add: child_of_def sample_tree_run2 new_record_def sample_context_def)
  then have "descendant sample_tree (RunId 1) (RunId 2)" by (simp add: descendant_def)
  moreover have "\<not> is_terminal (rr_state sample_child)"
    by (simp add: sample_child_def new_record_def is_terminal_def)
  ultimately show ?thesis using c sample_tree_run2 by (auto simp: sample_child_def)
qed

end
