(* ===== verification/Run_Handle.thy ===== *)
theory Run_Handle
  imports Run_Table
begin

text \<open>
  What a caller sees of a run: the errors of the public API (\<open>backend.rs\<close> of \<open>aifluxon-api\<close>), the
  task that forwards the events of a run to its stream (\<open>spawn_event_forwarder\<close>), and the result
  a handle makes of the stream (\<open>run.rs\<close>, \<open>result.rs\<close>).
\<close>

section \<open>Errors\<close>

datatype aifluxon_error_kind =
    AeInvalidConfiguration | AeInvalidRequest | AeProvider | AeTool | AePolicyDenied
  | AeOperationPending | AeOperationRejected | AeCancelled | AeBudgetExceeded | AeStateConflict
  | AeRuntimeUnavailable | AeFailed | AeInternal

record aifluxon_error =
  ae_kind :: aifluxon_error_kind
  ae_message :: str

definition ae_new :: "aifluxon_error_kind \<Rightarrow> str \<Rightarrow> aifluxon_error" where
  "ae_new kind m = \<lparr>ae_kind = kind, ae_message = m\<rparr>"

definition map_runtime_error :: "run_table_error \<Rightarrow> aifluxon_error" where
  "map_runtime_error e =
     ae_new (case e of TabUnknownRun \<Rightarrow> AeInvalidRequest | TabRunTerminal \<Rightarrow> AeStateConflict | _ \<Rightarrow> AeInternal)
       (run_table_error_message e)"

section \<open>Results\<close>

record run_result =
  rres_run_id :: run_id
  rres_session_id :: "session_id option"
  rres_state :: run_state
  rres_output :: "message list"
  rres_text :: str
  rres_usage :: "json option"

definition text_of_parts :: "content_part list \<Rightarrow> str" where
  "text_of_parts parts =
     concat (List.map_filter (\<lambda>p. case p of PartText t \<Rightarrow> Some t | PartImage i \<Rightarrow> None) parts)"

definition assistant_text :: "message list \<Rightarrow> str" where
  "assistant_text out =
     unwrap_or [] (map_option (\<lambda>m. text_of_parts (msg_content m))
       (find (\<lambda>m. msg_role m = RoleAssistant) (rev out)))"

definition terminal_result ::
    "run_id \<Rightarrow> session_id option \<Rightarrow> run_state \<Rightarrow> message list \<Rightarrow> json option \<Rightarrow> str option
       \<Rightarrow> aifluxon_error + run_result" where
  "terminal_result run session st out usage failure =
     (case st of
        Cancelled \<Rightarrow> Inl (ae_new AeCancelled ''The run was cancelled.'')
      | Failed \<Rightarrow> Inl (ae_new AeFailed (unwrap_or ''The run failed.'' failure))
      | Completed \<Rightarrow>
          Inr \<lparr>rres_run_id = run, rres_session_id = session, rres_state = st, rres_output = out,
               rres_text = assistant_text out, rres_usage = usage\<rparr>
      | _ \<Rightarrow> Inl (ae_new AeInternal ''The run event stream ended without a terminal outcome.''))"

text \<open>The variables of \<open>RunHandle::result\<close>, and what an event makes of them.\<close>

record handle_state =
  hs_output :: "message list"
  hs_usage :: "json option"
  hs_failure :: "str option"
  hs_state :: "run_state option"

definition handle_start :: handle_state where
  "handle_start = \<lparr>hs_output = [], hs_usage = None, hs_failure = None, hs_state = None\<rparr>"

fun handle_event :: "run_event \<Rightarrow> handle_state \<Rightarrow> handle_state" where
  "handle_event (EvUsageUpdated usage) h = h\<lparr>hs_usage := Some usage\<rparr>"
| "handle_event (EvCompleted out) h = h\<lparr>hs_output := out, hs_state := Some Completed\<rparr>"
| "handle_event (EvFailed m) h = h\<lparr>hs_failure := Some m, hs_state := Some Failed\<rparr>"
| "handle_event EvCancelled h = h\<lparr>hs_state := Some Cancelled\<rparr>"
| "handle_event _ h = h"

definition handle_result :: "run_context \<Rightarrow> run_event_envelope list \<Rightarrow> aifluxon_error + run_result" where
  "handle_result ctx envelopes =
     (let h = fold (\<lambda>e. handle_event (env_event e)) envelopes handle_start in
      terminal_result (ctx_run_id ctx) (ctx_session_id ctx) (unwrap_or Failed (hs_state h))
        (hs_output h) (hs_usage h) (hs_failure h))"

section \<open>The forwarder\<close>

text \<open>
  The task polls the log of the run; between two polls the table moves. It gives every event to
  the sink of the host and sends it to the channel, which fails once the receiver is dropped:
  \<open>accepts k\<close> says whether the send after \<open>k\<close> events succeeds.
\<close>

record forwarder =
  fwd_sequence :: u64
  fwd_sunk :: "run_event_envelope list"
  fwd_sent :: "run_event_envelope list"
  fwd_running :: bool

definition forwarder_new :: forwarder where
  "forwarder_new = \<lparr>fwd_sequence = 0, fwd_sunk = [], fwd_sent = [], fwd_running = True\<rparr>"

definition forward_event :: "(nat \<Rightarrow> bool) \<Rightarrow> run_event_envelope \<Rightarrow> forwarder \<Rightarrow> forwarder" where
  "forward_event accepts e f =
     (if \<not> fwd_running f then f
      else
        let ok = accepts (length (fwd_sent f)) in
        f\<lparr>fwd_sequence := env_sequence e, fwd_sunk := fwd_sunk f @ [e],
          fwd_sent := (if ok then fwd_sent f @ [e] else fwd_sent f),
          fwd_running := ok \<and> terminal_state (env_event e) = None\<rparr>)"

definition forward_poll :: "(nat \<Rightarrow> bool) \<Rightarrow> run_id \<Rightarrow> run_table \<Rightarrow> forwarder \<Rightarrow> forwarder" where
  "forward_poll accepts run t f =
     (if \<not> fwd_running f then f
      else case events_since run (fwd_sequence f) t of
             Inl e \<Rightarrow> f\<lparr>fwd_running := False\<rparr>
           | Inr events \<Rightarrow> fold (forward_event accepts) events f)"

definition forward_run :: "(nat \<Rightarrow> bool) \<Rightarrow> run_id \<Rightarrow> run_table list \<Rightarrow> forwarder" where
  "forward_run accepts run tables = fold (forward_poll accepts run) tables forwarder_new"

section \<open>The stream is the log\<close>

text \<open>Where the forwarder stands when it has forwarded the whole of a log.\<close>

definition forwarded :: "run_event_envelope list \<Rightarrow> forwarder \<Rightarrow> bool" where
  "forwarded es f =
     (fwd_sunk f = es \<and> fwd_sent f = es
      \<and> fwd_running f = (es = [] \<or> terminal_state (env_event (last es)) = None)
      \<and> unat (fwd_sequence f) = (if es = [] then 0 else unat (env_sequence (last es))))"

lemma forward_events:
  assumes "forwarded es f" "\<forall>e \<in> set (butlast (es @ new)). terminal_state (env_event e) = None"
  shows "forwarded (es @ new) (fold (forward_event (\<lambda>_. True)) new f)"
  using assms
proof (induction new arbitrary: es f)
  case (Cons e new)
  have "es = [] \<or> terminal_state (env_event (last es)) = None"
    using Cons.prems(2) by (cases es rule: rev_cases) (auto simp: butlast_append)
  with Cons.prems(1) have "forwarded (es @ [e]) (forward_event (\<lambda>_. True) e f)"
    by (auto simp: forwarded_def forward_event_def Let_def)
  from Cons.IH [OF this] Cons.prems(2) show ?case by simp
qed simp

lemma forward_poll_catches_up:
  assumes "forwarded es f" "tab_step\<^sup>*\<^sup>* tab_new t" "tab_get t run = Some r"
    and "length (rr_events r) < 2 ^ 64 - 1" "prefix es (rr_events r)"
    and "es = [] \<or> unat (env_sequence (last es)) = length es"
  shows "forwarded (rr_events r) (forward_poll (\<lambda>_. True) run t f)"
proof -
  note log = tab_reachable_log_ok [OF assms(2,3)]
  from assms(5) obtain new where new: "rr_events r = es @ new" by (auto simp: prefix_def)
  have quiet: "\<forall>e \<in> set (butlast (es @ new)). terminal_state (env_event e) = None"
    using log by (simp add: log_ok_def new)
  show ?thesis
  proof (cases "fwd_running f")
    case True
    have "unat (fwd_sequence f) = length es" using assms(1,6) by (auto simp: forwarded_def)
    with events_since_drop [OF assms(2-4), of "fwd_sequence f"]
    have "events_since run (fwd_sequence f) t = Inr new" by (simp add: new)
    with True forward_events [OF assms(1) quiet] show ?thesis by (simp add: forward_poll_def new)
  next
    case False
    then have "es \<noteq> []" "terminal_state (env_event (last es)) \<noteq> None"
      using assms(1) by (auto simp: forwarded_def)
    with quiet have "new = []" by (cases new) (auto simp: butlast_append)
    with False assms(1) show ?thesis by (simp add: forward_poll_def new)
  qed
qed

lemma forward_run_catches_up:
  assumes "tables \<noteq> []" "sorted_wrt tab_step\<^sup>*\<^sup>* tables" "tab_step\<^sup>*\<^sup>* tab_new (hd tables)"
    and "tab_get (hd tables) run \<noteq> None" "tab_get (last tables) run = Some r"
    and "length (rr_events r) < 2 ^ 64 - 1"
  shows "forwarded (rr_events r) (forward_run (\<lambda>_. True) run tables)"
  using assms
proof (induction tables arbitrary: r rule: rev_induct)
  case (snoc t tables)
  show ?case
  proof (cases "tables = []")
    case True
    have "forwarded [] forwarder_new" by (simp add: forwarded_def forwarder_new_def)
    from forward_poll_catches_up [OF this, of t run r] snoc.prems True show ?thesis
      by (simp add: forward_run_def)
  next
    case False
    then have step: "tab_step\<^sup>*\<^sup>* (last tables) t" "tab_step\<^sup>*\<^sup>* (hd tables) (last tables)"
      "sorted_wrt tab_step\<^sup>*\<^sup>* tables"
      using snoc.prems(2) by (auto simp: sorted_wrt_append) (cases tables; auto)
    with snoc.prems(3) False have reach: "tab_step\<^sup>*\<^sup>* tab_new (last tables)" "tab_step\<^sup>*\<^sup>* tab_new t"
      using steps_trans [of tab_new "hd tables" "last tables"] steps_trans [of tab_new "last tables" t]
      by simp_all
    obtain r0 where "tab_get (hd tables) run = Some r0" using snoc.prems(4) False by auto
    from table_evolves_SomeD [OF tab_steps_evolve [OF step(2)] this]
    obtain r1 where r1: "tab_get (last tables) run = Some r1" by blast
    from table_evolves_SomeD [OF tab_steps_evolve [OF step(1)] r1] snoc.prems(5)
    have grows: "prefix (rr_events r1) (rr_events r)" by (auto simp: run_grows_def)
    then have len: "length (rr_events r1) < 2 ^ 64 - 1" using snoc.prems(6) prefix_length_le by fastforce
    from snoc.IH [OF False step(3)] snoc.prems(3,4) r1 len False
    have "forwarded (rr_events r1) (forward_run (\<lambda>_. True) run tables)" by simp
    from forward_poll_catches_up [OF this reach(2) _ snoc.prems(6) grows] last_sequence [OF reach(1) r1 len]
      snoc.prems(5) show ?thesis by (simp add: forward_run_def)
  qed
qed simp

text \<open>The usage the last of the events reported.\<close>

definition last_usage :: "run_event_envelope list \<Rightarrow> json option" where
  "last_usage es =
     (case rev (List.map_filter (\<lambda>e. case env_event e of EvUsageUpdated u \<Rightarrow> Some u | _ \<Rightarrow> None) es) of
        [] \<Rightarrow> None | u # us \<Rightarrow> Some u)"

lemma map_filter_append: "List.map_filter f (xs @ ys) = List.map_filter f xs @ List.map_filter f ys"
  by (simp add: List.map_filter_def)

lemma last_usage_snoc:
  "last_usage (es @ [e]) = (case env_event e of EvUsageUpdated u \<Rightarrow> Some u | _ \<Rightarrow> last_usage es)"
  by (cases "env_event e") (simp_all add: last_usage_def map_filter_append List.map_filter_simps)

lemma handle_quiet_events:
  assumes "\<forall>e \<in> set es. terminal_state (env_event e) = None"
  shows "fold (\<lambda>e. handle_event (env_event e)) es h =
    h\<lparr>hs_usage := (case last_usage es of None \<Rightarrow> hs_usage h | Some u \<Rightarrow> Some u)\<rparr>"
  using assms
proof (induction es rule: rev_induct)
  case (snoc e es)
  then show ?case
    by (cases "env_event e") (auto simp: last_usage_snoc)
qed (simp add: last_usage_def List.map_filter_simps)

text \<open>
  C23. The result of a run is its canonical outcome. Whenever the forwarder polls the table, if the
  run has ended by the last poll, the stream carries the log of the run, every event once and in
  order, and the sink of the host gets the same; and what the handle makes of the stream is
  decided by the last event of the log alone, but for the usage, which is the last reported.
\<close>

theorem handle_reports_the_outcome:
  assumes "tables \<noteq> []" "sorted_wrt tab_step\<^sup>*\<^sup>* tables" "tab_step\<^sup>*\<^sup>* tab_new (hd tables)"
    and "tab_get (hd tables) run \<noteq> None" "tab_get (last tables) run = Some r"
    and "length (rr_events r) < 2 ^ 64 - 1" "is_terminal (rr_state r)"
  shows "let stream = fwd_sent (forward_run (\<lambda>_. True) run tables) in
    stream = rr_events r \<and> fwd_sunk (forward_run (\<lambda>_. True) run tables) = rr_events r
    \<and> handle_result (rr_context r) stream =
        (case env_event (last (rr_events r)) of
           EvCompleted out \<Rightarrow>
             Inr \<lparr>rres_run_id = ctx_run_id (rr_context r), rres_session_id = ctx_session_id (rr_context r),
                  rres_state = Completed, rres_output = out, rres_text = assistant_text out,
                  rres_usage = last_usage (rr_events r)\<rparr>
         | EvFailed m \<Rightarrow> Inl (ae_new AeFailed m)
         | _ \<Rightarrow> Inl (ae_new AeCancelled ''The run was cancelled.''))"
proof -
  note whole = forward_run_catches_up [OF assms(1-6)]
  have "tab_step\<^sup>*\<^sup>* (hd tables) (last tables)"
    using assms(1,2) by (cases tables) auto
  then have reach: "tab_step\<^sup>*\<^sup>* tab_new (last tables)" using assms(3) by (rule steps_trans [rotated])
  note ok = tab_reachable_ok [OF reach assms(5), unfolded fresh_ok_def run_ok_def]
  then have log: "rr_events r \<noteq> []" "\<forall>e \<in> set (butlast (rr_events r)). terminal_state (env_event e) = None"
    by (auto simp: log_ok_def)
  obtain es e where es: "rr_events r = es @ [e]" using log(1) by (metis rev_exhaust)
  with ok assms(7) have e: "terminal_state (env_event e) = Some (rr_state r)" by simp
  let ?h = "handle_start\<lparr>hs_usage := last_usage es\<rparr>"
  have "fold (\<lambda>e. handle_event (env_event e)) es handle_start = ?h"
    using handle_quiet_events [of es handle_start] log(2) by (cases "last_usage es") (simp_all add: es handle_start_def)
  then have "fold (\<lambda>e. handle_event (env_event e)) (rr_events r) handle_start = handle_event (env_event e) ?h"
    by (simp add: es)
  with whole e show ?thesis
    by (cases "env_event e")
      (simp_all add: forwarded_def handle_result_def terminal_result_def es handle_start_def last_usage_snoc)
qed

theorem handle_reports_the_outcome_witness:
  "handle_result (sample_context 2 (Some (RunId 1)))
     (fwd_sent (forward_run (\<lambda>_. True) (RunId 2) [sample_tree, sample_tree_done])) = Inl (ae_new AeFailed ''no'')"
proof -
  let ?tables = "[sample_tree, sample_tree_done]"
  have tables: "?tables \<noteq> []" "sorted_wrt tab_step\<^sup>*\<^sup>* ?tables" "tab_step\<^sup>*\<^sup>* tab_new (hd ?tables)"
    "tab_get (hd ?tables) (RunId 2) \<noteq> None" "last ?tables = sample_tree_done"
    by (simp_all add: sample_tree_reachable sample_tree_done_reachable sample_tree_run2)
  show ?thesis
    using handle_reports_the_outcome [OF tables(1-4), unfolded tables(5), OF sample_tree_done_run2]
    by (simp add: sample_child_def new_record_def is_terminal_def Let_def) metis
qed

end
