(* ===== verification/Coordinator.thy ===== *)
theory Coordinator
  imports Run_Table Continuation
begin

text \<open>
  The agent loop (\<open>coordinator.rs\<close> of \<open>aifluxon-runtime\<close>): one model turn after another, with
  the tool calls of a turn executed in between, over the run table.

  What the loop awaits is outside of it: the provider, the executors, the decision of the host.
  While it awaits, other threads may change the table. So the environment is a record of
  functions on the whole world (the table and an external state \<open>'w\<close>); a \<open>tokio::select!\<close> with
  the cancellation token yields \<open>None\<close> when the cancellation branch wins. A tool call is a task
  that one function advances from await to await, so that sequential execution and the
  interleavings of \<open>join_all\<close> are made of the same steps; a poll goes on through every await that
  is ready at once, and the environment says whether an executor is.
\<close>

section \<open>World and environment\<close>

record 'w coord_world =
  cw_table :: run_table
  cw_ext :: 'w

record ('x, 'w) coord_env =
  env_uuid :: uuid_lib
  env_json :: json_lib
  env_tools :: "'x tool_registry"
  env_policy :: tool_policy
  env_authority :: execution_authority
  env_now :: "'w coord_world \<Rightarrow> nat"
  env_fresh_id :: "'w coord_world \<Rightarrow> operation_id"
  env_next_turn :: "model_turn_request \<Rightarrow> 'w coord_world
    \<Rightarrow> (provider_error + model_turn) option \<times> 'w coord_world"
  env_execute :: "'x \<Rightarrow> tool_invocation \<Rightarrow> 'w coord_world
    \<Rightarrow> (tool_execution_error + tool_result) option \<times> 'w coord_world"
  env_ready :: "'x \<Rightarrow> tool_invocation \<Rightarrow> 'w coord_world \<Rightarrow> bool"
  env_idle :: "'w coord_world \<Rightarrow> 'w coord_world"
  env_schedule :: "'w coord_world \<Rightarrow> nat list"

record run_execution_result =
  exec_turn :: model_turn
  exec_messages :: "message list"

definition on_table ::
    "(run_table \<Rightarrow> (run_table_error + 'a) \<times> run_table) \<Rightarrow> 'w coord_world
       \<Rightarrow> (provider_error + 'a) \<times> 'w coord_world" where
  "on_table f w =
     (case f (cw_table w) of (x, t) \<Rightarrow>
        (map_err (\<lambda>e. ProviderError (run_table_error_message e)) x, w\<lparr>cw_table := t\<rparr>))"

definition on_operations ::
    "(operation_store \<Rightarrow> (operation_error + 'a) \<times> operation_store) \<Rightarrow> 'w coord_world
       \<Rightarrow> (provider_error + 'a) \<times> 'w coord_world" where
  "on_operations f w =
     (case f (tab_operations (cw_table w)) of (x, s) \<Rightarrow>
        (map_err (\<lambda>e. ProviderError (operation_error_message e)) x,
         w\<lparr>cw_table := (cw_table w)\<lparr>tab_operations := s\<rparr>\<rparr>))"

text \<open>A step that can fail, then the rest.\<close>

definition and_then ::
    "(provider_error + 'a) \<times> 'w coord_world \<Rightarrow> ('a \<Rightarrow> 'w coord_world \<Rightarrow> (provider_error + 'b) \<times> 'w coord_world)
       \<Rightarrow> (provider_error + 'b) \<times> 'w coord_world" where
  "and_then p f = (case p of (Inl e, w) \<Rightarrow> (Inl e, w) | (Inr x, w) \<Rightarrow> f x w)"

fun budget_kind_debug :: "budget_kind \<Rightarrow> str" where
  "budget_kind_debug BkModelRounds = ''ModelRounds''"
| "budget_kind_debug BkToolInvocations = ''ToolInvocations''"
| "budget_kind_debug BkWallTime = ''WallTime''"
| "budget_kind_debug BkInputTokens = ''InputTokens''"
| "budget_kind_debug BkOutputTokens = ''OutputTokens''"
| "budget_kind_debug BkReasoningTokens = ''ReasoningTokens''"

definition on_budget_of ::
    "(run_table \<Rightarrow> (budget_kind + unit) \<times> run_table) \<Rightarrow> 'w coord_world
       \<Rightarrow> (provider_error + unit) \<times> 'w coord_world" where
  "on_budget_of f w =
     (case f (cw_table w) of (x, t) \<Rightarrow>
        (map_err (\<lambda>k. ProviderError (''Agent loop budget exceeded: '' @ budget_kind_debug k)) x,
         w\<lparr>cw_table := t\<rparr>))"

definition token_is_cancelled :: "run_id \<Rightarrow> 'w coord_world \<Rightarrow> bool" where
  "token_is_cancelled run w =
     (case tab_get (cw_table w) run of Some r \<Rightarrow> tok_cancelled (rr_cancellation r) | None \<Rightarrow> False)"

section \<open>Messages\<close>

definition assistant_message :: "model_turn \<Rightarrow> message" where
  "assistant_message turn =
     \<lparr>msg_role = RoleAssistant,
      msg_content = (if turn_text turn \<noteq> [] then [PartText (turn_text turn)] else []),
      msg_tool_calls = turn_tool_calls turn,
      msg_tool_call_id = None,
      msg_provider_state = (if is_null (turn_opaque turn) then None else Some (turn_opaque turn))\<rparr>"

definition tool_message :: "json_lib \<Rightarrow> tool_call \<Rightarrow> tool_result \<Rightarrow> message" where
  "tool_message L call r =
     \<lparr>msg_role = RoleTool,
      msg_content = unwrap_or [PartText (lib_print L (res_value r))]
        (opt_filter (\<lambda>c. c \<noteq> []) (res_content r)),
      msg_tool_calls = [],
      msg_tool_call_id = Some (call_id call),
      msg_provider_state = map_option (\<lambda>i. json_obj [(''call_id'', JString i)])
        (opt_filter (\<lambda>i. i \<noteq> []) (map_option trim (call_provider_call_id call)))\<rparr>"

definition complete_without_tools :: "message list \<Rightarrow> model_turn \<Rightarrow> run_execution_result" where
  "complete_without_tools messages turn =
     \<lparr>exec_turn = turn,
      exec_messages =
        (if turn_text turn \<noteq> [] \<or> turn_reasoning turn \<noteq> [] \<or> \<not> is_null (turn_opaque turn)
         then messages @ [assistant_message turn] else messages)\<rparr>"

definition failed_value :: "str \<Rightarrow> tool_result" where
  "failed_value m = result_from_value (json_obj [(''ok'', JBool False), (''error'', JString m)])"

section \<open>One tool call\<close>

text \<open>
  A task before its first poll, waiting for the host, in its executor, or done.
\<close>

datatype 'x tool_task =
    TaskNew tool_call
  | TaskWaiting tool_call tool_invocation 'x operation_id operation_mode
  | TaskRunning tool_call tool_invocation 'x "(operation_id \<times> operation_mode) option"
  | TaskDone "provider_error + message"

definition emit_for ::
    "('x, 'w) coord_env \<Rightarrow> run_id \<Rightarrow> run_event \<Rightarrow> 'w coord_world
       \<Rightarrow> (provider_error + u64) \<times> 'w coord_world" where
  "emit_for E run ev = on_table (emit (env_uuid E) run ev)"

definition tool_started :: "tool_call \<Rightarrow> run_event" where
  "tool_started call = EvToolStarted (call_id call) (call_name call) (call_arguments call)"

definition tool_finished :: "tool_call \<Rightarrow> tool_result \<Rightarrow> run_event" where
  "tool_finished call r = EvToolFinished (call_id call) (call_name call) (res_value r)"

definition finish_argument_validation ::
    "('x, 'w) coord_env \<Rightarrow> run_id \<Rightarrow> tool_call \<Rightarrow> tool_validation_error \<Rightarrow> 'w coord_world
       \<Rightarrow> (provider_error + message) \<times> 'w coord_world" where
  "finish_argument_validation E run call e w =
     (let r = result_from_value (validation_error_value e) in
      and_then (emit_for E run (tool_started call) w) (\<lambda>_ w.
      and_then (emit_for E run (tool_finished call r) w) (\<lambda>_ w.
        (Inr (tool_message (env_json E) call r), w))))"

definition finish_host_operation ::
    "run_id \<Rightarrow> operation_id \<Rightarrow> operation_mode \<Rightarrow> str + unit \<Rightarrow> 'w coord_world
       \<Rightarrow> (provider_error + unit) \<times> 'w coord_world" where
  "finish_host_operation run i mode result =
     (case mode of
        BlockingApproval \<Rightarrow> on_operations (op_finish_blocking_approval run i result)
      | DeferredCommit \<Rightarrow> on_operations (op_finish_commit run i result))"

text \<open>A result of one of the steps above ends the task when it is an error.\<close>

definition task_of ::
    "(provider_error + 'x tool_task) \<times> 'w coord_world \<Rightarrow> 'x tool_task \<times> 'w coord_world" where
  "task_of p = (case p of (Inl e, w) \<Rightarrow> (TaskDone (Inl e), w) | (Inr t, w) \<Rightarrow> (t, w))"

definition done_of ::
    "(provider_error + message) \<times> 'w coord_world \<Rightarrow> 'x tool_task \<times> 'w coord_world" where
  "done_of p = (case p of (x, w) \<Rightarrow> (TaskDone x, w))"

definition begin_execution ::
    "('x, 'w) coord_env \<Rightarrow> run_id \<Rightarrow> tool_call \<Rightarrow> tool_invocation \<Rightarrow> 'x
       \<Rightarrow> (operation_id \<times> operation_mode) option \<Rightarrow> 'w coord_world \<Rightarrow> 'x tool_task \<times> 'w coord_world" where
  "begin_execution E run call ivc x approved w =
     task_of (and_then (emit_for E run (tool_started call) w) (\<lambda>_ w.
       (Inr (TaskRunning call ivc x approved), w)))"

definition request_approval ::
    "('x, 'w) coord_env \<Rightarrow> run_id \<Rightarrow> tool_call \<Rightarrow> tool_invocation \<Rightarrow> 'x \<Rightarrow> pending_operation_draft
       \<Rightarrow> 'w coord_world \<Rightarrow> 'x tool_task \<times> 'w coord_world" where
  "request_approval E run call ivc x draft w =
     (let operation = draft_bind draft (env_fresh_id E w) run in
      task_of (and_then (on_operations (op_register (env_now E w) operation) w) (\<lambda>_ w.
               and_then (on_table (set_state (env_uuid E) run AwaitingOperation) w) (\<lambda>_ w.
               and_then (emit_for E run (EvOperationRequested operation) w) (\<lambda>_ w.
                 (Inr (TaskWaiting call ivc x (op_id operation) (draft_mode draft)), w))))))"

definition policy_step ::
    "('x, 'w) coord_env \<Rightarrow> run_id \<Rightarrow> tool_call \<Rightarrow> tool_invocation \<Rightarrow> 'x \<Rightarrow> 'w coord_world
       \<Rightarrow> 'x tool_task \<times> 'w coord_world" where
  "policy_step E run call ivc x w =
     (case tool_resolve (call_name call) (env_tools E) of
        None \<Rightarrow> (TaskDone (Inl (ProviderError ''Tool disappeared during execution.'')), w)
      | Some registered \<Rightarrow>
          (case pol_resolve_facts (env_policy E) (rt_descriptor registered) ivc (env_authority E) of
             Inl m \<Rightarrow> (TaskDone (Inl (ProviderError m)), w)
           | Inr facts \<Rightarrow>
               (case pol_evaluate (env_policy E)
                   \<lparr>pin_descriptor = rt_descriptor registered, pin_invocation = ivc,
                    pin_facts = facts, pin_authority = env_authority E\<rparr> of
                  Allow \<Rightarrow> begin_execution E run call ivc x None w
                | Deny reason \<Rightarrow>
                    (TaskDone (Inr (tool_message (env_json E) call (failed_value reason))), w)
                | RequireApproval draft \<Rightarrow> request_approval E run call ivc x draft w)))"

definition task_start ::
    "('x, 'w) coord_env \<Rightarrow> run_id \<Rightarrow> tool_call \<Rightarrow> 'w coord_world \<Rightarrow> 'x tool_task \<times> 'w coord_world" where
  "task_start E run call w0 =
     (case on_budget_of (consume_tool_invocation (env_now E w0) run) w0 of
        (Inl e, w) \<Rightarrow> (TaskDone (Inl e), w)
      | (Inr _, w) \<Rightarrow>
          (case cached_tool_execution run (call_id call) (cw_table w) of
             Inl e \<Rightarrow> (TaskDone (Inl (ProviderError (run_table_error_message e))), w)
           | Inr (Some r) \<Rightarrow> (TaskDone (Inr (tool_message (env_json E) call r)), w)
           | Inr None \<Rightarrow>
               (case registry_prepare_invocation (env_json E) (call_id call) (call_name call)
                       (lib_print (env_json E) (call_arguments call)) (env_tools E) of
                  Inr (ivc, x) \<Rightarrow> policy_step E run call ivc x w
                | Inl e \<Rightarrow>
                    (case e of
                       ExecValidation v \<Rightarrow>
                         (if is_argument_validation v
                          then done_of (finish_argument_validation E run call v w)
                          else (TaskDone (Inl (ProviderError (execution_error_message e))), w))
                     | _ \<Rightarrow> (TaskDone (Inl (ProviderError (execution_error_message e))), w)))))"

definition task_decided ::
    "('x, 'w) coord_env \<Rightarrow> run_id \<Rightarrow> tool_call \<Rightarrow> tool_invocation \<Rightarrow> 'x \<Rightarrow> operation_id \<Rightarrow> operation_mode
       \<Rightarrow> operation_decision \<Rightarrow> 'w coord_world \<Rightarrow> 'x tool_task \<times> 'w coord_world" where
  "task_decided E run call ivc x i mode decision w =
     (case on_table (set_state (env_uuid E) run Running) w of
        (Inl e, w) \<Rightarrow> (TaskDone (Inl e), w)
      | (Inr _, w) \<Rightarrow>
          (case decision of
             Approve _ \<Rightarrow> begin_execution E run call ivc x (Some (i, mode)) w
           | Reject reason \<Rightarrow>
               (TaskDone (Inr (tool_message (env_json E) call
                  (failed_value (unwrap_or ''Operation rejected.'' reason)))), w)))"

definition task_succeeded ::
    "('x, 'w) coord_env \<Rightarrow> run_id \<Rightarrow> tool_call \<Rightarrow> (operation_id \<times> operation_mode) option
       \<Rightarrow> tool_result \<Rightarrow> 'w coord_world \<Rightarrow> (provider_error + message) \<times> 'w coord_world" where
  "task_succeeded E run call approved r w =
     and_then (case approved of
         Some (i, mode) \<Rightarrow> finish_host_operation run i mode (Inr ()) w
       | None \<Rightarrow> (Inr (), w)) (\<lambda>_ w.
     and_then (on_table (record_tool_execution run (call_id call) r) w) (\<lambda>_ w.
     and_then (emit_for E run (tool_finished call r) w) (\<lambda>_ w.
       (Inr (tool_message (env_json E) call r), w))))"

definition task_failed ::
    "run_id \<Rightarrow> (operation_id \<times> operation_mode) option \<Rightarrow> provider_error \<Rightarrow> 'w coord_world
       \<Rightarrow> (provider_error + message) \<times> 'w coord_world" where
  "task_failed run approved e w =
     (Inl e, case approved of
        Some (i, mode) \<Rightarrow> snd (finish_host_operation run i mode (Inl (provider_error_message e)) w)
      | None \<Rightarrow> w)"

text \<open>From one await to the next.\<close>

fun task_step ::
    "('x, 'w) coord_env \<Rightarrow> run_id \<Rightarrow> 'x tool_task \<Rightarrow> 'w coord_world \<Rightarrow> 'x tool_task \<times> 'w coord_world" where
  "task_step E run (TaskNew call) w = task_start E run call w"
| "task_step E run (TaskWaiting call ivc x i mode) w =
     (case look_in mode run i (tab_operations (cw_table w)) of
        Blocked h n \<Rightarrow> (TaskWaiting call ivc x i mode, w)
      | Ready (Inl e) \<Rightarrow> (TaskDone (Inl (ProviderError (operation_error_message e))), w)
      | Ready (Inr decision) \<Rightarrow> task_decided E run call ivc x i mode decision w)"
| "task_step E run (TaskRunning call ivc x approved) w =
     (case env_execute E x ivc w of
        (None, w) \<Rightarrow> done_of (task_failed run approved (ProviderError ''Run was cancelled.'') w)
      | (Some (Inl e), w) \<Rightarrow>
          done_of (task_failed run approved (ProviderError (execution_error_message e)) w)
      | (Some (Inr r), w) \<Rightarrow> done_of (task_succeeded E run call approved r w))"
| "task_step E run (TaskDone x) w = (TaskDone x, w)"

text \<open>
  Drive a task to its end; while it is blocked the others move. The number bounds the steps
  taken; \<open>None\<close> means the task has not returned by then.
\<close>

fun is_waiting :: "'x tool_task \<Rightarrow> bool" where
  "is_waiting (TaskWaiting call ivc x i mode) = True"
| "is_waiting _ = False"

fun drive_task ::
    "nat \<Rightarrow> ('x, 'w) coord_env \<Rightarrow> run_id \<Rightarrow> 'x tool_task \<Rightarrow> 'w coord_world
       \<Rightarrow> ((provider_error + message) \<times> 'w coord_world) option" where
  "drive_task n E run (TaskDone x) w = Some (x, w)"
| "drive_task 0 E run t w = None"
| "drive_task (Suc n) E run t w =
     (case task_step E run t w of (t', w') \<Rightarrow>
        drive_task n E run t' (if is_waiting t' then env_idle E w' else w'))"

fun run_sequential ::
    "nat \<Rightarrow> ('x, 'w) coord_env \<Rightarrow> run_id \<Rightarrow> tool_call list \<Rightarrow> 'w coord_world
       \<Rightarrow> ((provider_error + message list) \<times> 'w coord_world) option" where
  "run_sequential n E run [] w = Some (Inr [], w)"
| "run_sequential n E run (call # calls) w =
     (case drive_task n E run (TaskNew call) w of
        None \<Rightarrow> None
      | Some (Inl e, w') \<Rightarrow> Some (Inl e, w')
      | Some (Inr m, w') \<Rightarrow>
          (case run_sequential n E run calls w' of
             None \<Rightarrow> None
           | Some (Inl e, w'') \<Rightarrow> Some (Inl e, w'')
           | Some (Inr ms, w'') \<Rightarrow> Some (Inr (m # ms), w'')))"

text \<open>
  Does the await at which a task is end at once? That of the host's decision does when the
  operation is decided or gone; of an executor the environment says it.
\<close>

fun ready_now :: "('x, 'w) coord_env \<Rightarrow> run_id \<Rightarrow> 'x tool_task \<Rightarrow> 'w coord_world \<Rightarrow> bool" where
  "ready_now E run (TaskNew call) w = True"
| "ready_now E run (TaskWaiting call ivc x i mode) w =
     (case look_in mode run i (tab_operations (cw_table w)) of Blocked h n \<Rightarrow> False | Ready y \<Rightarrow> True)"
| "ready_now E run (TaskRunning call ivc x approved) w = env_ready E x ivc w"
| "ready_now E run (TaskDone x) w = False"

text \<open>
  A poll: a step, and further steps as long as the await that is reached is ready; after the
  first there are at most two awaits, for the host and for the executor.
\<close>

fun poll_steps ::
    "nat \<Rightarrow> ('x, 'w) coord_env \<Rightarrow> run_id \<Rightarrow> 'x tool_task \<Rightarrow> 'w coord_world \<Rightarrow> 'x tool_task \<times> 'w coord_world" where
  "poll_steps 0 E run t w = task_step E run t w"
| "poll_steps (Suc n) E run t w =
     (case task_step E run t w of
        (t', w') \<Rightarrow> if ready_now E run t' w' then poll_steps n E run t' w' else (t', w'))"

definition task_poll ::
    "('x, 'w) coord_env \<Rightarrow> run_id \<Rightarrow> 'x tool_task \<Rightarrow> 'w coord_world \<Rightarrow> 'x tool_task \<times> 'w coord_world" where
  "task_poll E run t w = poll_steps 2 E run t w"

text \<open>
  \<open>join_all\<close>: poll the tasks in their order, then those of a schedule, whose awaits have ended,
  until all are done.
\<close>

definition poll_at ::
    "('x, 'w) coord_env \<Rightarrow> run_id \<Rightarrow> nat \<Rightarrow> 'x tool_task list \<times> 'w coord_world
       \<Rightarrow> 'x tool_task list \<times> 'w coord_world" where
  "poll_at E run k p =
     (case p of (ts, w) \<Rightarrow>
        if k < length ts then (case task_poll E run (ts ! k) w of (t', w') \<Rightarrow> (ts[k := t'], w'))
        else (ts, w))"

fun task_result :: "'x tool_task \<Rightarrow> (provider_error + message) option" where
  "task_result (TaskDone x) = Some x"
| "task_result _ = None"

definition all_done :: "'x tool_task list \<Rightarrow> bool" where
  "all_done ts = list_all (\<lambda>t. task_result t \<noteq> None) ts"

lemma all_done_simps [simp]: "all_done []" "all_done (t # ts) = (task_result t \<noteq> None \<and> all_done ts)"
  by (simp_all add: all_done_def)

lemma task_poll_steps:
  "task_poll E run t w =
     (case task_step E run t w of (t1, w1) \<Rightarrow>
        if ready_now E run t1 w1
        then (case task_step E run t1 w1 of (t2, w2) \<Rightarrow>
                if ready_now E run t2 w2 then task_step E run t2 w2 else (t2, w2))
        else (t1, w1))"
  by (simp add: task_poll_def numeral_2_eq_2 split: prod.split)

definition poll_after_idle ::
    "('x, 'w) coord_env \<Rightarrow> run_id \<Rightarrow> nat \<Rightarrow> 'x tool_task list \<times> 'w coord_world
       \<Rightarrow> 'x tool_task list \<times> 'w coord_world" where
  "poll_after_idle E run k p =
     (case p of (ts, w) \<Rightarrow> if all_done ts then (ts, w) else poll_at E run k (ts, env_idle E w))"

text \<open>\<open>collect::<Result<Vec<_>, _>>\<close>: the values, or the first error.\<close>

fun collect_results :: "('e + 'a) list \<Rightarrow> 'e + 'a list" where
  "collect_results [] = Inr []"
| "collect_results (Inl e # xs) = Inl e"
| "collect_results (Inr x # xs) = map_sum id (\<lambda>ys. x # ys) (collect_results xs)"

definition run_parallel ::
    "('x, 'w) coord_env \<Rightarrow> run_id \<Rightarrow> tool_call list \<Rightarrow> 'w coord_world
       \<Rightarrow> ((provider_error + message list) \<times> 'w coord_world) option" where
  "run_parallel E run calls w0 =
     (case fold (poll_after_idle E run) (env_schedule E w0)
             (fold (poll_at E run) [0..<length calls] (map TaskNew calls, w0)) of
        (ts, w) \<Rightarrow>
          (if all_done ts
           then Some (collect_results (List.map_filter task_result ts), w) else None))"

section \<open>The loop with registered tools\<close>

datatype 'w round_outcome =
    RoundFinished "provider_error + run_execution_result" "'w coord_world"
  | RoundAgain model_turn_request continuation_counts "'w coord_world"
  | RoundWaiting

definition resolve_call :: "'x tool_registry \<Rightarrow> tool_call \<Rightarrow> provider_error + 'x registered_tool" where
  "resolve_call tools call =
     ok_or (ProviderError (''Provider requested unregistered tool `'' @ call_name call @ ''`.''))
       (tool_resolve (call_name call) tools)"

definition run_calls ::
    "nat \<Rightarrow> ('x, 'w) coord_env \<Rightarrow> run_id \<Rightarrow> tool_call list \<Rightarrow> tool_descriptor list \<Rightarrow> 'w coord_world
       \<Rightarrow> ((provider_error + message list) \<times> 'w coord_world) option" where
  "run_calls n E run calls ds w =
     (if can_run_tool_calls_in_parallel ds then run_parallel E run calls w
      else run_sequential n E run calls w)"

text \<open>The part of an iteration that follows the provider's turn.\<close>

definition after_turn ::
    "nat \<Rightarrow> ('x, 'w) coord_env \<Rightarrow> run_id \<Rightarrow> model_turn_request \<Rightarrow> continuation_counts \<Rightarrow> model_turn
       \<Rightarrow> 'w coord_world \<Rightarrow> 'w round_outcome" where
  "after_turn n E run request0 counts turn w =
     (let request = request0\<lparr>req_opaque_state := Some (turn_opaque turn)\<rparr> in
      case continuation_reason_of (turn_terminal turn) of
        Some reason \<Rightarrow>
          (case try_begin reason counts of
             (True, counts') \<Rightarrow> RoundAgain (apply_continuation request turn reason) counts' w
           | (False, _) \<Rightarrow> RoundFinished (Inl (ProviderError
               ''Model continuation limit reached before the task completed.'')) w)
      | None \<Rightarrow>
          (if turn_tool_calls turn = [] \<or> turn_terminal turn \<noteq> TermToolCalls
           then RoundFinished (Inr (complete_without_tools (req_messages request) turn)) w
           else
             (case collect_results (map (resolve_call (env_tools E)) (turn_tool_calls turn)) of
                Inl e \<Rightarrow> RoundFinished (Inl e) w
              | Inr resolved \<Rightarrow>
                  (case run_calls n E run (turn_tool_calls turn) (map rt_descriptor resolved) w of
                     None \<Rightarrow> RoundWaiting
                   | Some (Inl e, w') \<Rightarrow> RoundFinished (Inl e) w'
                   | Some (Inr results, w') \<Rightarrow>
                       RoundAgain (request\<lparr>req_messages :=
                           (req_messages request @ [assistant_message turn]) @ results\<rparr>)
                         (reset_incomplete counts) w'))))"

definition registered_round ::
    "nat \<Rightarrow> ('x, 'w) coord_env \<Rightarrow> run_id \<Rightarrow> model_turn_request \<Rightarrow> continuation_counts
       \<Rightarrow> 'w coord_world \<Rightarrow> 'w round_outcome" where
  "registered_round n E run request counts w0 =
     (if token_is_cancelled run w0 then RoundFinished (Inl (ProviderError ''Run was cancelled.'')) w0
      else case on_budget_of (consume_model_round (env_now E w0) run) w0 of
          (Inl e, w) \<Rightarrow> RoundFinished (Inl e) w
        | (Inr _, w) \<Rightarrow>
            (case env_next_turn E request w of
               (None, w') \<Rightarrow> RoundFinished (Inl (ProviderError ''Run was cancelled.'')) w'
             | (Some (Inl e), w') \<Rightarrow> RoundFinished (Inl e) w'
             | (Some (Inr turn), w') \<Rightarrow> after_turn n E run request counts turn w'))"

text \<open>
  The loop itself, with fuel for its iterations; it can also still be waiting, for a host that
  has not decided within \<open>n\<close> steps of a task.
\<close>

datatype 'w loop_outcome =
    LoopReturned "provider_error + run_execution_result" "'w coord_world"
  | LoopWaiting
  | LoopOutOfFuel

fun registered_loop ::
    "nat \<Rightarrow> nat \<Rightarrow> ('x, 'w) coord_env \<Rightarrow> run_id \<Rightarrow> model_turn_request \<Rightarrow> continuation_counts
       \<Rightarrow> 'w coord_world \<Rightarrow> 'w loop_outcome" where
  "registered_loop 0 n E run request counts w = LoopOutOfFuel"
| "registered_loop (Suc fuel) n E run request counts w =
     (case registered_round n E run request counts w of
        RoundFinished x w' \<Rightarrow> LoopReturned x w'
      | RoundWaiting \<Rightarrow> LoopWaiting
      | RoundAgain request' counts' w' \<Rightarrow> registered_loop fuel n E run request' counts' w')"

definition run_registered_model_tool_loop ::
    "nat \<Rightarrow> nat \<Rightarrow> ('x, 'w) coord_env \<Rightarrow> run_id \<Rightarrow> model_turn_request \<Rightarrow> 'w coord_world
       \<Rightarrow> 'w loop_outcome" where
  "run_registered_model_tool_loop fuel n E run request w =
     (case tab_cancellation_token run (cw_table w) of
        Inl e \<Rightarrow> LoopReturned (Inl (ProviderError (run_table_error_message e))) w
      | Inr _ \<Rightarrow>
          (case tab_limits run (cw_table w) of
             Inl e \<Rightarrow> LoopReturned (Inl (ProviderError (run_table_error_message e))) w
           | Inr limits \<Rightarrow> registered_loop fuel n E run request (counts_for_limits limits) w))"

section \<open>The loop with a synchronous executor\<close>

definition execute_once_recorded ::
    "uuid_lib \<Rightarrow> run_id \<Rightarrow> str \<Rightarrow> ('w \<Rightarrow> json \<times> 'w) \<Rightarrow> 'w coord_world \<Rightarrow> json \<times> 'w coord_world" where
  "execute_once_recorded U run key execute w =
     (case execute_tool_once run (invocation_from_stable_key U key) execute (cw_table w) (cw_ext w) of
        (x, t, v) \<Rightarrow>
          (case x of
             Inr r \<Rightarrow> r
           | Inl e \<Rightarrow> json_obj [(''ok'', JBool False), (''error'', JString (run_table_error_message e))],
           w\<lparr>cw_table := t, cw_ext := v\<rparr>))"

fun simple_calls ::
    "('x, 'w) coord_env \<Rightarrow> run_id \<Rightarrow> (tool_call \<Rightarrow> 'w \<Rightarrow> json \<times> 'w) \<Rightarrow> tool_call list
       \<Rightarrow> 'w coord_world \<Rightarrow> (provider_error + message list) \<times> 'w coord_world" where
  "simple_calls E run execute [] w = (Inr [], w)"
| "simple_calls E run execute (call # calls) w0 =
     and_then (on_budget_of (consume_tool_invocation (env_now E w0) run) w0) (\<lambda>_ w.
       (case execute_once_recorded (env_uuid E) run (invocation_hyphenated (env_uuid E) (call_id call))
               (execute call) w of
          (v, w') \<Rightarrow> and_then (simple_calls E run execute calls w') (\<lambda>ms w''.
             (Inr (tool_message (env_json E) call (result_from_value v) # ms), w''))))"

datatype 'w simple_outcome =
    SimpleFinished "provider_error + model_turn" "'w coord_world"
  | SimpleAgain model_turn_request continuation_counts "'w coord_world"

definition simple_round ::
    "('x, 'w) coord_env \<Rightarrow> run_id \<Rightarrow> (tool_call \<Rightarrow> 'w \<Rightarrow> json \<times> 'w)
       \<Rightarrow> (model_turn_request \<Rightarrow> 'w coord_world \<Rightarrow> (provider_error + model_turn) \<times> 'w coord_world)
       \<Rightarrow> model_turn_request \<Rightarrow> continuation_counts \<Rightarrow> 'w coord_world \<Rightarrow> 'w simple_outcome" where
  "simple_round E run execute next_turn request0 counts w0 =
     (case on_budget_of (consume_model_round (env_now E w0) run) w0 of
        (Inl e, w) \<Rightarrow> SimpleFinished (Inl e) w
      | (Inr _, w) \<Rightarrow>
          (case next_turn request0 w of
             (Inl e, w') \<Rightarrow> SimpleFinished (Inl e) w'
           | (Inr turn, w') \<Rightarrow>
               (let request = request0\<lparr>req_opaque_state := Some (turn_opaque turn)\<rparr> in
                case continuation_reason_of (turn_terminal turn) of
                  Some reason \<Rightarrow>
                    (case try_begin reason counts of
                       (True, counts') \<Rightarrow> SimpleAgain (apply_continuation request turn reason) counts' w'
                     | (False, _) \<Rightarrow> SimpleFinished (Inl (ProviderError
                         ''Model continuation limit reached before the task completed.'')) w')
                | None \<Rightarrow>
                    (if turn_tool_calls turn = [] \<or> turn_terminal turn \<noteq> TermToolCalls
                     then SimpleFinished (Inr turn) w'
                     else (case simple_calls E run execute (turn_tool_calls turn) w' of
                         (Inl e, w'') \<Rightarrow> SimpleFinished (Inl e) w''
                       | (Inr results, w'') \<Rightarrow>
                           SimpleAgain (request\<lparr>req_messages :=
                               (req_messages request @ [assistant_message turn]) @ results\<rparr>)
                             (reset_incomplete counts) w'')))))"

fun simple_loop ::
    "nat \<Rightarrow> ('x, 'w) coord_env \<Rightarrow> run_id \<Rightarrow> (tool_call \<Rightarrow> 'w \<Rightarrow> json \<times> 'w)
       \<Rightarrow> (model_turn_request \<Rightarrow> 'w coord_world \<Rightarrow> (provider_error + model_turn) \<times> 'w coord_world)
       \<Rightarrow> model_turn_request \<Rightarrow> continuation_counts \<Rightarrow> 'w coord_world
       \<Rightarrow> ((provider_error + model_turn) \<times> 'w coord_world) option" where
  "simple_loop 0 E run execute next_turn request counts w = None"
| "simple_loop (Suc fuel) E run execute next_turn request counts w =
     (case simple_round E run execute next_turn request counts w of
        SimpleFinished x w' \<Rightarrow> Some (x, w')
      | SimpleAgain request' counts' w' \<Rightarrow>
          simple_loop fuel E run execute next_turn request' counts' w')"

definition run_model_tool_loop ::
    "nat \<Rightarrow> ('x, 'w) coord_env \<Rightarrow> run_id \<Rightarrow> (tool_call \<Rightarrow> 'w \<Rightarrow> json \<times> 'w)
       \<Rightarrow> (model_turn_request \<Rightarrow> 'w coord_world \<Rightarrow> (provider_error + model_turn) \<times> 'w coord_world)
       \<Rightarrow> model_turn_request \<Rightarrow> 'w coord_world
       \<Rightarrow> ((provider_error + model_turn) \<times> 'w coord_world) option" where
  "run_model_tool_loop fuel E run execute next_turn request w =
     (case tab_limits run (cw_table w) of
        Inl e \<Rightarrow> Some (Inl (ProviderError (run_table_error_message e)), w)
      | Inr limits \<Rightarrow>
          simple_loop fuel E run execute next_turn request (counts_for_limits limits) w)"

section \<open>What a step may do to the table\<close>

text \<open>
  The hypothesis on the environment: whatever happens while the loop awaits, the table is changed
  through its own operations only, and a \<open>select!\<close> takes its cancellation branch only when the
  run's token is set.
\<close>

definition env_ok :: "('x, 'w) coord_env \<Rightarrow> run_id \<Rightarrow> bool" where
  "env_ok E run =
     ((\<forall>q w x w'. env_next_turn E q w = (x, w') \<longrightarrow> tab_step\<^sup>*\<^sup>* (cw_table w) (cw_table w')
         \<and> (x = None \<longrightarrow> token_is_cancelled run w')) \<and>
      (\<forall>x i w y w'. env_execute E x i w = (y, w') \<longrightarrow> tab_step\<^sup>*\<^sup>* (cw_table w) (cw_table w')
         \<and> (y = None \<longrightarrow> token_is_cancelled run w')) \<and>
      (\<forall>w. tab_step\<^sup>*\<^sup>* (cw_table w) (cw_table (env_idle E w))))"

definition moves :: "'w coord_world \<Rightarrow> 'w coord_world \<Rightarrow> bool" where
  "moves w w' = tab_step\<^sup>*\<^sup>* (cw_table w) (cw_table w')"

lemma moves_refl [simp]: "moves w w"
  by (simp add: moves_def)

lemma moves_trans: "moves a b \<Longrightarrow> moves b c \<Longrightarrow> moves a c"
  unfolding moves_def by (rule rtranclp_trans)

lemma env_okD:
  assumes "env_ok E run"
  shows "env_next_turn E q w = (x, w') \<Longrightarrow> moves w w'"
    and "env_execute E e i w = (y, w') \<Longrightarrow> moves w w'"
    and "moves w (env_idle E w)"
  using assms by (auto simp: env_ok_def moves_def)

lemma on_table_moves:
  "(\<And>t. tab_step\<^sup>*\<^sup>* t (snd (f t))) \<Longrightarrow> moves w (snd (on_table f w))"
  by (auto simp: on_table_def moves_def split: prod.split) (metis snd_conv)

lemma on_budget_of_moves:
  "(\<And>t. tab_step\<^sup>*\<^sup>* t (snd (f t))) \<Longrightarrow> moves w (snd (on_budget_of f w))"
  by (auto simp: on_budget_of_def moves_def split: prod.split) (metis snd_conv)

lemma on_operations_moves:
  assumes "\<And>s. snd (f s) = op_do c s"
  shows "moves w (snd (on_operations f w))"
proof -
  obtain x s where f: "f (tab_operations (cw_table w)) = (x, s)" by (metis surj_pair)
  with assms [of "tab_operations (cw_table w)"] have "s = op_do c (tab_operations (cw_table w))" by simp
  then show ?thesis
    using step_operations [of "cw_table w" c] f by (simp add: on_operations_def moves_def one_step)
qed

lemma and_then_moves:
  assumes "moves w (snd p)" "\<And>x v. p = (Inr x, v) \<Longrightarrow> moves v (snd (f x v))"
  shows "moves w (snd (and_then p f))"
proof -
  obtain x v where p: "p = (x, v)" by (metis surj_pair)
  with assms show ?thesis by (cases x) (auto simp: and_then_def intro: moves_trans)
qed

lemma emit_moves: "moves w (snd (emit_for E run ev w))"
  unfolding emit_for_def
  by (rule on_table_moves) (use table_do_steps [where c = "TabEmit run ev"] in simp)

lemma set_state_moves: "moves w (snd (on_table (set_state U run st) w))"
  by (rule on_table_moves) (use table_do_steps [where c = "TabSetState run st"] in simp)

lemma record_moves: "moves w (snd (on_table (record_tool_execution run i r) w))"
  by (rule on_table_moves) (use table_do_steps [where c = "TabRecord run i r"] in simp)

lemma consume_tool_moves: "moves w (snd (on_budget_of (consume_tool_invocation now run) w))"
  by (rule on_budget_of_moves) (use table_do_steps [where c = "TabToolInvocation run now"] in simp)

lemma consume_round_moves: "moves w (snd (on_budget_of (consume_model_round now run) w))"
  by (rule on_budget_of_moves) (use table_do_steps [where c = "TabModelRound run now"] in simp)

lemma op_do_of_section: "snd (run_section f (section_of c) s) = op_do c s"
  unfolding op_do_def by (rule run_section_snd)

lemma finish_host_moves: "moves w (snd (finish_host_operation run i mode x w))"
  using op_do_of_section [of "\<lambda>_. ()" "CallFinishBlocking run i x"]
    op_do_of_section [of "\<lambda>_. ()" "CallFinishCommit run i x"]
  by (cases mode) (auto simp: finish_host_operation_def op_finish_blocking_approval_def
      op_finish_commit_def intro!: on_operations_moves)

lemma register_moves: "moves w (snd (on_operations (op_register now p) w))"
  using op_do_of_section [of "\<lambda>_. ()" "CallRegister now p"]
  by (auto simp: op_register_def intro!: on_operations_moves)

lemmas coord_moves = emit_moves set_state_moves record_moves consume_tool_moves
  consume_round_moves finish_host_moves register_moves

lemma task_of_moves: "moves w (snd p) \<Longrightarrow> moves w (snd (task_of p))"
  by (auto simp: task_of_def split: prod.splits sum.splits)

lemma done_of_snd [simp]: "snd (done_of p) = snd p"
  by (simp add: done_of_def split: prod.split)

lemma begin_execution_moves: "moves w (snd (begin_execution E run call i x a w))"
  unfolding begin_execution_def by (intro task_of_moves and_then_moves coord_moves) simp

lemma request_approval_moves: "moves w (snd (request_approval E run call i x d w))"
  unfolding request_approval_def Let_def
  by (intro task_of_moves and_then_moves coord_moves) simp

lemma policy_step_moves: "moves w (snd (policy_step E run call i x w))"
  by (auto simp: policy_step_def begin_execution_moves request_approval_moves
      split: option.split sum.split tool_decision.split)

lemma validation_moves: "moves w (snd (finish_argument_validation E run call e w))"
  unfolding finish_argument_validation_def Let_def by (intro and_then_moves coord_moves) simp

lemma task_start_moves: "moves w (snd (task_start E run call w))"
proof -
  obtain x v where c: "on_budget_of (consume_tool_invocation (env_now E w) run) w = (x, v)"
    by (metis surj_pair)
  with consume_tool_moves [of w "env_now E w" run] have v: "moves w v" by simp
  show ?thesis
    using v moves_trans [OF v policy_step_moves [of v E run]]
      moves_trans [OF v validation_moves [of v E run]]
    by (auto simp: task_start_def c split: sum.split option.split tool_execution_error.split)
qed

lemma task_decided_moves: "moves w (snd (task_decided E run call i x op m d w))"
proof -
  obtain y v where c: "on_table (set_state (env_uuid E) run Running) w = (y, v)" by (metis surj_pair)
  with set_state_moves [of w "env_uuid E" run Running] have v: "moves w v" by simp
  show ?thesis
    using v moves_trans [OF v begin_execution_moves [of v E run]]
    by (auto simp: task_decided_def c split: sum.split operation_decision.split)
qed

lemma task_succeeded_moves: "moves w (snd (task_succeeded E run call a r w))"
  unfolding task_succeeded_def
  by (intro and_then_moves coord_moves) (auto intro: coord_moves split: option.split)

lemma task_failed_moves: "moves w (snd (task_failed run a e w))"
  by (auto simp: task_failed_def intro: finish_host_moves split: option.split)

lemma task_step_moves: "env_ok E run \<Longrightarrow> moves w (snd (task_step E run t w))"
proof (cases t)
  case (TaskNew call)
  then show ?thesis by (simp add: task_start_moves)
next
  case (TaskWaiting call i x op m)
  then show ?thesis by (auto simp: task_decided_moves split: look.split sum.split)
next
  case (TaskRunning call i x a)
  assume ok: "env_ok E run"
  obtain y v where y: "env_execute E x i w = (y, v)" by (metis surj_pair)
  note v = env_okD(2) [OF ok y]
  show ?thesis
    using moves_trans [OF v task_succeeded_moves [of v E run]]
      moves_trans [OF v task_failed_moves [of v run]] TaskRunning y
    by (auto split: option.split sum.split)
qed simp

lemma drive_task_moves:
  "env_ok E run \<Longrightarrow> drive_task n E run t w = Some (x, w') \<Longrightarrow> moves w w'"
proof (induction n arbitrary: t w)
  case 0
  then show ?case by (cases t) simp_all
next
  case (Suc n)
  obtain t1 w1 where st: "task_step E run t w = (t1, w1)" by (metis surj_pair)
  have m1: "moves w (if is_waiting t1 then env_idle E w1 else w1)"
    using task_step_moves [OF Suc.prems(1), of w t] st env_okD(3) [OF Suc.prems(1), of w1]
    by (auto intro: moves_trans)
  have "moves w w'" if "drive_task n E run t1 (if is_waiting t1 then env_idle E w1 else w1) = Some (x, w')"
    using m1 Suc.IH [OF Suc.prems(1) that] by (rule moves_trans)
  with Suc.prems(2) st show ?case by (cases t) simp_all
qed

lemma run_sequential_moves:
  "env_ok E run \<Longrightarrow> run_sequential n E run calls w = Some (x, w') \<Longrightarrow> moves w w'"
proof (induction calls arbitrary: w x)
  case Nil
  then show ?case by simp
next
  case (Cons call calls)
  from Cons.prems(2) obtain y v where d: "drive_task n E run (TaskNew call) w = Some (y, v)"
    by (auto split: option.splits)
  note m1 = drive_task_moves [OF Cons.prems(1) d]
  show ?case
  proof (cases y)
    case (Inl e)
    with d m1 Cons.prems(2) show ?thesis by simp
  next
    case (Inr m)
    with d Cons.prems(2) obtain z where "run_sequential n E run calls v = Some (z, w')"
      by (auto split: option.splits sum.splits)
    from m1 Cons.IH [OF Cons.prems(1) this] show ?thesis by (rule moves_trans)
  qed
qed

lemma task_poll_moves: "env_ok E run \<Longrightarrow> moves w (snd (task_poll E run t w))"
proof -
  assume ok: "env_ok E run"
  have "moves w (snd (poll_steps n E run t w))" for n
  proof (induction n arbitrary: t w)
    case (Suc n)
    obtain t' w' where st: "task_step E run t w = (t', w')" by (metis surj_pair)
    have m: "moves w w'" using task_step_moves [OF ok, of w t] st by simp
    from moves_trans [OF m Suc.IH [of w' t']] m st show ?case by simp
  qed (simp add: task_step_moves [OF ok])
  then show ?thesis by (simp add: task_poll_def)
qed

lemma poll_at_moves:
  assumes "env_ok E run"
  shows "moves (snd p) (snd (poll_at E run k p))"
proof -
  obtain ts w where p: "p = (ts, w)" by (metis surj_pair)
  obtain t' w' where t: "task_poll E run (ts ! k) w = (t', w')" by (metis surj_pair)
  from task_poll_moves [OF assms, of w "ts ! k"] show ?thesis by (simp add: poll_at_def p t)
qed

lemma poll_after_idle_moves: "env_ok E run \<Longrightarrow> moves (snd p) (snd (poll_after_idle E run k p))"
  using poll_at_moves [of E run "(fst p, env_idle E (snd p))" k] env_okD(3) [of E run "snd p"]
  by (auto simp: poll_after_idle_def split: prod.split intro: moves_trans)

lemma fold_moves:
  "(\<And>k p. moves (snd p) (snd (f k p))) \<Longrightarrow> moves (snd p) (snd (fold f ks p))"
proof (induction ks arbitrary: p)
  case Nil
  then show ?case by simp
next
  case (Cons k ks)
  have "moves (snd p) (snd (f k p))" by (rule Cons.prems)
  from moves_trans [OF this Cons.IH [OF Cons.prems]] show ?case by simp
qed

lemma run_parallel_moves:
  assumes "env_ok E run" "run_parallel E run calls w = Some (x, w')"
  shows "moves w w'"
proof -
  let ?p = "fold (poll_at E run) [0..<length calls] (map TaskNew calls, w)"
  have "moves w (snd ?p)"
    using fold_moves [of "poll_at E run" "(map TaskNew calls, w)"] poll_at_moves [OF assms(1)] by simp
  moreover have "moves (snd ?p) (snd (fold (poll_after_idle E run) (env_schedule E w) ?p))"
    using fold_moves [of "poll_after_idle E run" ?p] poll_after_idle_moves [OF assms(1)] by simp
  ultimately have "moves w (snd (fold (poll_after_idle E run) (env_schedule E w) ?p))"
    by (rule moves_trans)
  with assms(2) show ?thesis by (auto simp: run_parallel_def split: prod.splits if_splits)
qed

lemma run_calls_moves:
  "env_ok E run \<Longrightarrow> run_calls n E run calls ds w = Some (x, w') \<Longrightarrow> moves w w'"
  by (auto simp: run_calls_def intro: run_parallel_moves run_sequential_moves split: if_splits)

fun outcome_world :: "'w round_outcome \<Rightarrow> 'w coord_world option" where
  "outcome_world (RoundFinished x w) = Some w"
| "outcome_world (RoundAgain q c w) = Some w"
| "outcome_world RoundWaiting = None"

lemma after_turn_moves:
  "env_ok E run \<Longrightarrow> outcome_world (after_turn n E run q c turn w) = Some w' \<Longrightarrow> moves w w'"
  by (auto simp: after_turn_def Let_def dest: run_calls_moves
      split: option.splits prod.splits bool.splits if_splits sum.splits)

lemma registered_round_moves:
  assumes "env_ok E run" "outcome_world (registered_round n E run q c w) = Some w'"
  shows "moves w w'"
proof (cases "token_is_cancelled run w")
  case True
  with assms(2) show ?thesis by (simp add: registered_round_def)
next
  case False
  obtain x v where b: "on_budget_of (consume_model_round (env_now E w) run) w = (x, v)"
    by (metis surj_pair)
  have v: "moves w v" using consume_round_moves [of w "env_now E w" run] b by simp
  obtain y u where t: "env_next_turn E q v = (y, u)" by (metis surj_pair)
  have u: "moves w u" using v env_okD(1) [OF assms(1) t] by (rule moves_trans)
  show ?thesis using assms(2) False b t v u
    by (auto simp: registered_round_def split: sum.splits option.splits
        dest: after_turn_moves [OF assms(1)] intro: moves_trans)
qed

lemma registered_loop_moves:
  "env_ok E run \<Longrightarrow> registered_loop fuel n E run q c w = LoopReturned x w' \<Longrightarrow> moves w w'"
proof (induction fuel arbitrary: q c w)
  case 0
  then show ?case by simp
next
  case (Suc fuel)
  show ?case
  proof (cases "registered_round n E run q c w")
    case (RoundFinished y v)
    with Suc.prems registered_round_moves [OF Suc.prems(1), of n q c w] show ?thesis by simp
  next
    case (RoundAgain q' c' v)
    with registered_round_moves [OF Suc.prems(1), of n q c w v] have "moves w v" by simp
    moreover from RoundAgain Suc.prems have "moves v w'" by (auto intro: Suc.IH)
    ultimately show ?thesis by (rule moves_trans)
  next
    case RoundWaiting
    with Suc.prems show ?thesis by simp
  qed
qed

section \<open>Every tool call is answered\<close>

definition answers_call :: "tool_call \<Rightarrow> message \<Rightarrow> bool" where
  "answers_call call m =
     (msg_role m = RoleTool \<and> msg_tool_call_id m = Some (call_id call) \<and> msg_tool_calls m = []
      \<and> msg_provider_state m = map_option (\<lambda>i. json_obj [(''call_id'', JString i)])
          (opt_filter (\<lambda>i. i \<noteq> []) (map_option trim (call_provider_call_id call))))"

lemma tool_message_answers [simp]: "answers_call call (tool_message L call r)"
  by (simp add: answers_call_def tool_message_def)

fun task_for :: "tool_call \<Rightarrow> 'x tool_task \<Rightarrow> bool" where
  "task_for call (TaskNew c) = (c = call)"
| "task_for call (TaskWaiting c i x op m) = (c = call)"
| "task_for call (TaskRunning c i x a) = (c = call)"
| "task_for call (TaskDone (Inr m)) = answers_call call m"
| "task_for call (TaskDone (Inl e)) = True"

lemma and_then_value:
  "and_then p f = (Inr y, w') \<Longrightarrow> \<exists>x v. p = (Inr x, v) \<and> f x v = (Inr y, w')"
  by (cases p; cases "fst p") (auto simp: and_then_def)

lemma task_of_for:
  "(\<And>t v. p = (Inr t, v) \<Longrightarrow> task_for call t) \<Longrightarrow> task_for call (fst (task_of p))"
  by (auto simp: task_of_def split: prod.split sum.split)

lemma done_of_for:
  "(\<And>m v. p = (Inr m, v) \<Longrightarrow> answers_call call m) \<Longrightarrow> task_for call (fst (done_of p))"
  by (auto simp: done_of_def split: prod.split) (metis task_for.simps(4,5) sum.exhaust)

lemma begin_execution_for: "task_for call (fst (begin_execution E run call i x a w))"
  unfolding begin_execution_def by (rule task_of_for) (auto dest!: and_then_value)

lemma policy_step_for: "task_for call (fst (policy_step E run call i x w))"
proof -
  have "task_for call (fst (request_approval E run call i x d w))" for d
    unfolding request_approval_def Let_def by (rule task_of_for) (auto dest!: and_then_value)
  then show ?thesis
    by (auto simp: policy_step_def begin_execution_for split: option.split sum.split
        tool_decision.split)
qed

lemma task_start_for: "task_for call (fst (task_start E run call w))"
proof -
  have "task_for call (fst (done_of (finish_argument_validation E run call e v)))" for e v
    by (rule done_of_for) (auto simp: finish_argument_validation_def Let_def dest!: and_then_value)
  then show ?thesis
    by (auto simp: task_start_def policy_step_for split: prod.split sum.split option.split
        tool_execution_error.split)
qed

lemma task_decided_for: "task_for call (fst (task_decided E run call i x op m d w))"
  by (auto simp: task_decided_def begin_execution_for split: prod.split sum.split
      operation_decision.split)

lemma task_running_for:
  "task_for call (fst (done_of (task_succeeded E run call a r w)))"
  "task_for call (fst (done_of (task_failed run a e w)))"
  by (rule done_of_for; auto simp: task_succeeded_def task_failed_def dest!: and_then_value)+

lemma task_step_for: "task_for call t \<Longrightarrow> task_for call (fst (task_step E run t w))"
  by (cases t) (auto simp: task_start_for task_decided_for task_running_for
      split: look.split sum.split prod.split option.split)

lemma drive_task_for:
  "task_for call t \<Longrightarrow> drive_task n E run t w = Some (Inr m, w') \<Longrightarrow> answers_call call m"
proof (induction n arbitrary: t w)
  case 0
  then show ?case by (cases t) simp_all
next
  case (Suc n)
  obtain t1 w1 where st: "task_step E run t w = (t1, w1)" by (metis surj_pair)
  from task_step_for [OF Suc.prems(1), of E run w] st have "task_for call t1" by simp
  with Suc st show ?case by (cases t) auto
qed

lemma run_sequential_answers:
  "run_sequential n E run calls w = Some (Inr ms, w') \<Longrightarrow> list_all2 answers_call calls ms"
proof (induction calls arbitrary: w ms)
  case Nil
  then show ?case by simp
next
  case (Cons call calls)
  then obtain m v ms' where "drive_task n E run (TaskNew call) w = Some (Inr m, v)"
    "run_sequential n E run calls v = Some (Inr ms', w')" "ms = m # ms'"
    by (auto split: option.splits sum.splits)
  with Cons.IH drive_task_for [of call "TaskNew call"] show ?case by auto
qed

lemma task_poll_for: "task_for call t \<Longrightarrow> task_for call (fst (task_poll E run t w))"
proof -
  have "task_for call t \<Longrightarrow> task_for call (fst (poll_steps n E run t w))" for n
  proof (induction n arbitrary: t w)
    case (Suc n)
    obtain t' w' where st: "task_step E run t w = (t', w')" by (metis surj_pair)
    with task_step_for [OF Suc.prems, of E run w] Suc.IH [of t' w'] show ?case by simp
  qed (simp add: task_step_for)
  then show "task_for call t \<Longrightarrow> task_for call (fst (task_poll E run t w))" by (simp add: task_poll_def)
qed

lemma poll_at_for:
  assumes "list_all2 task_for calls (fst p)"
  shows "list_all2 task_for calls (fst (poll_at E run k p))"
proof -
  obtain ts w where p: "p = (ts, w)" by (metis surj_pair)
  show ?thesis
  proof (cases "k < length ts")
    case True
    with assms p have tk: "task_for (calls ! k) (ts ! k)" by (simp add: list_all2_nthD2)
    obtain t' w' where t: "task_poll E run (ts ! k) w = (t', w')" by (metis surj_pair)
    from task_poll_for [OF tk, of E run w] t have "task_for (calls ! k) t'" by simp
    with assms p True t show ?thesis
      by (auto simp: poll_at_def list_all2_conv_all_nth nth_list_update)
  qed (use assms p in \<open>simp add: poll_at_def\<close>)
qed

lemma poll_after_idle_for:
  "list_all2 task_for calls (fst p) \<Longrightarrow> list_all2 task_for calls (fst (poll_after_idle E run k p))"
  using poll_at_for [of calls "(fst p, env_idle E (snd p))" E run k]
  by (auto simp: poll_after_idle_def split: prod.split)

lemma fold_for:
  "(\<And>k p. list_all2 task_for calls (fst p) \<Longrightarrow> list_all2 task_for calls (fst (f k p))) \<Longrightarrow>
   list_all2 task_for calls (fst p) \<Longrightarrow> list_all2 task_for calls (fst (fold f ks p))"
  by (induction ks arbitrary: p) auto

lemma collect_tasks:
  "list_all2 task_for calls ts \<Longrightarrow> all_done ts \<Longrightarrow>
   collect_results (List.map_filter task_result ts) = Inr ms \<Longrightarrow> list_all2 answers_call calls ms"
proof (induction calls ts arbitrary: ms rule: list_all2_induct)
  case Nil
  then show ?case by (simp add: map_filter_simps)
next
  case (Cons call calls t ts)
  then obtain x where "t = TaskDone x" by (cases t) auto
  with Cons show ?case
    by (cases x; cases "collect_results (List.map_filter task_result ts)")
      (auto simp: map_filter_simps)
qed

lemma run_parallel_answers:
  assumes "run_parallel E run calls w = Some (Inr ms, w')"
  shows "list_all2 answers_call calls ms"
proof -
  let ?p = "fold (poll_at E run) [0..<length calls] (map TaskNew calls, w)"
  let ?q = "fold (poll_after_idle E run) (env_schedule E w) ?p"
  have "list_all2 task_for calls (map TaskNew calls)" by (simp add: list_all2_conv_all_nth)
  then have "list_all2 task_for calls (fst ?p)"
    using fold_for [OF poll_at_for, where p = "(map TaskNew calls, w)"] by simp
  then have "list_all2 task_for calls (fst ?q)"
    using fold_for [where f = "poll_after_idle E run" and p = ?p] poll_after_idle_for by blast
  with assms collect_tasks show ?thesis
    by (auto simp: run_parallel_def split: prod.splits if_splits)
qed

lemma tool_round_answers:
  assumes "after_turn n E run request counts turn w = RoundAgain request' counts' w'"
    and "turn_terminal turn = TermToolCalls"
  shows "\<exists>results. req_messages request' = req_messages request @ assistant_message turn # results
    \<and> list_all2 answers_call (turn_tool_calls turn) results
    \<and> msg_tool_calls (assistant_message turn) = turn_tool_calls turn"
proof -
  have "\<exists>ds results.
      run_calls n E run (turn_tool_calls turn) ds w = Some (Inr results, w')
      \<and> req_messages request' = req_messages request @ assistant_message turn # results"
    using assms
    by (auto simp: after_turn_def Let_def split: if_splits sum.splits option.splits; blast)
  then obtain ds results where
    "run_calls n E run (turn_tool_calls turn) ds w = Some (Inr results, w')"
    and req: "req_messages request' = req_messages request @ assistant_message turn # results"
    by blast
  then have "list_all2 answers_call (turn_tool_calls turn) results"
    by (auto simp: run_calls_def split: if_splits dest: run_parallel_answers run_sequential_answers)
  with req show ?thesis by (auto simp: assistant_message_def)
qed

text \<open>
  C13. Every tool call is answered exactly once, in order. When an iteration goes on after a turn
  with tool calls, whether they ran one after another or interleaved, the next request is the
  old one followed by the assistant's message, which carries the calls, and by one tool message
  per call, the k-th answering the k-th call by its identifier and by the one its provider gave it.
\<close>

theorem tool_round_answers_every_call:
  assumes "after_turn n E run request counts turn w = RoundAgain request' counts' w'"
    and "turn_terminal turn = TermToolCalls"
  shows "\<exists>results. req_messages request' = req_messages request @ assistant_message turn # results
    \<and> list_all2 answers_call (turn_tool_calls turn) results
    \<and> msg_tool_calls (assistant_message turn) = turn_tool_calls turn"
  by (rule tool_round_answers [OF assms])

section \<open>Calls that are ready at once\<close>









section \<open>No execution without permission\<close>

lemma running_has_permission:
  assumes "task_step E run t w = (TaskRunning call i x approved, w')"
  shows "(case approved of
      None \<Rightarrow> t = TaskNew call \<and> (\<exists>registered facts. tool_resolve (call_name call) (env_tools E) = Some registered
        \<and> pol_resolve_facts (env_policy E) (rt_descriptor registered) i (env_authority E) = Inr facts
        \<and> pol_evaluate (env_policy E) \<lparr>pin_descriptor = rt_descriptor registered, pin_invocation = i,
            pin_facts = facts, pin_authority = env_authority E\<rparr> = Allow)
    | Some (op, mode) \<Rightarrow> t = TaskWaiting call i x op mode
        \<and> (\<exists>d. look_in mode run op (tab_operations (cw_table w)) = Ready (Inr (Approve d))))
    \<and> (\<exists>w0 s. emit_for E run (tool_started call) w0 = (Inr s, w'))"
proof -
  have beg: "begin_execution E run c j y a v = (TaskRunning call i x approved, w') \<Longrightarrow>
      c = call \<and> j = i \<and> y = x \<and> a = approved
      \<and> (\<exists>w0 s. emit_for E run (tool_started call) w0 = (Inr s, w'))" for c j y a v
    by (auto simp: begin_execution_def task_of_def split: prod.splits sum.splits
        dest!: and_then_value)
  have req: "request_approval E run c j y d v \<noteq> (TaskRunning call i x approved, w')" for c j y d v
    by (auto simp: request_approval_def task_of_def Let_def split: prod.splits sum.splits
        dest!: and_then_value)
  have pol: "policy_step E run c j y v = (TaskRunning call i x approved, w') \<Longrightarrow>
      begin_execution E run c j y None v = (TaskRunning call i x approved, w')
      \<and> (\<exists>registered facts. tool_resolve (call_name c) (env_tools E) = Some registered
        \<and> pol_resolve_facts (env_policy E) (rt_descriptor registered) j (env_authority E) = Inr facts
        \<and> pol_evaluate (env_policy E) \<lparr>pin_descriptor = rt_descriptor registered, pin_invocation = j,
            pin_facts = facts, pin_authority = env_authority E\<rparr> = Allow)" for c j y v
    by (auto simp: policy_step_def req split: option.splits sum.splits tool_decision.splits)
  have dn: "done_of q \<noteq> (TaskRunning call i x approved, w')" for q
    by (simp add: done_of_def split: prod.split)
  show ?thesis
  proof (cases t)
    case (TaskNew c)
    with assms have "\<exists>j y v. policy_step E run c j y v = (TaskRunning call i x approved, w')"
      by (auto simp: task_start_def dn split: prod.splits sum.splits option.splits
          tool_execution_error.splits if_splits)
    then obtain j y v where p: "policy_step E run c j y v = (TaskRunning call i x approved, w')"
      by blast
    from pol [OF p] beg have "c = call" "j = i" "approved = None" by blast+
    with pol [OF p] beg TaskNew show ?thesis by auto
  next
    case (TaskWaiting c j y op m)
    with assms obtain d v where look: "look_in m run op (tab_operations (cw_table w)) = Ready (Inr d)"
      and dec: "task_decided E run c j y op m d w = (TaskRunning call i x approved, w')"
      by (auto split: look.splits sum.splits)
    from dec obtain e v where "d = Approve e"
      "begin_execution E run c j y (Some (op, m)) v = (TaskRunning call i x approved, w')"
      by (auto simp: task_decided_def split: sum.splits prod.splits operation_decision.splits)
    with beg look TaskWaiting show ?thesis by force
  next
    case (TaskRunning c j y a)
    with assms dn show ?thesis by (auto split: prod.splits option.splits sum.splits)
  next
    case (TaskDone y)
    with assms show ?thesis by simp
  qed
qed

text \<open>
  C12. An executor runs only with permission. A task reaches its executor in a step only if the
  policy allowed this invocation on the facts it resolved, or if the host approved the operation
  the policy asked for, as the operation store reports it at that step; and the start of the
  tool is in the event log before.
\<close>

theorem execution_needs_permission:
  assumes "task_step E run t w = (TaskRunning call i x approved, w')"
  shows "(case approved of
      None \<Rightarrow> t = TaskNew call \<and> (\<exists>registered facts. tool_resolve (call_name call) (env_tools E) = Some registered
        \<and> pol_resolve_facts (env_policy E) (rt_descriptor registered) i (env_authority E) = Inr facts
        \<and> pol_evaluate (env_policy E) \<lparr>pin_descriptor = rt_descriptor registered, pin_invocation = i,
            pin_facts = facts, pin_authority = env_authority E\<rparr> = Allow)
    | Some (op, mode) \<Rightarrow> t = TaskWaiting call i x op mode
        \<and> (\<exists>d. look_in mode run op (tab_operations (cw_table w)) = Ready (Inr (Approve d))))
    \<and> (\<exists>w0 s. emit_for E run (tool_started call) w0 = (Inr s, w'))"
  using assms by (rule running_has_permission)

section \<open>The loop ends\<close>

text \<open>The allowance of model rounds of a run only shrinks.\<close>

definition rounds_left :: "run_id \<Rightarrow> run_table \<Rightarrow> nat option" where
  "rounds_left run t =
     (case tab_get t run of
        None \<Rightarrow> Some 0
      | Some r \<Rightarrow> (if bud_max_model_rounds (rr_budget r) = - 1 then None
                   else Some (unat (bud_max_model_rounds (rr_budget r)) - unat (bud_model_rounds (rr_budget r)))))"

definition budget_shrinks :: "loop_budget \<Rightarrow> loop_budget \<Rightarrow> bool" where
  "budget_shrinks b b' =
     (bud_max_model_rounds b' = bud_max_model_rounds b
      \<and> unat (bud_model_rounds b) \<le> unat (bud_model_rounds b'))"

lemma budget_shrinks_refl [simp]: "budget_shrinks b b"
  by (simp add: budget_shrinks_def)

lemma budget_call_shrinks: "budget_call_step now c b = (x, b') \<Longrightarrow> budget_shrinks b b'"
  using saturating_add_mono [of "bud_model_rounds b" 1]
  by (cases c) (auto simp: budget_defs budget_shrinks_def word_le_nat_alt split: if_splits)

interpretation shrinking: cell_relation "\<lambda>r r'. budget_shrinks (rr_budget r) (rr_budget r')"
  by unfold_locales (auto dest: budget_call_shrinks simp: budget_shrinks_def)

lemma tab_steps_shrink:
  assumes "tab_step\<^sup>*\<^sup>* t t'" "tab_get t run = Some r"
  shows "\<exists>r'. tab_get t' run = Some r' \<and> budget_shrinks (rr_budget r) (rr_budget r')"
  using shrinking.steps_related [OF assms(1)] assms(2) by (auto simp: runs_related_def)

text \<open>An accepted model round spends one of the rounds that are left.\<close>

lemma consumed_round:
  assumes "on_budget_of (consume_model_round now run) w = (Inr u, w')"
    and "rounds_left run (cw_table w) = Some k"
  shows "\<exists>r. tab_get (cw_table w') run = Some r \<and> bud_max_model_rounds (rr_budget r) \<noteq> - 1
    \<and> Suc (unat (bud_max_model_rounds (rr_budget r)) - unat (bud_model_rounds (rr_budget r))) = k"
proof (cases "tab_record (cw_table w) run")
  case (Inl e)
  then show ?thesis using assms(1)
    by (simp add: on_budget_of_def consume_model_round_def on_budget_def)
next
  case (Inr r)
  then have get: "tab_get (cw_table w) run = Some r" by simp
  let ?b = "rr_budget r"
  have lim: "bud_max_model_rounds ?b \<noteq> - 1"
    and k: "k = unat (bud_max_model_rounds ?b) - unat (bud_model_rounds ?b)"
    using assms(2) get by (auto simp: rounds_left_def split: if_splits)
  have on: "on_budget_of (consume_model_round now run) w =
      (case budget_consume_model_round now ?b of (x, b) \<Rightarrow>
         (map_err (\<lambda>k. ProviderError (''Agent loop budget exceeded: '' @ budget_kind_debug k)) x,
          w\<lparr>cw_table := tab_put run (r\<lparr>rr_budget := b\<rparr>) (cw_table w)\<rparr>))"
    by (simp add: on_budget_of_def consume_model_round_def on_budget_def Inr split: prod.split)
  obtain x b where b: "budget_consume_model_round now ?b = (x, b)" by (metis surj_pair)
  from assms(1) on b have x: "x = Inr u"
    and w': "w' = w\<lparr>cw_table := tab_put run (r\<lparr>rr_budget := b\<rparr>) (cw_table w)\<rparr>" by auto
  from b x lim have less: "bud_model_rounds ?b < bud_max_model_rounds ?b"
    and b': "b = ?b\<lparr>bud_model_rounds := saturating_add (bud_model_rounds ?b) 1\<rparr>"
    by (auto simp: budget_consume_model_round_def Let_def split: if_splits)
  from less have "unat (bud_model_rounds ?b) < unat (bud_max_model_rounds ?b)"
    by (simp add: word_less_nat_alt)
  with unat_saturating_add_one_less [OF less] show ?thesis
    by (simp add: w' b' k lim)
qed

lemma round_again_spends:
  assumes "env_ok E run" "registered_round n E run q c w = RoundAgain q' c' w'"
    and "rounds_left run (cw_table w) = Some k"
  shows "\<exists>k'. rounds_left run (cw_table w') = Some k' \<and> k' < k"
proof -
  obtain x v where b: "on_budget_of (consume_model_round (env_now E w) run) w = (x, v)"
    by (metis surj_pair)
  obtain y u where t: "env_next_turn E q v = (y, u)" by (metis surj_pair)
  from assms(2) b t obtain z turn where x: "x = Inr z" and y: "y = Some (Inr turn)"
    and at: "after_turn n E run q c turn u = RoundAgain q' c' w'"
    by (auto simp: registered_round_def split: if_splits sum.splits option.splits)
  from consumed_round [of "env_now E w" run w z v k] b x assms(3)
  obtain r where r: "tab_get (cw_table v) run = Some r" "bud_max_model_rounds (rr_budget r) \<noteq> - 1"
    "Suc (unat (bud_max_model_rounds (rr_budget r)) - unat (bud_model_rounds (rr_budget r))) = k"
    by auto
  have "moves v w'"
    using env_okD(1) [OF assms(1) t] after_turn_moves [OF assms(1), of n q c turn u w'] at
    by (auto intro: moves_trans)
  then obtain r' where r': "tab_get (cw_table w') run = Some r'"
    "budget_shrinks (rr_budget r) (rr_budget r')"
    using tab_steps_shrink [OF _ r(1)] by (auto simp: moves_def)
  then have "rounds_left run (cw_table w') =
      Some (unat (bud_max_model_rounds (rr_budget r)) - unat (bud_model_rounds (rr_budget r')))"
    using r(2) by (simp add: rounds_left_def budget_shrinks_def)
  moreover have "unat (bud_max_model_rounds (rr_budget r)) - unat (bud_model_rounds (rr_budget r')) < k"
    using r(3) r'(2) by (simp add: budget_shrinks_def) linarith
  ultimately show ?thesis by blast
qed

lemma registered_loop_ends:
  "env_ok E run \<Longrightarrow> rounds_left run (cw_table w) = Some k \<Longrightarrow> k < fuel \<Longrightarrow>
   registered_loop fuel n E run q c w \<noteq> LoopOutOfFuel"
proof (induction fuel arbitrary: q c w k)
  case 0
  then show ?case by simp
next
  case (Suc fuel)
  show ?case
  proof (cases "registered_round n E run q c w")
    case (RoundAgain q' c' w')
    from round_again_spends [OF Suc.prems(1) this Suc.prems(2)] obtain k' where
      "rounds_left run (cw_table w') = Some k'" "k' < k" by blast
    with RoundAgain Suc.IH [OF Suc.prems(1), of w' k'] Suc.prems(3) show ?thesis by simp
  qed simp_all
qed

text \<open>
  C25. A run with a limit on its model rounds does not loop for ever. Whatever the provider,
  the tools, the host and other threads do, the loop makes at most as many iterations as model
  rounds are left, and one more that is refused: with that fuel it returns, or is still waiting
  for the host's decision on an operation.
\<close>

theorem agent_loop_terminates:
  assumes "env_ok E run"
    and "tab_get (cw_table w) run = Some r"
    and "bud_max_model_rounds (rr_budget r) \<noteq> - 1"
    and "unat (bud_max_model_rounds (rr_budget r)) - unat (bud_model_rounds (rr_budget r)) < fuel"
  shows "run_registered_model_tool_loop fuel n E run request w \<noteq> LoopOutOfFuel"
proof -
  have "rounds_left run (cw_table w) = Some
      (unat (bud_max_model_rounds (rr_budget r)) - unat (bud_model_rounds (rr_budget r)))"
    using assms(2,3) by (simp add: rounds_left_def)
  from registered_loop_ends [OF assms(1) this assms(4)] show ?thesis
    by (auto simp: run_registered_model_tool_loop_def split: sum.split)
qed

section \<open>A recorded result is replayed\<close>

definition ledger_keeps :: "tool_ledger \<Rightarrow> tool_ledger \<Rightarrow> bool" where
  "ledger_keeps l l' = (led_poisoned l' = led_poisoned l
     \<and> dom (map_of (led_completed l)) \<subseteq> dom (map_of (led_completed l')))"

lemma ledger_action_keeps: "g \<in> ledger_actions \<Longrightarrow> ledger_keeps l (g l)"
  unfolding ledger_actions_def ledger_keeps_def
  by (auto simp: ledger_record_def execute_once_def split: option.splits prod.splits sum.splits if_splits)

interpretation replay: cell_relation "\<lambda>r r'. ledger_keeps (rr_ledger r) (rr_ledger r')"
  by unfold_locales (auto simp: ledger_action_keeps, auto simp: ledger_keeps_def)

lemma tab_steps_ledger:
  assumes "tab_step\<^sup>*\<^sup>* t t'" "tab_get t run = Some r"
  shows "\<exists>r'. tab_get t' run = Some r' \<and> ledger_keeps (rr_ledger r) (rr_ledger r')"
  using replay.steps_related [OF assms(1)] assms(2) by (auto simp: runs_related_def)

text \<open>On a reachable table no ledger is poisoned.\<close>

lemma tab_reachable_ledger:
  assumes "tab_step\<^sup>*\<^sup>* tab_new t"
  shows "tab_get t run = Some r \<Longrightarrow> \<not> led_poisoned (rr_ledger r)"
  using assms
proof (induction arbitrary: r rule: rtranclp_induct)
  case base
  then show ?case by (simp add: tab_new_def tab_get_def)
next
  case (step a b)
  show ?case
  proof (cases "tab_get a run")
    case (Some q)
    with tab_steps_ledger [OF one_step [OF step.hyps(2)] Some] step show ?thesis
      by (auto simp: ledger_keeps_def)
  next
    case None
    with step.hyps(2) step.prems show ?thesis
      by (cases rule: tab_step.cases)
        (auto simp: record_section_def tab_register_hook_def on_budget_def new_record_def ledger_new_def
          tab_record_def split: if_splits prod.splits sum.splits)
  qed
qed

definition recorded :: "run_id \<Rightarrow> tool_invocation_id \<Rightarrow> run_table \<Rightarrow> bool" where
  "recorded run i t = (\<exists>r x. tab_get t run = Some r \<and> map_of (led_completed (rr_ledger r)) i = Some x)"

lemma recorded_stays: "tab_step\<^sup>*\<^sup>* t t' \<Longrightarrow> recorded run i t \<Longrightarrow> recorded run i t'"
  using tab_steps_ledger [of t t' run] by (fastforce simp: recorded_def ledger_keeps_def)

lemma record_tool_execution_recorded:
  assumes "tab_step\<^sup>*\<^sup>* tab_new (cw_table w)"
    and "on_table (record_tool_execution run i r) w = (Inr u, w')"
  shows "recorded run i (cw_table w')"
proof (cases "tab_record (cw_table w) run")
  case (Inl e)
  then show ?thesis using assms(2)
    by (simp add: on_table_def record_tool_execution_def record_section_def)
next
  case (Inr q)
  then have get: "tab_get (cw_table w) run = Some q" by simp
  have "cw_table w' = tab_put run (q\<lparr>rr_ledger := ledger_record i r (rr_ledger q)\<rparr>) (cw_table w)"
    using assms(2) by (auto simp: on_table_def record_tool_execution_def record_section_def Inr)
  with tab_reachable_ledger [OF assms(1) get] show ?thesis
    by (simp add: recorded_def ledger_record_def)
qed

text \<open>
  A tool whose result was recorded does not run again. Once the execution of an invocation
  has succeeded and its result was recorded, any later start of a call with the same identifier,
  whatever other threads did in between, ends at once: with the recorded result, or with the error
  of an exhausted budget. It never reaches the policy, the host or the executor.
\<close>

theorem recorded_invocation_never_runs_again:
  assumes "tab_step\<^sup>*\<^sup>* tab_new (cw_table w)"
    and "task_succeeded E run call approved r w = (Inr m, w1)"
    and "tab_step\<^sup>*\<^sup>* (cw_table w1) (cw_table w2)"
    and "call_id again = call_id call"
  shows "\<exists>x w3. task_start E run again w2 = (TaskDone x, w3)
    \<and> ((\<exists>e. x = Inl e) \<or> (\<exists>q. x = Inr (tool_message (env_json E) again q)))"
proof -
  from assms(2) obtain u v u' v' where
    f: "(case approved of Some (i, mode) \<Rightarrow> finish_host_operation run i mode (Inr ()) w
         | None \<Rightarrow> (Inr (), w)) = (Inr u, v)"
    and rec: "on_table (record_tool_execution run (call_id call) r) v = (Inr u', v')"
    and fin: "and_then (emit_for E run (tool_finished call r) v')
        (\<lambda>_ w. (Inr (tool_message (env_json E) call r), w)) = (Inr m, w1)"
    unfolding task_succeeded_def by (blast dest: and_then_value)
  have "moves w v" using f finish_host_moves [of w run]
    by (auto split: option.splits) (metis snd_conv)
  then have reach_v: "tab_step\<^sup>*\<^sup>* tab_new (cw_table v)"
    unfolding moves_def by (rule steps_trans [OF assms(1)])
  have rec_v': "recorded run (call_id call) (cw_table v')"
    by (rule record_tool_execution_recorded [OF reach_v rec])
  have m1: "moves v v'" using record_moves [of v run "call_id call" r] rec by simp
  have m2: "moves v' w1"
  proof -
    have "moves v' (snd (and_then (emit_for E run (tool_finished call r) v')
        (\<lambda>_ w. (Inr (tool_message (env_json E) call r), w))))"
      by (intro and_then_moves coord_moves) simp
    with fin show ?thesis by simp
  qed
  obtain x w3 where b: "on_budget_of (consume_tool_invocation (env_now E w2) run) w2 = (x, w3)"
    by (metis surj_pair)
  have m3: "moves w2 w3" using consume_tool_moves [of w2 "env_now E w2" run] b by simp
  have "tab_step\<^sup>*\<^sup>* (cw_table v') (cw_table w3)"
    using m2 m3 assms(3) unfolding moves_def by (meson rtranclp_trans)
  from recorded_stays [OF this rec_v'] obtain q y where q: "tab_get (cw_table w3) run = Some q"
    "map_of (led_completed (rr_ledger q)) (call_id call) = Some y" by (auto simp: recorded_def)
  have reach3: "tab_step\<^sup>*\<^sup>* tab_new (cw_table w3)"
    using reach_v m1 \<open>tab_step\<^sup>*\<^sup>* (cw_table v') (cw_table w3)\<close> unfolding moves_def
    by (meson rtranclp_trans)
  have "tab_record (cw_table w3) run = Inr q" using q(1) tab_reachable_unpoisoned [OF reach3] by simp
  then have "cached_tool_execution run (call_id again) (cw_table w3) = Inr (Some y)"
    using q tab_reachable_ledger [OF reach3 q(1)] assms(4)
    unfolding cached_tool_execution_def by (simp only: res_bind_simps) (simp add: ledger_get_def)
  then show ?thesis by (cases x) (auto simp: task_start_def b)
qed

section \<open>A concrete environment\<close>

text \<open>One tool, whose executor counts its runs in the external state; everything is allowed.\<close>

definition sample_descriptor :: tool_descriptor where
  "sample_descriptor = \<lparr>tool_name = ''read'', tool_description = [], tool_input_schema = JNull,
     tool_effect_of = PureRead, tool_required_capabilities = [], tool_parallel_safe = True\<rparr>"

definition sample_call :: tool_call where
  "sample_call = \<lparr>call_id = ToolInvocationId 5, call_name = ''read'', call_arguments = JNull,
     call_provider_call_id = None\<rparr>"

definition sample_turn :: "provider_terminal \<Rightarrow> tool_call list \<Rightarrow> model_turn" where
  "sample_turn terminal calls = \<lparr>turn_text = ''ok'', turn_reasoning = [], turn_tool_calls = calls,
     turn_usage = None, turn_terminal = terminal, turn_opaque = JNull\<rparr>"

definition sample_env :: "(unit, nat) coord_env" where
  "sample_env =
     \<lparr>env_uuid = sample_uuid_lib,
      env_json = \<lparr>lib_parse = (\<lambda>_. Some (JObject [])), lib_print = (\<lambda>_. []),
                  lib_validator = (\<lambda>_. Some (\<lambda>_. []))\<rparr>,
      env_tools = [(''read'', \<lparr>rt_descriptor = sample_descriptor, rt_executor = ()\<rparr>)],
      env_policy = allow_all_policy,
      env_authority = execution_authority_for False PermDefault False,
      env_now = (\<lambda>_. 0),
      env_fresh_id = (\<lambda>_. OperationId 9),
      env_next_turn = (\<lambda>_ w. (Some (Inr (sample_turn TermStop [])), w)),
      env_execute = (\<lambda>_ _ w. (Some (Inr (result_from_value JNull)), w\<lparr>cw_ext := Suc (cw_ext w)\<rparr>)),
      env_ready = (\<lambda>_ _ _. False),
      env_idle = (\<lambda>w. w),
      env_schedule = (\<lambda>_. [0, 1])\<rparr>"

definition sample_request :: model_turn_request where
  "sample_request = \<lparr>req_model = ''m'', req_messages = [], req_tools = [sample_descriptor],
     req_session_key = ProviderSessionKey ''s'', req_run_id = RunId 1, req_opaque_state = None,
     req_features = default_features\<rparr>"

definition sample_world :: "nat coord_world" where
  "sample_world = \<lparr>cw_table = sample_tree, cw_ext = 0\<rparr>"

lemma sample_env_ok: "env_ok sample_env run"
  by (auto simp: env_ok_def sample_env_def)

lemma sample_root: "tab_get sample_tree (RunId 1) = Some (new_record (sample_context 1 None) default_limits 0)"
  by (simp add: sample_table_simps)

lemmas sample_coord_simps =
  sample_env_def sample_call_def sample_world_def sample_descriptor_def task_start_def
  on_budget_of_def consume_tool_invocation_def on_budget_def budget_consume_tool_invocation_def
  check_wall_time_def elapsed_def cached_tool_execution_def ledger_get_def ledger_new_def
  registry_prepare_invocation_def prepare_invocation_def prepare_tool_call_def
  parse_tool_arguments_def validate_tool_arguments_def is_object_def tool_resolve_def
  invocation_from_prepared_def policy_step_def allow_all_policy_def begin_execution_def
  emit_for_def on_table_def and_then_def task_of_def done_of_def task_succeeded_def
  record_tool_execution_def ledger_record_def budget_from_run_limits_def default_limits_def
  is_unlimited_def wall_time_30_minutes_def MAX_TOOL_ARGUMENT_BYTES_def


lemma schedule_two: "[0..<length [a, b]] = [0, 1]"
  by (simp add: upt_rec)

theorem parallel_duplicates_execute_twice:
  "map_option (\<lambda>(x, w). (map_sum id length x, cw_ext w))
     (run_parallel sample_env (RunId 1) [sample_call, sample_call] sample_world) = Some (Inr 2, 2)"
  unfolding run_parallel_def schedule_two
  by (simp add: poll_at_def poll_after_idle_def task_poll_steps sample_coord_simps sample_table_simps map_filter_simps
     tool_started_def tool_finished_def result_from_value_def word_le_nat_alt)

lemma sequential_duplicates_execute_once:
  "map_option (\<lambda>(x, w). (map_sum id length x, cw_ext w))
     (run_sequential (Suc (Suc (Suc 0))) sample_env (RunId 1) [sample_call, sample_call] sample_world) = Some (Inr 2, 1)"
  by (simp add: sample_coord_simps sample_table_simps map_filter_simps
     tool_started_def tool_finished_def result_from_value_def word_le_nat_alt)



lemmas sample_loop_simps =
  run_registered_model_tool_loop_def tab_cancellation_token_def tab_limits_def registered_round_def
  token_is_cancelled_def token_new_def consume_model_round_def budget_consume_model_round_def
  after_turn_def sample_turn_def continuation_reason_of.simps run_calls_def
  can_run_tool_calls_in_parallel_def resolve_call_def tool_started_def tool_finished_def
  result_from_value_def word_le_nat_alt

theorem tool_round_answers_every_call_witness:
  "\<exists>q c w'. after_turn (Suc (Suc (Suc 0))) sample_env (RunId 1) sample_request
       (counts_for_limits default_limits) (sample_turn TermToolCalls [sample_call]) sample_world
     = RoundAgain q c w'
   \<and> (\<exists>results. req_messages q
        = req_messages sample_request @ assistant_message (sample_turn TermToolCalls [sample_call]) # results
      \<and> list_all2 answers_call [sample_call] results)"
proof -
  have "\<exists>q c w'. after_turn (Suc (Suc (Suc 0))) sample_env (RunId 1) sample_request
       (counts_for_limits default_limits) (sample_turn TermToolCalls [sample_call]) sample_world
     = RoundAgain q c w'"
    by (simp add: sample_loop_simps sample_coord_simps sample_table_simps)
  then obtain q c w' where at: "after_turn (Suc (Suc (Suc 0))) sample_env (RunId 1) sample_request
       (counts_for_limits default_limits) (sample_turn TermToolCalls [sample_call]) sample_world
     = RoundAgain q c w'" by blast
  have "turn_terminal (sample_turn TermToolCalls [sample_call]) = TermToolCalls"
    and "turn_tool_calls (sample_turn TermToolCalls [sample_call]) = [sample_call]"
    by (simp_all add: sample_turn_def)
  with tool_round_answers_every_call [OF at] at show ?thesis by auto
qed

theorem execution_needs_permission_witness:
  "\<exists>i w'. task_step sample_env (RunId 1) (TaskNew sample_call) sample_world
       = (TaskRunning sample_call i () None, w')
     \<and> (\<exists>w0 s. emit_for sample_env (RunId 1) (tool_started sample_call) w0 = (Inr s, w'))"
proof -
  have "\<exists>i w'. task_step sample_env (RunId 1) (TaskNew sample_call) sample_world
       = (TaskRunning sample_call i () None, w')"
    by (simp add: sample_loop_simps sample_coord_simps sample_table_simps)
  then obtain i w' where t: "task_step sample_env (RunId 1) (TaskNew sample_call) sample_world
       = (TaskRunning sample_call i () None, w')" by blast
  from execution_needs_permission [OF t] t show ?thesis by blast
qed

theorem agent_loop_terminates_witness:
  "run_registered_model_tool_loop 33 3 sample_env (RunId 1) sample_request sample_world \<noteq> LoopOutOfFuel"
  by (rule agent_loop_terminates [OF sample_env_ok, where r = "new_record (sample_context 1 None) default_limits 0"])
    (simp_all add: sample_world_def sample_root new_record_def budget_from_run_limits_def
      default_limits_def)

theorem recorded_invocation_never_runs_again_witness:
  "\<exists>m w1 x w3. task_succeeded sample_env (RunId 1) sample_call None (result_from_value JNull) sample_world
       = (Inr m, w1)
     \<and> task_start sample_env (RunId 1) sample_call w1 = (TaskDone x, w3)"
proof -
  have "\<exists>m w1. task_succeeded sample_env (RunId 1) sample_call None (result_from_value JNull) sample_world
       = (Inr m, w1)"
    by (simp add: sample_loop_simps sample_coord_simps sample_table_simps)
  then obtain m w1 where s: "task_succeeded sample_env (RunId 1) sample_call None
      (result_from_value JNull) sample_world = (Inr m, w1)" by blast
  have "tab_step\<^sup>*\<^sup>* tab_new (cw_table sample_world)"
    by (simp add: sample_world_def sample_tree_reachable)
  from recorded_invocation_never_runs_again [OF this s rtranclp.rtrancl_refl refl] s
  show ?thesis by blast
qed

end
