(* ===== verification/Prompts.thy ===== *)
theory Prompts
  imports Core_Types
begin

text \<open>
  The requests a caller writes (\<open>prompt.rs\<close> of \<open>aifluxon-api\<close>), and how the messages of a request
  continue those of a session.
\<close>

section \<open>Requests\<close>

definition text_message :: "message_role \<Rightarrow> str \<Rightarrow> message" where
  "text_message role text =
     \<lparr>msg_role = role, msg_content = [PartText text], msg_tool_calls = [], msg_tool_call_id = None,
      msg_provider_state = None\<rparr>"

definition content_messages :: "content_part list \<Rightarrow> str option \<Rightarrow> message list" where
  "content_messages content system_prompt =
     (case opt_filter (\<lambda>t. t \<noteq> []) (map_option trim system_prompt) of
        None \<Rightarrow> [] | Some system \<Rightarrow> [text_message RoleSystem system])
     @ [\<lparr>msg_role = RoleUser, msg_content = content, msg_tool_calls = [], msg_tool_call_id = None,
         msg_provider_state = None\<rparr>]"

definition user_content_request_with_system ::
    "provider_id \<Rightarrow> str \<Rightarrow> content_part list \<Rightarrow> session_id option \<Rightarrow> run_limits \<Rightarrow> provider_feature_request
       \<Rightarrow> str option \<Rightarrow> run_request" where
  "user_content_request_with_system provider model content session limits features system_prompt =
     \<lparr>run_session_id = session, run_messages = content_messages content system_prompt,
      run_model = \<lparr>model_provider = provider, model_name = model\<rparr>, run_session_key = None,
      run_allowed_tools = None, run_limits_of = limits, run_features = features, run_authority = None\<rparr>"

definition user_prompt_request_with_system ::
    "provider_id \<Rightarrow> str \<Rightarrow> str \<Rightarrow> session_id option \<Rightarrow> run_limits \<Rightarrow> provider_feature_request
       \<Rightarrow> str option \<Rightarrow> run_request" where
  "user_prompt_request_with_system provider model prompt session limits features system_prompt =
     user_content_request_with_system provider model [PartText prompt] session limits features system_prompt"

definition user_prompt_request_with_features ::
    "provider_id \<Rightarrow> str \<Rightarrow> str \<Rightarrow> session_id option \<Rightarrow> run_limits \<Rightarrow> provider_feature_request \<Rightarrow> run_request"
  where
  "user_prompt_request_with_features provider model prompt session limits features =
     user_prompt_request_with_system provider model prompt session limits features None"

definition user_prompt_request ::
    "provider_id \<Rightarrow> str \<Rightarrow> str \<Rightarrow> session_id option \<Rightarrow> run_limits \<Rightarrow> run_request" where
  "user_prompt_request provider model prompt session limits =
     user_prompt_request_with_system provider model prompt session limits default_features None"

section \<open>Continuing a session\<close>

definition split_leading_system :: "message list \<Rightarrow> message list \<times> message list" where
  "split_leading_system messages =
     (let n = length (takeWhile (\<lambda>m. msg_role m = RoleSystem) messages) in (take n messages, drop n messages))"

definition merge_session_and_request_messages :: "message list \<Rightarrow> message list \<Rightarrow> message list" where
  "merge_session_and_request_messages session request =
     (let (request_system, request_rest) = split_leading_system request in
      if request_system = [] then session @ request_rest
      else let (session_system, session_rest) = split_leading_system session in
           request_system @ session_rest @ request_rest)"

lemma split_leading_system_alt:
  "split_leading_system ms =
     (takeWhile (\<lambda>m. msg_role m = RoleSystem) ms, dropWhile (\<lambda>m. msg_role m = RoleSystem) ms)"
  by (simp add: split_leading_system_def takeWhile_eq_take [symmetric] dropWhile_eq_drop [symmetric] Let_def)

lemma takeWhile_rest:
  assumes "\<forall>x \<in> set xs. P x" "takeWhile P ys = []"
  shows "takeWhile P (xs @ ys) = xs" "dropWhile P (xs @ ys) = ys"
proof -
  have "dropWhile P ys = ys" using takeWhile_dropWhile_id [of P ys] assms(2) by simp
  with assms show "takeWhile P (xs @ ys) = xs" "dropWhile P (xs @ ys) = ys"
    by (simp_all add: takeWhile_append2 dropWhile_append2)
qed

lemma takeWhile_dropWhile: "takeWhile P ys = [] \<Longrightarrow> takeWhile P (dropWhile P xs @ ys) = []"
  by (induction xs) auto

lemma merge_splits:
  "split_leading_system (merge_session_and_request_messages session request) =
     ((if fst (split_leading_system request) = [] then fst (split_leading_system session)
       else fst (split_leading_system request)),
      snd (split_leading_system session) @ snd (split_leading_system request))"
proof -
  let ?P = "\<lambda>m. msg_role m = RoleSystem"
  let ?rest = "dropWhile ?P session @ dropWhile ?P request"
  have "takeWhile ?P ?rest = []"
    using takeWhile_dropWhile [of ?P "[]" request] by (intro takeWhile_dropWhile) simp
  then have sys: "split_leading_system (sys @ ?rest) = (sys, ?rest)" if "\<forall>m \<in> set sys. ?P m" for sys
    using takeWhile_rest [OF that] by (simp add: split_leading_system_alt)
  have all: "\<forall>m \<in> set (takeWhile ?P ms). ?P m" for ms by (auto dest: set_takeWhileD)
  have session: "session @ dropWhile ?P request = takeWhile ?P session @ ?rest"
    using takeWhile_dropWhile_id [of ?P session] by (metis append_assoc)
  show ?thesis
    using sys [OF all [of request]] sys [OF all [of session]]
    by (simp add: merge_session_and_request_messages_def split_leading_system_alt session)
qed

text \<open>
  C36. A system prompt is replaced, never stacked. The messages of a run are the instructions of its
  request, or those of the session when the request has none, and then the conversation of
  the session and that of the request, in order. So a session that is continued any number of
  times has the instructions of the last request that gave any, and the whole conversation.
\<close>

theorem system_prompt_is_replaced:
  "split_leading_system (fold (\<lambda>request session. merge_session_and_request_messages session request)
       requests session) =
     (case rev (filter (\<lambda>s. s \<noteq> []) (map (\<lambda>r. fst (split_leading_system r)) requests)) of
        [] \<Rightarrow> fst (split_leading_system session) | system # _ \<Rightarrow> system,
      snd (split_leading_system session)
        @ concat (map (\<lambda>r. snd (split_leading_system r)) requests))"
proof (induction requests rule: rev_induct)
  case (snoc r requests)
  then show ?case by (simp add: merge_splits split: list.split)
qed simp

end
