(* ===== verification/Facade.thy ===== *)
theory Facade
  imports Run_Handle Coordinator Session_Stores Prompts
begin

text \<open>
  The facade of the public API (\<open>backend.rs\<close> and \<open>builder.rs\<close> of \<open>aifluxon-api\<close>): what a request
  needs to start, the task that carries a run out and persists it, and the calls on runs and
  sessions. The stores, the workspace, the providers and the clock are parameters; while the
  code awaits, the rest of the world moves by \<open>env_idle\<close>.
\<close>

section \<open>Configuration\<close>

text \<open>A store is a set of functions on the external state.\<close>

record 'w store_lib =
  sl_session_load :: "session_id \<Rightarrow> 'w \<Rightarrow> store_error + session_record option"
  sl_session_save :: "u64 \<Rightarrow> session_record \<Rightarrow> 'w \<Rightarrow> (store_error + session_record) \<times> 'w"
  sl_session_delete :: "session_id \<Rightarrow> 'w \<Rightarrow> (store_error + unit) \<times> 'w"
  sl_session_list :: "'w \<Rightarrow> store_error + session_summary list"
  sl_state_load :: "session_id \<Rightarrow> provider_id \<Rightarrow> 'w \<Rightarrow> store_error + provider_state_record option"
  sl_state_save :: "provider_state_record \<Rightarrow> 'w \<Rightarrow> (store_error + unit) \<times> 'w"
  sl_checkpoint_save :: "run_checkpoint \<Rightarrow> 'w \<Rightarrow> (store_error + unit) \<times> 'w"

text \<open>What a provider does during a turn, in order: it shows something, or others move.\<close>

datatype 'w moment = Shows sink_event | Meanwhile "'w coord_world \<Rightarrow> 'w coord_world"

record ('p, 'x, 'w) facade_env =
  fac_coord :: "('x, 'w) coord_env"
  fac_providers :: "'p provider_registry"
  fac_next_turn :: "'p \<Rightarrow> model_turn_request \<Rightarrow> 'w coord_world
    \<Rightarrow> (provider_error + model_turn) option \<times> 'w moment list"
  fac_supports :: "capability_id \<Rightarrow> bool"
  fac_stores :: "'w store_lib"
  fac_fresh_run :: "'w coord_world \<Rightarrow> run_id"
  fac_fresh_session :: "'w coord_world \<Rightarrow> session_id"
  fac_millis :: "'w coord_world \<Rightarrow> u64"

definition on_store ::
    "('w \<Rightarrow> (store_error + 'a) \<times> 'w) \<Rightarrow> 'w coord_world \<Rightarrow> (store_error + 'a) \<times> 'w coord_world" where
  "on_store f w = (case f (cw_ext w) of (x, v) \<Rightarrow> (x, w\<lparr>cw_ext := v\<rparr>))"

fun store_error_display :: "store_error \<Rightarrow> str" where
  "store_error_display (StUnavailable m) = ''The state store is unavailable: '' @ m"
| "store_error_display StConflict = ''The session revision is stale.''"
| "store_error_display (StCorruptQuarantined m) = ''The stored record was corrupt and quarantined: '' @ m"
| "store_error_display StInvalidId = ''The state identifier is invalid.''"

fun provider_registry_error_display :: "provider_registry_error \<Rightarrow> str" where
  "provider_registry_error_display RegEmptyId = ''Provider identifiers must not be empty.''"
| "provider_registry_error_display (RegDuplicate i) = ''The provider identifier is already registered.''"
| "provider_registry_error_display (RegUnknown i) = ''The provider is not registered.''"
| "provider_registry_error_display (RegIdMismatch i j) =
     ''The registered provider id does not match the provider implementation id.''"
| "provider_registry_error_display RegUnavailable = ''The provider registry is unavailable.''"

definition map_store_error :: "store_error \<Rightarrow> aifluxon_error" where
  "map_store_error e =
     ae_new (case e of StConflict \<Rightarrow> AeStateConflict | StInvalidId \<Rightarrow> AeInvalidRequest | _ \<Rightarrow> AeInternal)
       (store_error_display e)"

section \<open>Starting a run\<close>

definition validate_request :: "('p, 'x, 'w) facade_env \<Rightarrow> run_request \<Rightarrow> aifluxon_error + unit" where
  "validate_request F request =
     (let provider = model_provider (run_model request) in
      if trim (provider_str provider) = [] \<or> trim (model_name (run_model request)) = []
      then Inl (ae_new AeInvalidRequest ''Run requests require a provider identifier and model name.'')
      else if \<not> provider_contains provider (fac_providers F)
      then Inl (ae_new AeProvider (''Provider `'' @ provider_str provider @ ''` is not registered.''))
      else case run_allowed_tools request of
             None \<Rightarrow> Inr ()
           | Some names \<Rightarrow>
               (case find (\<lambda>n. \<not> tool_contains n (env_tools (fac_coord F))) names of
                  Some unknown \<Rightarrow> Inl (ae_new AeTool (''Tool `'' @ unknown @ ''` is not registered.''))
                | None \<Rightarrow> Inr ()))"

definition selected_tools :: "'x tool_registry \<Rightarrow> str list option \<Rightarrow> tool_descriptor list" where
  "selected_tools tools allowed =
     (case allowed of
        Some names \<Rightarrow> List.map_filter (\<lambda>n. map_option rt_descriptor (tool_resolve n tools)) names
      | None \<Rightarrow> descriptors tools)"

definition default_authority :: execution_authority where
  "default_authority =
     \<lparr>auth_permission_mode = PermDefault, auth_filesystem_scope = FsIsolated, auth_capabilities = {}\<rparr>"

definition run_authority_for ::
    "(capability_id \<Rightarrow> bool) \<Rightarrow> tool_descriptor list \<Rightarrow> execution_authority option \<Rightarrow> execution_authority" where
  "run_authority_for supports tools given =
     (let authority = unwrap_or default_authority given in
      authority\<lparr>auth_capabilities := auth_capabilities authority
        \<union> set (filter supports (concat (map tool_required_capabilities tools)))\<rparr>)"

text \<open>What the spawned task is given.\<close>

record 'p launched =
  la_context :: run_context
  la_session_id :: "session_id option"
  la_session :: session_record
  la_provider :: 'p
  la_provider_id :: provider_id
  la_authority :: execution_authority
  la_request :: model_turn_request

definition load_session ::
    "('p, 'x, 'w) facade_env \<Rightarrow> session_id option \<Rightarrow> 'w coord_world \<Rightarrow> aifluxon_error + session_record" where
  "load_session F session w =
     (case session of
        None \<Rightarrow> Inr (session_record_new (fac_millis F w) (fac_fresh_session F w))
      | Some i \<Rightarrow>
          map_sum map_store_error (unwrap_or (session_record_new (fac_millis F w) i))
            (sl_session_load (fac_stores F) i (cw_ext w)))"

definition run_context_for ::
    "('p, 'x, 'w) facade_env \<Rightarrow> run_id option \<Rightarrow> run_request \<Rightarrow> 'w coord_world
       \<Rightarrow> (aifluxon_error + run_context) \<times> 'w coord_world" where
  "run_context_for F existing request w =
     (case existing of
        Some run \<Rightarrow> (map_sum map_runtime_error id (tab_context run (cw_table w)), w)
      | None \<Rightarrow>
          (case tab_start (fac_fresh_run F w) (run_session_id request) None (run_limits_of request)
                  (env_now (fac_coord F) w) (cw_table w) of
             (x, t) \<Rightarrow> (map_sum map_runtime_error id x, w\<lparr>cw_table := t\<rparr>)))"

definition load_opaque_state ::
    "('p, 'x, 'w) facade_env \<Rightarrow> run_request \<Rightarrow> 'w coord_world \<Rightarrow> aifluxon_error + json option" where
  "load_opaque_state F request w =
     (case run_session_id request of
        None \<Rightarrow> Inr None
      | Some i \<Rightarrow>
          map_sum map_store_error (map_option pst_state)
            (sl_state_load (fac_stores F) i (model_provider (run_model request)) (cw_ext w)))"

definition turn_request ::
    "('p, 'x, 'w) facade_env \<Rightarrow> run_request \<Rightarrow> session_record \<Rightarrow> run_context \<Rightarrow> tool_descriptor list
       \<Rightarrow> json option \<Rightarrow> model_turn_request" where
  "turn_request F request session ctx tools opaque =
     \<lparr>req_model = model_name (run_model request),
      req_messages = merge_session_and_request_messages
        (if run_session_id request \<noteq> None then ses_messages session else []) (run_messages request),
      req_tools = tools,
      req_session_key = unwrap_or
        (key_from_session_id (env_uuid (fac_coord F)) (unwrap_or (ses_id session) (run_session_id request)))
        (run_session_key request),
      req_run_id = ctx_run_id ctx, req_opaque_state = opaque, req_features = run_features request\<rparr>"

definition checkpoint_of ::
    "('p, 'x, 'w) facade_env \<Rightarrow> run_context \<Rightarrow> session_id option \<Rightarrow> run_state \<Rightarrow> message list \<Rightarrow> json option
       \<Rightarrow> 'w coord_world \<Rightarrow> run_checkpoint" where
  "checkpoint_of F ctx session st messages opaque w =
     \<lparr>chk_run_id = ctx_run_id ctx, chk_session_id = session, chk_state = st, chk_messages = messages,
      chk_provider_state = opaque, chk_updated_at = fac_millis F w\<rparr>"

definition save_checkpoint ::
    "('p, 'x, 'w) facade_env \<Rightarrow> run_context \<Rightarrow> session_id option \<Rightarrow> run_state \<Rightarrow> message list \<Rightarrow> json option
       \<Rightarrow> 'w coord_world \<Rightarrow> (store_error + unit) \<times> 'w coord_world" where
  "save_checkpoint F ctx session st messages opaque w =
     on_store (sl_checkpoint_save (fac_stores F) (checkpoint_of F ctx session st messages opaque w)) w"

text \<open>Up to the spawn of the task; the world moves where the stores are awaited.\<close>

definition launch ::
    "('p, 'x, 'w) facade_env \<Rightarrow> run_id option \<Rightarrow> run_request \<Rightarrow> 'w coord_world
       \<Rightarrow> (aifluxon_error + 'p launched) \<times> 'w coord_world" where
  "launch F existing request w0 =
     (case validate_request F request of
        Inl e \<Rightarrow> (Inl e, w0)
      | Inr _ \<Rightarrow>
     (case resolve_required (model_provider (run_model request)) (fac_providers F) of
        Inl e \<Rightarrow> (Inl (ae_new AeProvider (provider_registry_error_display e)), w0)
      | Inr provider \<Rightarrow>
     (let w1 = env_idle (fac_coord F) w0 in
      case load_session F (run_session_id request) w1 of
        Inl e \<Rightarrow> (Inl e, w1)
      | Inr session \<Rightarrow>
     (case run_context_for F existing request w1 of
        (Inl e, w2) \<Rightarrow> (Inl e, w2)
      | (Inr ctx, w2) \<Rightarrow>
     (let w3 = env_idle (fac_coord F) w2;
          tools = selected_tools (env_tools (fac_coord F)) (run_allowed_tools request) in
      case load_opaque_state F request w3 of
        Inl e \<Rightarrow> (Inl e, w3)
      | Inr opaque \<Rightarrow>
     (let q = turn_request F request session ctx tools opaque in
      case save_checkpoint F ctx (run_session_id request) Running (req_messages q) opaque
             (env_idle (fac_coord F) w3) of
        (Inl e, w4) \<Rightarrow> (Inl (map_store_error e), w4)
      | (Inr _, w4) \<Rightarrow>
          (Inr \<lparr>la_context = ctx, la_session_id = run_session_id request, la_session = session,
                la_provider = prov_impl provider, la_provider_id = model_provider (run_model request),
                la_authority = run_authority_for (fac_supports F) tools (run_authority request),
                la_request = q\<rparr>, w4)))))))"

section \<open>Carrying a run out\<close>

text \<open>\<open>RuntimeModelSink\<close>: what a provider shows becomes an event of the run; errors are dropped.\<close>

fun sink_run_event :: "sink_event \<Rightarrow> run_event" where
  "sink_run_event (SinkText d) = EvModelDelta d"
| "sink_run_event (SinkReasoning d) = EvReasoningDelta d"
| "sink_run_event (SinkUsage u) = EvUsageUpdated u"

definition runtime_model_sink ::
    "uuid_lib \<Rightarrow> run_id \<Rightarrow> sink_event \<Rightarrow> 'w coord_world \<Rightarrow> 'w coord_world" where
  "runtime_model_sink U run e w = w\<lparr>cw_table := snd (emit U run (sink_run_event e) (cw_table w))\<rparr>"

definition provider_turn ::
    "('p, 'x, 'w) facade_env \<Rightarrow> run_id \<Rightarrow> 'p \<Rightarrow> model_turn_request \<Rightarrow> 'w coord_world
       \<Rightarrow> (provider_error + model_turn) option \<times> 'w coord_world" where
  "provider_turn F run p q w =
     (case fac_next_turn F p q w of
        (x, moments) \<Rightarrow>
          (x, fold (\<lambda>m. case m of Shows e \<Rightarrow> runtime_model_sink (env_uuid (fac_coord F)) run e
                                  | Meanwhile f \<Rightarrow> f) moments w))"

definition loop_env :: "('p, 'x, 'w) facade_env \<Rightarrow> 'p launched \<Rightarrow> ('x, 'w) coord_env" where
  "loop_env F l =
     (fac_coord F)\<lparr>env_authority := la_authority l,
       env_next_turn := provider_turn F (ctx_run_id (la_context l)) (la_provider l)\<rparr>"

definition opaque_of :: "model_turn \<Rightarrow> json option" where
  "opaque_of turn = (if is_null (turn_opaque turn) then None else Some (turn_opaque turn))"

definition persist_session ::
    "('p, 'x, 'w) facade_env \<Rightarrow> 'p launched \<Rightarrow> run_execution_result \<Rightarrow> 'w coord_world
       \<Rightarrow> (store_error + unit) \<times> 'w coord_world" where
  "persist_session F l result w0 =
     (case la_session_id l of
        None \<Rightarrow> (Inr (), w0)
      | Some i \<Rightarrow>
     (let w1 = env_idle (fac_coord F) w0 in
      case on_store (sl_session_save (fac_stores F) (fac_millis F w1)
             ((la_session l)\<lparr>ses_messages := exec_messages result\<rparr>)) w1 of
        (Inl e, w2) \<Rightarrow> (Inl e, w2)
      | (Inr _, w2) \<Rightarrow>
          (case opaque_of (exec_turn result) of
             None \<Rightarrow> (Inr (), w2)
           | Some opaque \<Rightarrow>
               on_store (sl_state_save (fac_stores F)
                   \<lparr>pst_session_id = i, pst_provider_id = la_provider_id l, pst_state = opaque\<rparr>)
                 (env_idle (fac_coord F) w2))))"

definition persist_completed ::
    "('p, 'x, 'w) facade_env \<Rightarrow> 'p launched \<Rightarrow> run_execution_result \<Rightarrow> 'w coord_world
       \<Rightarrow> (store_error + unit) \<times> 'w coord_world" where
  "persist_completed F l result w0 =
     (case persist_session F l result w0 of
        (Inl e, w1) \<Rightarrow> (Inl e, w1)
      | (Inr _, w1) \<Rightarrow>
          save_checkpoint F (la_context l) (la_session_id l) Completed (exec_messages result)
            (opaque_of (exec_turn result)) (env_idle (fac_coord F) w1))"

definition after_success ::
    "('p, 'x, 'w) facade_env \<Rightarrow> 'p launched \<Rightarrow> run_execution_result \<Rightarrow> 'w coord_world \<Rightarrow> 'w coord_world" where
  "after_success F l result w0 =
     (let U = env_uuid (fac_coord F); run = ctx_run_id (la_context l) in
      case persist_completed F l result w0 of
        (Inr _, w) \<Rightarrow> w\<lparr>cw_table := snd (finish_completed U run (exec_messages result) (cw_table w))\<rparr>
      | (Inl e, w) \<Rightarrow> w\<lparr>cw_table := snd (finish_failed U run (store_error_display e) (cw_table w))\<rparr>)"

definition run_state_now :: "('p, 'x, 'w) facade_env \<Rightarrow> run_id \<Rightarrow> 'w coord_world \<Rightarrow> run_state" where
  "run_state_now F run w =
     (case tab_snapshot (env_uuid (fac_coord F)) run (cw_table w) of Inr s \<Rightarrow> csnap_state s | Inl e \<Rightarrow> Failed)"

definition after_failure ::
    "('p, 'x, 'w) facade_env \<Rightarrow> 'p launched \<Rightarrow> provider_error \<Rightarrow> 'w coord_world \<Rightarrow> 'w coord_world" where
  "after_failure F l e w0 =
     (let U = env_uuid (fac_coord F); run = ctx_run_id (la_context l); st = run_state_now F run w0 in
      case save_checkpoint F (la_context l) (la_session_id l) (if st = Cancelled then Cancelled else Failed)
             (req_messages (la_request l)) (req_opaque_state (la_request l)) (env_idle (fac_coord F) w0) of
        (x, w) \<Rightarrow>
          if st = Cancelled then w
          else w\<lparr>cw_table := snd (finish_failed U run
              (case x of
                 Inr _ \<Rightarrow> provider_error_message e
               | Inl s \<Rightarrow> provider_error_message e
                   @ ''; additionally failed to persist the run checkpoint: '' @ store_error_display s)
              (cw_table w))\<rparr>)"

text \<open>The spawned task; \<open>None\<close> when the loop has not returned within its fuel.\<close>

definition run_task ::
    "nat \<Rightarrow> nat \<Rightarrow> ('p, 'x, 'w) facade_env \<Rightarrow> 'p launched \<Rightarrow> 'w coord_world \<Rightarrow> 'w coord_world option" where
  "run_task fuel n F l w =
     (case run_registered_model_tool_loop fuel n (loop_env F l) (ctx_run_id (la_context l)) (la_request l) w of
        LoopReturned (Inr result) w' \<Rightarrow> Some (after_success F l result w')
      | LoopReturned (Inl e) w' \<Rightarrow> Some (after_failure F l e w')
      | LoopWaiting \<Rightarrow> None
      | LoopOutOfFuel \<Rightarrow> None)"

section \<open>Calls on runs and sessions\<close>

record run_snapshot =
  rsn_context :: run_context
  rsn_state :: run_state
  rsn_last_event_sequence :: u64
  rsn_pending_operations :: "operation_snapshot list"

definition api_cancel :: "uuid_lib \<Rightarrow> run_id \<Rightarrow> run_table \<Rightarrow> (aifluxon_error + unit) \<times> run_table" where
  "api_cancel U run t = apfst (map_sum map_runtime_error (\<lambda>_. ())) (tab_cancel U run t)"

definition api_snapshot :: "uuid_lib \<Rightarrow> run_id \<Rightarrow> run_table \<Rightarrow> aifluxon_error + run_snapshot" where
  "api_snapshot U run t =
     map_sum map_runtime_error
       (\<lambda>s. \<lparr>rsn_context = csnap_context s, rsn_state = csnap_state s,
             rsn_last_event_sequence = csnap_last_event_sequence s,
             rsn_pending_operations = csnap_pending_operations s\<rparr>)
       (tab_snapshot U run t)"

definition state_conflict :: "operation_error \<Rightarrow> aifluxon_error" where
  "state_conflict e = ae_new AeStateConflict (operation_error_message e)"

definition resolve_operation ::
    "run_id \<Rightarrow> operation_id \<Rightarrow> operation_decision \<Rightarrow> run_table \<Rightarrow> (aifluxon_error + unit) \<times> run_table" where
  "resolve_operation run i decision t =
     (case op_resolve run i decision (tab_operations t) of
        (x, s) \<Rightarrow> (map_sum state_conflict id x, t\<lparr>tab_operations := s\<rparr>))"

definition commit_prepared_operation ::
    "run_id \<Rightarrow> operation_id \<Rightarrow> run_table \<Rightarrow> (aifluxon_error + unit) \<times> run_table" where
  "commit_prepared_operation run i t =
     (case op_begin_commit run i (tab_operations t) of
        (x, s) \<Rightarrow> (map_sum state_conflict id x, t\<lparr>tab_operations := s\<rparr>))"

definition create_session ::
    "'w store_lib \<Rightarrow> u64 \<Rightarrow> session_id \<Rightarrow> 'w \<Rightarrow> (aifluxon_error + session_id) \<times> 'w" where
  "create_session S now fresh v =
     apfst (map_sum map_store_error ses_id) (sl_session_save S now (session_record_new now fresh) v)"

definition open_session :: "uuid_lib \<Rightarrow> 'w store_lib \<Rightarrow> session_id \<Rightarrow> 'w \<Rightarrow> aifluxon_error + session_record" where
  "open_session U S i v =
     res_bind (map_sum map_store_error id (sl_session_load S i v))
       (ok_or (ae_new AeInvalidRequest (''Session `'' @ session_hyphenated U i @ ''` does not exist.'')))"

definition open_or_create_session ::
    "'w store_lib \<Rightarrow> u64 \<Rightarrow> session_id \<Rightarrow> 'w \<Rightarrow> (aifluxon_error + session_record) \<times> 'w" where
  "open_or_create_session S now i v =
     (case sl_session_load S i v of
        Inl e \<Rightarrow> (Inl (map_store_error e), v)
      | Inr (Some r) \<Rightarrow> (Inr r, v)
      | Inr None \<Rightarrow> apfst (map_sum map_store_error id) (sl_session_save S now (session_record_new now i) v))"

definition list_sessions :: "'w store_lib \<Rightarrow> 'w \<Rightarrow> aifluxon_error + session_summary list" where
  "list_sessions S v = map_sum map_store_error id (sl_session_list S v)"

definition delete_session :: "'w store_lib \<Rightarrow> session_id \<Rightarrow> 'w \<Rightarrow> (aifluxon_error + unit) \<times> 'w" where
  "delete_session S i v = apfst (map_sum map_store_error id) (sl_session_delete S i v)"

section \<open>Building a facade\<close>

text \<open>The builder is polymorphic in what it only passes on; \<open>defaults\<close> are the in-memory stores.\<close>

record ('p, 'x, 'k, 's, 'q, 'c) aifluxon_builder =
  bld_provider_registry :: "'p provider_registry option"
  bld_tool_registry :: "'x tool_registry option"
  bld_tool_policy :: "tool_policy option"
  bld_event_sink :: "'k option"
  bld_workspace :: "(capability_id \<Rightarrow> bool) option"
  bld_session_store :: "'s option"
  bld_provider_state_store :: "'q option"
  bld_checkpoint_store :: "'c option"
  bld_run_table :: "run_table option"

record ('p, 'x, 'k, 's, 'q, 'c) backend_configuration =
  cnf_provider_registry :: "'p provider_registry"
  cnf_tool_registry :: "'x tool_registry"
  cnf_tool_policy :: tool_policy
  cnf_event_sink :: 'k
  cnf_workspace :: "capability_id \<Rightarrow> bool"
  cnf_run_table :: run_table
  cnf_session_store :: 's
  cnf_provider_state_store :: 'q
  cnf_checkpoint_store :: 'c

definition required :: "'a option \<Rightarrow> str \<Rightarrow> aifluxon_error + 'a" where
  "required v name =
     ok_or (ae_new AeInvalidConfiguration (''AIFLUXON builder requires `'' @ name @ ''`.'')) v"

definition empty_workspace :: "capability_id \<Rightarrow> bool" where
  "empty_workspace c = False"

definition build ::
    "'s \<Rightarrow> 'q \<Rightarrow> 'c \<Rightarrow> ('p, 'x, 'k, 's, 'q, 'c) aifluxon_builder
       \<Rightarrow> aifluxon_error + ('p, 'x, 'k, 's, 'q, 'c) backend_configuration" where
  "build sessions states checkpoints b =
     res_bind (required (bld_provider_registry b) ''provider_registry'') (\<lambda>providers.
     res_bind (required (bld_tool_registry b) ''tool_registry'') (\<lambda>tools.
     res_bind (required (bld_tool_policy b) ''tool_policy'') (\<lambda>policy.
     res_bind (required (bld_event_sink b) ''event_sink'') (\<lambda>sink.
       Inr \<lparr>cnf_provider_registry = providers, cnf_tool_registry = tools, cnf_tool_policy = policy,
            cnf_event_sink = sink, cnf_workspace = unwrap_or empty_workspace (bld_workspace b),
            cnf_run_table = unwrap_or tab_new (bld_run_table b),
            cnf_session_store = unwrap_or sessions (bld_session_store b),
            cnf_provider_state_store = unwrap_or states (bld_provider_state_store b),
            cnf_checkpoint_store = unwrap_or checkpoints (bld_checkpoint_store b)\<rparr>))))"

text \<open>The stores the builder falls back on, as one external state.\<close>

record memory_state =
  ms_sessions :: memory_sessions
  ms_states :: memory_provider_states
  ms_checkpoints :: memory_checkpoints

definition memory_stores :: "uuid_lib \<Rightarrow> memory_state store_lib" where
  "memory_stores U =
     \<lparr>sl_session_load = (\<lambda>i v. session_load i (ms_sessions v)),
      sl_session_save = (\<lambda>now r v. case session_save now r (ms_sessions v) of
        (x, s) \<Rightarrow> (x, v\<lparr>ms_sessions := s\<rparr>)),
      sl_session_delete = (\<lambda>i v. case session_delete i (ms_sessions v) of (x, s) \<Rightarrow> (x, v\<lparr>ms_sessions := s\<rparr>)),
      sl_session_list = (\<lambda>v. session_list U (ms_sessions v)),
      sl_state_load = (\<lambda>i p v. provider_state_load i p (ms_states v)),
      sl_state_save = (\<lambda>r v. case provider_state_save r (ms_states v) of (x, s) \<Rightarrow> (x, v\<lparr>ms_states := s\<rparr>)),
      sl_checkpoint_save = (\<lambda>c v. case checkpoint_save c (ms_checkpoints v) of
        (x, s) \<Rightarrow> (x, v\<lparr>ms_checkpoints := s\<rparr>))\<rparr>"

section \<open>Sessions across runs\<close>

text \<open>The hypothesis that nobody else uses the stores while the facade awaits.\<close>

definition stores_left_alone :: "('p, 'x, 'w) facade_env \<Rightarrow> bool" where
  "stores_left_alone F = (\<forall>w. cw_ext (env_idle (fac_coord F) w) = cw_ext w)"

lemma left_alone: "stores_left_alone F \<Longrightarrow> cw_ext (env_idle (fac_coord F) w) = cw_ext w"
  by (simp add: stores_left_alone_def)

lemma cw_ext_on_store: "cw_ext (snd (on_store f w)) = snd (f (cw_ext w))"
  by (simp add: on_store_def split: prod.split)

lemma on_store_result: "on_store f w = (x, w') \<Longrightarrow> f (cw_ext w) = (x, cw_ext w')"
  by (auto simp: on_store_def split: prod.splits)

lemma session_saved:
  "session_save now r s = (Inr x, s') \<Longrightarrow>
     x = bump now r \<and> \<not> mem_poisoned s' \<and> session_load (ses_id r) s' = Inr (Some (bump now r))"
  by (auto simp: session_save_def session_load_def mem_load_def split: if_splits option.splits)

lemma launch_parts:
  assumes "launch F existing request w = (Inr l, w')"
  obtains session ctx w2 opaque where
    "load_session F (run_session_id request) (env_idle (fac_coord F) w) = Inr session"
    "run_context_for F existing request (env_idle (fac_coord F) w) = (Inr ctx, w2)"
    "load_opaque_state F request (env_idle (fac_coord F) w2) = Inr opaque"
    "la_session l = session" "la_context l = ctx" "la_session_id l = run_session_id request"
    "la_provider_id l = model_provider (run_model request)"
    "la_authority l = run_authority_for (fac_supports F)
       (selected_tools (env_tools (fac_coord F)) (run_allowed_tools request)) (run_authority request)"
    "la_request l = turn_request F request session ctx
       (selected_tools (env_tools (fac_coord F)) (run_allowed_tools request)) opaque"
proof -
  have v: "validate_request F request = Inr ()"
    using assms by (cases "validate_request F request") (auto simp: launch_def)
  obtain provider where p: "resolve_required (model_provider (run_model request)) (fac_providers F) = Inr provider"
    using assms v by (cases "resolve_required (model_provider (run_model request)) (fac_providers F)")
      (auto simp: launch_def)
  let ?w1 = "env_idle (fac_coord F) w"
  obtain session where s: "load_session F (run_session_id request) ?w1 = Inr session"
    using assms v p by (cases "load_session F (run_session_id request) ?w1") (auto simp: launch_def Let_def)
  obtain x w2 where c: "run_context_for F existing request ?w1 = (x, w2)" by fastforce
  obtain ctx where x: "x = Inr ctx"
    using assms v p s c by (cases x) (auto simp: launch_def Let_def)
  obtain opaque where o: "load_opaque_state F request (env_idle (fac_coord F) w2) = Inr opaque"
    using assms v p s c x
    by (cases "load_opaque_state F request (env_idle (fac_coord F) w2)") (auto simp: launch_def Let_def)
  let ?tools = "selected_tools (env_tools (fac_coord F)) (run_allowed_tools request)"
  let ?q = "turn_request F request session ctx ?tools opaque"
  obtain y w4 where k: "save_checkpoint F ctx (run_session_id request) Running (req_messages ?q) opaque
      (env_idle (fac_coord F) (env_idle (fac_coord F) w2)) = (y, w4)" by fastforce
  have "y = Inr ()" using assms v p s c x o k by (cases y) (auto simp: launch_def Let_def)
  with assms v p s c x o k that [OF s c [unfolded x] o] show ?thesis
    by (auto simp: launch_def Let_def)
qed

end
