(* ===== verification/Session_Runs.thy ===== *)
theory Session_Runs
  imports Facade
begin

text \<open>
  Runs that share a session: what the task of a run leaves in the stores and what the next
  launch makes of it, on the in-memory stores the builder falls back on, and a launch that
  is refused (\<open>backend.rs\<close>).
\<close>

section \<open>What a run leaves behind\<close>

lemma memory_load [simp]:
  "sl_session_load (memory_stores U) i v = session_load i (ms_sessions v)"
  "sl_state_load (memory_stores U) i p v = provider_state_load i p (ms_states v)"
  by (simp_all add: memory_stores_def)

lemma memory_checkpoint_save:
  "sl_checkpoint_save (memory_stores U) c v = (x, v') \<Longrightarrow>
     ms_sessions v' = ms_sessions v \<and> ms_states v' = ms_states v
     \<and> (x = Inr () \<longrightarrow> checkpoint_load (chk_run_id c) (ms_checkpoints v') = Inr (Some c))"
  by (auto simp: memory_stores_def checkpoint_save_def checkpoint_load_def mem_insert_def mem_load_def
      update_conv split: if_splits)

lemma memory_session_save:
  "sl_session_save (memory_stores U) now r v =
     (fst (session_save now r (ms_sessions v)), v\<lparr>ms_sessions := snd (session_save now r (ms_sessions v))\<rparr>)"
  by (simp add: memory_stores_def split: prod.split)

lemma memory_state_save:
  "sl_state_save (memory_stores U) r v =
     (fst (provider_state_save r (ms_states v)), v\<lparr>ms_states := snd (provider_state_save r (ms_states v))\<rparr>)"
  by (simp add: memory_stores_def split: prod.split)

lemma state_saved:
  "fst (provider_state_save r s) = Inr () \<Longrightarrow>
     provider_state_load i p (snd (provider_state_save r s)) =
       (if i = pst_session_id r \<and> p = pst_provider_id r then Inr (Some r) else provider_state_load i p s)"
  by (auto simp: provider_state_save_def provider_state_load_def mem_insert_def mem_load_def
      update_conv split: if_splits)

text \<open>What the stores hold once a run has been persisted.\<close>

definition persisted_state ::
    "'p launched \<Rightarrow> run_execution_result \<Rightarrow> provider_id \<Rightarrow> json option \<Rightarrow> json option" where
  "persisted_state l result p before =
     (if p = la_provider_id l \<and> opaque_of (exec_turn result) \<noteq> None then opaque_of (exec_turn result) else before)"

lemma persist_session_memory:
  assumes "fac_stores F = memory_stores U" "stores_left_alone F" "la_session_id l = Some i"
    and "persist_session F l result w = (Inr (), w')"
  shows "\<exists>now. fst (session_save now ((la_session l)\<lparr>ses_messages := exec_messages result\<rparr>) (ms_sessions (cw_ext w)))
        = Inr (bump now ((la_session l)\<lparr>ses_messages := exec_messages result\<rparr>))
      \<and> ms_sessions (cw_ext w')
        = snd (session_save now ((la_session l)\<lparr>ses_messages := exec_messages result\<rparr>) (ms_sessions (cw_ext w)))"
    and "map_sum id (map_option pst_state) (provider_state_load i p (ms_states (cw_ext w'))) =
      map_sum id (\<lambda>before. persisted_state l result p (map_option pst_state before))
        (provider_state_load i p (ms_states (cw_ext w)))"
proof -
  let ?r = "(la_session l)\<lparr>ses_messages := exec_messages result\<rparr>"
  let ?w1 = "env_idle (fac_coord F) w"
  let ?save = "sl_session_save (fac_stores F) (fac_millis F ?w1) ?r"
  obtain x w2 where s: "on_store ?save ?w1 = (x, w2)" by fastforce
  obtain r' where x: "x = Inr r'"
    using assms(3,4) s by (cases x) (auto simp: persist_session_def Let_def)
  from on_store_result [OF s] have saved: "fst (session_save (fac_millis F ?w1) ?r (ms_sessions (cw_ext w))) = Inr r'"
    "cw_ext w2 = (cw_ext w)\<lparr>ms_sessions := snd (session_save (fac_millis F ?w1) ?r (ms_sessions (cw_ext w)))\<rparr>"
    by (simp_all add: assms(1) memory_session_save left_alone [OF assms(2)] x)
  have r': "r' = bump (fac_millis F ?w1) ?r"
    using session_saved [of _ ?r "ms_sessions (cw_ext w)" r'] saved(1) by (metis prod.collapse)
  have rest: "ms_sessions (cw_ext w') = ms_sessions (cw_ext w2)
      \<and> map_sum id (map_option pst_state) (provider_state_load i p (ms_states (cw_ext w'))) =
        map_sum id (\<lambda>before. persisted_state l result p (map_option pst_state before))
          (provider_state_load i p (ms_states (cw_ext w)))"
  proof (cases "opaque_of (exec_turn result)")
    case None
    then have "w' = w2" using assms(3,4) s x by (simp add: persist_session_def Let_def)
    with None saved(2) show ?thesis
      by (cases "provider_state_load i p (ms_states (cw_ext w))") (auto simp: persisted_state_def)
  next
    case (Some opaque)
    let ?rec = "\<lparr>pst_session_id = i, pst_provider_id = la_provider_id l, pst_state = opaque\<rparr>"
    have "on_store (sl_state_save (fac_stores F) ?rec) (env_idle (fac_coord F) w2) = (Inr (), w')"
      using assms(3,4) s x Some by (simp add: persist_session_def Let_def)
    from on_store_result [OF this]
    have t: "fst (provider_state_save ?rec (ms_states (cw_ext w2))) = Inr ()"
      "cw_ext w' = (cw_ext w2)\<lparr>ms_states := snd (provider_state_save ?rec (ms_states (cw_ext w2)))\<rparr>"
      by (simp_all add: assms(1) memory_state_save left_alone [OF assms(2)])
    have np: "\<not> mem_poisoned (ms_states (cw_ext w2))"
      using t(1) by (auto simp: provider_state_save_def mem_insert_def)
    then have "\<exists>b. provider_state_load i p (ms_states (cw_ext w2)) = Inr b"
      by (simp add: provider_state_load_def mem_load_def)
    with state_saved [OF t(1), of i p] t(2) saved(2) Some show ?thesis
      by (auto simp: persisted_state_def)
  qed
  show "\<exists>now. fst (session_save now ?r (ms_sessions (cw_ext w))) = Inr (bump now ?r)
      \<and> ms_sessions (cw_ext w') = snd (session_save now ?r (ms_sessions (cw_ext w)))"
    using saved r' rest by auto
  show "map_sum id (map_option pst_state) (provider_state_load i p (ms_states (cw_ext w'))) =
      map_sum id (\<lambda>before. persisted_state l result p (map_option pst_state before))
        (provider_state_load i p (ms_states (cw_ext w)))"
    using rest by blast
qed

lemma persist_completed_parts:
  assumes "persist_completed F l result w = (Inr (), w')"
  obtains w1 where "persist_session F l result w = (Inr (), w1)"
    "save_checkpoint F (la_context l) (la_session_id l) Completed (exec_messages result)
       (opaque_of (exec_turn result)) (env_idle (fac_coord F) w1) = (Inr (), w')"
proof -
  obtain x w1 where s: "persist_session F l result w = (x, w1)" by fastforce
  with assms that show ?thesis by (cases x) (auto simp: persist_completed_def)
qed

lemma persist_completed_memory:
  assumes "fac_stores F = memory_stores U" "stores_left_alone F" "la_session_id l = Some i"
    and "persist_completed F l result w = (Inr (), w')"
  shows "\<exists>now. fst (session_save now ((la_session l)\<lparr>ses_messages := exec_messages result\<rparr>) (ms_sessions (cw_ext w)))
        = Inr (bump now ((la_session l)\<lparr>ses_messages := exec_messages result\<rparr>))
      \<and> ms_sessions (cw_ext w')
        = snd (session_save now ((la_session l)\<lparr>ses_messages := exec_messages result\<rparr>) (ms_sessions (cw_ext w)))"
    and "map_sum id (map_option pst_state) (provider_state_load i p (ms_states (cw_ext w'))) =
      map_sum id (\<lambda>before. persisted_state l result p (map_option pst_state before))
        (provider_state_load i p (ms_states (cw_ext w)))"
proof -
  obtain w1 where w1: "persist_session F l result w = (Inr (), w1)"
    "save_checkpoint F (la_context l) (la_session_id l) Completed (exec_messages result)
       (opaque_of (exec_turn result)) (env_idle (fac_coord F) w1) = (Inr (), w')"
    by (rule persist_completed_parts [OF assms(4)])
  from memory_checkpoint_save [OF on_store_result [OF w1(2) [unfolded save_checkpoint_def], unfolded assms(1)]]
  have "ms_sessions (cw_ext w') = ms_sessions (cw_ext w1) \<and> ms_states (cw_ext w') = ms_states (cw_ext w1)"
    by (simp add: left_alone [OF assms(2)])
  then show "\<exists>now. fst (session_save now ((la_session l)\<lparr>ses_messages := exec_messages result\<rparr>) (ms_sessions (cw_ext w)))
        = Inr (bump now ((la_session l)\<lparr>ses_messages := exec_messages result\<rparr>))
      \<and> ms_sessions (cw_ext w')
        = snd (session_save now ((la_session l)\<lparr>ses_messages := exec_messages result\<rparr>) (ms_sessions (cw_ext w)))"
    "map_sum id (map_option pst_state) (provider_state_load i p (ms_states (cw_ext w'))) =
      map_sum id (\<lambda>before. persisted_state l result p (map_option pst_state before))
        (provider_state_load i p (ms_states (cw_ext w)))"
    using persist_session_memory [OF assms(1-3) w1(1)] by simp_all
qed

lemma run_context_for_ext: "run_context_for F existing request w = (x, w') \<Longrightarrow> cw_ext w' = cw_ext w"
  by (auto simp: run_context_for_def split: option.splits prod.splits)

section \<open>Runs of one session\<close>

text \<open>
  C5. The next run continues the session. Once a run of a session has been persisted, a run that is
  launched on the session starts from the messages that run ended with, its revision and the state
  its provider left (for that provider; for the others what they left earlier), followed by the
  messages of the request.
\<close>

theorem next_run_continues_the_session:
  assumes "fac_stores F = memory_stores U" "stores_left_alone F"
    and "la_session_id l = Some i" "ses_id (la_session l) = i"
    and "persist_completed F l result w = (Inr (), w1)"
    and "run_session_id request = Some i" "launch F existing request w1 = (Inr l', w2)"
  shows "\<exists>before. provider_state_load i (model_provider (run_model request)) (ms_states (cw_ext w)) = Inr before
    \<and> req_messages (la_request l') =
        merge_session_and_request_messages (exec_messages result) (run_messages request)
    \<and> req_opaque_state (la_request l') =
        persisted_state l result (model_provider (run_model request)) (map_option pst_state before)
    \<and> ses_revision (la_session l') = saturating_add (ses_revision (la_session l)) 1
    \<and> ses_id (la_session l') = i"
proof -
  let ?p = "model_provider (run_model request)"
  let ?r = "(la_session l)\<lparr>ses_messages := exec_messages result\<rparr>"
  note kept = persist_completed_memory [OF assms(1-3,5)]
  obtain session ctx w3 opaque where l:
    "load_session F (run_session_id request) (env_idle (fac_coord F) w1) = Inr session"
    "run_context_for F existing request (env_idle (fac_coord F) w1) = (Inr ctx, w3)"
    "load_opaque_state F request (env_idle (fac_coord F) w3) = Inr opaque" "la_session l' = session"
    "la_request l' = turn_request F request session ctx
       (selected_tools (env_tools (fac_coord F)) (run_allowed_tools request)) opaque"
    by (rule launch_parts [OF assms(7)])
  from kept(1) session_saved obtain now where "session_load (ses_id ?r) (ms_sessions (cw_ext w1)) = Inr (Some (bump now ?r))"
    by (metis prod.collapse)
  then have session: "session = bump now ?r"
    using l(1) assms(4) by (simp add: load_session_def assms(1,6) left_alone [OF assms(2)])
  have "map_sum map_store_error (map_option pst_state) (provider_state_load i ?p (ms_states (cw_ext w1))) = Inr opaque"
    using l(3) run_context_for_ext [OF l(2)]
    by (simp add: load_opaque_state_def assms(1,6) left_alone [OF assms(2)])
  then obtain after where "provider_state_load i ?p (ms_states (cw_ext w1)) = Inr after" "map_option pst_state after = opaque"
    by (cases "provider_state_load i ?p (ms_states (cw_ext w1))") auto
  with kept(2) [of ?p] obtain before where "provider_state_load i ?p (ms_states (cw_ext w)) = Inr before"
    "opaque = persisted_state l result ?p (map_option pst_state before)"
    by (cases "provider_state_load i ?p (ms_states (cw_ext w))") auto
  with l(4,5) session assms(4,6) show ?thesis by (simp add: turn_request_def bump_def)
qed

text \<open>
  C10. Of two runs that started from the same revision of a session at most one completes. After the
  first has been persisted, and whatever is saved in between, persisting the second fails and
  the run, unless it has ended or has pending operations, ends \<open>Failed\<close> with the reason.
\<close>

theorem stale_run_fails:
  assumes "fac_stores F = memory_stores U" "stores_left_alone F"
    and "la_session_id l = Some i" "la_session_id l' = Some i'"
    and "ses_id (la_session l') = ses_id (la_session l)"
    and "ses_revision (la_session l') = ses_revision (la_session l)"
    and "unat (ses_revision (la_session l)) < 2 ^ 64 - 1"
    and "persist_completed F l result w = (Inr (), w1)"
    and "ms_sessions (cw_ext w2) = memory.save_all xs (ms_sessions (cw_ext w1))"
    and "tab_step\<^sup>*\<^sup>* tab_new (cw_table (env_idle (fac_coord F) w2))"
    and "tab_get (cw_table (env_idle (fac_coord F) w2)) (ctx_run_id (la_context l')) = Some r"
    and "\<not> unsettled (ctx_run_id (la_context l')) (tab_operations (cw_table (env_idle (fac_coord F) w2)))"
    and "\<not> is_terminal (rr_state r)"
  shows "\<exists>r'. tab_get (cw_table (after_success F l' result' w2)) (ctx_run_id (la_context l')) = Some r'
    \<and> rr_state r' = Failed \<and> env_event (last (rr_events r')) = EvFailed ''The session revision is stale.''
    \<and> ms_sessions (cw_ext (after_success F l' result' w2)) = ms_sessions (cw_ext w2)"
proof -
  let ?r = "(la_session l)\<lparr>ses_messages := exec_messages result\<rparr>"
  let ?r' = "(la_session l')\<lparr>ses_messages := exec_messages result'\<rparr>"
  let ?w = "env_idle (fac_coord F) w2" and ?run = "ctx_run_id (la_context l')" and ?U = "env_uuid (fac_coord F)"
  from persist_completed_memory(1) [OF assms(1-3,8)] obtain now where
    first: "fst (session_save now ?r (ms_sessions (cw_ext w))) = Inr (bump now ?r)"
    "ms_sessions (cw_ext w1) = snd (session_save now ?r (ms_sessions (cw_ext w)))" by blast
  have "\<not> mem_poisoned (ms_sessions (cw_ext w))" using first(1) by (auto simp: session_save_def)
  from memory.no_lost_update [OF this first(1), where q = ?r' and later = "fac_millis F ?w" and xs = xs] assms(5-7)
  have "fst (session_save (fac_millis F ?w) ?r' (ms_sessions (cw_ext w2))) = Inl StConflict"
    by (simp add: first(2) [symmetric] assms(9) [symmetric])
  moreover from this have "snd (session_save (fac_millis F ?w) ?r' (ms_sessions (cw_ext w2))) = ms_sessions (cw_ext w2)"
    by (auto simp: session_save_def split: if_splits option.splits)
  ultimately have "on_store (sl_session_save (fac_stores F) (fac_millis F ?w) ?r') ?w = (Inl StConflict, ?w)"
    by (simp add: on_store_def assms(1) memory_session_save left_alone [OF assms(2)])
  then have "persist_completed F l' result' w2 = (Inl StConflict, ?w)"
    by (simp add: persist_completed_def persist_session_def assms(4) Let_def)
  then have "after_success F l' result' w2 =
      ?w\<lparr>cw_table := snd (finish_failed ?U ?run ''The session revision is stale.'' (cw_table ?w))\<rparr>"
    by (simp add: after_success_def Let_def)
  with tab_finish_decides [OF assms(10,11), of ?U Failed "EvFailed ''The session revision is stale.''"] assms(12,13)
  show ?thesis by (force simp: finish_failed_def left_alone [OF assms(2)])
qed

text \<open>
  C27. Completed means persisted. If the task of a session's run ends it with \<open>finish_completed\<close>, then
  before that the checkpoint and the session have been stored with the very messages the run ends with.
\<close>

theorem completed_means_persisted:
  assumes "fac_stores F = memory_stores U" "stores_left_alone F"
    and "la_session_id l = Some i"
    and "tab_step\<^sup>*\<^sup>* tab_new (cw_table (snd (persist_completed F l result w)))"
    and "tab_get (cw_table (snd (persist_completed F l result w))) (ctx_run_id (la_context l)) = Some r"
    and "\<not> is_terminal (rr_state r)"
    and "tab_get (cw_table (after_success F l result w)) (ctx_run_id (la_context l)) = Some r'"
    and "rr_state r' = Completed"
  shows "env_event (last (rr_events r')) = EvCompleted (exec_messages result)
    \<and> (\<exists>c. checkpoint_load (ctx_run_id (la_context l)) (ms_checkpoints (cw_ext (after_success F l result w)))
          = Inr (Some c) \<and> chk_state c = Completed \<and> chk_messages c = exec_messages result
          \<and> chk_provider_state c = opaque_of (exec_turn result))
    \<and> (\<exists>s. session_load (ses_id (la_session l)) (ms_sessions (cw_ext (after_success F l result w)))
          = Inr (Some s) \<and> ses_messages s = exec_messages result)"
proof -
  let ?run = "ctx_run_id (la_context l)" and ?U = "env_uuid (fac_coord F)"
  obtain x w1 where p: "persist_completed F l result w = (x, w1)" by fastforce
  note facts = assms(4-6) [unfolded p snd_conv]
  have x: "x = Inr ()"
  proof (cases x)
    case (Inl e)
    then have "after_success F l result w
        = w1\<lparr>cw_table := snd (finish_failed ?U ?run (store_error_display e) (cw_table w1))\<rparr>"
      by (simp add: after_success_def p Let_def)
    with tab_finish_decides [OF facts(1,2), of ?U Failed "EvFailed (store_error_display e)"] facts(2,3) assms(7,8)
    show ?thesis by (force simp: finish_failed_def is_terminal_def split: if_splits)
  qed simp
  then have after: "after_success F l result w
      = w1\<lparr>cw_table := snd (finish_completed ?U ?run (exec_messages result) (cw_table w1))\<rparr>"
    by (simp add: after_success_def p Let_def)
  with tab_finish_decides [OF facts(1,2), of ?U Completed "EvCompleted (exec_messages result)"] facts(2,3) assms(7,8)
  have last: "env_event (last (rr_events r')) = EvCompleted (exec_messages result)"
    by (force simp: finish_completed_def is_terminal_def split: if_splits)
  obtain w0 where w0: "persist_session F l result w = (Inr (), w0)"
    "save_checkpoint F (la_context l) (la_session_id l) Completed (exec_messages result)
       (opaque_of (exec_turn result)) (env_idle (fac_coord F) w0) = (Inr (), w1)"
    by (rule persist_completed_parts [OF p [unfolded x]])
  from memory_checkpoint_save [OF on_store_result [OF w0(2) [unfolded save_checkpoint_def], unfolded assms(1)]]
  have chk: "\<exists>c. checkpoint_load ?run (ms_checkpoints (cw_ext w1))
          = Inr (Some c) \<and> chk_state c = Completed \<and> chk_messages c = exec_messages result
          \<and> chk_provider_state c = opaque_of (exec_turn result)"
    by (auto simp: checkpoint_of_def)
  from persist_completed_memory(1) [OF assms(1-3) p [unfolded x]] obtain now where
    "session_save now ((la_session l)\<lparr>ses_messages := exec_messages result\<rparr>) (ms_sessions (cw_ext w))
      = (Inr (bump now ((la_session l)\<lparr>ses_messages := exec_messages result\<rparr>)), ms_sessions (cw_ext w1))"
    by (metis prod.collapse)
  from session_saved [OF this]
  have "\<exists>s. session_load (ses_id (la_session l)) (ms_sessions (cw_ext w1)) = Inr (Some s)
      \<and> ses_messages s = exec_messages result"
    by (simp add: bump_def)
  with last chk show ?thesis by (simp add: after)
qed




section \<open>A concrete facade\<close>

text \<open>One provider, no tools, the stores in memory; nothing happens while the facade awaits.\<close>

definition sample_memory_coord :: "(unit, memory_state) coord_env" where
  "sample_memory_coord =
     \<lparr>env_uuid = sample_uuid_lib,
      env_json = \<lparr>lib_parse = (\<lambda>_. Some (JObject [])), lib_print = (\<lambda>_. []),
                  lib_validator = (\<lambda>_. Some (\<lambda>_. []))\<rparr>,
      env_tools = [], env_policy = allow_all_policy, env_authority = default_authority,
      env_now = (\<lambda>_. 0), env_fresh_id = (\<lambda>_. OperationId 9),
      env_next_turn = (\<lambda>_ w. (None, w)), env_execute = (\<lambda>_ _ w. (None, w)),
      env_ready = (\<lambda>_ _ _. False), env_idle = (\<lambda>w. w), env_schedule = (\<lambda>_. [0])\<rparr>"

definition sample_provider_id :: provider_id where
  "sample_provider_id = ProviderId ''p''"

definition sample_facade :: "memory_state store_lib \<Rightarrow> (unit, unit, memory_state) facade_env" where
  "sample_facade S =
     \<lparr>fac_coord = sample_memory_coord,
      fac_providers = \<lparr>preg_providers = [(sample_provider_id, \<lparr>prov_id = sample_provider_id, prov_impl = ()\<rparr>)],
                       preg_poisoned = False\<rparr>,
      fac_next_turn = (\<lambda>_ _ _. (None, [])), fac_supports = empty_workspace, fac_stores = S,
      fac_fresh_run = (\<lambda>_. RunId 3), fac_fresh_session = (\<lambda>_. SessionId 8), fac_millis = (\<lambda>_. 7)\<rparr>"

definition sample_run_request :: run_request where
  "sample_run_request = user_prompt_request sample_provider_id ''m'' ''hi'' (Some (SessionId 1)) default_limits"

definition sample_launched :: "unit launched" where
  "sample_launched =
     \<lparr>la_context = sample_context 1 None, la_session_id = Some (SessionId 1), la_session = sample_session,
      la_provider = (), la_provider_id = sample_provider_id, la_authority = default_authority,
      la_request = \<lparr>req_model = ''m'', req_messages = [text_message RoleUser ''hi''], req_tools = [],
        req_session_key = ProviderSessionKey ''s'', req_run_id = RunId 1, req_opaque_state = None,
        req_features = default_features\<rparr>\<rparr>"

definition sample_execution :: run_execution_result where
  "sample_execution =
     \<lparr>exec_turn = \<lparr>turn_text = ''ok'', turn_reasoning = [], turn_tool_calls = [], turn_usage = None,
        turn_terminal = TermStop, turn_opaque = JBool True\<rparr>,
      exec_messages = [text_message RoleUser ''hi'', text_message RoleAssistant ''ok'']\<rparr>"

definition sample_memory_world :: "memory_state coord_world" where
  "sample_memory_world =
     \<lparr>cw_table = sample_tree,
      cw_ext = \<lparr>ms_sessions = mem_new, ms_states = mem_new, ms_checkpoints = mem_new\<rparr>\<rparr>"

definition sample_memory_facade :: "(unit, unit, memory_state) facade_env" where
  "sample_memory_facade = sample_facade (memory_stores sample_uuid_lib)"

text \<open>The same facade with checkpoints that cannot be stored.\<close>

definition sample_full_facade :: "(unit, unit, memory_state) facade_env" where
  "sample_full_facade = sample_facade ((memory_stores sample_uuid_lib)
     \<lparr>sl_checkpoint_save := (\<lambda>c v. (Inl (StUnavailable ''full''), v))\<rparr>)"

lemmas sample_facade_simps =
  sample_memory_facade_def sample_full_facade_def sample_facade_def sample_memory_coord_def
  sample_launched_def sample_execution_def sample_memory_world_def sample_session_def
  session_record_new_def sample_provider_id_def sample_run_request_def user_prompt_request_def
  user_prompt_request_with_system_def user_content_request_with_system_def mem_new_def

lemmas persist_simps =
  persist_completed_def persist_session_def save_checkpoint_def on_store_def memory_session_save
  memory_state_save provider_state_save_def session_save_def mem_insert_def opaque_of_def is_null_def
  checkpoint_save_def

lemmas launch_simps =
  launch_def validate_request_def resolve_required_def provider_contains_def provider_resolve_def
  load_session_def run_context_for_def load_opaque_state_def turn_request_def checkpoint_of_def
  tab_start_def selected_tools_def descriptors_def content_messages_def


lemma sample_fields:
  "fac_stores sample_memory_facade = memory_stores sample_uuid_lib" "stores_left_alone sample_memory_facade"
  "cw_table (env_idle (fac_coord sample_memory_facade) w) = cw_table w"
  "la_session_id sample_launched = Some (SessionId 1)" "ses_id (la_session sample_launched) = SessionId 1"
  "ses_revision (la_session sample_launched) = 0" "ctx_run_id (la_context sample_launched) = RunId 1"
  "la_provider_id sample_launched = sample_provider_id"
  "model_provider (run_model sample_run_request) = sample_provider_id"
  "run_session_id sample_run_request = Some (SessionId 1)" "opaque_of (exec_turn sample_execution) = Some (JBool True)"
  by (simp_all add: sample_facade_simps sample_context_def opaque_of_def is_null_def stores_left_alone_def)

lemma sample_persisted:
  "\<exists>w1. persist_completed sample_memory_facade sample_launched sample_execution sample_memory_world = (Inr (), w1)
     \<and> cw_table w1 = sample_tree"
  by (simp add: persist_simps sample_facade_simps memory_stores_def)


lemma sample_launch:
  "persist_completed sample_memory_facade sample_launched sample_execution sample_memory_world = (Inr (), w1) \<Longrightarrow>
     \<exists>l' w2. launch sample_memory_facade None sample_run_request w1 = (Inr l', w2)"
  by (auto simp: persist_simps launch_simps sample_facade_simps memory_stores_def session_load_def mem_load_def
      provider_state_load_def sample_table_simps trim_graphic graphic_def)

theorem next_run_continues_the_session_witness:
  "\<exists>w1 l' w2. persist_completed sample_memory_facade sample_launched sample_execution sample_memory_world = (Inr (), w1)
     \<and> launch sample_memory_facade None sample_run_request w1 = (Inr l', w2)
     \<and> req_messages (la_request l') = merge_session_and_request_messages
         (exec_messages sample_execution) (run_messages sample_run_request)
     \<and> req_opaque_state (la_request l') = Some (JBool True)"
proof -
  obtain w1 where w1: "persist_completed sample_memory_facade sample_launched sample_execution sample_memory_world
      = (Inr (), w1)"
    using sample_persisted by blast
  with sample_launch obtain l' w2 where l': "launch sample_memory_facade None sample_run_request w1 = (Inr l', w2)"
    by blast
  from next_run_continues_the_session [OF sample_fields(1,2,4,5) w1 sample_fields(10) l'] w1 l'
  show ?thesis by (auto simp: persisted_state_def sample_fields)
qed

theorem stale_run_fails_witness:
  "\<exists>w1 r'. persist_completed sample_memory_facade sample_launched sample_execution sample_memory_world = (Inr (), w1)
     \<and> tab_get (cw_table (after_success sample_memory_facade sample_launched sample_execution w1)) (RunId 1) = Some r'
     \<and> rr_state r' = Failed"
proof -
  obtain w1 where w1: "persist_completed sample_memory_facade sample_launched sample_execution sample_memory_world
      = (Inr (), w1)" "cw_table w1 = sample_tree"
    using sample_persisted by blast
  let ?r = "new_record (sample_context 1 None) default_limits 0"
  have facts: "\<not> unsettled (RunId 1) (tab_operations sample_tree)" "\<not> is_terminal (rr_state ?r)"
    "unat (0 :: u64) < 2 ^ 64 - 1" "ms_sessions (cw_ext w1) = memory.save_all [] (ms_sessions (cw_ext w1))"
    by (simp_all add: unsettled_def sample_table_simps memory.save_all_def)
  from stale_run_fails [OF sample_fields(1,2,4,4) refl refl _ w1(1) facts(4),
      unfolded sample_fields w1(2), OF facts(3) sample_tree_reachable sample_root facts(1,2)] w1(1)
  show ?thesis by blast
qed

theorem completed_means_persisted_witness:
  "\<exists>r' s. tab_get (cw_table (after_success sample_memory_facade sample_launched sample_execution sample_memory_world))
       (RunId 1) = Some r'
     \<and> env_event (last (rr_events r')) = EvCompleted (exec_messages sample_execution)
     \<and> session_load (SessionId 1) (ms_sessions (cw_ext
         (after_success sample_memory_facade sample_launched sample_execution sample_memory_world))) = Inr (Some s)
     \<and> ses_messages s = exec_messages sample_execution"
proof -
  obtain w1 where w1: "persist_completed sample_memory_facade sample_launched sample_execution sample_memory_world
      = (Inr (), w1)" "cw_table w1 = sample_tree"
    using sample_persisted by blast
  obtain r' where r': "tab_get (cw_table (after_success sample_memory_facade sample_launched sample_execution
      sample_memory_world)) (RunId 1) = Some r'" "rr_state r' = Completed"
    by (simp add: after_success_def w1 Let_def sample_table_simps finish_completed_def)
      (auto simp: sample_facade_simps sample_table_simps)
  from completed_means_persisted [OF sample_fields(1,2,4), of sample_execution sample_memory_world,
      unfolded w1 snd_conv sample_fields, OF sample_tree_reachable sample_root _ r'] r'
  show ?thesis by (auto simp: new_record_def is_terminal_def)
qed


end
