(* ===== verification/Secrets.thy ===== *)
theory Secrets
  imports Http_Retry Sse_Stream
begin

text \<open>
  Secrets and where they are kept: the errors of \<open>aifluxon-auth\<close> (\<open>error.rs\<close>), the store in memory
  (\<open>secret_store.rs\<close>) and the store on the key ring of the system, which cuts long secrets into
  chunks behind a manifest (\<open>keyring_store.rs\<close>). The key ring itself, SHA-256 and the random
  generations are parameters. The locale \<open>secret_store\<close> is the contract of \<open>SecretStore\<close>.
\<close>

section \<open>Errors\<close>

datatype auth_error_kind =
    AuthConfiguration | AuthBrowser | AuthCallbackBind | AuthCallbackTimeout | AuthCallbackProtocol
  | AuthStateMismatch | AuthTokenExchange | AuthTokenRefresh | AuthenticationRequired
  | AccountSelectionRequired | AccountNotFound | CredentialStore | CredentialStoreUnavailable
  | CredentialStoreLocked | CredentialCorrupted | UnsupportedPlatform | AuthCancelled | AuthNetwork

record auth_error =
  auth_kind :: auth_error_kind
  auth_message :: str

definition secret_names :: "str list" where
  "secret_names =
     [''Bearer '', ''refresh_token'', ''access_token'', ''id_token'', ''code_verifier'', ''authorization_code'']"

definition sanitize_secrets :: "str \<Rightarrow> str" where
  "sanitize_secrets message =
     fold (\<lambda>needle m. if contains_str m needle \<and> needle \<noteq> ''Bearer '' then replace_str needle redacted m else m)
       secret_names message"

definition auth_error_new :: "auth_error_kind \<Rightarrow> str \<Rightarrow> auth_error" where
  "auth_error_new kind message = \<lparr>auth_kind = kind, auth_message = sanitize_secrets message\<rparr>"

definition redact_known :: "str \<Rightarrow> str list \<Rightarrow> str" where
  "redact_known message secrets =
     sanitize_secrets
       (fold (\<lambda>secret m. let s = trim secret in if length s \<ge> 8 then replace_str s redacted m else m)
          secrets message)"

section \<open>The contract of a secret store\<close>

text \<open>
  The names a client uses and the values a store can give back are parameters, and so is the
  state in which the store works at all.
\<close>

locale secret_store =
  fixes get :: "str \<Rightarrow> 's \<Rightarrow> auth_error + str option"
    and put :: "str \<Rightarrow> str \<Rightarrow> 's \<Rightarrow> (auth_error + unit) \<times> 's"
    and remove :: "str \<Rightarrow> 's \<Rightarrow> (auth_error + unit) \<times> 's"
    and names :: "str set" and storable :: "str \<Rightarrow> bool" and working :: "'s \<Rightarrow> bool"
  assumes put_get: "working s \<Longrightarrow> k \<in> names \<Longrightarrow> storable v \<Longrightarrow> put k v s = (Inr (), s') \<Longrightarrow>
      get k s' = Inr (Some v)"
    and put_fails: "working s \<Longrightarrow> k \<in> names \<Longrightarrow> put k v s = (Inl e, s') \<Longrightarrow> get k s' = get k s"
    and put_frame: "working s \<Longrightarrow> k \<in> names \<Longrightarrow> j \<in> names \<Longrightarrow> j \<noteq> k \<Longrightarrow> put k v s = (x, s') \<Longrightarrow>
      get j s' = get j s"
    and remove_get: "working s \<Longrightarrow> k \<in> names \<Longrightarrow> remove k s = (Inr (), s') \<Longrightarrow> get k s' = Inr None"
    and remove_frame: "working s \<Longrightarrow> k \<in> names \<Longrightarrow> j \<in> names \<Longrightarrow> j \<noteq> k \<Longrightarrow> remove k s = (x, s') \<Longrightarrow>
      get j s' = get j s"
    and put_working: "working s \<Longrightarrow> k \<in> names \<Longrightarrow> put k v s = (x, s') \<Longrightarrow> working s'"
    and remove_working: "working s \<Longrightarrow> k \<in> names \<Longrightarrow> remove k s = (x, s') \<Longrightarrow> working s'"
begin

definition put_all :: "(str \<times> str) list \<Rightarrow> 's \<Rightarrow> 's" where
  "put_all kvs s = fold (\<lambda>(k, v) t. snd (put k v t)) kvs s"

lemma put_all_working: "working s \<Longrightarrow> fst ` set kvs \<subseteq> names \<Longrightarrow> working (put_all kvs s)"
proof (induction kvs arbitrary: s)
  case (Cons kv kvs)
  obtain k v where kv: "kv = (k, v)" by (metis surj_pair)
  have "working (snd (put k v s))" using put_working [of s k v] Cons.prems by (simp add: kv prod_eq_iff)
  with Cons show ?case by (simp add: put_all_def kv)
qed (simp add: put_all_def)

lemma put_all_frame:
  "working s \<Longrightarrow> fst ` set kvs \<subseteq> names \<Longrightarrow> j \<in> names \<Longrightarrow> j \<notin> fst ` set kvs \<Longrightarrow> get j (put_all kvs s) = get j s"
proof (induction kvs arbitrary: s)
  case (Cons kv kvs)
  obtain k v where kv: "kv = (k, v)" by (metis surj_pair)
  have "working (snd (put k v s))" "get j (snd (put k v s)) = get j s"
    using put_working [of s k v] put_frame [of s k j v] Cons.prems by (auto simp: kv prod_eq_iff)
  with Cons show ?case by (simp add: put_all_def kv)
qed (simp add: put_all_def)

end

section \<open>In memory\<close>

type_synonym memory_secrets = "(str \<times> str) list"

definition memory_secret_get :: "str \<Rightarrow> memory_secrets \<Rightarrow> auth_error + str option" where
  "memory_secret_get k s = Inr (map_of s k)"

definition memory_secret_set :: "str \<Rightarrow> str \<Rightarrow> memory_secrets \<Rightarrow> (auth_error + unit) \<times> memory_secrets" where
  "memory_secret_set k v s = (Inr (), AList.update k v s)"

definition memory_secret_delete :: "str \<Rightarrow> memory_secrets \<Rightarrow> (auth_error + unit) \<times> memory_secrets" where
  "memory_secret_delete k s = (Inr (), AList.delete k s)"

interpretation memory_secrets: secret_store
  memory_secret_get memory_secret_set memory_secret_delete UNIV "\<lambda>_. True" "\<lambda>_. True"
  by unfold_locales
    (auto simp: memory_secret_get_def memory_secret_set_def memory_secret_delete_def AList.delete_conv')

section \<open>Chunks\<close>

definition KEYRING_CHUNK_MAX_UTF16_UNITS :: nat where
  "KEYRING_CHUNK_MAX_UTF16_UNITS = 1024"

definition KEYRING_CHUNK_MAX_COUNT :: nat where
  "KEYRING_CHUNK_MAX_COUNT = 64"

definition KEYRING_CHUNK_MANIFEST_PREFIX :: str where
  "KEYRING_CHUNK_MANIFEST_PREFIX = ''easyphy-keyring-chunks:v1:''"

text \<open>\<open>len_utf16\<close> of a character, by its bytes: those of four bytes need two units.\<close>

definition utf16_units :: "str \<Rightarrow> nat" where
  "utf16_units c = (if c \<noteq> [] \<and> (of_char (hd c) :: nat) \<ge> 0xF0 then 2 else 1)"

definition secret_utf16_units :: "str \<Rightarrow> nat" where
  "secret_utf16_units secret = sum_list (map utf16_units (char_groups secret))"

fun chunk_loop :: "str list \<Rightarrow> str \<Rightarrow> nat \<Rightarrow> str list" where
  "chunk_loop [] chunk units = [chunk]"
| "chunk_loop (c # cs) chunk units =
     (if units + utf16_units c > KEYRING_CHUNK_MAX_UTF16_UNITS \<and> chunk \<noteq> []
      then chunk # chunk_loop cs c (utf16_units c)
      else chunk_loop cs (chunk @ c) (units + utf16_units c))"

definition split_secret_chunks :: "str \<Rightarrow> str list" where
  "split_secret_chunks secret = (if secret = [] then [[]] else chunk_loop (char_groups secret) [] 0)"

definition chunk_account :: "str \<Rightarrow> str \<Rightarrow> nat \<Rightarrow> str" where
  "chunk_account account generation index =
     account @ '':chunk:'' @ generation @ '':'' @ decimal index"

record secret_chunk_manifest =
  man_generation :: str
  man_chunk_count :: nat
  man_sha256 :: str

definition encode_chunk_manifest :: "secret_chunk_manifest \<Rightarrow> str" where
  "encode_chunk_manifest m =
     KEYRING_CHUNK_MANIFEST_PREFIX @ man_generation m @ '':'' @ decimal (man_chunk_count m) @ '':'' @ man_sha256 m"

text \<open>\<open>parse::<usize>()\<close>: an optional plus sign and digits, without overflow.\<close>

definition decimal_value :: "str \<Rightarrow> nat" where
  "decimal_value s = fold (\<lambda>c n. 10 * n + (of_char c - 48)) s 0"

definition parse_usize :: "str \<Rightarrow> nat option" where
  "parse_usize s0 =
     (let s = unwrap_or s0 (strip_prefix ''+'' s0) in
      if s = [] \<or> \<not> list_all is_ascii_digit s \<or> decimal_value s \<ge> 2 ^ 64 then None else Some (decimal_value s))"

definition generation_char :: "char \<Rightarrow> bool" where
  "generation_char c = (is_ascii_alphanumeric c \<or> c = CHR ''-'' \<or> c = CHR ''_'')"

definition is_ascii_hexdigit :: "char \<Rightarrow> bool" where
  "is_ascii_hexdigit c =
     (is_ascii_digit c \<or> 97 \<le> (of_char c :: nat) \<and> (of_char c :: nat) \<le> 102
        \<or> 65 \<le> (of_char c :: nat) \<and> (of_char c :: nat) \<le> 70)"

definition invalid_manifest :: auth_error where
  "invalid_manifest = auth_error_new CredentialCorrupted ''Credential chunk manifest is invalid.''"

definition parse_chunk_manifest :: "str \<Rightarrow> auth_error + secret_chunk_manifest option" where
  "parse_chunk_manifest value =
     (case strip_prefix KEYRING_CHUNK_MANIFEST_PREFIX value of
        None \<Rightarrow> Inr None
      | Some encoded \<Rightarrow>
          (let parts = split_at (CHR '':'') encoded;
               generation = hd parts;
               chunk_count = opt_filter (\<lambda>n. 1 \<le> n \<and> n \<le> KEYRING_CHUNK_MAX_COUNT)
                 (if length parts > 1 then parse_usize (parts ! 1) else None);
               sha256 = (if length parts > 2 then parts ! 2 else [])
           in if length parts > 3 \<or> generation = [] \<or> \<not> list_all generation_char generation
                \<or> chunk_count = None \<or> length sha256 \<noteq> 64 \<or> \<not> list_all is_ascii_hexdigit sha256
              then Inl invalid_manifest
              else Inr (Some \<lparr>man_generation = generation, man_chunk_count = unwrap_or 0 chunk_count,
                              man_sha256 = to_ascii_lowercase sha256\<rparr>)))"

section \<open>The key ring\<close>

text \<open>The functions of the system, the hash and the source of generations.\<close>

record 'b raw_backend =
  raw_get :: "str \<Rightarrow> 'b \<Rightarrow> auth_error + str option"
  raw_set :: "str \<Rightarrow> str \<Rightarrow> 'b \<Rightarrow> (auth_error + unit) \<times> 'b"
  raw_delete :: "str \<Rightarrow> 'b \<Rightarrow> (auth_error + unit) \<times> 'b"
  raw_sha256 :: "str \<Rightarrow> str"
  raw_generation :: "'b \<Rightarrow> str"

definition manifest_accounts :: "str \<Rightarrow> secret_chunk_manifest \<Rightarrow> str list" where
  "manifest_accounts account m =
     map (chunk_account account (man_generation m)) [0..<man_chunk_count m]"

text \<open>Deletes one after another; the first error is reported, the rest go on.\<close>

fun delete_each :: "'b raw_backend \<Rightarrow> str list \<Rightarrow> 'b \<Rightarrow> (auth_error + unit) \<times> 'b" where
  "delete_each R [] b = (Inr (), b)"
| "delete_each R (k # ks) b =
     (case raw_delete R k b of
        (x, b1) \<Rightarrow> (case delete_each R ks b1 of
           (y, b2) \<Rightarrow> (case x of Inl e \<Rightarrow> (Inl e, b2) | Inr _ \<Rightarrow> (y, b2))))"

definition delete_manifest_chunks ::
    "'b raw_backend \<Rightarrow> str \<Rightarrow> secret_chunk_manifest \<Rightarrow> 'b \<Rightarrow> (auth_error + unit) \<times> 'b" where
  "delete_manifest_chunks R account m b = delete_each R (manifest_accounts account m) b"

fun read_chunks :: "'b raw_backend \<Rightarrow> str list \<Rightarrow> str \<Rightarrow> 'b \<Rightarrow> auth_error + str" where
  "read_chunks R [] secret b = Inr secret"
| "read_chunks R (k # ks) secret b =
     res_bind (raw_get R k b) (\<lambda>found.
     res_bind (ok_or (auth_error_new CredentialCorrupted ''Credential chunk is missing.'') found) (\<lambda>part.
       read_chunks R ks (secret @ part) b))"

definition keyring_get :: "'b raw_backend \<Rightarrow> str \<Rightarrow> 'b \<Rightarrow> auth_error + str option" where
  "keyring_get R key b =
     res_bind (raw_get R key b) (\<lambda>found.
       case found of
         None \<Rightarrow> Inr None
       | Some stored \<Rightarrow>
           res_bind (parse_chunk_manifest stored) (\<lambda>parsed.
             case parsed of
               None \<Rightarrow> Inr (if trim stored = [] then None else Some stored)
             | Some m \<Rightarrow>
                 res_bind (read_chunks R (manifest_accounts key m) [] b) (\<lambda>secret.
                   if raw_sha256 R secret \<noteq> man_sha256 m
                   then Inl (auth_error_new CredentialCorrupted ''Credential chunk hash mismatch.'')
                   else Inr (Some secret))))"

text \<open>The manifest under a key, when there is one that can be read.\<close>

definition found_manifest :: "str option \<Rightarrow> secret_chunk_manifest option" where
  "found_manifest found =
     Option.bind found (\<lambda>v. case parse_chunk_manifest v of Inr m \<Rightarrow> m | Inl e \<Rightarrow> None)"

definition delete_previous ::
    "'b raw_backend \<Rightarrow> str \<Rightarrow> secret_chunk_manifest option \<Rightarrow> 'b \<Rightarrow> 'b" where
  "delete_previous R key previous b =
     (case previous of None \<Rightarrow> b | Some m \<Rightarrow> snd (delete_manifest_chunks R key m b))"

text \<open>Writes the parts; when one fails the parts before it are deleted again.\<close>

fun write_parts ::
    "'b raw_backend \<Rightarrow> (str \<times> str) list \<Rightarrow> str list \<Rightarrow> 'b \<Rightarrow> (auth_error + unit) \<times> 'b" where
  "write_parts R [] written b = (Inr (), b)"
| "write_parts R ((k, chunk) # parts) written b =
     (case raw_set R k chunk b of
        (Inl e, b1) \<Rightarrow> (Inl e, snd (delete_each R written b1))
      | (Inr _, b1) \<Rightarrow> write_parts R parts (written @ [k]) b1)"

definition keyring_set :: "'b raw_backend \<Rightarrow> str \<Rightarrow> str \<Rightarrow> 'b \<Rightarrow> (auth_error + unit) \<times> 'b" where
  "keyring_set R key secret b =
     (case raw_get R key b of
        Inl e \<Rightarrow> (Inl e, b)
      | Inr found \<Rightarrow>
     (let previous = found_manifest found in
      if secret_utf16_units secret \<le> KEYRING_CHUNK_MAX_UTF16_UNITS
      then (case raw_set R key secret b of
              (Inl e, b1) \<Rightarrow> (Inl e, b1)
            | (Inr _, b1) \<Rightarrow> (Inr (), delete_previous R key previous b1))
      else
     (let chunks = split_secret_chunks secret in
      if length chunks > KEYRING_CHUNK_MAX_COUNT
      then (Inl (auth_error_new CredentialStore ''Secret exceeds the credential chunk limit.''), b)
      else
     (let m = \<lparr>man_generation = raw_generation R b, man_chunk_count = length chunks,
               man_sha256 = raw_sha256 R secret\<rparr>;
          accounts = manifest_accounts key m in
      case write_parts R (zip accounts chunks) [] b of
        (Inl e, b1) \<Rightarrow> (Inl e, b1)
      | (Inr _, b1) \<Rightarrow>
          (case raw_set R key (encode_chunk_manifest m) b1 of
             (Inl e, b2) \<Rightarrow> (Inl e, snd (delete_each R accounts b2))
           | (Inr _, b2) \<Rightarrow> (Inr (), delete_previous R key previous b2))))))"

definition keyring_delete :: "'b raw_backend \<Rightarrow> str \<Rightarrow> 'b \<Rightarrow> (auth_error + unit) \<times> 'b" where
  "keyring_delete R key b =
     (case raw_get R key b of
        Inl e \<Rightarrow> (Inl e, b)
      | Inr found \<Rightarrow>
          (case raw_delete R key b of
             (x, b1) \<Rightarrow>
               (case found_manifest found of
                  None \<Rightarrow> (x, b1)
                | Some m \<Rightarrow>
                    (case delete_manifest_chunks R key m b1 of
                       (y, b2) \<Rightarrow> (case x of Inl e \<Rightarrow> (Inl e, b2) | Inr _ \<Rightarrow> (y, b2))))))"

section \<open>Manifests can be read back\<close>

lemma digit_char: "k < 10 \<Longrightarrow> is_ascii_digit (char_of (48 + k :: nat)) \<and> (of_char (char_of (48 + k :: nat) :: char) :: nat) = 48 + k"
  by (simp add: is_ascii_digit_def)

lemma decimal_digits: "list_all is_ascii_digit (decimal n)"
  by (induction n rule: decimal.induct) (subst decimal.simps, auto simp: digit_char)

lemma decimal_value_snoc: "decimal_value (s @ [c]) = 10 * decimal_value s + (of_char c - 48)"
  by (simp add: decimal_value_def)

lemma decimal_value_decimal [simp]: "decimal_value (decimal n) = n"
proof (induction n rule: decimal.induct)
  case (1 n)
  show ?case
  proof (cases "n < 10")
    case True
    then show ?thesis using digit_char [of n] decimal_value_snoc [of "[]" "char_of (48 + n)"]
      by (subst decimal.simps) (simp add: decimal_value_def)
  next
    case False
    with 1 show ?thesis using digit_char [of "n mod 10"]
      by (subst decimal.simps) (simp add: decimal_value_snoc)
  qed
qed

lemma parse_decimal: "n < 2 ^ 64 \<Longrightarrow> parse_usize (decimal n) = Some n"
proof -
  assume n: "n < 2 ^ 64"
  have "decimal n \<noteq> ''+'' @ r" for r
    using decimal_digits [of n] by (auto simp: is_ascii_digit_def)
  then have "strip_prefix ''+'' (decimal n) = None" by (metis strip_prefix_Some_iff not_Some_eq)
  then show ?thesis using n decimal_digits [of n] by (simp add: parse_usize_def)
qed

lemma split_at_free: "c \<notin> set x \<Longrightarrow> split_at c (x @ c # y) = x # split_at c y" "c \<notin> set x \<Longrightarrow> split_at c x = [x]"
  by (induction x) (auto split: list.split)

lemma colon_free:
  "list_all generation_char s \<Longrightarrow> CHR '':'' \<notin> set s"
  "list_all is_ascii_digit s \<Longrightarrow> CHR '':'' \<notin> set s"
  "list_all is_ascii_hexdigit s \<Longrightarrow> CHR '':'' \<notin> set s"
  by (auto simp: list_all_iff generation_char_def is_ascii_alphanumeric_def is_ascii_digit_def
      is_ascii_lowercase_def is_ascii_uppercase_def is_ascii_hexdigit_def)

definition manifest_ok :: "secret_chunk_manifest \<Rightarrow> bool" where
  "manifest_ok m =
     (man_generation m \<noteq> [] \<and> list_all generation_char (man_generation m)
      \<and> 1 \<le> man_chunk_count m \<and> man_chunk_count m \<le> KEYRING_CHUNK_MAX_COUNT
      \<and> length (man_sha256 m) = 64 \<and> list_all is_ascii_hexdigit (man_sha256 m)
      \<and> to_ascii_lowercase (man_sha256 m) = man_sha256 m)"

lemma parse_encoded_manifest:
  assumes "manifest_ok m"
  shows "parse_chunk_manifest (encode_chunk_manifest m) = Inr (Some m)"
proof -
  have "split_at (CHR '':'') (man_generation m @ '':'' @ decimal (man_chunk_count m) @ '':'' @ man_sha256 m)
      = [man_generation m, decimal (man_chunk_count m), man_sha256 m]"
    using assms colon_free decimal_digits by (simp add: manifest_ok_def split_at_free)
  then show ?thesis
    using assms parse_decimal [of "man_chunk_count m"]
    by (simp add: parse_chunk_manifest_def encode_chunk_manifest_def manifest_ok_def Let_def
        KEYRING_CHUNK_MAX_COUNT_def)
qed

lemma lowercase_hexdigit:
  "list_all is_ascii_hexdigit s \<Longrightarrow> list_all is_ascii_hexdigit (to_ascii_lowercase s)"
  "to_ascii_lowercase (to_ascii_lowercase s) = to_ascii_lowercase s"
  by (induction s) (auto simp: to_ascii_lowercase_def is_ascii_hexdigit_def is_ascii_uppercase_def is_ascii_digit_def)

lemma length_lowercase: "length (to_ascii_lowercase s) = length s"
  by (simp add: to_ascii_lowercase_def)

lemma parsed_manifest_ok: "parse_chunk_manifest v = Inr (Some m) \<Longrightarrow> manifest_ok m"
  by (auto simp: parse_chunk_manifest_def manifest_ok_def Let_def opt_filter_def lowercase_hexdigit
      length_lowercase split: option.splits if_splits)

text \<open>
  The manifest of a chunked secret can be read back, and whatever is read as a manifest is
  one that could have been written: printing it and reading it again gives the same.
\<close>

theorem manifest_roundtrip:
  assumes "manifest_ok m \<or> parse_chunk_manifest v = Inr (Some m)"
  shows "parse_chunk_manifest (encode_chunk_manifest m) = Inr (Some m)"
  using assms parse_encoded_manifest parsed_manifest_ok by blast

section \<open>Splitting\<close>

lemma utf16_at_most_two: "utf16_units c \<le> 2"
  by (simp add: utf16_units_def)

definition units :: "str list \<Rightarrow> nat" where
  "units cs = sum_list (map utf16_units cs)"

text \<open>What is left to split, with the characters of the open chunk.\<close>

lemma chunk_loop_splits:
  assumes "units gs \<le> KEYRING_CHUNK_MAX_UTF16_UNITS" "[] \<notin> set gs" "[] \<notin> set cs"
  shows "\<exists>gss. chunk_loop cs (concat gs) (units gs) = map concat gss \<and> concat gss = gs @ cs
    \<and> list_all (\<lambda>g. units g \<le> KEYRING_CHUNK_MAX_UTF16_UNITS) gss
    \<and> list_all (\<lambda>g. KEYRING_CHUNK_MAX_UTF16_UNITS - 1 \<le> units g) (butlast gss)"
  using assms
proof (induction cs arbitrary: gs)
  case Nil
  then show ?case by (intro exI [of _ "[gs]"]) simp
next
  case (Cons c cs)
  have max: "utf16_units c \<le> KEYRING_CHUNK_MAX_UTF16_UNITS"
    using utf16_at_most_two [of c] by (simp add: KEYRING_CHUNK_MAX_UTF16_UNITS_def)
  show ?case
  proof (cases "units gs + utf16_units c > KEYRING_CHUNK_MAX_UTF16_UNITS \<and> concat gs \<noteq> []")
    case True
    from Cons.IH [of "[c]"] Cons.prems max obtain gss where
      "chunk_loop cs c (utf16_units c) = map concat gss" "concat gss = c # cs"
      "list_all (\<lambda>g. units g \<le> KEYRING_CHUNK_MAX_UTF16_UNITS) gss"
      "list_all (\<lambda>g. KEYRING_CHUNK_MAX_UTF16_UNITS - 1 \<le> units g) (butlast gss)"
      by (auto simp: units_def)
    with True Cons.prems utf16_at_most_two [of c] show ?thesis
      by (intro exI [of _ "gs # gss"]) auto
  next
    case False
    then have "units (gs @ [c]) \<le> KEYRING_CHUNK_MAX_UTF16_UNITS"
      using Cons.prems max by (cases gs) (auto simp: units_def)
    from Cons.IH [OF this] Cons.prems False show ?thesis by (auto simp: units_def)
  qed
qed

lemma char_groups_nonempty: "[] \<notin> set (char_groups s)"
  by (induction s) (auto split: list.split if_splits)

lemma full_chunks:
  "list_all (\<lambda>g. n \<le> units g) (butlast gss) \<Longrightarrow> (length gss - 1) * n \<le> units (concat gss)"
proof (induction gss)
  case (Cons g gss)
  then show ?case by (cases gss) (auto simp: units_def)
qed (simp add: units_def)

lemma secret_chunks:
  obtains gss where "split_secret_chunks secret = map concat gss" "concat gss = char_groups secret"
    "list_all (\<lambda>g. units g \<le> KEYRING_CHUNK_MAX_UTF16_UNITS) gss"
    "(length gss - 1) * (KEYRING_CHUNK_MAX_UTF16_UNITS - 1) \<le> secret_utf16_units secret"
proof (cases "secret = []")
  case True
  then show ?thesis using that [of "[[]]"] by (simp add: split_secret_chunks_def units_def)
next
  case False
  from chunk_loop_splits [of "[]" "char_groups secret"] char_groups_nonempty obtain gss where
    g: "chunk_loop (char_groups secret) [] 0 = map concat gss" "concat gss = char_groups secret"
    "list_all (\<lambda>g. units g \<le> KEYRING_CHUNK_MAX_UTF16_UNITS) gss"
    "list_all (\<lambda>g. KEYRING_CHUNK_MAX_UTF16_UNITS - 1 \<le> units g) (butlast gss)"
    by (auto simp: units_def)
  with full_chunks [OF g(4)] False that [of gss] show ?thesis
    by (simp add: split_secret_chunks_def secret_utf16_units_def units_def)
qed

lemma concat_chunks: "concat (split_secret_chunks secret) = secret"
proof -
  obtain gss where "split_secret_chunks secret = map concat gss" "concat gss = char_groups secret"
    by (rule secret_chunks)
  moreover have "concat (map concat gss) = concat (concat gss)" for gss :: "str list list" by (induction gss) simp_all
  ultimately show ?thesis by (metis concat_char_groups)
qed

text \<open>
  A secret is cut between characters and fits the key ring. The chunks put together are the
  secret, no character is cut, no chunk has more than 1024 UTF-16 units, and a secret of less than
  65472 units has at most 64 chunks, so that it can be stored.
\<close>

theorem secrets_are_cut_between_characters:
  "\<exists>gss. split_secret_chunks secret = map concat gss \<and> concat gss = char_groups secret
     \<and> concat (split_secret_chunks secret) = secret
     \<and> list_all (\<lambda>g. sum_list (map utf16_units g) \<le> 1024) gss
     \<and> (secret_utf16_units secret \<ge> 65472 \<or> length (split_secret_chunks secret) \<le> KEYRING_CHUNK_MAX_COUNT)"
proof -
  obtain gss where g: "split_secret_chunks secret = map concat gss" "concat gss = char_groups secret"
    "list_all (\<lambda>g. units g \<le> KEYRING_CHUNK_MAX_UTF16_UNITS) gss"
    "(length gss - 1) * (KEYRING_CHUNK_MAX_UTF16_UNITS - 1) \<le> secret_utf16_units secret"
    by (rule secret_chunks)
  have "secret_utf16_units secret \<ge> 65472 \<or> length gss \<le> 64"
    using g(4) by (simp add: KEYRING_CHUNK_MAX_UTF16_UNITS_def) arith
  with g concat_chunks [of secret] show ?thesis
    by (intro exI [of _ gss])
      (simp add: units_def KEYRING_CHUNK_MAX_UTF16_UNITS_def KEYRING_CHUNK_MAX_COUNT_def)
qed

end
