(* ===== verification/Codex_Store.thy ===== *)
theory Codex_Store
  imports Secrets "HOL-Library.Countable"
begin

text \<open>
  Tokens and accounts of Codex (\<open>codex/token.rs\<close>, \<open>codex/store.rs\<close>): what a token says, the
  credentials made of a response, and the store of accounts and credentials with its cache on
  top of any secret store. Base64, JSON, SHA-256 and the codecs of \<open>serde\<close> are parameters.
\<close>

section \<open>Tokens\<close>

record account_record =
  rec_account_id :: str
  rec_account_email :: "str option"

record token_response =
  tr_id_token :: "str option"
  tr_access_token :: "str option"
  tr_refresh_token :: "str option"

record codex_lib =
  cx_sha256 :: "str \<Rightarrow> str"
  cx_base64 :: "str \<Rightarrow> str option"
  cx_json :: "str \<Rightarrow> json option"
  cx_parse_tokens :: "str \<Rightarrow> token_response option"
  cx_print_records :: "account_record list \<Rightarrow> str"
  cx_parse_records :: "str \<Rightarrow> account_record list option"
  cx_print_metadata :: "u64 \<Rightarrow> str"
  cx_parse_metadata :: "str \<Rightarrow> u64 option"

record codex_credentials =
  cred_access_token :: str
  cred_refresh_token :: str
  cred_id_token :: str
  cred_last_refresh_at :: u64

definition jwt_payload :: "codex_lib \<Rightarrow> str \<Rightarrow> json option" where
  "jwt_payload X token =
     (case split_at (CHR ''.'') token of
        head # encoded # rest \<Rightarrow> Option.bind (cx_base64 X encoded) (cx_json X)
      | _ \<Rightarrow> None)"

definition access_token_expiry :: "codex_lib \<Rightarrow> str \<Rightarrow> u64 option" where
  "access_token_expiry X token =
     Option.bind (jwt_payload X token) (\<lambda>p. Option.bind (json_get p ''exp'') as_u64)"

definition id_token_auth_claim :: "codex_lib \<Rightarrow> str \<Rightarrow> str \<Rightarrow> str option" where
  "id_token_auth_claim X token key =
     Option.bind (jwt_payload X token) (\<lambda>p.
     Option.bind (json_get p ''https://api.openai.com/auth'') (\<lambda>claims. get_str claims key))"

definition account_claim :: "codex_lib \<Rightarrow> str \<Rightarrow> str option" where
  "account_claim X token = id_token_auth_claim X token ''chatgpt_account_id''"

definition id_token_email :: "codex_lib \<Rightarrow> str \<Rightarrow> str option" where
  "id_token_email X token =
     Option.bind (jwt_payload X token) (\<lambda>p.
       or_else (get_str p ''email'')
         (Option.bind (json_get p ''https://api.openai.com/profile'') (\<lambda>profile. get_str profile ''email'')))"

text \<open>A token of the response, or the one from before; neither may be blank.\<close>

definition token_or :: "str option \<Rightarrow> str option \<Rightarrow> str \<Rightarrow> auth_error + str" where
  "token_or given fallback message =
     ok_or (auth_error_new AuthTokenExchange message)
       (opt_filter (\<lambda>v. trim v \<noteq> []) (or_else (opt_filter (\<lambda>v. trim v \<noteq> []) given) fallback))"

definition credentials_from_tokens ::
    "codex_lib \<Rightarrow> u64 \<Rightarrow> token_response \<Rightarrow> codex_credentials option \<Rightarrow> auth_error + codex_credentials" where
  "credentials_from_tokens X now tokens fallback =
     res_bind (token_or (tr_access_token tokens) (map_option cred_access_token fallback)
       ''Codex OAuth response is missing an access token.'') (\<lambda>access.
     res_bind (token_or (tr_refresh_token tokens) (map_option cred_refresh_token fallback)
       ''Codex OAuth response is missing a refresh token.'') (\<lambda>refresh.
     res_bind (token_or (tr_id_token tokens) (map_option cred_id_token fallback)
       ''Codex OAuth response is missing an ID token.'') (\<lambda>id_token.
       if account_claim X id_token = None
       then Inl (auth_error_new AuthTokenExchange ''Codex ID token is missing a ChatGPT account id.'')
       else Inr \<lparr>cred_access_token = access, cred_refresh_token = refresh, cred_id_token = id_token,
                 cred_last_refresh_at = now\<rparr>)))"

section \<open>The store\<close>

record 's secret_lib =
  sec_get :: "str \<Rightarrow> 's \<Rightarrow> auth_error + str option"
  sec_set :: "str \<Rightarrow> str \<Rightarrow> 's \<Rightarrow> (auth_error + unit) \<times> 's"
  sec_delete :: "str \<Rightarrow> 's \<Rightarrow> (auth_error + unit) \<times> 's"

text \<open>The secrets, the cache of this process and whether it has looked for old credentials.\<close>

record 's codex_store =
  cs_secrets :: 's
  cs_records :: "account_record list option"
  cs_credentials :: "(str \<times> codex_credentials) list"
  cs_migrated :: bool

definition store_new :: "'s \<Rightarrow> 's codex_store" where
  "store_new s = \<lparr>cs_secrets = s, cs_records = None, cs_credentials = [], cs_migrated = False\<rparr>"

lemma store_new_simps [simp]:
  "cs_secrets (store_new s) = s" "cs_records (store_new s) = None" "cs_credentials (store_new s) = []"
  "cs_migrated (store_new s) = False"
  by (simp_all add: store_new_def)

text \<open>A step that can fail, then the rest.\<close>

definition step_do ::
    "(auth_error + 'a) \<times> 'v \<Rightarrow> ('a \<Rightarrow> 'v \<Rightarrow> (auth_error + 'b) \<times> 'v) \<Rightarrow> (auth_error + 'b) \<times> 'v" where
  "step_do p f = (case p of (Inl e, v) \<Rightarrow> (Inl e, v) | (Inr x, v) \<Rightarrow> f x v)"

lemma step_do_simps [simp]:
  "step_do (Inl e, v) f = (Inl e, v)" "step_do (Inr x, v) f = f x v"
  by (simp_all add: step_do_def)

lemma step_do_Inr_iff:
  "step_do p f = (Inr y, v') \<longleftrightarrow> (\<exists>x v. p = (Inr x, v) \<and> f x v = (Inr y, v'))"
  by (auto simp: step_do_def split: prod.splits sum.splits)

definition ACCOUNT_INDEX_ACCOUNT :: str where
  "ACCOUNT_INDEX_ACCOUNT = ''codex-oauth:account-index''"
definition LEGACY_ACCESS_TOKEN_ACCOUNT :: str where
  "LEGACY_ACCESS_TOKEN_ACCOUNT = ''codex-oauth:access-token''"
definition LEGACY_REFRESH_TOKEN_ACCOUNT :: str where
  "LEGACY_REFRESH_TOKEN_ACCOUNT = ''codex-oauth:refresh-token''"
definition LEGACY_ID_TOKEN_ACCOUNT :: str where
  "LEGACY_ID_TOKEN_ACCOUNT = ''codex-oauth:id-token''"
definition LEGACY_METADATA_ACCOUNT :: str where
  "LEGACY_METADATA_ACCOUNT = ''codex-oauth:metadata''"

definition account_secret_account :: "codex_lib \<Rightarrow> str \<Rightarrow> str \<Rightarrow> str" where
  "account_secret_account X account kind =
     ''codex-oauth:account:'' @ take 32 (cx_sha256 X account) @ '':'' @ kind"

definition get_text :: "'s secret_lib \<Rightarrow> str \<Rightarrow> 's \<Rightarrow> auth_error + str option" where
  "get_text L key s = map_sum id (opt_filter (\<lambda>v. trim v \<noteq> [])) (sec_get L key s)"

definition set_text ::
    "'s secret_lib \<Rightarrow> str \<Rightarrow> str \<Rightarrow> 's codex_store \<Rightarrow> (auth_error + unit) \<times> 's codex_store" where
  "set_text L key value S =
     (case sec_set L key value (cs_secrets S) of (x, s) \<Rightarrow> (x, S\<lparr>cs_secrets := s\<rparr>))"

definition delete_text ::
    "'s secret_lib \<Rightarrow> str \<Rightarrow> 's codex_store \<Rightarrow> (auth_error + unit) \<times> 's codex_store" where
  "delete_text L key S = (case sec_delete L key (cs_secrets S) of (x, s) \<Rightarrow> (x, S\<lparr>cs_secrets := s\<rparr>))"

definition normalize_record :: "account_record \<Rightarrow> account_record" where
  "normalize_record r =
     \<lparr>rec_account_id = trim (rec_account_id r),
      rec_account_email = opt_filter (\<lambda>email. email \<noteq> []) (map_option trim (rec_account_email r))\<rparr>"

definition normalize_records :: "account_record list \<Rightarrow> account_record list" where
  "normalize_records records =
     fold (\<lambda>r normalized. let n = normalize_record r in
         if rec_account_id n \<noteq> [] \<and> \<not> list_ex (\<lambda>c. rec_account_id c = rec_account_id n) normalized
         then normalized @ [n] else normalized)
       records []"

definition read_account_index ::
    "codex_lib \<Rightarrow> 's secret_lib \<Rightarrow> 's codex_store \<Rightarrow> (auth_error + account_record list) \<times> 's codex_store" where
  "read_account_index X L S =
     (case cs_records S of
        Some records \<Rightarrow> (Inr records, S)
      | None \<Rightarrow>
          (case get_text L ACCOUNT_INDEX_ACCOUNT (cs_secrets S) of
             Inl e \<Rightarrow> (Inl e, S)
           | Inr None \<Rightarrow> (Inr [], S\<lparr>cs_records := Some []\<rparr>)
           | Inr (Some value) \<Rightarrow>
               (case cx_parse_records X value of
                  None \<Rightarrow> (Inl (auth_error_new CredentialCorrupted ''Codex account index is invalid.''), S)
                | Some records \<Rightarrow>
                    (Inr (normalize_records records), S\<lparr>cs_records := Some (normalize_records records)\<rparr>))))"

definition write_account_index ::
    "codex_lib \<Rightarrow> 's secret_lib \<Rightarrow> account_record list \<Rightarrow> 's codex_store \<Rightarrow> (auth_error + unit) \<times> 's codex_store" where
  "write_account_index X L records S =
     step_do (if records = [] then delete_text L ACCOUNT_INDEX_ACCOUNT S
              else set_text L ACCOUNT_INDEX_ACCOUNT (cx_print_records X records) S)
       (\<lambda>_ S'. (Inr (), S'\<lparr>cs_records := Some records\<rparr>))"

fun upsert :: "account_record \<Rightarrow> account_record list \<Rightarrow> account_record list" where
  "upsert r [] = [r]"
| "upsert r (c # cs) = (if rec_account_id c = rec_account_id r then r # cs else c # upsert r cs)"

definition upsert_account_record ::
    "codex_lib \<Rightarrow> 's secret_lib \<Rightarrow> account_record \<Rightarrow> 's codex_store \<Rightarrow> (auth_error + unit) \<times> 's codex_store" where
  "upsert_account_record X L r S =
     step_do (read_account_index X L S) (\<lambda>records. write_account_index X L (upsert r records))"

definition remove_account_record ::
    "codex_lib \<Rightarrow> 's secret_lib \<Rightarrow> str \<Rightarrow> 's codex_store \<Rightarrow> (auth_error + unit) \<times> 's codex_store" where
  "remove_account_record X L account S =
     step_do (read_account_index X L S) (\<lambda>records.
       write_account_index X L (filter (\<lambda>r. rec_account_id r \<noteq> account) records))"

text \<open>Errors and unreadable metadata count as never refreshed.\<close>

definition read_metadata :: "codex_lib \<Rightarrow> 's secret_lib \<Rightarrow> str \<Rightarrow> 's \<Rightarrow> u64" where
  "read_metadata X L account s =
     (case get_text L (account_secret_account X account ''metadata'') s of
        Inr (Some value) \<Rightarrow> unwrap_or 0 (cx_parse_metadata X value)
      | _ \<Rightarrow> 0)"

definition missing_credentials :: auth_error where
  "missing_credentials = auth_error_new AuthenticationRequired ''The selected Codex account is not authorized.''"

definition scoped_text :: "codex_lib \<Rightarrow> 's secret_lib \<Rightarrow> str \<Rightarrow> str \<Rightarrow> 's \<Rightarrow> auth_error + str" where
  "scoped_text X L account kind s =
     res_bind (get_text L (account_secret_account X account kind) s) (ok_or missing_credentials)"

definition read_scoped_credentials ::
    "codex_lib \<Rightarrow> 's secret_lib \<Rightarrow> str \<Rightarrow> 's \<Rightarrow> auth_error + codex_credentials" where
  "read_scoped_credentials X L account s =
     res_bind (scoped_text X L account ''access-token'' s) (\<lambda>access.
     res_bind (scoped_text X L account ''refresh-token'' s) (\<lambda>refresh.
     res_bind (scoped_text X L account ''id-token'' s) (\<lambda>id_token.
       Inr \<lparr>cred_access_token = access, cred_refresh_token = refresh, cred_id_token = id_token,
            cred_last_refresh_at = read_metadata X L account s\<rparr>)))"

definition store_scoped_credentials ::
    "codex_lib \<Rightarrow> 's secret_lib \<Rightarrow> str \<Rightarrow> codex_credentials \<Rightarrow> 's codex_store
       \<Rightarrow> (auth_error + unit) \<times> 's codex_store" where
  "store_scoped_credentials X L account c S =
     step_do (set_text L (account_secret_account X account ''access-token'') (cred_access_token c) S) (\<lambda>_ S1.
     step_do (set_text L (account_secret_account X account ''refresh-token'') (cred_refresh_token c) S1) (\<lambda>_ S2.
     step_do (set_text L (account_secret_account X account ''id-token'') (cred_id_token c) S2) (\<lambda>_ S3.
       set_text L (account_secret_account X account ''metadata'') (cx_print_metadata X (cred_last_refresh_at c)) S3)))"

fun delete_all :: "'s secret_lib \<Rightarrow> str list \<Rightarrow> 's codex_store \<Rightarrow> (auth_error + unit) \<times> 's codex_store" where
  "delete_all L [] S = (Inr (), S)"
| "delete_all L (k # ks) S =
     (case delete_text L k S of
        (x, S1) \<Rightarrow> (case delete_all L ks S1 of
           (y, S2) \<Rightarrow> (case x of Inl e \<Rightarrow> (Inl e, S2) | Inr _ \<Rightarrow> (y, S2))))"

definition credential_kinds :: "str list" where
  "credential_kinds = [''access-token'', ''refresh-token'', ''id-token'', ''metadata'']"

definition delete_account_credentials ::
    "codex_lib \<Rightarrow> 's secret_lib \<Rightarrow> str \<Rightarrow> 's codex_store \<Rightarrow> (auth_error + unit) \<times> 's codex_store" where
  "delete_account_credentials X L account S =
     delete_all L (map (account_secret_account X account) credential_kinds)
       (S\<lparr>cs_credentials := AList.delete account (cs_credentials S)\<rparr>)"

definition migrate_legacy_credentials ::
    "codex_lib \<Rightarrow> 's secret_lib \<Rightarrow> 's codex_store \<Rightarrow> (auth_error + unit) \<times> 's codex_store" where
  "migrate_legacy_credentials X L S =
     (let legacy = (\<lambda>key. (get_text L key (cs_secrets S), S)) in
      step_do (legacy LEGACY_ID_TOKEN_ACCOUNT) (\<lambda>found_id _.
      case found_id of None \<Rightarrow> (Inr (), S) | Some id_token \<Rightarrow>
      step_do (legacy LEGACY_ACCESS_TOKEN_ACCOUNT) (\<lambda>found_access _.
      case found_access of None \<Rightarrow> (Inr (), S) | Some access \<Rightarrow>
      step_do (legacy LEGACY_REFRESH_TOKEN_ACCOUNT) (\<lambda>found_refresh _.
      case found_refresh of None \<Rightarrow> (Inr (), S) | Some refresh \<Rightarrow>
      (case account_claim X id_token of
         None \<Rightarrow> (Inl (auth_error_new CredentialCorrupted
                  ''Legacy Codex credentials are missing a ChatGPT account id.''), S)
       | Some account \<Rightarrow>
           step_do (legacy LEGACY_METADATA_ACCOUNT) (\<lambda>found_metadata _.
             let c = \<lparr>cred_access_token = access, cred_refresh_token = refresh, cred_id_token = id_token,
                      cred_last_refresh_at = unwrap_or 0 (Option.bind found_metadata (cx_parse_metadata X))\<rparr> in
             step_do (store_scoped_credentials X L account c S) (\<lambda>_ S1.
             step_do (upsert_account_record X L
               \<lparr>rec_account_id = account, rec_account_email = id_token_email X id_token\<rparr> S1) (\<lambda>_ S2.
             step_do (delete_text L LEGACY_ACCESS_TOKEN_ACCOUNT S2) (\<lambda>_ S3.
             step_do (delete_text L LEGACY_REFRESH_TOKEN_ACCOUNT S3) (\<lambda>_ S4.
             step_do (delete_text L LEGACY_ID_TOKEN_ACCOUNT S4) (\<lambda>_ S5.
               delete_text L LEGACY_METADATA_ACCOUNT S5)))))))))))"

definition ensure_legacy_credentials_migrated ::
    "codex_lib \<Rightarrow> 's secret_lib \<Rightarrow> 's codex_store \<Rightarrow> (auth_error + unit) \<times> 's codex_store" where
  "ensure_legacy_credentials_migrated X L S =
     (if cs_migrated S then (Inr (), S)
      else step_do (migrate_legacy_credentials X L S) (\<lambda>_ S'. (Inr (), S'\<lparr>cs_migrated := True\<rparr>)))"

definition account_records ::
    "codex_lib \<Rightarrow> 's secret_lib \<Rightarrow> 's codex_store \<Rightarrow> (auth_error + account_record list) \<times> 's codex_store" where
  "account_records X L S =
     step_do (ensure_legacy_credentials_migrated X L S) (\<lambda>_. read_account_index X L)"

definition choose_account :: "account_record list \<Rightarrow> str option \<Rightarrow> auth_error + str" where
  "choose_account records requested =
     (case opt_filter (\<lambda>a. a \<noteq> []) (map_option trim requested) of
        Some account \<Rightarrow>
          if list_ex (\<lambda>r. rec_account_id r = account) records then Inr account
          else Inl (auth_error_new AccountNotFound ''The requested Codex account is not signed in.'')
      | None \<Rightarrow>
          (case records of
             [r] \<Rightarrow> Inr (rec_account_id r)
           | [] \<Rightarrow> Inl (auth_error_new AuthenticationRequired ''No Codex account is signed in.'')
           | _ \<Rightarrow> Inl (auth_error_new AccountSelectionRequired
                    ''Multiple Codex accounts are signed in; select an account explicitly.'')))"

definition resolve_account_id ::
    "codex_lib \<Rightarrow> 's secret_lib \<Rightarrow> str option \<Rightarrow> 's codex_store \<Rightarrow> (auth_error + str) \<times> 's codex_store" where
  "resolve_account_id X L requested S =
     step_do (account_records X L S) (\<lambda>records S'. (choose_account records requested, S'))"

definition read_credentials ::
    "codex_lib \<Rightarrow> 's secret_lib \<Rightarrow> str \<Rightarrow> 's codex_store \<Rightarrow> (auth_error + codex_credentials) \<times> 's codex_store" where
  "read_credentials X L account S0 =
     step_do (ensure_legacy_credentials_migrated X L S0) (\<lambda>_ S.
       case map_of (cs_credentials S) account of
         Some c \<Rightarrow> (Inr c, S)
       | None \<Rightarrow>
           (case read_scoped_credentials X L account (cs_secrets S) of
              Inl e \<Rightarrow> (Inl e, S)
            | Inr c \<Rightarrow> (Inr c, S\<lparr>cs_credentials := AList.update account c (cs_credentials S)\<rparr>)))"

definition store_credentials ::
    "codex_lib \<Rightarrow> 's secret_lib \<Rightarrow> str \<Rightarrow> codex_credentials \<Rightarrow> 's codex_store
       \<Rightarrow> (auth_error + unit) \<times> 's codex_store" where
  "store_credentials X L account c S =
     (case account_claim X (cred_id_token c) of
        None \<Rightarrow> (Inl (auth_error_new CredentialCorrupted ''Codex ID token is missing a ChatGPT account id.''), S)
      | Some claimed \<Rightarrow>
          if claimed \<noteq> account
          then (Inl (auth_error_new CredentialCorrupted
                  ''Codex OAuth credentials do not match the selected account.''), S)
          else
            step_do (store_scoped_credentials X L account c S) (\<lambda>_ S1.
            step_do (upsert_account_record X L
              \<lparr>rec_account_id = account, rec_account_email = id_token_email X (cred_id_token c)\<rparr> S1) (\<lambda>_ S2.
              (Inr (), S2\<lparr>cs_credentials := AList.update account c (cs_credentials S2)\<rparr>))))"

datatype codex_auth_state = Authenticated | RefreshRequired | AuthExpired | AuthMissing

record codex_account =
  acc_id :: str
  acc_email :: "str option"
  acc_expires_at :: "u64 option"

record codex_auth_status =
  sta_account :: codex_account
  sta_state :: codex_auth_state

definition status_from_storage ::
    "codex_lib \<Rightarrow> 's secret_lib \<Rightarrow> u64 \<Rightarrow> account_record \<Rightarrow> 's \<Rightarrow> auth_error + codex_auth_status" where
  "status_from_storage X L now r s =
     (let account = rec_account_id r; text = (\<lambda>kind. get_text L (account_secret_account X account kind) s) in
      res_bind (text ''access-token'') (\<lambda>access.
      res_bind (text ''refresh-token'') (\<lambda>refresh.
      res_bind (text ''id-token'') (\<lambda>id_token.
        let expires = Option.bind access (access_token_expiry X);
            complete = access \<noteq> None \<and> refresh \<noteq> None \<and> id_token \<noteq> None
              \<and> Option.bind id_token (account_claim X) = Some account;
            st = (if complete
                  then (if (case expires of None \<Rightarrow> False | Some expiry \<Rightarrow> expiry \<le> now)
                        then RefreshRequired else Authenticated)
                  else if access \<noteq> None \<or> refresh \<noteq> None \<or> id_token \<noteq> None then AuthExpired
                  else AuthMissing)
        in Inr \<lparr>sta_account = \<lparr>acc_id = account,
                  acc_email = or_else (Option.bind id_token (id_token_email X)) (rec_account_email r),
                  acc_expires_at = expires\<rparr>,
                sta_state = st\<rparr>))))"

section \<open>On any secret store\<close>

text \<open>What the store relies on beside the contract: its names are names, and codecs can be undone.\<close>

definition account_names :: "codex_lib \<Rightarrow> str \<Rightarrow> str set" where
  "account_names X account = set (map (account_secret_account X account) credential_kinds)"

definition codex_laws :: "codex_lib \<Rightarrow> str set \<Rightarrow> (str \<Rightarrow> bool) \<Rightarrow> bool" where
  "codex_laws X names storable =
     ((\<forall>account. account_names X account \<subseteq> names)
      \<and> {ACCOUNT_INDEX_ACCOUNT, LEGACY_ACCESS_TOKEN_ACCOUNT, LEGACY_REFRESH_TOKEN_ACCOUNT,
          LEGACY_ID_TOKEN_ACCOUNT, LEGACY_METADATA_ACCOUNT} \<subseteq> names
      \<and> (\<forall>n. cx_parse_metadata X (cx_print_metadata X n) = Some n
           \<and> trim (cx_print_metadata X n) \<noteq> [] \<and> storable (cx_print_metadata X n))
      \<and> (\<forall>rs. rs \<noteq> [] \<longrightarrow> cx_parse_records X (cx_print_records X rs) = Some rs
           \<and> trim (cx_print_records X rs) \<noteq> [] \<and> storable (cx_print_records X rs)))"

definition can_store :: "(str \<Rightarrow> bool) \<Rightarrow> codex_credentials \<Rightarrow> bool" where
  "can_store storable c =
     list_all (\<lambda>t. trim t \<noteq> [] \<and> storable t) [cred_access_token c, cred_refresh_token c, cred_id_token c]"

lemma account_name_eq [simp]:
  "account_secret_account X a k = account_secret_account X a k' \<longleftrightarrow> k = k'"
  by (simp add: account_secret_account_def)

lemma index_not_account_name [simp]:
  "account_secret_account X a k \<noteq> ACCOUNT_INDEX_ACCOUNT" "ACCOUNT_INDEX_ACCOUNT \<noteq> account_secret_account X a k"
  "account_secret_account X a k \<noteq> LEGACY_ID_TOKEN_ACCOUNT" "LEGACY_ID_TOKEN_ACCOUNT \<noteq> account_secret_account X a k"
  "ACCOUNT_INDEX_ACCOUNT \<noteq> LEGACY_ID_TOKEN_ACCOUNT" "LEGACY_ID_TOKEN_ACCOUNT \<noteq> ACCOUNT_INDEX_ACCOUNT"
  by (simp_all add: account_secret_account_def ACCOUNT_INDEX_ACCOUNT_def LEGACY_ID_TOKEN_ACCOUNT_def)

lemma account_names_iff:
  "n \<in> account_names X a \<longleftrightarrow> (\<exists>k \<in> set credential_kinds. n = account_secret_account X a k)"
  by (auto simp: account_names_def)

text \<open>The names of two accounts meet only when their fingerprints do.\<close>

definition apart :: "codex_lib \<Rightarrow> str \<Rightarrow> str \<Rightarrow> bool" where
  "apart X a b = (account_names X a \<inter> account_names X b = {})"

lemma set_text_parts:
  "set_text L k v S = (x, S') \<longleftrightarrow> (\<exists>s. sec_set L k v (cs_secrets S) = (x, s) \<and> S' = S\<lparr>cs_secrets := s\<rparr>)"
  by (auto simp: set_text_def split: prod.splits)

lemma delete_text_parts:
  "delete_text L k S = (x, S') \<longleftrightarrow> (\<exists>s. sec_delete L k (cs_secrets S) = (x, s) \<and> S' = S\<lparr>cs_secrets := s\<rparr>)"
  by (auto simp: delete_text_def split: prod.splits)

lemma upsert_ids: "rec_account_id ` set (upsert r rs) = insert (rec_account_id r) (rec_account_id ` set rs)"
  by (induction rs) auto

lemma upsert_nonempty [simp]: "upsert r rs \<noteq> []"
  by (cases rs) auto

lemma normalize_fold_ids:
  "rec_account_id ` set (fold (\<lambda>r normalized. let n = normalize_record r in
         if rec_account_id n \<noteq> [] \<and> \<not> list_ex (\<lambda>c. rec_account_id c = rec_account_id n) normalized
         then normalized @ [n] else normalized) rs acc)
     = rec_account_id ` set acc \<union> {a. a \<noteq> [] \<and> (\<exists>r \<in> set rs. a = trim (rec_account_id r))}"
proof (induction rs arbitrary: acc)
  case (Cons r rs)
  have "rec_account_id (normalize_record r) = trim (rec_account_id r)" by (simp add: normalize_record_def)
  with Cons show ?case
    by (cases "trim (rec_account_id r) \<in> rec_account_id ` set acc") (auto simp: Let_def list_ex_iff, metis image_eqI)
qed simp

lemma normalize_ids:
  "rec_account_id ` set (normalize_records rs) = {a. a \<noteq> [] \<and> (\<exists>r \<in> set rs. a = trim (rec_account_id r))}"
  using normalize_fold_ids [of rs "[]"] by (simp add: normalize_records_def)

lemma choose_listed:
  assumes "a \<in> rec_account_id ` set records" "trim a = a" "a \<noteq> []"
  shows "choose_account records (Some a) = Inr a"
  using assms by (auto simp: choose_account_def list_ex_iff)

context secret_store
begin

definition lib :: "'s secret_lib" where
  "lib = \<lparr>sec_get = get, sec_set = put, sec_delete = remove\<rparr>"

lemma lib_simps [simp]: "sec_get lib = get" "sec_set lib = put" "sec_delete lib = remove"
  by (simp_all add: lib_def)

text \<open>A call that leaves alone all names but some.\<close>

definition touches :: "str set \<Rightarrow> 's \<Rightarrow> 's \<Rightarrow> bool" where
  "touches ns s s' = (working s' \<and> (\<forall>j \<in> names - ns. get j s' = get j s))"

lemma touches_refl: "working s \<Longrightarrow> touches ns s s"
  by (simp add: touches_def)

lemma touches_trans: "touches ns s s1 \<Longrightarrow> touches ms s1 s2 \<Longrightarrow> touches (ns \<union> ms) s s2"
  by (auto simp: touches_def)

lemma touches_mono: "touches ns s s' \<Longrightarrow> ns \<subseteq> ms \<Longrightarrow> touches ms s s'"
  by (auto simp: touches_def)

lemma touches_get: "touches ns s s' \<Longrightarrow> j \<in> names \<Longrightarrow> j \<notin> ns \<Longrightarrow> get j s' = get j s"
  by (simp add: touches_def)

lemma put_touches: "working s \<Longrightarrow> k \<in> names \<Longrightarrow> put k v s = (x, s') \<Longrightarrow> touches {k} s s'"
  using put_frame put_working by (auto simp: touches_def)

lemma remove_touches: "working s \<Longrightarrow> k \<in> names \<Longrightarrow> remove k s = (x, s') \<Longrightarrow> touches {k} s s'"
  using remove_frame remove_working by (auto simp: touches_def)

lemma store_scoped:
  assumes "codex_laws X names storable" "working (cs_secrets S)" "can_store storable c"
    and "store_scoped_credentials X lib a c S = (Inr (), S')"
  shows "S' = S\<lparr>cs_secrets := cs_secrets S'\<rparr>" "touches (account_names X a) (cs_secrets S) (cs_secrets S')"
    and "read_scoped_credentials X lib a (cs_secrets S') = Inr c"
proof -
  let ?n = "account_secret_account X a"
  let ?s = "cs_secrets S"
  have n: "?n ''access-token'' \<in> names" "?n ''refresh-token'' \<in> names" "?n ''id-token'' \<in> names" "?n ''metadata'' \<in> names"
    using assms(1) by (auto simp: codex_laws_def account_names_def credential_kinds_def)
  have meta: "cx_parse_metadata X (cx_print_metadata X (cred_last_refresh_at c)) = Some (cred_last_refresh_at c)"
    "trim (cx_print_metadata X (cred_last_refresh_at c)) \<noteq> []" "storable (cx_print_metadata X (cred_last_refresh_at c))"
    using assms(1) by (auto simp: codex_laws_def)
  have ok: "storable (cred_access_token c)" "storable (cred_refresh_token c)" "storable (cred_id_token c)"
    "trim (cred_access_token c) \<noteq> []" "trim (cred_refresh_token c) \<noteq> []" "trim (cred_id_token c) \<noteq> []"
    using assms(3) by (auto simp: can_store_def)
  obtain s1 s2 s3 s4 where p: "put (?n ''access-token'') (cred_access_token c) ?s = (Inr (), s1)"
    "put (?n ''refresh-token'') (cred_refresh_token c) s1 = (Inr (), s2)"
    "put (?n ''id-token'') (cred_id_token c) s2 = (Inr (), s3)"
    "put (?n ''metadata'') (cx_print_metadata X (cred_last_refresh_at c)) s3 = (Inr (), s4)"
    and S': "S' = S\<lparr>cs_secrets := s4\<rparr>"
    using assms(4) by (auto simp: store_scoped_credentials_def step_do_Inr_iff set_text_parts)
  note t1 = put_touches [OF assms(2) n(1) p(1)]
  then have w1: "working s1" by (simp add: touches_def)
  note t2 = put_touches [OF w1 n(2) p(2)]
  then have w2: "working s2" by (simp add: touches_def)
  note t3 = put_touches [OF w2 n(3) p(3)]
  then have w3: "working s3" by (simp add: touches_def)
  note t4 = put_touches [OF w3 n(4) p(4)]
  show "S' = S\<lparr>cs_secrets := cs_secrets S'\<rparr>" using S' by simp
  show "touches (account_names X a) (cs_secrets S) (cs_secrets S')"
    using touches_trans [OF touches_trans [OF touches_trans [OF t1 t2] t3] t4] S'
    by (auto simp: account_names_def credential_kinds_def elim: touches_mono)
  have g: "get (?n ''access-token'') s4 = Inr (Some (cred_access_token c))"
    "get (?n ''refresh-token'') s4 = Inr (Some (cred_refresh_token c))"
    "get (?n ''id-token'') s4 = Inr (Some (cred_id_token c))"
    "get (?n ''metadata'') s4 = Inr (Some (cx_print_metadata X (cred_last_refresh_at c)))"
    using put_get [OF assms(2) n(1) ok(1) p(1)] put_get [OF w1 n(2) ok(2) p(2)] put_get [OF w2 n(3) ok(3) p(3)]
      put_get [OF w3 n(4) meta(3) p(4)] n
      touches_get [OF t2, of "?n ''access-token''"] touches_get [OF t3, of "?n ''access-token''"]
      touches_get [OF t4, of "?n ''access-token''"] touches_get [OF t3, of "?n ''refresh-token''"]
      touches_get [OF t4, of "?n ''refresh-token''"] touches_get [OF t4, of "?n ''id-token''"] by simp_all
  then show "read_scoped_credentials X lib a (cs_secrets S') = Inr c"
    using ok meta by (simp add: S' read_scoped_credentials_def scoped_text_def read_metadata_def get_text_def)
qed

lemma upserted:
  assumes "codex_laws X names storable" "working (cs_secrets S)"
    and "upsert_account_record X lib r S = (Inr (), S')"
  shows "\<exists>records. S' = S\<lparr>cs_secrets := cs_secrets S', cs_records := Some (upsert r records)\<rparr>
    \<and> (\<exists>S0. read_account_index X lib S = (Inr records, S0))
    \<and> touches {ACCOUNT_INDEX_ACCOUNT} (cs_secrets S) (cs_secrets S')
    \<and> get ACCOUNT_INDEX_ACCOUNT (cs_secrets S') = Inr (Some (cx_print_records X (upsert r records)))"
proof -
  obtain records S0 where i: "read_account_index X lib S = (Inr records, S0)"
    and w: "write_account_index X lib (upsert r records) S0 = (Inr (), S')"
    using assms(3) by (auto simp: upsert_account_record_def step_do_Inr_iff)
  have S0: "S0 = S\<lparr>cs_records := cs_records S0\<rparr>"
    using i by (auto simp: read_account_index_def split: option.splits sum.splits)
  then have "cs_secrets S0 = cs_secrets S" by (metis codex_store.select_convs(1) codex_store.surjective codex_store.update_convs(2))
  with w obtain s where s: "put ACCOUNT_INDEX_ACCOUNT (cx_print_records X (upsert r records)) (cs_secrets S) = (Inr (), s)"
    "S' = S0\<lparr>cs_secrets := s, cs_records := Some (upsert r records)\<rparr>"
    by (auto simp: write_account_index_def step_do_Inr_iff set_text_parts)
  have idx: "ACCOUNT_INDEX_ACCOUNT \<in> names" "storable (cx_print_records X (upsert r records))"
    using assms(1) by (auto simp: codex_laws_def)
  have "S' = S\<lparr>cs_secrets := cs_secrets S', cs_records := Some (upsert r records)\<rparr>"
    using s(2) S0 by (cases S; cases S0) simp
  with put_touches [OF assms(2) idx(1) s(1)] put_get [OF assms(2) idx s(1)] i s(2) show ?thesis
    by (intro exI [of _ records]) auto
qed

lemma stored_credentials:
  assumes "codex_laws X names storable" "working (cs_secrets S)" "can_store storable c"
    and "store_credentials X lib a c S = (Inr (), S')"
  shows "\<exists>records. map_of (cs_credentials S') a = Some c \<and> cs_migrated S' = cs_migrated S
    \<and> cs_records S' = Some records \<and> a \<in> rec_account_id ` set records \<and> records \<noteq> []
    \<and> get ACCOUNT_INDEX_ACCOUNT (cs_secrets S') = Inr (Some (cx_print_records X records))
    \<and> touches (insert ACCOUNT_INDEX_ACCOUNT (account_names X a)) (cs_secrets S) (cs_secrets S')
    \<and> read_scoped_credentials X lib a (cs_secrets S') = Inr c"
proof -
  let ?r = "\<lparr>rec_account_id = a, rec_account_email = id_token_email X (cred_id_token c)\<rparr>"
  obtain S1 S2 where s1: "store_scoped_credentials X lib a c S = (Inr (), S1)"
    and s2: "upsert_account_record X lib ?r S1 = (Inr (), S2)"
    and S': "S' = S2\<lparr>cs_credentials := AList.update a c (cs_credentials S2)\<rparr>"
    using assms(4) by (auto simp: store_credentials_def step_do_Inr_iff split: option.splits if_splits)
  note one = store_scoped [OF assms(1-3) s1]
  then have "working (cs_secrets S1)" by (simp add: touches_def)
  from upserted [OF assms(1) this s2] obtain records where
    two: "S2 = S1\<lparr>cs_secrets := cs_secrets S2, cs_records := Some (upsert ?r records)\<rparr>"
    "touches {ACCOUNT_INDEX_ACCOUNT} (cs_secrets S1) (cs_secrets S2)"
    "get ACCOUNT_INDEX_ACCOUNT (cs_secrets S2) = Inr (Some (cx_print_records X (upsert ?r records)))" by blast
  have same: "get (account_secret_account X a k) (cs_secrets S2) = get (account_secret_account X a k) (cs_secrets S1)"
    if "k \<in> set credential_kinds" for k
    using touches_get [OF two(2), of "account_secret_account X a k"] assms(1) that
    by (auto simp: codex_laws_def account_names_def)
  have "read_scoped_credentials X lib a (cs_secrets S2) = Inr c"
    using one(3) same by (simp add: read_scoped_credentials_def scoped_text_def read_metadata_def get_text_def
        credential_kinds_def)
  moreover have "touches (insert ACCOUNT_INDEX_ACCOUNT (account_names X a)) (cs_secrets S) (cs_secrets S2)"
    using touches_trans [OF one(2) two(2)] by simp
  moreover have "a \<in> rec_account_id ` set (upsert ?r records)" by (simp add: upsert_ids)
  moreover have "cs_migrated S2 = cs_migrated S"
    using two(1) one(1) by (metis codex_store.select_convs(4) codex_store.surjective codex_store.update_convs(1,2))
  moreover have "cs_records S2 = Some (upsert ?r records)" using two(1) by (metis codex_store.select_convs(2) codex_store.surjective codex_store.update_convs(2))
  ultimately show ?thesis using two(3) by (simp add: S')
qed

lemma stored_index:
  assumes "codex_laws X names storable" "working (cs_secrets S)" "can_store storable c"
    and "store_credentials X lib a c S = (Inr (), S')"
  shows "\<exists>records S0 r. read_account_index X lib S = (Inr records, S0) \<and> rec_account_id r = a
    \<and> cs_records S' = Some (upsert r records) \<and> cs_migrated S' = cs_migrated S
    \<and> get ACCOUNT_INDEX_ACCOUNT (cs_secrets S') = Inr (Some (cx_print_records X (upsert r records)))"
proof -
  let ?r = "\<lparr>rec_account_id = a, rec_account_email = id_token_email X (cred_id_token c)\<rparr>"
  obtain S1 S2 where s1: "store_scoped_credentials X lib a c S = (Inr (), S1)"
    and s2: "upsert_account_record X lib ?r S1 = (Inr (), S2)"
    and S': "S' = S2\<lparr>cs_credentials := AList.update a c (cs_credentials S2)\<rparr>"
    using assms(4) by (auto simp: store_credentials_def step_do_Inr_iff split: option.splits if_splits)
  note one = store_scoped [OF assms(1-3) s1]
  then have "working (cs_secrets S1)" by (simp add: touches_def)
  from upserted [OF assms(1) this s2] obtain records S0 where
    two: "S2 = S1\<lparr>cs_secrets := cs_secrets S2, cs_records := Some (upsert ?r records)\<rparr>"
    "read_account_index X lib S1 = (Inr records, S0)"
    "get ACCOUNT_INDEX_ACCOUNT (cs_secrets S2) = Inr (Some (cx_print_records X (upsert ?r records)))" by blast
  have kept: "cs_records S1 = cs_records S" "cs_migrated S1 = cs_migrated S"
    using one(1) by (metis codex_store.select_convs(2,4) codex_store.surjective codex_store.update_convs(1))+
  have "get ACCOUNT_INDEX_ACCOUNT (cs_secrets S1) = get ACCOUNT_INDEX_ACCOUNT (cs_secrets S)"
    using touches_get [OF one(2), of ACCOUNT_INDEX_ACCOUNT] assms(1) by (auto simp: codex_laws_def account_names_iff)
  with two(2) kept(1) have "\<exists>S0. read_account_index X lib S = (Inr records, S0)"
    by (auto simp: read_account_index_def get_text_def split: option.splits sum.splits)
  moreover have "cs_records S2 = Some (upsert ?r records)" "cs_migrated S2 = cs_migrated S1"
    using arg_cong [OF two(1), of cs_records] arg_cong [OF two(1), of cs_migrated] by simp_all
  ultimately show ?thesis using two(3) kept(2) by (auto simp: S' intro!: exI [of _ ?r])
qed

lemma fresh_records:
  assumes "codex_laws X names storable" "get LEGACY_ID_TOKEN_ACCOUNT s = Inr None"
    and "get ACCOUNT_INDEX_ACCOUNT s = Inr (Some (cx_print_records X records))" "records \<noteq> []"
  shows "\<exists>P. account_records X lib (store_new s) = (Inr (normalize_records records), P)"
proof -
  have m: "ensure_legacy_credentials_migrated X lib (store_new s) = (Inr (), (store_new s)\<lparr>cs_migrated := True\<rparr>)"
    by (simp add: ensure_legacy_credentials_migrated_def migrate_legacy_credentials_def get_text_def
        assms(2) Let_def)
  have "cx_parse_records X (cx_print_records X records) = Some records" "trim (cx_print_records X records) \<noteq> []"
    using assms(1,4) by (auto simp: codex_laws_def)
  then show ?thesis by (simp add: account_records_def m read_account_index_def get_text_def assms(3))
qed

lemma fresh_process:
  assumes "codex_laws X names storable" "get LEGACY_ID_TOKEN_ACCOUNT s = Inr None"
    and "get ACCOUNT_INDEX_ACCOUNT s = Inr (Some (cx_print_records X records))" "records \<noteq> []"
    and "a \<in> rec_account_id ` set records" "trim a = a" "a \<noteq> []"
  shows "\<exists>P. resolve_account_id X lib (Some a) (store_new s) = (Inr a, P)"
    and "read_scoped_credentials X lib a s = Inr c \<Longrightarrow> \<exists>P. read_credentials X lib a (store_new s) = (Inr c, P)"
proof -
  have m: "ensure_legacy_credentials_migrated X lib (store_new s) = (Inr (), (store_new s)\<lparr>cs_migrated := True\<rparr>)"
    by (simp add: ensure_legacy_credentials_migrated_def migrate_legacy_credentials_def get_text_def
        assms(2) Let_def)
  have idx: "cx_parse_records X (cx_print_records X records) = Some records" "trim (cx_print_records X records) \<noteq> []"
    using assms(1,4) by (auto simp: codex_laws_def)
  have "a \<in> rec_account_id ` set (normalize_records records)"
    using assms(5-7) by (auto simp: normalize_ids) metis
  then have "choose_account (normalize_records records) (Some a) = Inr a"
    using assms(6,7) by (rule choose_listed)
  then show "\<exists>P. resolve_account_id X lib (Some a) (store_new s) = (Inr a, P)"
    using idx by (simp add: resolve_account_id_def account_records_def m read_account_index_def
        get_text_def assms(3))
  show "\<exists>P. read_credentials X lib a (store_new s) = (Inr c, P)" if "read_scoped_credentials X lib a s = Inr c"
    using that by (simp add: read_credentials_def m)
qed

end

lemma secret_store_lib:
  "secret_store (sec_get L) (sec_set L) (sec_delete L) names storable working \<Longrightarrow>
     secret_store.lib (sec_get L) (sec_set L) (sec_delete L) = L"
  by (cases L) (simp add: secret_store.lib_def)

lemma upsert_others: "rec_account_id r = a \<Longrightarrow>
    filter (\<lambda>x. rec_account_id x \<noteq> a) (upsert r rs) = filter (\<lambda>x. rec_account_id x \<noteq> a) rs"
  by (induction rs) auto

lemma upsert_keeps_ids: "rec_account_id ` set rs \<subseteq> rec_account_id ` set (upsert r rs)"
  by (auto simp: upsert_ids)

lemma chosen_by_name:
  "trim d = d \<Longrightarrow> d \<noteq> [] \<Longrightarrow> choose_account records (Some d) = Inr d \<longleftrightarrow> d \<in> rec_account_id ` set records"
  by (auto simp: choose_account_def opt_filter_def list_ex_iff)

text \<open>
  C18. A stored account is found again, and no other is lost. On any secret store that keeps its
  contract, once the credentials of an account have been stored, this process reads them, and
  so does every process that starts later, which also finds the account in the index. The
  credentials of the accounts whose fingerprints differ are as they were; the index has the
  records of all other accounts as before, in this process and, normalised, in every later one,
  so that every account that could be selected by its name still can.
\<close>

theorem stored_account_is_found_again:
  assumes "secret_store (sec_get L) (sec_set L) (sec_delete L) names storable working"
    and "codex_laws X names storable" "working (cs_secrets S)" "can_store storable c"
    and "cs_migrated S" "sec_get L LEGACY_ID_TOKEN_ACCOUNT (cs_secrets S) = Inr None"
    and "trim a = a" "a \<noteq> []" "apart X a b"
    and "store_credentials X L a c S = (Inr (), S')"
  shows "read_credentials X L a S' = (Inr c, S')
    \<and> (\<exists>P. read_credentials X L a (store_new (cs_secrets S')) = (Inr c, P))
    \<and> (\<exists>P. resolve_account_id X L (Some a) (store_new (cs_secrets S')) = (Inr a, P))
    \<and> read_scoped_credentials X L b (cs_secrets S') = read_scoped_credentials X L b (cs_secrets S)
    \<and> (\<exists>records records' S0 P. read_account_index X L S = (Inr records, S0)
         \<and> account_records X L S' = (Inr records', S')
         \<and> filter (\<lambda>r. rec_account_id r \<noteq> a) records' = filter (\<lambda>r. rec_account_id r \<noteq> a) records
         \<and> account_records X L (store_new (cs_secrets S')) = (Inr (normalize_records records'), P))
    \<and> (trim d = d \<and> d \<noteq> [] \<and> fst (resolve_account_id X L (Some d) S) = Inr d \<longrightarrow>
         fst (resolve_account_id X L (Some d) S') = Inr d
         \<and> fst (resolve_account_id X L (Some d) (store_new (cs_secrets S'))) = Inr d)"
proof -
  note store = assms(1) and lib = secret_store_lib [OF assms(1)]
  obtain records where r: "map_of (cs_credentials S') a = Some c" "cs_migrated S' = cs_migrated S"
    "a \<in> rec_account_id ` set records" "records \<noteq> []"
    "sec_get L ACCOUNT_INDEX_ACCOUNT (cs_secrets S') = Inr (Some (cx_print_records X records))"
    "secret_store.touches (sec_get L) names working (insert ACCOUNT_INDEX_ACCOUNT (account_names X a))
       (cs_secrets S) (cs_secrets S')"
    "read_scoped_credentials X L a (cs_secrets S') = Inr c"
    using secret_store.stored_credentials [OF store assms(2-4), unfolded lib, OF assms(10)] by blast
  have old: "sec_get L LEGACY_ID_TOKEN_ACCOUNT (cs_secrets S') = Inr None"
    using secret_store.touches_get [OF store r(6), of LEGACY_ID_TOKEN_ACCOUNT] assms(2,6)
    by (auto simp: codex_laws_def account_names_iff)
  have "sec_get L (account_secret_account X b k) (cs_secrets S') = sec_get L (account_secret_account X b k) (cs_secrets S)"
    if "k \<in> set credential_kinds" for k
  proof (rule secret_store.touches_get [OF store r(6)])
    have "account_secret_account X b k \<in> account_names X b" using that by (auto simp: account_names_iff)
    then show "account_secret_account X b k \<in> names"
      "account_secret_account X b k \<notin> insert ACCOUNT_INDEX_ACCOUNT (account_names X a)"
      using assms(2,9) by (auto simp: codex_laws_def apart_def)
  qed
  then have "read_scoped_credentials X L b (cs_secrets S') = read_scoped_credentials X L b (cs_secrets S)"
    by (simp add: read_scoped_credentials_def scoped_text_def read_metadata_def get_text_def credential_kinds_def)
  moreover have "read_credentials X L a S' = (Inr c, S')"
    using r(1,2) assms(5) by (simp add: read_credentials_def ensure_legacy_credentials_migrated_def)
  moreover obtain before S0 q where i: "read_account_index X L S = (Inr before, S0)" "rec_account_id q = a"
    "cs_records S' = Some (upsert q before)"
    "sec_get L ACCOUNT_INDEX_ACCOUNT (cs_secrets S') = Inr (Some (cx_print_records X (upsert q before)))"
    using secret_store.stored_index [OF store assms(2-4), unfolded lib, OF assms(10)] by blast
  moreover have here: "account_records X L S' = (Inr (upsert q before), S')"
    using i(3) r(2) assms(5)
    by (simp add: account_records_def ensure_legacy_credentials_migrated_def read_account_index_def)
  moreover obtain P where later: "account_records X L (store_new (cs_secrets S')) = (Inr (normalize_records (upsert q before)), P)"
    using secret_store.fresh_records [OF store assms(2), unfolded lib, OF old i(4)] by auto
  moreover have "fst (resolve_account_id X L (Some d) S') = Inr d
      \<and> fst (resolve_account_id X L (Some d) (store_new (cs_secrets S'))) = Inr d"
    if d: "trim d = d" "d \<noteq> []" "fst (resolve_account_id X L (Some d) S) = Inr d"
  proof -
    have "choose_account before (Some d) = Inr d"
      using d(3) i(1) assms(5)
      by (simp add: resolve_account_id_def account_records_def ensure_legacy_credentials_migrated_def)
    then have m: "d \<in> rec_account_id ` set (upsert q before)"
      using upsert_keeps_ids [of before q] d(1,2) by (simp add: chosen_by_name subset_iff)
    then have "d \<in> rec_account_id ` set (normalize_records (upsert q before))"
      using d(1,2) by (auto simp: normalize_ids) metis
    with m d(1,2) show ?thesis by (simp add: resolve_account_id_def here later chosen_by_name)
  qed
  ultimately show ?thesis
    using secret_store.fresh_process [OF store assms(2), unfolded lib, OF old r(5,4,3) assms(7,8)] r(7)
      upsert_others [OF i(2)] by blast
qed

section \<open>Signing out\<close>

text \<open>\<open>logout\<close> of \<open>codex/mod.rs\<close>.\<close>

definition codex_logout ::
    "codex_lib \<Rightarrow> 's secret_lib \<Rightarrow> str \<Rightarrow> 's codex_store \<Rightarrow> (auth_error + unit) \<times> 's codex_store" where
  "codex_logout X L account0 S =
     (let account = trim account0 in
      if account = [] then (Inl (auth_error_new AccountNotFound ''Select a Codex account to sign out.''), S)
      else step_do (delete_account_credentials X L account S) (\<lambda>_. remove_account_record X L account))"

context secret_store
begin

lemma deleted_all:
  "working (cs_secrets S) \<Longrightarrow> set ks \<subseteq> names \<Longrightarrow> distinct ks \<Longrightarrow> delete_all lib ks S = (Inr (), S') \<Longrightarrow>
     touches (set ks) (cs_secrets S) (cs_secrets S') \<and> S' = S\<lparr>cs_secrets := cs_secrets S'\<rparr>
     \<and> (\<forall>k \<in> set ks. get k (cs_secrets S') = Inr None)"
proof (induction ks arbitrary: S)
  case Nil
  then show ?case by (simp add: touches_refl)
next
  case (Cons k ks)
  obtain S1 where d: "delete_text lib k S = (Inr (), S1)" and rest: "delete_all lib ks S1 = (Inr (), S')"
    using Cons.prems(4) by (auto split: prod.splits sum.splits)
  then have r: "remove k (cs_secrets S) = (Inr (), cs_secrets S1)" "S1 = S\<lparr>cs_secrets := cs_secrets S1\<rparr>"
    by (auto simp: delete_text_parts)
  have t: "touches {k} (cs_secrets S) (cs_secrets S1)" using remove_touches r(1) Cons.prems by simp
  then have "working (cs_secrets S1)" by (simp add: touches_def)
  with Cons.IH [OF this] Cons.prems rest have ih: "touches (set ks) (cs_secrets S1) (cs_secrets S')"
    "S' = S1\<lparr>cs_secrets := cs_secrets S'\<rparr>" "\<forall>k \<in> set ks. get k (cs_secrets S') = Inr None" by simp_all
  have "get k (cs_secrets S') = Inr None"
    using touches_get [OF ih(1), of k] remove_get [OF Cons.prems(1) _ r(1)] Cons.prems by simp
  moreover have "S' = S\<lparr>cs_secrets := cs_secrets S'\<rparr>" using ih(2) r(2) by (metis codex_store.update_convs(1) codex_store.surjective)
  ultimately show ?case using ih touches_trans [OF t ih(1)] by simp
qed

lemma deleted_credentials:
  assumes "codex_laws X names storable" "working (cs_secrets S)"
    and "delete_account_credentials X lib a S = (Inr (), S')"
  shows "working (cs_secrets S') \<and> cs_records S' = cs_records S \<and> cs_migrated S' = cs_migrated S
    \<and> map_of (cs_credentials S') a = None
    \<and> (\<forall>k \<in> set credential_kinds. get (account_secret_account X a k) (cs_secrets S') = Inr None)"
proof -
  let ?ks = "map (account_secret_account X a) credential_kinds"
  let ?S = "S\<lparr>cs_credentials := AList.delete a (cs_credentials S)\<rparr>"
  have "distinct ?ks" by (simp add: credential_kinds_def)
  moreover have "set ?ks \<subseteq> names" using assms(1) unfolding codex_laws_def account_names_def by blast
  ultimately have d: "touches (set ?ks) (cs_secrets S) (cs_secrets S')" "S' = ?S\<lparr>cs_secrets := cs_secrets S'\<rparr>"
    "\<forall>k \<in> set ?ks. get k (cs_secrets S') = Inr None"
    using deleted_all [of ?S ?ks S'] assms(2,3) by (simp_all add: delete_account_credentials_def)
  have "cs_credentials S' = AList.delete a (cs_credentials S)" "cs_records S' = cs_records S" "cs_migrated S' = cs_migrated S"
    using arg_cong [OF d(2), of cs_credentials] arg_cong [OF d(2), of cs_records] arg_cong [OF d(2), of cs_migrated]
    by simp_all
  with d show ?thesis by (simp add: touches_def delete_conv')
qed

lemma removed_record:
  assumes "codex_laws X names storable" "working (cs_secrets S)"
    and "remove_account_record X lib a S = (Inr (), S')"
  shows "\<exists>records. cs_records S' = Some records \<and> a \<notin> rec_account_id ` set records
    \<and> cs_credentials S' = cs_credentials S \<and> cs_migrated S' = cs_migrated S
    \<and> touches {ACCOUNT_INDEX_ACCOUNT} (cs_secrets S) (cs_secrets S')"
proof -
  obtain records S0 where i: "read_account_index X lib S = (Inr records, S0)"
    and w: "write_account_index X lib (filter (\<lambda>r. rec_account_id r \<noteq> a) records) S0 = (Inr (), S')"
    using assms(3) by (auto simp: remove_account_record_def step_do_Inr_iff)
  have S0: "cs_secrets S0 = cs_secrets S" "cs_credentials S0 = cs_credentials S" "cs_migrated S0 = cs_migrated S"
    using i by (auto simp: read_account_index_def split: option.splits sum.splits)
  have idx: "ACCOUNT_INDEX_ACCOUNT \<in> names" using assms(1) by (simp add: codex_laws_def)
  let ?rest = "filter (\<lambda>r. rec_account_id r \<noteq> a) records"
  obtain s where s: "S' = S0\<lparr>cs_secrets := s, cs_records := Some ?rest\<rparr>" "touches {ACCOUNT_INDEX_ACCOUNT} (cs_secrets S) s"
    using w S0(1) put_touches [OF assms(2) idx] remove_touches [OF assms(2) idx]
    by (auto simp: write_account_index_def step_do_Inr_iff set_text_parts delete_text_parts split: if_splits)
  with S0 show ?thesis by auto
qed

end

text \<open>
  Signing out forgets the account. When \<open>logout\<close> succeeds, the account is no longer in the
  index, asking for it is answered with \<open>AccountNotFound\<close>, and its credentials are found neither
  in the cache nor in the store.
\<close>

theorem logout_forgets_the_account:
  assumes "secret_store (sec_get L) (sec_set L) (sec_delete L) names storable working"
    and "codex_laws X names storable" "working (cs_secrets S)" "cs_migrated S"
    and "trim a = a" "codex_logout X L a S = (Inr (), S')"
  shows "resolve_account_id X L (Some a) S'
      = (Inl (auth_error_new AccountNotFound ''The requested Codex account is not signed in.''), S')
    \<and> read_credentials X L a S' = (Inl missing_credentials, S')"
proof -
  note store = assms(1) and lib = secret_store_lib [OF assms(1)]
  obtain S1 where d: "delete_account_credentials X L a S = (Inr (), S1)"
    and r: "remove_account_record X L a S1 = (Inr (), S')" and a: "a \<noteq> []"
    using assms(5,6) by (auto simp: codex_logout_def step_do_Inr_iff split: if_splits)
  note one = secret_store.deleted_credentials [OF store assms(2,3), unfolded lib, OF d]
  obtain records where two: "cs_records S' = Some records" "a \<notin> rec_account_id ` set records"
    "cs_credentials S' = cs_credentials S1" "cs_migrated S' = cs_migrated S1"
    "secret_store.touches (sec_get L) names working {ACCOUNT_INDEX_ACCOUNT} (cs_secrets S1) (cs_secrets S')"
    using secret_store.removed_record [OF store assms(2) _ , unfolded lib, OF _ r] one by blast
  have "account_secret_account X a ''access-token'' \<in> names"
    using assms(2) unfolding codex_laws_def account_names_def credential_kinds_def by auto
  then have "sec_get L (account_secret_account X a ''access-token'') (cs_secrets S') = Inr None"
    using secret_store.touches_get [OF store two(5)] one by (simp add: credential_kinds_def)
  then have "read_credentials X L a S' = (Inl missing_credentials, S')"
    using one two assms(4) by (simp add: read_credentials_def ensure_legacy_credentials_migrated_def
        read_scoped_credentials_def scoped_text_def get_text_def)
  moreover have "\<not> list_ex (\<lambda>r. rec_account_id r = a) records" using two(2) by (auto simp: list_ex_iff)
  ultimately show ?thesis
    using one two(1,4) assms(4,5) a
    by (simp add: resolve_account_id_def account_records_def ensure_legacy_credentials_migrated_def
        read_account_index_def choose_account_def)
qed

text \<open>
  Which account is meant. An account that is named must be signed in; with no name there must
  be exactly one account, never a guess among several.
\<close>

theorem account_is_never_guessed:
  "(choose_account records requested = Inr a) =
     (case opt_filter (\<lambda>a. a \<noteq> []) (map_option trim requested) of
        Some name \<Rightarrow> a = name \<and> name \<in> rec_account_id ` set records
      | None \<Rightarrow> map rec_account_id records = [a])"
  by (auto simp: choose_account_def list_ex_iff split: option.split list.split)

section \<open>Accounts in memory\<close>

text \<open>A token names its account in its middle part; codecs number what they print.\<close>

definition record_pair :: "account_record \<Rightarrow> str \<times> str option" where
  "record_pair r = (rec_account_id r, rec_account_email r)"

definition pair_record :: "str \<times> str option \<Rightarrow> account_record" where
  "pair_record p = \<lparr>rec_account_id = fst p, rec_account_email = snd p\<rparr>"

definition sample_codex :: codex_lib where
  "sample_codex =
     \<lparr>cx_sha256 = (\<lambda>a. a), cx_base64 = Some,
      cx_json = (\<lambda>s. Some (json_obj [(''https://api.openai.com/auth'',
         json_obj [(''chatgpt_account_id'', JString s)])])),
      cx_parse_tokens = (\<lambda>_. None),
      cx_print_records = (\<lambda>rs. CHR ''x'' # replicate (to_nat (map record_pair rs)) (CHR ''1'')),
      cx_parse_records = (\<lambda>s. Some (map pair_record (from_nat (length s - 1)))),
      cx_print_metadata = (\<lambda>n. CHR ''x'' # replicate (unat n) (CHR ''1'')),
      cx_parse_metadata = (\<lambda>s. Some (word_of_nat (length s - 1)))\<rparr>"

lemma trim_all_graphic: "list_all graphic s \<Longrightarrow> trim s = s"
  by (rule trim_graphic) (simp_all add: list_all_iff)

lemma sample_codex_laws: "codex_laws sample_codex UNIV (\<lambda>_. True)"
proof -
  have "trim (CHR ''x'' # replicate n (CHR ''1'')) = CHR ''x'' # replicate n (CHR ''1'')" for n
    by (rule trim_all_graphic) (simp add: graphic_def list_all_iff)
  moreover have "map (pair_record \<circ> record_pair) rs = rs" for rs
    by (rule map_idI) (simp add: pair_record_def record_pair_def)
  ultimately show ?thesis by (simp add: codex_laws_def sample_codex_def)
qed

definition memory_lib :: "memory_secrets secret_lib" where
  "memory_lib = \<lparr>sec_get = memory_secret_get, sec_set = memory_secret_set, sec_delete = memory_secret_delete\<rparr>"

lemma memory_lib_store: "secret_store (sec_get memory_lib) (sec_set memory_lib) (sec_delete memory_lib) UNIV (\<lambda>_. True) (\<lambda>_. True)"
  using memory_secrets.secret_store_axioms by (simp add: memory_lib_def)

definition sample_credentials :: codex_credentials where
  "sample_credentials = \<lparr>cred_access_token = ''a'', cred_refresh_token = ''r'', cred_id_token = ''h.acct.s'',
     cred_last_refresh_at = 1\<rparr>"

definition sample_accounts :: "memory_secrets codex_store" where
  "sample_accounts = (store_new [])\<lparr>cs_migrated := True\<rparr>"

lemma sample_claim: "account_claim sample_codex ''h.acct.s'' = Some ''acct''"
  by (simp add: account_claim_def id_token_auth_claim_def jwt_payload_def sample_codex_def get_str_def)

lemma sample_stored: "\<exists>S'. store_credentials sample_codex memory_lib ''acct'' sample_credentials sample_accounts = (Inr (), S')"
  by (simp add: store_credentials_def sample_claim store_scoped_credentials_def upsert_account_record_def set_text_def
      read_account_index_def write_account_index_def sample_accounts_def get_text_def memory_lib_def
      memory_secret_set_def memory_secret_get_def account_secret_account_def ACCOUNT_INDEX_ACCOUNT_def
      sample_credentials_def)

lemma sample_can_store: "can_store (\<lambda>_. True) sample_credentials"
  by (simp add: can_store_def sample_credentials_def trim_graphic graphic_def)

lemma sample_trim: "trim ''acct'' = ''acct''"
  by (simp add: trim_graphic graphic_def)

lemma memory_store_succeeds:
  assumes "cs_records S = Some rs" "account_claim X (cred_id_token c) = Some a"
  shows "\<exists>S'. store_credentials X memory_lib a c S = (Inr (), S')"
  using assms by (simp add: store_credentials_def store_scoped_credentials_def upsert_account_record_def set_text_def
      read_account_index_def write_account_index_def memory_lib_def memory_secret_set_def)

definition other_credentials :: codex_credentials where
  "other_credentials = sample_credentials\<lparr>cred_id_token := ''h.other.s''\<rparr>"

text \<open>A second account is stored beside the first; a later process still finds the first and its credentials.\<close>

theorem stored_account_is_found_again_witness:
  "\<exists>S1 S2. store_credentials sample_codex memory_lib ''other'' other_credentials sample_accounts = (Inr (), S1)
     \<and> store_credentials sample_codex memory_lib ''acct'' sample_credentials S1 = (Inr (), S2)
     \<and> (\<exists>P. read_credentials sample_codex memory_lib ''acct'' (store_new (cs_secrets S2)) = (Inr sample_credentials, P))
     \<and> fst (resolve_account_id sample_codex memory_lib (Some ''other'') (store_new (cs_secrets S2))) = Inr ''other''
     \<and> read_scoped_credentials sample_codex memory_lib ''other'' (cs_secrets S2) = Inr other_credentials"
proof -
  have claim: "account_claim sample_codex (cred_id_token other_credentials) = Some ''other''"
    "account_claim sample_codex (cred_id_token sample_credentials) = Some ''acct''"
    by (simp_all add: account_claim_def id_token_auth_claim_def jwt_payload_def sample_codex_def get_str_def
        other_credentials_def sample_credentials_def)
  have can: "can_store (\<lambda>_. True) other_credentials"
    by (simp add: can_store_def other_credentials_def sample_credentials_def trim_graphic graphic_def)
  have trim: "trim ''other'' = ''other''" by (simp add: trim_graphic graphic_def)
  obtain S1 where s1: "store_credentials sample_codex memory_lib ''other'' other_credentials sample_accounts = (Inr (), S1)"
    using claim(1) by (auto simp: store_credentials_def store_scoped_credentials_def upsert_account_record_def set_text_def
        read_account_index_def write_account_index_def sample_accounts_def get_text_def memory_lib_def
        memory_secret_set_def memory_secret_get_def account_secret_account_def ACCOUNT_INDEX_ACCOUNT_def)
  note one = secret_store.stored_credentials [OF memory_lib_store sample_codex_laws TrueI can,
      unfolded secret_store_lib [OF memory_lib_store], OF s1]
  then obtain rs where S1: "cs_migrated S1" "cs_records S1 = Some rs" "''other'' \<in> rec_account_id ` set rs"
    "read_scoped_credentials sample_codex memory_lib ''other'' (cs_secrets S1) = Inr other_credentials"
    by (auto simp: sample_accounts_def)
  have old: "sec_get memory_lib LEGACY_ID_TOKEN_ACCOUNT (cs_secrets S1) = Inr None"
  proof -
    have "sec_get memory_lib LEGACY_ID_TOKEN_ACCOUNT (cs_secrets S1) = sec_get memory_lib LEGACY_ID_TOKEN_ACCOUNT (cs_secrets sample_accounts)"
      using one secret_store.touches_get [OF memory_lib_store, of "insert ACCOUNT_INDEX_ACCOUNT (account_names sample_codex ''other'')"]
      by (auto simp: account_names_iff)
    then show ?thesis by (simp add: sample_accounts_def memory_lib_def memory_secret_get_def)
  qed
  have ap: "apart sample_codex ''acct'' ''other''"
    by (auto simp: apart_def account_names_iff account_secret_account_def sample_codex_def)
  obtain S2 where s2: "store_credentials sample_codex memory_lib ''acct'' sample_credentials S1 = (Inr (), S2)"
    using memory_store_succeeds [OF S1(2) claim(2)] by blast
  have "fst (resolve_account_id sample_codex memory_lib (Some ''other'') S1) = Inr ''other''"
    using S1(1-3) trim by (simp add: resolve_account_id_def account_records_def ensure_legacy_credentials_migrated_def
        read_account_index_def chosen_by_name)
  with stored_account_is_found_again [OF memory_lib_store sample_codex_laws TrueI sample_can_store S1(1) old sample_trim _ ap s2, of "''other''"]
    S1(4) s1 s2 trim
  show ?thesis by auto
qed

theorem logout_forgets_the_account_witness:
  "\<exists>S1 S2. store_credentials sample_codex memory_lib ''acct'' sample_credentials sample_accounts = (Inr (), S1)
     \<and> codex_logout sample_codex memory_lib ''acct'' S1 = (Inr (), S2)
     \<and> read_credentials sample_codex memory_lib ''acct'' S2 = (Inl missing_credentials, S2)"
proof -
  obtain S1 where s: "store_credentials sample_codex memory_lib ''acct'' sample_credentials sample_accounts = (Inr (), S1)"
    using sample_stored by blast
  then have S1: "cs_migrated S1" "\<exists>rs. cs_records S1 = Some rs"
    using secret_store.stored_credentials [OF memory_lib_store sample_codex_laws TrueI sample_can_store,
        unfolded secret_store_lib [OF memory_lib_store], OF s]
    by (auto simp: sample_accounts_def)
  have "\<exists>S2. codex_logout sample_codex memory_lib ''acct'' S1 = (Inr (), S2)"
    using S1(2) by (auto simp: codex_logout_def Let_def sample_trim delete_account_credentials_def credential_kinds_def
        delete_text_def memory_lib_def memory_secret_delete_def memory_secret_set_def remove_account_record_def
        read_account_index_def write_account_index_def set_text_def)
  then obtain S2 where l: "codex_logout sample_codex memory_lib ''acct'' S1 = (Inr (), S2)" by blast
  from logout_forgets_the_account [OF memory_lib_store sample_codex_laws TrueI S1(1) sample_trim l] s l
  show ?thesis by blast
qed

end
