(* ===== verification/Codex_Auth.thy ===== *)
theory Codex_Auth
  imports Codex_Store
begin

text \<open>
  Signing in and refreshing Codex accounts: the requests to the authorisation server
  (\<open>codex/oauth.rs\<close>), the callback of the browser (\<open>codex/callback.rs\<close>), the manager with its one
  login at a time and the sections of a refresh (\<open>codex/mod.rs\<close>), and credentials as
  providers use them (\<open>credential.rs\<close>). The transport, the parser of URLs, the clock and the
  random verifier are parameters.
\<close>

section \<open>The authorisation server\<close>

definition AUTHORIZATION_URL :: str where
  "AUTHORIZATION_URL = ''https://auth.openai.com/oauth/authorize''"
definition TOKEN_URL :: str where
  "TOKEN_URL = ''https://auth.openai.com/oauth/token''"
definition CLIENT_ID :: str where
  "CLIENT_ID = ''app_EMoamEEZ73f0CkXaXp7hrann''"
definition OAUTH_SCOPE :: str where
  "OAUTH_SCOPE = ''openid profile email offline_access api.connectors.read api.connectors.invoke''"
definition AUTHORIZE_ORIGINATOR :: str where
  "AUTHORIZE_ORIGINATOR = ''codex_cli_rs''"

record token_http_response =
  thr_status :: nat
  thr_body :: str

record 'n token_transport =
  tt_post_form :: "str \<Rightarrow> (str \<times> str) list \<Rightarrow> 'n \<Rightarrow> (auth_error + token_http_response) \<times> 'n"
  tt_post_json :: "str \<Rightarrow> json \<Rightarrow> 'n \<Rightarrow> (auth_error + token_http_response) \<times> 'n"
  tt_now :: "'n \<Rightarrow> u64"

text \<open>The query of the authorisation URL, in order.\<close>

definition authorization_query :: "str \<Rightarrow> str \<Rightarrow> str \<Rightarrow> (str \<times> str) list" where
  "authorization_query redirect_uri challenge st =
     [(''response_type'', ''code''), (''client_id'', CLIENT_ID), (''redirect_uri'', redirect_uri),
      (''scope'', OAUTH_SCOPE), (''code_challenge'', challenge), (''code_challenge_method'', ''S256''),
      (''id_token_add_organizations'', ''true''), (''codex_cli_simplified_flow'', ''true''),
      (''state'', st), (''originator'', AUTHORIZE_ORIGINATOR)]"

definition oauth_error :: "codex_lib \<Rightarrow> nat \<Rightarrow> str \<Rightarrow> auth_error_kind \<Rightarrow> auth_error" where
  "oauth_error X status body kind =
     (let error = unwrap_or [] (map_option to_ascii_lowercase
            (Option.bind (cx_json X body) (\<lambda>v. get_str v ''error'')))
      in auth_error_new kind
        (if contains_str error ''access_denied'' then ''Codex authorization was not completed.''
         else if contains_str error ''invalid_grant'' then ''Codex authorization is expired or already used.''
         else if status = 429 then ''Codex authorization is rate limited. Try again later.''
         else if 500 \<le> status \<and> status < 600 then ''Codex authorization is temporarily unavailable.''
         else if status = 401 \<or> status = 403 then ''Codex authorization is no longer valid.''
         else ''Codex authorization failed.''))"

definition redacted_error :: "str list \<Rightarrow> auth_error \<Rightarrow> auth_error" where
  "redacted_error secrets e = auth_error_new (auth_kind e) (redact_known (auth_message e) secrets)"

text \<open>The answer of the server, to the exchange of a code or to a refresh.\<close>

definition token_answer ::
    "codex_lib \<Rightarrow> u64 \<Rightarrow> auth_error_kind \<Rightarrow> str \<Rightarrow> str list \<Rightarrow> codex_credentials option
       \<Rightarrow> auth_error + token_http_response \<Rightarrow> auth_error + codex_credentials" where
  "token_answer X now kind invalid secrets fallback answer =
     res_bind (map_err (redacted_error secrets) answer) (\<lambda>response.
       if \<not> (200 \<le> thr_status response \<and> thr_status response < 300)
       then Inl (oauth_error X (thr_status response) (thr_body response) kind)
       else res_bind (ok_or (auth_error_new kind invalid) (cx_parse_tokens X (thr_body response))) (\<lambda>tokens.
              credentials_from_tokens X now tokens fallback))"

definition exchange_authorization_code ::
    "codex_lib \<Rightarrow> 'n token_transport \<Rightarrow> str \<Rightarrow> str \<Rightarrow> str \<Rightarrow> 'n \<Rightarrow> (auth_error + codex_credentials) \<times> 'n" where
  "exchange_authorization_code X T code redirect_uri verifier n =
     (case tt_post_form T TOKEN_URL
        [(''grant_type'', ''authorization_code''), (''code'', code), (''redirect_uri'', redirect_uri),
         (''client_id'', CLIENT_ID), (''code_verifier'', verifier)] n of
        (answer, n') \<Rightarrow>
          (token_answer X (tt_now T n') AuthTokenExchange ''Codex OAuth response is invalid.'' [code, verifier]
             None answer, n'))"

definition refresh_tokens ::
    "codex_lib \<Rightarrow> 'n token_transport \<Rightarrow> codex_credentials \<Rightarrow> 'n \<Rightarrow> (auth_error + codex_credentials) \<times> 'n" where
  "refresh_tokens X T current n =
     (case tt_post_json T TOKEN_URL
        (json_obj [(''client_id'', JString CLIENT_ID), (''grant_type'', JString ''refresh_token''),
          (''refresh_token'', JString (cred_refresh_token current))]) n of
        (answer, n') \<Rightarrow>
          (token_answer X (tt_now T n') AuthTokenRefresh ''Codex OAuth refresh response is invalid.''
             [cred_refresh_token current] (Some current) answer, n'))"

section \<open>The callback\<close>

definition CALLBACK_PATH :: str where
  "CALLBACK_PATH = ''/auth/callback''"

text \<open>A parsed target: its path and the pairs of its query; of a repeated key the last counts.\<close>

definition callback_code_from_target ::
    "(str \<Rightarrow> (str \<times> (str \<times> str) list) option) \<Rightarrow> str \<Rightarrow> str \<Rightarrow> auth_error + str" where
  "callback_code_from_target parse_url target expected_state =
     (case parse_url (''http://localhost'' @ target) of
        None \<Rightarrow> Inl (auth_error_new AuthCallbackProtocol ''Codex login callback address is invalid.'')
      | Some (path, pairs) \<Rightarrow>
     (let params = map_of (rev pairs) in
      if path \<noteq> CALLBACK_PATH
      then Inl (auth_error_new AuthCallbackProtocol ''Codex login callback path is invalid.'')
      else if params ''state'' \<noteq> Some expected_state
      then Inl (auth_error_new AuthStateMismatch ''Codex login callback state did not match.'')
      else (case params ''error'' of
        Some error \<Rightarrow>
          Inl (auth_error_new AuthCallbackProtocol
            (''Codex authorization failed: '' @ unwrap_or error (params ''error_description'')))
      | None \<Rightarrow>
          ok_or (auth_error_new AuthCallbackProtocol ''Codex login callback is missing the authorization code.'')
            (opt_filter (\<lambda>code. trim code \<noteq> []) (params ''code'')))))"

text \<open>
  What comes in on the connection: the pieces that are read, the last one empty at the end, or
  the error of a read. Reading stops at the end of the headers or after 16 KiB.
\<close>

definition request_complete :: "str \<Rightarrow> bool" where
  "request_complete request =
     (16 * 1024 \<le> length request \<or> contains_str request [CHR 0x0D, CHR 0x0A, CHR 0x0D, CHR 0x0A])"

fun read_request :: "str \<Rightarrow> (auth_error + str) list \<Rightarrow> auth_error + str" where
  "read_request request [] = Inr request"
| "read_request request (x # xs) =
     (if request_complete request then Inr request
      else case x of
        Inl e \<Rightarrow> Inl e
      | Inr piece \<Rightarrow> if piece = [] then Inr request else read_request (request @ piece) xs)"

text \<open>\<open>lines().next()\<close> and \<open>split_whitespace().nth(1)\<close>.\<close>

definition first_line :: "str \<Rightarrow> str" where
  "first_line s =
     (let l = takeWhile (\<lambda>c. c \<noteq> CHR 0x0A) s in
      if length l < length s then unwrap_or l (strip_suffix [CHR 0x0D] l) else l)"

fun split_word :: "str \<Rightarrow> str \<times> str" where
  "split_word [] = ([], [])"
| "split_word (c # cs) =
     (if strip_any white_space (c # cs) \<noteq> None then ([], c # cs)
      else case split_word cs of (w, rest) \<Rightarrow> (c # w, rest))"

definition second_word :: "str \<Rightarrow> str" where
  "second_word s = fst (split_word (trim_start (snd (split_word (trim_start s)))))"

text \<open>Only the first connection is looked at; \<open>accepted\<close> is what comes of waiting for it.\<close>

definition wait_for_callback ::
    "(str \<Rightarrow> (str \<times> (str \<times> str) list) option) \<Rightarrow> auth_error + (auth_error + str) list \<Rightarrow> str \<Rightarrow> auth_error + str" where
  "wait_for_callback parse_url accepted expected_state =
     res_bind accepted (\<lambda>pieces.
     res_bind (read_request [] pieces) (\<lambda>request.
       callback_code_from_target parse_url (second_word (first_line (from_utf8_lossy request))) expected_state))"

text \<open>
  C34. A login accepts the code of its own request only. The callback yields a code exactly when
  the address of the first connection has the path and the state of this login, reports no
  error, and carries a code that is not blank.
\<close>

theorem callback_needs_the_state:
  "wait_for_callback parse_url (Inr pieces) expected_state = Inr code \<longleftrightarrow>
     (\<exists>request pairs. read_request [] pieces = Inr request
        \<and> parse_url (''http://localhost'' @ second_word (first_line (from_utf8_lossy request))) = Some (CALLBACK_PATH, pairs)
        \<and> map_of (rev pairs) ''state'' = Some expected_state \<and> map_of (rev pairs) ''error'' = None
        \<and> map_of (rev pairs) ''code'' = Some code \<and> trim code \<noteq> [])"
proof -
  have "callback_code_from_target parse_url target expected_state = Inr code \<longleftrightarrow>
      (\<exists>pairs. parse_url (''http://localhost'' @ target) = Some (CALLBACK_PATH, pairs)
        \<and> map_of (rev pairs) ''state'' = Some expected_state \<and> map_of (rev pairs) ''error'' = None
        \<and> map_of (rev pairs) ''code'' = Some code \<and> trim code \<noteq> [])" for target
    by (auto simp: callback_code_from_target_def Let_def opt_filter_def ok_or_def split: option.splits if_splits)
  then show ?thesis by (auto simp: wait_for_callback_def res_bind_Inr_iff)
qed

section \<open>The manager\<close>

definition REFRESH_WINDOW_SECS :: u64 where
  "REFRESH_WINDOW_SECS = 300"

definition UNKNOWN_EXPIRY_REFRESH_SECS :: u64 where
  "UNKNOWN_EXPIRY_REFRESH_SECS = 8 * 24 * 60 * 60"

definition saturating_sub :: "u64 \<Rightarrow> u64 \<Rightarrow> u64" where
  "saturating_sub a b = (if b \<le> a then a - b else 0)"

definition should_refresh :: "codex_lib \<Rightarrow> u64 \<Rightarrow> codex_credentials \<Rightarrow> bool" where
  "should_refresh X now c =
     (case access_token_expiry X (cred_access_token c) of
        Some expiry \<Rightarrow> expiry \<le> saturating_add now REFRESH_WINDOW_SECS
      | None \<Rightarrow> cred_last_refresh_at c = 0
          \<or> saturating_sub now (cred_last_refresh_at c) \<ge> UNKNOWN_EXPIRY_REFRESH_SECS)"

text \<open>
  The sections of a refresh: what is looked at under the lock of the account, and what is done
  with the answer of the server. Others use the store while it is awaited. \<open>refresh_credentials\<close> puts
  them together for a call that nothing interferes with; the lock, and calls that run together,
  are in \<open>Codex_Locks\<close>.
\<close>

definition refresh_look ::
    "codex_lib \<Rightarrow> 's secret_lib \<Rightarrow> u64 \<Rightarrow> str \<Rightarrow> bool \<Rightarrow> 's codex_store
       \<Rightarrow> (auth_error + codex_credentials \<times> bool) \<times> 's codex_store" where
  "refresh_look X L now account force S =
     step_do (read_credentials X L account S) (\<lambda>current S'.
       (Inr (current, force \<or> should_refresh X now current), S'))"

definition refresh_store ::
    "codex_lib \<Rightarrow> 's secret_lib \<Rightarrow> str \<Rightarrow> codex_credentials \<Rightarrow> 's codex_store
       \<Rightarrow> (auth_error + codex_credentials) \<times> 's codex_store" where
  "refresh_store X L account refreshed S =
     (if account_claim X (cred_id_token refreshed) \<noteq> Some account
      then (Inl (auth_error_new AuthTokenRefresh
              ''Refreshed Codex credentials do not match the selected account.''), S)
      else step_do (store_credentials X L account refreshed S) (\<lambda>_ S'. (Inr refreshed, S')))"

definition refresh_credentials ::
    "codex_lib \<Rightarrow> 's secret_lib \<Rightarrow> 'n token_transport \<Rightarrow> str option \<Rightarrow> bool \<Rightarrow> 's codex_store \<times> 'n
       \<Rightarrow> (auth_error + codex_credentials) \<times> 's codex_store \<times> 'n" where
  "refresh_credentials X L T requested force = (\<lambda>(S0, n).
     case resolve_account_id X L requested S0 of
       (Inl e, S1) \<Rightarrow> (Inl e, S1, n)
     | (Inr account, S1) \<Rightarrow>
         (case refresh_look X L (tt_now T n) account force S1 of
            (Inl e, S2) \<Rightarrow> (Inl e, S2, n)
          | (Inr (current, needed), S2) \<Rightarrow>
              if \<not> needed then (Inr current, S2, n)
              else (case refresh_tokens X T current n of
                 (Inl e, n') \<Rightarrow> (Inl e, S2, n')
               | (Inr refreshed, n') \<Rightarrow>
                   (case refresh_store X L account refreshed S2 of (x, S3) \<Rightarrow> (x, S3, n')))))"

text \<open>What a provider is given as its credential: \<open>bearer\<close> and \<open>force_refresh\<close>.\<close>

definition oauth_bearer ::
    "codex_lib \<Rightarrow> 's secret_lib \<Rightarrow> 'n token_transport \<Rightarrow> str \<Rightarrow> bool \<Rightarrow> 's codex_store \<times> 'n
       \<Rightarrow> (auth_error + str) \<times> 's codex_store \<times> 'n" where
  "oauth_bearer X L T account force w =
     (case refresh_credentials X L T (Some account) force w of (x, w') \<Rightarrow> (map_sum id cred_access_token x, w'))"

text \<open>A fixed token; refreshing it gives it again.\<close>

definition static_bearer :: "str \<Rightarrow> auth_error + str" where
  "static_bearer token = Inr token"

definition account_status ::
    "codex_lib \<Rightarrow> 's secret_lib \<Rightarrow> u64 \<Rightarrow> str \<Rightarrow> 's codex_store
       \<Rightarrow> (auth_error + codex_auth_status) \<times> 's codex_store" where
  "account_status X L now account S =
     step_do (account_records X L S) (\<lambda>records S'.
       (res_bind (ok_or (auth_error_new AccountNotFound ''The requested Codex account is not signed in.'')
            (find (\<lambda>r. rec_account_id r = account) records))
          (\<lambda>r. status_from_storage X L now r (cs_secrets S')), S'))"

fun statuses ::
    "codex_lib \<Rightarrow> 's secret_lib \<Rightarrow> u64 \<Rightarrow> account_record list \<Rightarrow> 's \<Rightarrow> auth_error + codex_account list" where
  "statuses X L now [] s = Inr []"
| "statuses X L now (r # rs) s =
     res_bind (status_from_storage X L now r s) (\<lambda>st.
     res_bind (statuses X L now rs s) (\<lambda>accounts. Inr (sta_account st # accounts)))"

definition accounts ::
    "codex_lib \<Rightarrow> 's secret_lib \<Rightarrow> u64 \<Rightarrow> 's codex_store
       \<Rightarrow> (auth_error + codex_account list) \<times> 's codex_store" where
  "accounts X L now S =
     step_do (account_records X L S) (\<lambda>records S'. (statuses X L now records (cs_secrets S'), S'))"

definition refresh_account ::
    "codex_lib \<Rightarrow> 's secret_lib \<Rightarrow> 'n token_transport \<Rightarrow> str option \<Rightarrow> bool \<Rightarrow> 's codex_store \<times> 'n
       \<Rightarrow> (auth_error + codex_auth_status) \<times> 's codex_store \<times> 'n" where
  "refresh_account X L T requested force = (\<lambda>(S0, n0).
     case resolve_account_id X L requested S0 of
       (Inl e, S1) \<Rightarrow> (Inl e, S1, n0)
     | (Inr account, S1) \<Rightarrow>
         (case refresh_credentials X L T (Some account) force (S1, n0) of
            (Inl e, S2, n) \<Rightarrow> (Inl e, S2, n)
          | (Inr c, S2, n) \<Rightarrow>
              (case account_status X L (tt_now T n) account S2 of (x, S3) \<Rightarrow> (x, S3, n))))"

section \<open>Logging in\<close>

text \<open>
  The flag of the manager: \<open>begin_login\<close> sets it, and \<open>wait\<close> and \<open>cancel\<close> clear it. What binds the
  port and what makes the URL of the authorisation are parameters; an attempt is what it holds
  of them. Of a finished attempt the listener is gone.
\<close>

definition begin_login ::
    "auth_error + 'l \<Rightarrow> ('l \<Rightarrow> auth_error + 'u) \<Rightarrow> bool \<Rightarrow> (auth_error + 'l \<times> 'u) \<times> bool" where
  "begin_login bound authorize in_progress =
     (if in_progress then (Inl (auth_error_new AuthBrowser ''A Codex login is already in progress.''), True)
      else case bound of
        Inl e \<Rightarrow> (Inl e, False)
      | Inr l \<Rightarrow> (case authorize l of Inl e \<Rightarrow> (Inl e, False) | Inr u \<Rightarrow> (Inr (l, u), True)))"

text \<open>\<open>complete\<close>, given what the callback brought: the code or why there is none.\<close>

definition complete_login ::
    "codex_lib \<Rightarrow> 's secret_lib \<Rightarrow> 'n token_transport \<Rightarrow> auth_error + str \<Rightarrow> str \<Rightarrow> str \<Rightarrow> 's codex_store \<times> 'n
       \<Rightarrow> (auth_error + codex_account) \<times> 's codex_store \<times> 'n" where
  "complete_login X L T callback redirect_uri verifier = (\<lambda>(S0, n0).
     case callback of Inl e \<Rightarrow> (Inl e, S0, n0) | Inr code \<Rightarrow>
     case exchange_authorization_code X T code redirect_uri verifier n0 of
       (Inl e, n) \<Rightarrow> (Inl e, S0, n)
     | (Inr c, n) \<Rightarrow>
         (case account_claim X (cred_id_token c) of
            None \<Rightarrow> (Inl (auth_error_new AuthTokenExchange ''Codex ID token is missing a ChatGPT account id.''), S0, n)
          | Some account \<Rightarrow>
              (case store_credentials X L account c S0 of
                 (Inl e, S1) \<Rightarrow> (Inl e, S1, n)
               | (Inr _, S1) \<Rightarrow>
                   (case account_status X L (tt_now T n) account S1 of
                      (x, S2) \<Rightarrow> (map_sum id sta_account x, S2, n)))))"

definition login_wait ::
    "codex_lib \<Rightarrow> 's secret_lib \<Rightarrow> 'n token_transport \<Rightarrow> ('l \<Rightarrow> auth_error + str) \<Rightarrow> 'l option \<Rightarrow> str \<Rightarrow> str
       \<Rightarrow> bool \<times> 's codex_store \<times> 'n \<Rightarrow> (auth_error + codex_account) \<times> bool \<times> 's codex_store \<times> 'n" where
  "login_wait X L T callback listener redirect_uri verifier = (\<lambda>(in_progress, w).
     case listener of
       None \<Rightarrow> (Inl (auth_error_new AuthCancelled ''Codex login attempt is no longer active.''), False, w)
     | Some l \<Rightarrow> (case complete_login X L T (callback l) redirect_uri verifier w of (x, w') \<Rightarrow> (x, False, w')))"

definition login_cancel :: "bool \<Rightarrow> bool" where
  "login_cancel in_progress = False"

text \<open>An account whose tokens the host already has.\<close>

definition seed_account ::
    "codex_lib \<Rightarrow> 's secret_lib \<Rightarrow> u64 \<Rightarrow> str \<Rightarrow> str \<Rightarrow> str \<Rightarrow> str \<Rightarrow> 's codex_store
       \<Rightarrow> (auth_error + codex_account) \<times> 's codex_store" where
  "seed_account X L now account access refresh id_token S =
     step_do (store_credentials X L account
         \<lparr>cred_access_token = access, cred_refresh_token = refresh, cred_id_token = id_token,
          cred_last_refresh_at = now\<rparr> S) (\<lambda>_ S1.
     case account_status X L now account S1 of (x, S2) \<Rightarrow> (map_sum id sta_account x, S2))"

section \<open>What a refresh leaves\<close>

lemma set_text_frame: "set_text L k v S = (x, S') \<Longrightarrow> S' = S\<lparr>cs_secrets := cs_secrets S'\<rparr>"
  by (auto simp: set_text_parts)

lemma store_scoped_frame:
  assumes "store_scoped_credentials X L a c S = (x, S')"
  shows "S' = S\<lparr>cs_secrets := cs_secrets S'\<rparr>"
proof -
  have step: "S' = S\<lparr>cs_secrets := cs_secrets S'\<rparr>"
    if "step_do (set_text L k v S) f = (x, S')" "\<And>y S1. f y S1 = (x, S') \<Longrightarrow> S' = S1\<lparr>cs_secrets := cs_secrets S'\<rparr>"
    for k v f and S :: "'a codex_store" and x :: "auth_error + unit"
  proof -
    obtain y S1 where s: "set_text L k v S = (y, S1)" by (metis surj_pair)
    note S1 = set_text_frame [OF s]
    show ?thesis
    proof (cases y)
      case (Inr u)
      with that s have "S' = S1\<lparr>cs_secrets := cs_secrets S'\<rparr>" by simp
      with S1 show ?thesis by (metis codex_store.surjective codex_store.update_convs(1))
    qed (use that(1) s S1 in simp)
  qed
  show ?thesis
    by (rule step [OF assms [unfolded store_scoped_credentials_def]], rule step, assumption, rule step, assumption)
      (rule set_text_frame)
qed

lemma read_index_cached: "cs_records S = Some rs \<Longrightarrow> read_account_index X L S = (Inr rs, S)"
  by (simp add: read_account_index_def)

lemma migrated_ensure: "cs_migrated S \<Longrightarrow> ensure_legacy_credentials_migrated X L S = (Inr (), S)"
  by (simp add: ensure_legacy_credentials_migrated_def)

text \<open>An account that is in the cache with its credentials.\<close>

definition cached :: "str \<Rightarrow> account_record list \<Rightarrow> codex_credentials \<Rightarrow> 's codex_store \<Rightarrow> bool" where
  "cached a rs c S = (cs_migrated S \<and> cs_records S = Some rs \<and> map_of (cs_credentials S) a = Some c)"

lemma resolved:
  assumes "resolve_account_id X L requested S = (Inr a, S1)"
  obtains rs where "cs_migrated S1" "cs_records S1 = Some rs" "choose_account rs requested = Inr a"
proof -
  obtain S0 rs where e: "ensure_legacy_credentials_migrated X L S = (Inr (), S0)"
    and r: "read_account_index X L S0 = (Inr rs, S1)" and c: "choose_account rs requested = Inr a"
    using assms by (auto simp: resolve_account_id_def account_records_def step_do_Inr_iff)
  have "cs_migrated S0"
    using e by (auto simp: ensure_legacy_credentials_migrated_def step_do_Inr_iff split: if_splits)
  with r c that show ?thesis
    by (auto simp: read_account_index_def split: option.splits sum.splits)
qed

lemma resolve_cached:
  "cs_migrated S \<Longrightarrow> cs_records S = Some rs \<Longrightarrow> resolve_account_id X L requested S = (choose_account rs requested, S)"
  by (simp add: resolve_account_id_def account_records_def migrated_ensure read_index_cached)

lemma read_cached:
  assumes "cs_migrated S" "cs_records S = Some rs" "read_credentials X L a S = (Inr c, S')"
  shows "cached a rs c S' \<and> cs_secrets S' = cs_secrets S"
  using assms by (auto simp: read_credentials_def migrated_ensure cached_def split: option.splits sum.splits)

lemma cached_read: "cached a rs c S \<Longrightarrow> read_credentials X L a S = (Inr c, S)"
  by (simp add: cached_def read_credentials_def migrated_ensure)

lemma stored_cached:
  assumes "cs_migrated S" "cs_records S = Some rs" "store_credentials X L a c S = (Inr (), S')"
  shows "cached a (upsert \<lparr>rec_account_id = a, rec_account_email = id_token_email X (cred_id_token c)\<rparr> rs) c S'"
proof -
  let ?r = "\<lparr>rec_account_id = a, rec_account_email = id_token_email X (cred_id_token c)\<rparr>"
  obtain S1 S2 where s1: "store_scoped_credentials X L a c S = (Inr (), S1)"
    and s2: "upsert_account_record X L ?r S1 = (Inr (), S2)"
    and S': "S' = S2\<lparr>cs_credentials := AList.update a c (cs_credentials S2)\<rparr>"
    using assms(3) by (auto simp: store_credentials_def step_do_Inr_iff split: option.splits if_splits)
  have keep: "cs_migrated S1" "cs_records S1 = Some rs"
    using assms(1,2) arg_cong [OF store_scoped_frame [OF s1], of cs_migrated]
      arg_cong [OF store_scoped_frame [OF s1], of cs_records] by simp_all
  then obtain s where "S2 = S1\<lparr>cs_secrets := s, cs_records := Some (upsert ?r rs)\<rparr>"
    using s2 by (auto simp: upsert_account_record_def read_index_cached write_account_index_def step_do_Inr_iff set_text_parts)
  with keep(1) show ?thesis by (simp add: cached_def S')
qed

lemma record_removed:
  assumes "remove_account_record X L a S = (Inr (), S')"
  shows "cs_migrated S' = cs_migrated S
    \<and> (\<exists>rs. cs_records S' = Some rs \<and> a \<notin> rec_account_id ` set rs)"
proof -
  obtain records S0 where i: "read_account_index X L S = (Inr records, S0)"
    and w: "write_account_index X L (filter (\<lambda>r. rec_account_id r \<noteq> a) records) S0 = (Inr (), S')"
    using assms by (auto simp: remove_account_record_def step_do_Inr_iff)
  have "cs_migrated S0 = cs_migrated S"
    using i by (auto simp: read_account_index_def split: option.splits sum.splits)
  moreover have "cs_migrated S' = cs_migrated S0"
    "cs_records S' = Some (filter (\<lambda>r. rec_account_id r \<noteq> a) records)"
    using w by (auto simp: write_account_index_def step_do_Inr_iff set_text_parts delete_text_parts split: if_splits)
  ultimately show ?thesis by auto
qed

lemma refresh_sections:
  assumes "refresh_credentials X L T requested force (S, n) = (x, S', n')"
    and "resolve_account_id X L requested S = (Inr a, S1)" "read_credentials X L a S1 = (Inr current, S2)"
  shows "if \<not> force \<and> \<not> should_refresh X (tt_now T n) current then x = Inr current \<and> S' = S2 \<and> n' = n
    else case refresh_tokens X T current n of
        (Inl e, m) \<Rightarrow> x = Inl e \<and> S' = S2 \<and> n' = m
      | (Inr c, m) \<Rightarrow> refresh_store X L a c S2 = (x, S') \<and> n' = m"
  using assms by (auto simp: refresh_credentials_def refresh_look_def split: prod.splits sum.splits)

text \<open>
  C16. A refresh never mixes accounts. Whatever the server answers and however the refresh ends, the
  stored secrets change only by storing, under the selected account, credentials the server
  has just sent and whose ID token claims that very account.
\<close>

theorem refresh_never_mixes_accounts:
  assumes "cs_migrated S" "refresh_credentials X L T requested force (S, n) = (x, S', n')"
  shows "cs_secrets S' = cs_secrets S
    \<or> (\<exists>a current c rs S2. refresh_tokens X T current n = (Inr c, n') \<and> account_claim X (cred_id_token c) = Some a
        \<and> choose_account rs requested = Inr a \<and> cached a rs current S2 \<and> cs_secrets S2 = cs_secrets S
        \<and> snd (store_credentials X L a c S2) = S')"
proof -
  obtain y S1 where r: "resolve_account_id X L requested S = (y, S1)" by (metis surj_pair)
  have keep: "cs_secrets S1 = cs_secrets S"
    using r assms(1) by (auto simp: resolve_account_id_def account_records_def migrated_ensure read_account_index_def
        step_do_def split: option.splits sum.splits)
  show ?thesis
  proof (cases y)
    case (Inl e)
    with assms(2) r keep show ?thesis by (simp add: refresh_credentials_def)
  next
    case (Inr a)
    obtain rs where rs: "cs_migrated S1" "cs_records S1 = Some rs" "choose_account rs requested = Inr a"
      using r Inr by (auto elim: resolved)
    obtain z S2 where l: "read_credentials X L a S1 = (z, S2)" by (metis surj_pair)
    show ?thesis
    proof (cases z)
      case (Inl e)
      with l rs(1) have "S2 = S1"
        by (auto simp: read_credentials_def migrated_ensure split: option.splits sum.splits)
      with assms(2) r Inr l Inl keep show ?thesis by (simp add: refresh_credentials_def refresh_look_def)
    next
      case current: (Inr current)
      note S2 = read_cached [OF rs(1,2) l [unfolded current]]
      note end' = refresh_sections [OF assms(2) r [unfolded Inr] l [unfolded current]]
      show ?thesis
      proof (cases "S' = S2")
        case True
        with S2 keep show ?thesis by simp
      next
        case False
        with end' obtain c where c: "refresh_tokens X T current n = (Inr c, n')" "refresh_store X L a c S2 = (x, S')"
          by (auto split: prod.splits sum.splits if_splits)
        with False have "account_claim X (cred_id_token c) = Some a" "snd (store_credentials X L a c S2) = S'"
          by (auto simp: refresh_store_def step_do_def split: prod.splits sum.splits if_splits)
        with c(1) S2 keep rs(3) show ?thesis by metis
      qed
    qed
  qed
qed

text \<open>
  C31. A refresh that is under way undoes a logout. \<open>logout\<close> does not wait for the lock of the
  account: when it succeeds while a refresh awaits the server, the refresh then stores the new
  credentials and lists the account again, so that it is signed in after all.
\<close>

theorem logout_is_undone_by_refresh:
  assumes "refresh_look X L now a force S = (Inr (current, True), S1)" "cs_migrated S"
    and "codex_logout X L a S1 = (Inr (), S2)" "trim a = a" "a \<noteq> []"
    and "refresh_store X L a c S2 = (Inr d, S3)"
  shows "resolve_account_id X L (Some a) S2
      = (Inl (auth_error_new AccountNotFound ''The requested Codex account is not signed in.''), S2)
    \<and> resolve_account_id X L (Some a) S3 = (Inr a, S3) \<and> read_credentials X L a S3 = (Inr c, S3)"
proof -
  have m1: "cs_migrated S1"
    using assms(1,2) by (auto simp: refresh_look_def read_credentials_def migrated_ensure step_do_Inr_iff
        split: option.splits sum.splits)
  obtain Sd where d: "delete_account_credentials X L a S1 = (Inr (), Sd)"
    and r: "remove_account_record X L a Sd = (Inr (), S2)"
    using assms(3-5) by (auto simp: codex_logout_def Let_def step_do_Inr_iff)
  have "cs_migrated Sd = cs_migrated S1"
  proof -
    have "cs_migrated S' = cs_migrated S" if "delete_all L ks S = (x, S')" for ks x and S S' :: "'a codex_store"
      using that by (induction ks arbitrary: S x) (auto simp: delete_text_def split: prod.splits sum.splits)
    with d show ?thesis by (fastforce simp: delete_account_credentials_def)
  qed
  then obtain rs where S2: "cs_migrated S2" "cs_records S2 = Some rs" "a \<notin> rec_account_id ` set rs"
    using record_removed [OF r] m1 by auto
  have c: "d = c" "store_credentials X L a c S2 = (Inr (), S3)"
    using assms(6) by (auto simp: refresh_store_def step_do_Inr_iff split: if_splits)
  let ?rs = "upsert \<lparr>rec_account_id = a, rec_account_email = id_token_email X (cred_id_token c)\<rparr> rs"
  note S3 = stored_cached [OF S2(1,2) c(2)]
  have "choose_account ?rs (Some a) = Inr a"
    by (rule choose_listed [OF _ assms(4,5)]) (simp add: upsert_ids)
  moreover have "choose_account rs (Some a)
      = Inl (auth_error_new AccountNotFound ''The requested Codex account is not signed in.'')"
    using S2(3) assms(4,5) by (auto simp: choose_account_def list_ex_iff)
  ultimately show ?thesis
    using resolve_cached [OF S2(1,2), of X L "Some a"] resolve_cached [of S3 ?rs X L "Some a"] S3 cached_read [OF S3, of X L]
    by (simp add: cached_def)
qed


section \<open>A server in memory\<close>

text \<open>Everything asked of it is answered with new tokens of the same account.\<close>

definition answering_codex :: codex_lib where
  "answering_codex = sample_codex\<lparr>cx_parse_tokens := (\<lambda>_. Some
     \<lparr>tr_id_token = None, tr_access_token = Some ''b'', tr_refresh_token = None\<rparr>)\<rparr>"

definition answering_server :: "u64 token_transport" where
  "answering_server = \<lparr>tt_post_form = (\<lambda>_ _ n. (Inr \<lparr>thr_status = 200, thr_body = []\<rparr>, n)),
     tt_post_json = (\<lambda>_ _ n. (Inr \<lparr>thr_status = 200, thr_body = []\<rparr>, n)), tt_now = id\<rparr>"

definition renewed_credentials :: codex_credentials where
  "renewed_credentials = sample_credentials\<lparr>cred_access_token := ''b'', cred_last_refresh_at := 2\<rparr>"

definition sample_record :: account_record where
  "sample_record = \<lparr>rec_account_id = ''acct'', rec_account_email = None\<rparr>"

lemma answering_claims:
  "account_claim answering_codex ''h.acct.s'' = Some ''acct''" "id_token_email answering_codex ''h.acct.s'' = None"
  "access_token_expiry answering_codex ''b'' = None"
  by (simp_all add: account_claim_def id_token_auth_claim_def jwt_payload_def answering_codex_def sample_codex_def
      get_str_def id_token_email_def access_token_expiry_def)

lemma answering_refresh: "refresh_tokens answering_codex answering_server sample_credentials 2 = (Inr renewed_credentials, 2)"
proof -
  have t: "trim ''b'' = ''b''" "trim ''r'' = ''r''" "trim ''h.acct.s'' = ''h.acct.s''"
    by (simp_all add: trim_graphic graphic_def)
  show ?thesis
    by (simp add: refresh_tokens_def answering_server_def token_answer_def credentials_from_tokens_def token_or_def t
        answering_claims renewed_credentials_def sample_credentials_def)
      (simp add: answering_codex_def t answering_claims(1) [unfolded answering_codex_def])
qed

lemma cached_choice:
  "cached ''acct'' [sample_record] c S \<Longrightarrow> resolve_account_id answering_codex L (Some ''acct'') S = (Inr ''acct'', S)"
  using choose_listed [of "''acct''" "[sample_record]"] sample_trim
  by (simp add: cached_def resolve_cached sample_record_def)

lemma signed_in: "\<exists>S. cached ''acct'' [sample_record] sample_credentials (S :: memory_secrets codex_store)"
proof -
  let ?S = "sample_accounts\<lparr>cs_records := Some []\<rparr>"
  have "cs_migrated ?S" "cs_records ?S = Some []" by (simp_all add: sample_accounts_def)
  moreover obtain S where "store_credentials answering_codex memory_lib ''acct'' sample_credentials ?S = (Inr (), S)"
    using memory_store_succeeds [of ?S "[]" answering_codex sample_credentials "''acct''"] answering_claims
    by (auto simp: sample_credentials_def)
  ultimately have "cached ''acct'' (upsert \<lparr>rec_account_id = ''acct'',
      rec_account_email = id_token_email answering_codex (cred_id_token sample_credentials)\<rparr> []) sample_credentials S"
    by (rule stored_cached)
  then show ?thesis by (auto simp: sample_record_def answering_claims sample_credentials_def)
qed

lemma answered:
  assumes "cached ''acct'' [sample_record] sample_credentials S"
  shows "\<exists>S'. refresh_credentials answering_codex memory_lib answering_server (Some ''acct'') True (S, 2)
      = (Inr renewed_credentials, S', 2)
    \<and> store_credentials answering_codex memory_lib ''acct'' renewed_credentials S = (Inr (), S')"
proof -
  have "account_claim answering_codex (cred_id_token renewed_credentials) = Some ''acct''"
    by (simp add: renewed_credentials_def sample_credentials_def answering_claims)
  moreover from this obtain S' where "store_credentials answering_codex memory_lib ''acct'' renewed_credentials S = (Inr (), S')"
    using memory_store_succeeds assms unfolding cached_def by blast
  ultimately show ?thesis
    using cached_choice [OF assms, of memory_lib] cached_read [OF assms, of answering_codex memory_lib]
    by (simp add: refresh_credentials_def refresh_look_def answering_refresh refresh_store_def)
qed

theorem refresh_never_mixes_accounts_witness:
  "\<exists>S S' :: memory_secrets codex_store.
     refresh_credentials answering_codex memory_lib answering_server (Some ''acct'') True (S, 2) = (Inr renewed_credentials, S', 2)
     \<and> (cs_secrets S' = cs_secrets S \<or> (\<exists>a c. refresh_tokens answering_codex answering_server c 2 = (Inr renewed_credentials, 2)
           \<and> account_claim answering_codex (cred_id_token renewed_credentials) = Some a))"
proof -
  obtain S :: "memory_secrets codex_store" where S: "cached ''acct'' [sample_record] sample_credentials S"
    using signed_in by blast
  obtain S' where r: "refresh_credentials answering_codex memory_lib answering_server (Some ''acct'') True (S, 2)
      = (Inr renewed_credentials, S', 2)" using answered [OF S] by blast
  from S have "cs_migrated S" by (simp add: cached_def)
  from refresh_never_mixes_accounts [OF this r] r answering_refresh show ?thesis
    by (metis answering_claims(1) renewed_credentials_def sample_credentials_def codex_credentials.update_convs(1,4)
        codex_credentials.select_convs(3))
qed

theorem logout_is_undone_by_refresh_witness:
  "\<exists>S1 S2 S3 :: memory_secrets codex_store.
     codex_logout answering_codex memory_lib ''acct'' S1 = (Inr (), S2)
     \<and> refresh_store answering_codex memory_lib ''acct'' renewed_credentials S2 = (Inr renewed_credentials, S3)
     \<and> read_credentials answering_codex memory_lib ''acct'' S3 = (Inr renewed_credentials, S3)"
proof -
  obtain S :: "memory_secrets codex_store" where S: "cached ''acct'' [sample_record] sample_credentials S"
    using signed_in by blast
  then have look: "refresh_look answering_codex memory_lib 2 ''acct'' True S = (Inr (sample_credentials, True), S)"
    and m: "cs_migrated S" by (simp_all add: refresh_look_def cached_read) (simp add: cached_def)
  have "\<exists>S2. codex_logout answering_codex memory_lib ''acct'' S = (Inr (), S2) \<and> (\<exists>rs. cs_records S2 = Some rs)"
    using S by (simp add: codex_logout_def Let_def sample_trim delete_account_credentials_def credential_kinds_def
        delete_text_def memory_lib_def memory_secret_delete_def memory_secret_set_def remove_account_record_def
        read_account_index_def write_account_index_def set_text_def cached_def sample_record_def)
  then obtain S2 where l: "codex_logout answering_codex memory_lib ''acct'' S = (Inr (), S2)"
    and "\<exists>rs. cs_records S2 = Some rs" by blast
  then obtain S3 where "store_credentials answering_codex memory_lib ''acct'' renewed_credentials S2 = (Inr (), S3)"
    using memory_store_succeeds answering_claims(1)
    by (metis renewed_credentials_def sample_credentials_def codex_credentials.update_convs(1,4) codex_credentials.select_convs(3))
  then have r: "refresh_store answering_codex memory_lib ''acct'' renewed_credentials S2 = (Inr renewed_credentials, S3)"
    by (simp add: refresh_store_def renewed_credentials_def sample_credentials_def answering_claims)
  from logout_is_undone_by_refresh [OF look m l sample_trim _ r] l r show ?thesis by blast
qed

end
