(* ===== verification/Codex_Locks.thy ===== *)
theory Codex_Locks
  imports Codex_Auth
begin

text \<open>
  The lock of an account (\<open>codex/mod.rs\<close>: \<open>account_lock\<close>, \<open>refresh_credentials\<close>). Many calls refresh
  at a time: each is a task that is polled from one suspension to the next, in any order, while
  others arrive, are dropped, or use the store outside a refresh. \<open>Codex_Auth.refresh_credentials\<close> is
  such a call that nothing interferes with (\<open>undisturbed_refresh\<close>); here the calls run together.
\<close>

section \<open>Refreshes as tasks\<close>

text \<open>
  Where a call is: not yet polled, waiting for the lock of the account it has resolved, holding
  the lock, waiting for the server with the credentials it has read, storing the answer, or
  returned.
\<close>

datatype refresh_task =
    RefreshNew "str option" bool
  | RefreshWaiting str bool
  | RefreshHolding str bool
  | RefreshAsking str codex_credentials
  | RefreshStoring str codex_credentials
  | RefreshEnded "auth_error + codex_credentials"

text \<open>
  The manager: its store, the network, the table of the locks with the task that holds each, and
  the calls. A lock in the table is never removed. Whether a login is in progress is the state of
  \<open>begin_login\<close>.
\<close>

record ('s, 'n) auth_manager =
  am_store :: "'s codex_store"
  am_net :: 'n
  am_locks :: "str \<rightharpoonup> nat option"
  am_tasks :: "nat \<rightharpoonup> refresh_task"

text \<open>What is seen of a step: the credentials a holder has read, how its request ended, other uses of the store.\<close>

datatype 's refresh_event =
    RefreshQuiet nat
  | RefreshUnread nat str auth_error
  | RefreshLooked nat str bool u64 codex_credentials
  | RefreshRefused nat str auth_error
  | RefreshRenewed nat str codex_credentials
  | RefreshAbandoned nat str
  | RefreshOutside "'s codex_store" "'s codex_store"

definition account_lock :: "str \<Rightarrow> (str \<rightharpoonup> nat option) \<Rightarrow> (str \<rightharpoonup> nat option)" where
  "account_lock account locks = (case locks account of Some _ \<Rightarrow> locks | None \<Rightarrow> locks(account \<mapsto> None))"

definition task_goes :: "nat \<Rightarrow> refresh_task \<Rightarrow> ('s, 'n) auth_manager \<Rightarrow> ('s, 'n) auth_manager" where
  "task_goes t task W = W\<lparr>am_tasks := (am_tasks W)(t \<mapsto> task)\<rparr>"

text \<open>The guard is dropped when the call returns.\<close>

definition task_returns ::
    "nat \<Rightarrow> str \<Rightarrow> auth_error + codex_credentials \<Rightarrow> ('s, 'n) auth_manager \<Rightarrow> ('s, 'n) auth_manager" where
  "task_returns t account result W =
     W\<lparr>am_locks := (am_locks W)(account \<mapsto> None), am_tasks := (am_tasks W)(t \<mapsto> RefreshEnded result)\<rparr>"

definition refresh_poll ::
    "codex_lib \<Rightarrow> 's secret_lib \<Rightarrow> 'n token_transport \<Rightarrow> nat \<Rightarrow> ('s, 'n) auth_manager
       \<Rightarrow> ('s refresh_event \<times> ('s, 'n) auth_manager) option" where
  "refresh_poll X L T t W =
     (case am_tasks W t of
        Some (RefreshNew requested force) \<Rightarrow>
          (case resolve_account_id X L requested (am_store W) of
             (Inl e, S) \<Rightarrow> Some (RefreshQuiet t, task_goes t (RefreshEnded (Inl e)) (W\<lparr>am_store := S\<rparr>))
           | (Inr account, S) \<Rightarrow>
               Some (RefreshQuiet t, task_goes t (RefreshWaiting account force)
                 (W\<lparr>am_store := S, am_locks := account_lock account (am_locks W)\<rparr>)))
      | Some (RefreshWaiting account force) \<Rightarrow>
          if am_locks W account = Some None
          then Some (RefreshQuiet t, task_goes t (RefreshHolding account force)
                 (W\<lparr>am_locks := (am_locks W)(account \<mapsto> Some t)\<rparr>))
          else None
      | Some (RefreshHolding account force) \<Rightarrow>
          (case refresh_look X L (tt_now T (am_net W)) account force (am_store W) of
             (Inl e, S) \<Rightarrow> Some (RefreshUnread t account e, task_returns t account (Inl e) (W\<lparr>am_store := S\<rparr>))
           | (Inr (current, needed), S) \<Rightarrow>
               Some (RefreshLooked t account force (tt_now T (am_net W)) current,
                 if needed then task_goes t (RefreshAsking account current) (W\<lparr>am_store := S\<rparr>)
                 else task_returns t account (Inr current) (W\<lparr>am_store := S\<rparr>)))
      | Some (RefreshAsking account current) \<Rightarrow>
          (case refresh_tokens X T current (am_net W) of
             (Inl e, n) \<Rightarrow> Some (RefreshRefused t account e, task_returns t account (Inl e) (W\<lparr>am_net := n\<rparr>))
           | (Inr refreshed, n) \<Rightarrow>
               Some (RefreshQuiet t, task_goes t (RefreshStoring account refreshed) (W\<lparr>am_net := n\<rparr>)))
      | Some (RefreshStoring account refreshed) \<Rightarrow>
          (case refresh_store X L account refreshed (am_store W) of
             (Inl e, S) \<Rightarrow> Some (RefreshRefused t account e, task_returns t account (Inl e) (W\<lparr>am_store := S\<rparr>))
           | (Inr c, S) \<Rightarrow> Some (RefreshRenewed t account c, task_returns t account (Inr c) (W\<lparr>am_store := S\<rparr>)))
      | _ \<Rightarrow> None)"

text \<open>
  A call that is dropped: only where it waits. While it waits for the server it holds the lock,
  which is then free again.
\<close>

definition refresh_drop :: "nat \<Rightarrow> ('s, 'n) auth_manager \<Rightarrow> ('s refresh_event \<times> ('s, 'n) auth_manager) option" where
  "refresh_drop t W =
     (case am_tasks W t of
        Some (RefreshNew _ _) \<Rightarrow> Some (RefreshQuiet t, W\<lparr>am_tasks := (am_tasks W)(t := None)\<rparr>)
      | Some (RefreshWaiting _ _) \<Rightarrow> Some (RefreshQuiet t, W\<lparr>am_tasks := (am_tasks W)(t := None)\<rparr>)
      | Some (RefreshAsking account _) \<Rightarrow>
          Some (RefreshAbandoned t account,
            W\<lparr>am_locks := (am_locks W)(account \<mapsto> None), am_tasks := (am_tasks W)(t := None)\<rparr>)
      | _ \<Rightarrow> None)"

text \<open>
  One step: a call arrives, is polled or is dropped, or something else uses the store and the
  network: a login, a logout, a status. Nothing there takes back that the legacy credentials
  were migrated.
\<close>

inductive refresh_step ::
    "codex_lib \<Rightarrow> 's secret_lib \<Rightarrow> 'n token_transport \<Rightarrow> ('s, 'n) auth_manager \<Rightarrow> 's refresh_event
       \<Rightarrow> ('s, 'n) auth_manager \<Rightarrow> bool"
  for X L T where
  arrives: "am_tasks W t = None \<Longrightarrow> refresh_step X L T W (RefreshQuiet t) (task_goes t (RefreshNew requested force) W)"
| polled: "refresh_poll X L T t W = Some (e, W') \<Longrightarrow> refresh_step X L T W e W'"
| dropped: "refresh_drop t W = Some (e, W') \<Longrightarrow> refresh_step X L T W e W'"
| elsewhere: "(cs_migrated (am_store W) \<longrightarrow> cs_migrated S) \<Longrightarrow>
    refresh_step X L T W (RefreshOutside (am_store W) S) (W\<lparr>am_store := S, am_net := n\<rparr>)"

inductive refresh_runs ::
    "codex_lib \<Rightarrow> 's secret_lib \<Rightarrow> 'n token_transport \<Rightarrow> ('s, 'n) auth_manager \<Rightarrow> 's refresh_event list
       \<Rightarrow> ('s, 'n) auth_manager \<Rightarrow> bool"
  for X L T where
  none: "refresh_runs X L T W [] W"
| more: "refresh_step X L T W e W1 \<Longrightarrow> refresh_runs X L T W1 es W' \<Longrightarrow> refresh_runs X L T W (e # es) W'"

inductive_cases refresh_stepE: "refresh_step X L T W e W'"
inductive_simps refresh_runs_Nil [simp]: "refresh_runs X L T W [] W'"
inductive_simps refresh_runs_Cons: "refresh_runs X L T W (e # es) W'"

lemma refresh_runs_append:
  "refresh_runs X L T W (xs @ ys) W' \<longleftrightarrow> (\<exists>W1. refresh_runs X L T W xs W1 \<and> refresh_runs X L T W1 ys W')"
  by (induction xs arbitrary: W) (auto simp: refresh_runs_Cons)

section \<open>The lock excludes\<close>

fun task_account :: "refresh_task \<Rightarrow> str option" where
  "task_account (RefreshHolding a _) = Some a"
| "task_account (RefreshAsking a _) = Some a"
| "task_account (RefreshStoring a _) = Some a"
| "task_account _ = None"

fun past_asking :: "refresh_task \<Rightarrow> bool" where
  "past_asking (RefreshAsking _ _) = True"
| "past_asking (RefreshStoring _ _) = True"
| "past_asking _ = False"

definition locks_held :: "('s, 'n) auth_manager \<Rightarrow> bool" where
  "locks_held W = (\<forall>a t. am_locks W a = Some (Some t) \<longleftrightarrow> Option.bind (am_tasks W t) task_account = Some a)"

lemmas poll_defs = refresh_poll_def task_goes_def task_returns_def account_lock_def

lemma one_holder:
  "locks_held W \<Longrightarrow> Option.bind (am_tasks W t) task_account = Some a
     \<Longrightarrow> Option.bind (am_tasks W t') task_account = Some a \<Longrightarrow> t' = t"
  unfolding locks_held_def by (metis option.inject)

text \<open>A step of a task that neither takes nor gives back a lock; one that takes it; one that gives it back.\<close>

lemma locks_held_same:
  assumes "locks_held W" "am_locks W' = am_locks W \<or> (\<exists>a. am_locks W a = None \<and> am_locks W' = (am_locks W)(a \<mapsto> None))"
    and "am_tasks W' = (am_tasks W)(t := x)" "Option.bind x task_account = Option.bind (am_tasks W t) task_account"
  shows "locks_held W'"
proof -
  have "Option.bind (am_tasks W' u) task_account = Option.bind (am_tasks W u) task_account" for u
    using assms(3,4) by simp
  moreover have "am_locks W' a = Some (Some u) \<longleftrightarrow> am_locks W a = Some (Some u)" for a u
    using assms(2) by (auto split: if_splits)
  ultimately show ?thesis using assms(1) by (simp add: locks_held_def)
qed

lemma locks_held_taken:
  assumes "locks_held W" "am_locks W a = Some None" "Option.bind (am_tasks W t) task_account = None"
    and "am_locks W' = (am_locks W)(a \<mapsto> Some t)" "am_tasks W' = (am_tasks W)(t \<mapsto> task)" "task_account task = Some a"
  shows "locks_held W'"
proof -
  have "Option.bind (am_tasks W u) task_account \<noteq> Some a" for u
    using assms(1,2) unfolding locks_held_def by (metis option.distinct(1) option.inject)
  moreover have "am_locks W b = Some (Some u) \<longleftrightarrow> Option.bind (am_tasks W u) task_account = Some b" for b u
    using assms(1) by (simp add: locks_held_def)
  ultimately show ?thesis using assms(3-6) by (auto simp: locks_held_def)
qed

lemma locks_held_returned:
  assumes "locks_held W" "Option.bind (am_tasks W t) task_account = Some a"
    and "am_locks W' = (am_locks W)(a \<mapsto> None)" "am_tasks W' = (am_tasks W)(t := x)" "Option.bind x task_account = None"
  shows "locks_held W'"
proof -
  have "Option.bind (am_tasks W u) task_account = Some a \<longleftrightarrow> u = t" for u
    using one_holder [OF assms(1,2)] assms(2) by blast
  moreover have "am_locks W b = Some (Some u) \<longleftrightarrow> Option.bind (am_tasks W u) task_account = Some b" for b u
    using assms(1) by (simp add: locks_held_def)
  moreover have "Option.bind (am_tasks W t) task_account = Some b \<Longrightarrow> b = a" for b using assms(2) by simp
  ultimately show ?thesis using assms(3-5) by (auto simp: locks_held_def)
qed

lemma locks_held_step:
  assumes "refresh_step X L T W e W'" "locks_held W"
  shows "locks_held W'"
  using assms(1)
proof (rule refresh_stepE)
  fix t assume p: "refresh_poll X L T t W = Some (e, W')"
  then obtain task where t: "am_tasks W t = Some task" by (auto simp: refresh_poll_def split: option.splits)
  show ?thesis
  proof (cases task)
    case (RefreshNew requested force)
    with p t show ?thesis
      by (auto simp: poll_defs split: prod.splits sum.splits option.splits intro!: locks_held_same [OF assms(2), of _ t])
  next
    case (RefreshWaiting a force)
    with p t show ?thesis
      by (auto simp: poll_defs split: if_splits intro!: locks_held_taken [OF assms(2), of a t])
  next
    case (RefreshHolding a force)
    with p t show ?thesis
      by (fastforce simp: poll_defs split: prod.splits sum.splits if_splits
          intro: locks_held_same [OF assms(2), of _ t] locks_held_returned [OF assms(2), of t a])
  next
    case (RefreshAsking a current)
    with p t show ?thesis
      by (fastforce simp: poll_defs split: prod.splits sum.splits
          intro: locks_held_same [OF assms(2), of _ t] locks_held_returned [OF assms(2), of t a])
  next
    case (RefreshStoring a c)
    with p t show ?thesis
      by (auto simp: poll_defs split: prod.splits sum.splits intro!: locks_held_returned [OF assms(2), of t a])
  qed (use p t in \<open>simp add: refresh_poll_def\<close>)
next
  fix t assume "refresh_drop t W = Some (e, W')"
  then show ?thesis
    by (auto simp: refresh_drop_def split: option.splits refresh_task.splits
        intro: locks_held_same [OF assms(2), of _ t] locks_held_returned [OF assms(2), of t])
next
  fix t requested force assume "am_tasks W t = None" "W' = task_goes t (RefreshNew requested force) W"
  then show ?thesis
    by (intro locks_held_same [OF assms(2), of _ t "Some (RefreshNew requested force)"]) (auto simp: task_goes_def)
qed (use assms(2) in \<open>auto simp: locks_held_def\<close>)

lemma locks_held_runs: "refresh_runs X L T W es W' \<Longrightarrow> locks_held W \<Longrightarrow> locks_held W'"
  by (induction rule: refresh_runs.induct) (auto intro: locks_held_step)

text \<open>Requests of an account, how they end, and whether one is under way.\<close>

fun asks_server :: "codex_lib \<Rightarrow> str \<Rightarrow> 's refresh_event \<Rightarrow> bool" where
  "asks_server X a (RefreshLooked t b force now current) = (b = a \<and> (force \<or> should_refresh X now current))"
| "asks_server X a _ = False"

fun ends_request :: "str \<Rightarrow> 's refresh_event \<Rightarrow> bool" where
  "ends_request a (RefreshRefused t b e) = (b = a)"
| "ends_request a (RefreshRenewed t b c) = (b = a)"
| "ends_request a (RefreshAbandoned t b) = (b = a)"
| "ends_request a _ = False"

definition requests :: "('s, 'n) auth_manager \<Rightarrow> str \<Rightarrow> nat set" where
  "requests W a = {t. \<exists>task. am_tasks W t = Some task \<and> past_asking task \<and> task_account task = Some a}"

lemma requests_holder: "locks_held W \<Longrightarrow> t \<in> requests W a \<Longrightarrow> requests W a = {t}"
  using one_holder [of W t a] by (fastforce simp: requests_def)

definition asking :: "str \<Rightarrow> refresh_task option \<Rightarrow> bool" where
  "asking a x = (\<exists>task. x = Some task \<and> past_asking task \<and> task_account task = Some a)"

lemma asking_simps [simp]:
  "\<not> asking a None" "\<not> asking a (Some (RefreshNew requested force))" "\<not> asking a (Some (RefreshWaiting b force))"
  "\<not> asking a (Some (RefreshHolding b force))" "asking a (Some (RefreshAsking b c)) = (b = a)"
  "asking a (Some (RefreshStoring b c)) = (b = a)" "\<not> asking a (Some (RefreshEnded r))"
  by (simp_all add: asking_def)

lemma requests_change:
  assumes "locks_held W" "am_tasks W' = (am_tasks W)(t := x)"
  shows "asking a (am_tasks W t) \<Longrightarrow> requests W a \<noteq> {}"
    and "Option.bind (am_tasks W t) task_account = Some a \<Longrightarrow> \<not> asking a (am_tasks W t) \<Longrightarrow> requests W a = {}"
    and "Option.bind (am_tasks W t) task_account = Some a \<Longrightarrow> (requests W' a \<noteq> {}) = asking a x"
    and "asking a (am_tasks W t) = asking a x \<Longrightarrow> (requests W' a \<noteq> {}) = (requests W a \<noteq> {})"
proof -
  have r: "requests W a = {u. asking a (am_tasks W u)}" "requests W' a = {u. asking a (am_tasks W' u)}"
    by (simp_all add: requests_def asking_def)
  show "asking a (am_tasks W t) \<Longrightarrow> requests W a \<noteq> {}" using r by blast
  have one: "u = t" if "Option.bind (am_tasks W t) task_account = Some a" "asking a (am_tasks W u)" for u
    using that by (intro one_holder [OF assms(1) that(1)]) (auto simp: asking_def)
  show "Option.bind (am_tasks W t) task_account = Some a \<Longrightarrow> \<not> asking a (am_tasks W t) \<Longrightarrow> requests W a = {}"
    using one r by blast
  show "Option.bind (am_tasks W t) task_account = Some a \<Longrightarrow> (requests W' a \<noteq> {}) = asking a x"
    using one unfolding r assms(2) by (auto split: if_splits)
  show "asking a (am_tasks W t) = asking a x \<Longrightarrow> (requests W' a \<noteq> {}) = (requests W a \<noteq> {})"
    unfolding r assms(2) by (auto split: if_splits)
qed

definition balanced :: "codex_lib \<Rightarrow> str \<Rightarrow> ('s, 'n) auth_manager \<Rightarrow> 's refresh_event \<Rightarrow> ('s, 'n) auth_manager \<Rightarrow> bool" where
  "balanced X a W e W' =
     (if asks_server X a e then requests W a = {} \<and> requests W' a \<noteq> {}
      else if ends_request a e then requests W a \<noteq> {} \<and> requests W' a = {}
      else (requests W' a \<noteq> {}) = (requests W a \<noteq> {}))"

lemma balanced_step:
  assumes "refresh_step X L T W e W'" "locks_held W"
  shows "balanced X a W e W'"
  using assms(1)
proof (rule refresh_stepE)
  fix t assume p: "refresh_poll X L T t W = Some (e, W')"
  then obtain task where t: "am_tasks W t = Some task" by (auto simp: refresh_poll_def split: option.splits)
  have "\<exists>x. am_tasks W' = (am_tasks W)(t \<mapsto> x)"
    using p by (auto simp: poll_defs split: option.splits refresh_task.splits prod.splits sum.splits if_splits)
  then obtain x where x: "am_tasks W' = (am_tasks W)(t \<mapsto> x)" by blast
  then have x': "am_tasks W' t = Some x" by simp
  note change = requests_change [OF assms(2) x, of a, unfolded t]
  show ?thesis
  proof (cases task)
    case (RefreshNew requested force)
    with p t x' change(4) show ?thesis
      by (auto simp: poll_defs balanced_def split: prod.splits sum.splits option.splits)
  next
    case (RefreshWaiting b force)
    with p t x' change(4) show ?thesis by (auto simp: poll_defs balanced_def split: if_splits)
  next
    case (RefreshHolding b force)
    show ?thesis
    proof (cases "b = a")
      case True
      with RefreshHolding p t x' change(2,3) show ?thesis
        by (auto simp: poll_defs balanced_def refresh_look_def step_do_def split: prod.splits sum.splits if_splits)
    next
      case False
      with RefreshHolding p t x' change(4) show ?thesis
        by (auto simp: poll_defs balanced_def split: prod.splits sum.splits if_splits)
    qed
  next
    case (RefreshAsking b current)
    with p t x' change show ?thesis
      by (cases "b = a") (auto simp: poll_defs balanced_def split: prod.splits sum.splits)
  next
    case (RefreshStoring b c)
    with p t x' change show ?thesis
      by (cases "b = a") (auto simp: poll_defs balanced_def split: prod.splits sum.splits)
  qed (use p t in \<open>simp add: refresh_poll_def\<close>)
next
  fix t assume d: "refresh_drop t W = Some (e, W')"
  then have "am_tasks W' = (am_tasks W)(t := None)"
    by (auto simp: refresh_drop_def split: option.splits refresh_task.splits)
  note change = requests_change [OF assms(2) this, of a]
  obtain task where t: "am_tasks W t = Some task" using d by (auto simp: refresh_drop_def split: option.splits)
  from d t change show ?thesis
    by (cases task) (auto simp: refresh_drop_def balanced_def)
next
  fix t requested force assume n: "am_tasks W t = None" and e: "e = RefreshQuiet t"
    and W': "W' = task_goes t (RefreshNew requested force) W"
  then show ?thesis
    using requests_change(4) [OF assms(2), of W' t "Some (RefreshNew requested force)" a]
    by (auto simp: balanced_def task_goes_def)
qed (auto simp: balanced_def requests_def)

lemma requests_balance:
  assumes "refresh_runs X L T W es W'" "locks_held W"
  shows "length (filter (asks_server X a) es) + of_bool (requests W a \<noteq> {})
    = length (filter (ends_request a) es) + of_bool (requests W' a \<noteq> {})"
  using assms
proof (induction rule: refresh_runs.induct)
  case (more W e W1 es W')
  have "\<not> (asks_server X a e \<and> ends_request a e)" by (cases e) auto
  with more.IH [OF locks_held_step [OF more.hyps(1) more.prems]] balanced_step [OF more.hyps(1) more.prems, of a]
  show ?case by (cases "asks_server X a e"; cases "ends_request a e") (simp_all add: balanced_def)
qed simp

section \<open>Renewed credentials serve those who wait\<close>

fun event_account :: "'s refresh_event \<Rightarrow> str option" where
  "event_account (RefreshUnread t b e) = Some b"
| "event_account (RefreshLooked t b force now current) = Some b"
| "event_account (RefreshRefused t b e) = Some b"
| "event_account (RefreshRenewed t b c) = Some b"
| "event_account (RefreshAbandoned t b) = Some b"
| "event_account _ = None"

definition renewed :: "str \<Rightarrow> codex_credentials \<Rightarrow> 's codex_store \<Rightarrow> bool" where
  "renewed a c S = (cs_migrated S \<and> map_of (cs_credentials S) a = Some c)"

lemma read_index_frame:
  "read_account_index X L S = (x, S') \<Longrightarrow> cs_migrated S' = cs_migrated S \<and> cs_credentials S' = cs_credentials S"
  by (auto simp: read_account_index_def split: option.splits sum.splits)

lemma renewed_resolve: "resolve_account_id X L requested S = (x, S') \<Longrightarrow> renewed a c S \<Longrightarrow> renewed a c S'"
  using read_index_frame [of X L S _ S']
  by (auto simp: resolve_account_id_def account_records_def migrated_ensure renewed_def step_do_def
      split: prod.splits sum.splits)

lemma renewed_read: "read_credentials X L a S = (x, S') \<Longrightarrow> renewed a c S \<Longrightarrow> x = Inr c \<and> S' = S"
  by (auto simp: read_credentials_def renewed_def migrated_ensure)

lemma renewed_look: "refresh_look X L now b force S = (x, S') \<Longrightarrow> renewed a c S \<Longrightarrow> renewed a c S'"
  by (cases "b = a") (auto simp: refresh_look_def read_credentials_def renewed_def migrated_ensure step_do_def update_conv'
      split: option.splits prod.splits sum.splits)

lemma upsert_frame:
  assumes "upsert_account_record X L r S = (x, S')"
  shows "cs_migrated S' = cs_migrated S \<and> cs_credentials S' = cs_credentials S"
proof -
  obtain y S1 where i: "read_account_index X L S = (y, S1)" by (metis surj_pair)
  with assms read_index_frame [OF i] show ?thesis
    by (cases y) (auto simp: upsert_account_record_def write_account_index_def step_do_def set_text_def delete_text_def
        split: prod.splits sum.splits if_splits)
qed

lemma scoped_frame:
  "store_scoped_credentials X L b d S = (y, S1) \<Longrightarrow> cs_migrated S1 = cs_migrated S \<and> cs_credentials S1 = cs_credentials S"
  by (metis (no_types) store_scoped_frame codex_store.select_convs(3,4) codex_store.surjective codex_store.update_convs(1))

lemma store_frame:
  "store_credentials X L b d S = (x, S') \<Longrightarrow> cs_migrated S' = cs_migrated S
     \<and> (\<forall>a. a \<noteq> b \<longrightarrow> map_of (cs_credentials S') a = map_of (cs_credentials S) a)
     \<and> (x = Inr () \<longrightarrow> map_of (cs_credentials S') b = Some d)"
  by (auto simp: store_credentials_def step_do_def update_conv' dest!: upsert_frame scoped_frame
      split: option.splits prod.splits sum.splits if_splits)

lemma refresh_store_frame:
  "refresh_store X L b d S = (x, S') \<Longrightarrow> cs_migrated S' = cs_migrated S
     \<and> (\<forall>a. a \<noteq> b \<longrightarrow> map_of (cs_credentials S') a = map_of (cs_credentials S) a)
     \<and> (\<forall>c. x = Inr c \<longrightarrow> map_of (cs_credentials S') b = Some c)"
  by (auto simp: refresh_store_def step_do_def dest: store_frame split: prod.splits sum.splits if_splits)

text \<open>A call that asks has read credentials, so the legacy ones are migrated.\<close>

definition asked_migrated :: "('s, 'n) auth_manager \<Rightarrow> bool" where
  "asked_migrated W = (\<forall>a. requests W a \<noteq> {} \<longrightarrow> cs_migrated (am_store W))"

lemma resolve_migrated: "resolve_account_id X L requested S = (x, S') \<Longrightarrow> cs_migrated S \<Longrightarrow> cs_migrated S'"
  by (auto simp: resolve_account_id_def account_records_def migrated_ensure step_do_def dest: read_index_frame
      split: prod.splits sum.splits)

lemma look_migrated:
  "refresh_look X L now b force S = (x, S') \<Longrightarrow> cs_migrated S \<or> (\<exists>r. x = Inr r) \<Longrightarrow> cs_migrated S'"
  by (auto simp: refresh_look_def read_credentials_def ensure_legacy_credentials_migrated_def step_do_def
      split: option.splits prod.splits sum.splits if_splits)

lemma migrated_step:
  assumes "refresh_step X L T W e W'" "cs_migrated (am_store W)"
  shows "cs_migrated (am_store W')"
  using assms(1)
proof (rule refresh_stepE)
  fix t assume "refresh_poll X L T t W = Some (e, W')"
  with assms(2) show ?thesis
    by (auto simp: poll_defs dest: resolve_migrated look_migrated refresh_store_frame
        split: option.splits refresh_task.splits prod.splits sum.splits if_splits)
next
  fix t assume "refresh_drop t W = Some (e, W')"
  with assms(2) show ?thesis by (auto simp: refresh_drop_def split: option.splits refresh_task.splits)
qed (use assms(2) in \<open>auto simp: task_goes_def\<close>)

lemma look_then_migrated:
  assumes "refresh_step X L T W (RefreshLooked t a force now current) W'"
  shows "cs_migrated (am_store W')"
  using assms
proof (rule refresh_stepE)
  fix u assume "refresh_poll X L T u W = Some (RefreshLooked t a force now current, W')"
  then show ?thesis
    by (auto simp: poll_defs dest: look_migrated
        split: option.splits refresh_task.splits prod.splits sum.splits if_splits)
next
  fix u assume "refresh_drop u W = Some (RefreshLooked t a force now current, W')"
  then show ?thesis by (auto simp: refresh_drop_def split: option.splits refresh_task.splits)
qed auto

lemma asked_migrated_step:
  assumes "refresh_step X L T W e W'" "locks_held W" "asked_migrated W"
  shows "asked_migrated W'"
proof -
  have "cs_migrated (am_store W')" if r: "requests W' a \<noteq> {}" for a
  proof (cases "requests W a = {}")
    case True
    with balanced_step [OF assms(1,2), of a] r have "asks_server X a e" by (auto simp: balanced_def split: if_splits)
    with assms(1) look_then_migrated show ?thesis by (cases e) auto
  next
    case False
    with assms(3) migrated_step [OF assms(1)] show ?thesis unfolding asked_migrated_def by blast
  qed
  then show ?thesis by (simp add: asked_migrated_def)
qed

lemma asked_migrated_runs:
  "refresh_runs X L T W es W' \<Longrightarrow> locks_held W \<Longrightarrow> asked_migrated W \<Longrightarrow> asked_migrated W'"
  by (induction rule: refresh_runs.induct) (auto intro: locks_held_step asked_migrated_step)

text \<open>An account whose renewed credentials are there and for which no request is under way.\<close>

definition settled :: "str \<Rightarrow> codex_credentials \<Rightarrow> ('s, 'n) auth_manager \<Rightarrow> bool" where
  "settled a c W = (locks_held W \<and> requests W a = {} \<and> renewed a c (am_store W))"

lemma renewed_settles:
  assumes "refresh_step X L T W (RefreshRenewed t a c) W'" "locks_held W" "asked_migrated W"
  shows "settled a c W' \<and> am_tasks W' t = Some (RefreshEnded (Inr c))"
proof -
  have none: "requests W' a = {}" and m: "cs_migrated (am_store W)"
    using balanced_step [OF assms(1,2), of a] assms(3) by (auto simp: balanced_def asked_migrated_def)
  from assms(1) have "map_of (cs_credentials (am_store W')) a = Some c \<and> am_tasks W' t = Some (RefreshEnded (Inr c))"
  proof (rule refresh_stepE)
    fix u assume "refresh_poll X L T u W = Some (RefreshRenewed t a c, W')"
    then show ?thesis
      by (auto simp: poll_defs dest: refresh_store_frame
          split: option.splits refresh_task.splits prod.splits sum.splits if_splits)
  next
    fix u assume "refresh_drop u W = Some (RefreshRenewed t a c, W')"
    then show ?thesis by (auto simp: refresh_drop_def split: option.splits refresh_task.splits)
  qed auto
  with none migrated_step [OF assms(1) m] locks_held_step [OF assms(1,2)] show ?thesis
    by (simp add: settled_def renewed_def)
qed

lemma ended_stays:
  "refresh_step X L T W e W' \<Longrightarrow> am_tasks W t = Some (RefreshEnded r) \<Longrightarrow> am_tasks W' t = Some (RefreshEnded r)"
  by (erule refresh_stepE)
    (auto simp: poll_defs refresh_drop_def split: option.splits refresh_task.splits prod.splits sum.splits if_splits)

fun keeps_account :: "str \<Rightarrow> 's refresh_event \<Rightarrow> bool" where
  "keeps_account a (RefreshOutside S S') = (map_of (cs_credentials S') a = map_of (cs_credentials S) a)"
| "keeps_account a _ = True"

fun fresh_look :: "codex_lib \<Rightarrow> str \<Rightarrow> codex_credentials \<Rightarrow> 's refresh_event \<Rightarrow> bool" where
  "fresh_look X a c (RefreshLooked t b force now current) = (b = a \<longrightarrow> \<not> force \<and> \<not> should_refresh X now c)"
| "fresh_look X a c _ = True"

lemma settled_poll:
  assumes p: "refresh_poll X L T t W = Some (e, W')" and s: "settled a c W" and f: "fresh_look X a c e"
  shows "renewed a c (am_store W') \<and> (event_account e = Some a \<longrightarrow>
    (\<exists>now. e = RefreshLooked t a False now c) \<and> am_tasks W' t = Some (RefreshEnded (Inr c)))"
proof -
  obtain task where t: "am_tasks W t = Some task" using p by (auto simp: refresh_poll_def split: option.splits)
  from s have r: "renewed a c (am_store W)" and free: "\<not> (past_asking task \<and> task_account task = Some a)"
    using t by (auto simp: settled_def requests_def)
  show ?thesis
  proof (cases task)
    case (RefreshNew requested force)
    with p t r show ?thesis by (auto simp: poll_defs dest: renewed_resolve split: prod.splits sum.splits)
  next
    case (RefreshWaiting b force)
    with p t r show ?thesis by (auto simp: poll_defs split: if_splits)
  next
    case (RefreshHolding b force)
    obtain x S where l: "refresh_look X L (tt_now T (am_net W)) b force (am_store W) = (x, S)" by (metis surj_pair)
    note keep = renewed_look [OF l r]
    show ?thesis
    proof (cases "b = a")
      case True
      have "read_credentials X L a (am_store W) = (Inr c, am_store W)"
        using renewed_read [OF _ r] by (metis surj_pair)
      with True l have "x = Inr (c, force \<or> should_refresh X (tt_now T (am_net W)) c)"
        by (auto simp: refresh_look_def)
      with p t RefreshHolding True l f keep show ?thesis by (auto simp: poll_defs)
    next
      case False
      with p t RefreshHolding l keep show ?thesis by (auto simp: poll_defs split: sum.splits if_splits)
    qed
  next
    case (RefreshAsking b current)
    with p t r free show ?thesis by (auto simp: poll_defs split: prod.splits sum.splits)
  next
    case (RefreshStoring b d)
    with free have "b \<noteq> a" by simp
    with p t r RefreshStoring show ?thesis
      by (auto simp: poll_defs renewed_def dest: refresh_store_frame split: prod.splits sum.splits)
  qed (use p t in \<open>simp add: refresh_poll_def\<close>)
qed

lemma settled_step:
  assumes "refresh_step X L T W e W'" "settled a c W" "fresh_look X a c e" "keeps_account a e"
  shows "settled a c W' \<and> (event_account e = Some a \<longrightarrow>
    (\<exists>t now. e = RefreshLooked t a False now c \<and> am_tasks W' t = Some (RefreshEnded (Inr c))))"
proof -
  have held: "locks_held W" "requests W a = {}" and r: "renewed a c (am_store W)" using assms(2) by (auto simp: settled_def)
  have main: "renewed a c (am_store W') \<and> (event_account e = Some a \<longrightarrow>
    (\<exists>t now. e = RefreshLooked t a False now c \<and> am_tasks W' t = Some (RefreshEnded (Inr c))))"
    using assms(1)
  proof (rule refresh_stepE)
    fix t assume "refresh_poll X L T t W = Some (e, W')"
    from settled_poll [OF this assms(2,3)] show ?thesis by blast
  next
    fix t assume "refresh_drop t W = Some (e, W')"
    moreover have "\<not> asking a (am_tasks W t)" using held(2) by (auto simp: requests_def asking_def)
    ultimately show ?thesis using r
      by (auto simp: refresh_drop_def split: option.splits refresh_task.splits)
  qed (use r assms(4) in \<open>auto simp: task_goes_def renewed_def\<close>)
  have "\<not> asks_server X a e"
  proof
    assume asks: "asks_server X a e"
    then obtain t force now current where "e = RefreshLooked t a force now current" by (cases e) auto
    with asks main assms(3) show False by auto
  qed
  with balanced_step [OF assms(1) held(1), of a] held(2) have "requests W' a = {}"
    by (auto simp: balanced_def split: if_splits)
  with main locks_held_step [OF assms(1) held(1)] show ?thesis by (simp add: settled_def)
qed

lemma settled_runs:
  assumes "refresh_runs X L T W es W'" "settled a c W" "list_all (fresh_look X a c) es" "list_all (keeps_account a) es"
    and "e \<in> set es" "event_account e = Some a"
  shows "\<exists>t now. e = RefreshLooked t a False now c \<and> am_tasks W' t = Some (RefreshEnded (Inr c))"
  using assms
proof (induction rule: refresh_runs.induct)
  case (more W d W1 es W')
  have stays: "am_tasks W' t = Some (RefreshEnded r)" if "am_tasks W1 t = Some (RefreshEnded r)" for t r
    using more.hyps(2) that by (induction rule: refresh_runs.induct) (auto intro: ended_stays)
  from settled_step [OF more.hyps(1) more.prems(1)] more.prems(2,3)
  have s: "settled a c W1" and d: "event_account d = Some a \<Longrightarrow>
      \<exists>t now. d = RefreshLooked t a False now c \<and> am_tasks W1 t = Some (RefreshEnded (Inr c))" by auto
  show ?case
  proof (cases "e \<in> set es")
    case True
    with more.IH [OF s] more.prems(2,3,5) show ?thesis by simp
  next
    case False
    with more.prems(4,5) d stays show ?thesis by (metis set_ConsD)
  qed
qed simp

text \<open>
  C17. One refresh serves everybody. Any number of calls for any accounts run together, in any
  order of their steps, while calls arrive and are dropped and others use the store. Up to the
  moment at which a call for an account returns renewed credentials, the requests of that
  account have followed each other: each but this one had ended, refused or abandoned, before
  the next was sent. From then on every call of the account that gets the lock returns these
  very credentials and sends nothing, as long as it is not forced, they are not due, and nobody
  else replaces them.
\<close>

theorem one_refresh_serves_all:
  assumes "refresh_runs X L T W (xs @ RefreshRenewed t a c # ys) W'"
    and "am_tasks W = Map.empty" "am_locks W = Map.empty"
    and "list_all (fresh_look X a c) ys" "list_all (keeps_account a) ys"
  shows "(\<forall>k. length (filter (asks_server X a) (take k xs)) \<le> length (filter (ends_request a) (take k xs)) + 1)
    \<and> length (filter (asks_server X a) xs) = length (filter (ends_request a) xs) + 1
    \<and> am_tasks W' t = Some (RefreshEnded (Inr c))
    \<and> (\<forall>e \<in> set ys. event_account e = Some a \<longrightarrow>
         (\<exists>u now. e = RefreshLooked u a False now c \<and> am_tasks W' u = Some (RefreshEnded (Inr c))))"
proof -
  obtain W1 W2 where x: "refresh_runs X L T W xs W1" and r: "refresh_step X L T W1 (RefreshRenewed t a c) W2"
    and y: "refresh_runs X L T W2 ys W'"
    using assms(1) by (auto simp: refresh_runs_append refresh_runs_Cons)
  have held: "locks_held W" "asked_migrated W" "requests W a = {}"
    using assms(2,3) by (simp_all add: locks_held_def asked_migrated_def requests_def)
  note W1 = locks_held_runs [OF x held(1)]
  from balanced_step [OF r W1, of a] have "requests W1 a \<noteq> {}" by (simp add: balanced_def)
  with requests_balance [OF x held(1), of a] held(3)
  have "length (filter (asks_server X a) xs) = length (filter (ends_request a) xs) + 1" by simp
  moreover have "length (filter (asks_server X a) (take k xs)) \<le> length (filter (ends_request a) (take k xs)) + 1" for k
  proof -
    obtain V where "refresh_runs X L T W (take k xs) V"
      using x refresh_runs_append [of X L T W "take k xs" "drop k xs" W1] by auto
    from requests_balance [OF this held(1), of a] held(3) show ?thesis
      by (simp add: of_bool_def split: if_splits)
  qed
  moreover have s: "settled a c W2" "am_tasks W2 t = Some (RefreshEnded (Inr c))"
    using renewed_settles [OF r W1 asked_migrated_runs [OF x held(1,2)]] by simp_all
  moreover have "am_tasks W' t = Some (RefreshEnded (Inr c))"
    using y s(2) by (induction rule: refresh_runs.induct) (auto intro: ended_stays)
  ultimately show ?thesis using settled_runs [OF y _ assms(4,5)] by blast
qed

section \<open>A call that nothing disturbs\<close>

text \<open>Polls of one task, up to its end.\<close>

fun poll_on :: "codex_lib \<Rightarrow> 's secret_lib \<Rightarrow> 'n token_transport \<Rightarrow> nat \<Rightarrow> nat \<Rightarrow> ('s, 'n) auth_manager
    \<Rightarrow> 's refresh_event list \<times> ('s, 'n) auth_manager" where
  "poll_on X L T t 0 W = ([], W)"
| "poll_on X L T t (Suc k) W =
     (case refresh_poll X L T t W of
        None \<Rightarrow> ([], W)
      | Some (e, W1) \<Rightarrow> (case poll_on X L T t k W1 of (es, W') \<Rightarrow> (e # es, W')))"

lemma poll_on_runs: "poll_on X L T t k W = (es, W') \<Longrightarrow> refresh_runs X L T W es W'"
  by (induction k arbitrary: W es) (fastforce intro: refresh_runs.intros polled split: option.splits prod.splits)+

text \<open>With the lock of its account free, it does what \<open>refresh_credentials\<close> says, in at most five polls.\<close>

lemma undisturbed_refresh:
  assumes "am_tasks W t = Some (RefreshNew requested force)" "\<And>a u. am_locks W a \<noteq> Some (Some u)"
    and "refresh_credentials X L T requested force (am_store W, am_net W) = (x, S, n)"
  shows "am_tasks (snd (poll_on X L T t 5 W)) t = Some (RefreshEnded x)
    \<and> am_store (snd (poll_on X L T t 5 W)) = S \<and> am_net (snd (poll_on X L T t 5 W)) = n"
proof -
  have "account_lock a (am_locks W) a = Some None" for a
    using assms(2) by (cases "am_locks W a"; cases "the (am_locks W a)") (auto simp: account_lock_def)
  with assms(1,3) show ?thesis
    by (auto simp: eval_nat_numeral refresh_credentials_def refresh_poll_def task_goes_def task_returns_def
        split: prod.splits sum.splits if_splits)
qed

section \<open>Two calls at a time\<close>

text \<open>The second queues behind the first, which is forced, and is served what that one has fetched.\<close>

definition first_events :: "memory_secrets refresh_event list" where
  "first_events = [RefreshQuiet 0, RefreshQuiet 1, RefreshQuiet 0, RefreshQuiet 1, RefreshQuiet 0,
     RefreshLooked 0 ''acct'' True 2 sample_credentials, RefreshQuiet 0]"

definition last_events :: "memory_secrets refresh_event list" where
  "last_events = [RefreshQuiet 1, RefreshLooked 1 ''acct'' False 2 renewed_credentials]"

lemma two_calls:
  assumes "cached ''acct'' [sample_record] sample_credentials S"
  shows "\<exists>W'. refresh_runs answering_codex memory_lib answering_server
      \<lparr>am_store = S, am_net = 2, am_locks = Map.empty, am_tasks = Map.empty\<rparr>
      (first_events @ RefreshRenewed 0 ''acct'' renewed_credentials # last_events) W'"
proof -
  obtain S' where s: "store_credentials answering_codex memory_lib ''acct'' renewed_credentials S = (Inr (), S')"
    using answered [OF assms] by blast
  have claim: "account_claim answering_codex (cred_id_token renewed_credentials) = Some ''acct''"
    by (simp add: renewed_credentials_def sample_credentials_def answering_claims)
  from s claim have stored: "refresh_store answering_codex memory_lib ''acct'' renewed_credentials S = (Inr renewed_credentials, S')"
    by (simp add: refresh_store_def)
  have "cs_migrated S" "cs_records S = Some [sample_record]" using assms by (simp_all add: cached_def)
  note S' = stored_cached [OF this s]
  have look: "refresh_look answering_codex memory_lib 2 ''acct'' True S = (Inr (sample_credentials, True), S)"
    by (simp add: refresh_look_def cached_read [OF assms])
  have due: "\<not> should_refresh answering_codex 2 renewed_credentials"
    by (simp add: should_refresh_def renewed_credentials_def sample_credentials_def answering_claims
        saturating_sub_def UNKNOWN_EXPIRY_REFRESH_SECS_def word_le_nat_alt)
  have look': "refresh_look answering_codex memory_lib 2 ''acct'' False S' = (Inr (renewed_credentials, False), S')"
    using due by (simp add: refresh_look_def cached_read [OF S'])
  have now: "tt_now answering_server n = n" for n by (simp add: answering_server_def)
  note [simp] = look look' stored now cached_choice [OF assms] answering_refresh
  let ?W = "\<lambda>S locks tasks. \<lparr>am_store = S, am_net = (2::u64), am_locks = locks, am_tasks = tasks\<rparr>"
  show ?thesis
    unfolding first_events_def last_events_def append_Cons append_Nil
    apply (intro exI)
    apply (rule more, rule arrives [where requested = "Some ''acct''" and force = True], simp)
    apply (rule more, rule arrives [where requested = "Some ''acct''" and force = False], simp add: task_goes_def)
    apply (rule more, rule polled [where t = 0], simp add: refresh_poll_def task_goes_def account_lock_def)
    apply (rule more, rule polled [where t = 1], simp add: refresh_poll_def task_goes_def account_lock_def)
    apply (rule more, rule polled [where t = 0], simp add: refresh_poll_def task_goes_def)
    apply (rule more, rule polled [where t = 0], simp add: refresh_poll_def task_goes_def)
    apply (rule more, rule polled [where t = 0], simp add: refresh_poll_def task_goes_def)
    apply (rule more, rule polled [where t = 0], simp add: refresh_poll_def task_returns_def)
    apply (rule more, rule polled [where t = 1], simp add: refresh_poll_def task_goes_def)
    apply (rule more, rule polled [where t = 1], simp add: refresh_poll_def task_returns_def)
    apply (rule none)
    done
qed

theorem one_refresh_serves_all_witness:
  "\<exists>S W'. refresh_runs answering_codex memory_lib answering_server
      \<lparr>am_store = S, am_net = 2, am_locks = Map.empty, am_tasks = Map.empty\<rparr>
      (first_events @ RefreshRenewed 0 ''acct'' renewed_credentials # last_events) W'
    \<and> am_tasks W' 0 = Some (RefreshEnded (Inr renewed_credentials))
    \<and> am_tasks W' 1 = Some (RefreshEnded (Inr renewed_credentials))"
proof -
  obtain S :: "memory_secrets codex_store" where "cached ''acct'' [sample_record] sample_credentials S"
    using signed_in by blast
  from two_calls [OF this] obtain W' where r: "refresh_runs answering_codex memory_lib answering_server
      \<lparr>am_store = S, am_net = 2, am_locks = Map.empty, am_tasks = Map.empty\<rparr>
      (first_events @ RefreshRenewed 0 ''acct'' renewed_credentials # last_events) W'" by blast
  have "list_all (fresh_look answering_codex ''acct'' renewed_credentials) last_events"
    "list_all (keeps_account ''acct'') last_events"
    by (simp_all add: last_events_def should_refresh_def renewed_credentials_def sample_credentials_def answering_claims
        saturating_sub_def UNKNOWN_EXPIRY_REFRESH_SECS_def word_le_nat_alt)
  from one_refresh_serves_all [OF r _ _ this] r show ?thesis
    by (auto simp: last_events_def)
qed

end
