(* ===== verification/Keyring.thy ===== *)
theory Keyring
  imports Secrets
begin

text \<open>
  The store on the key ring of the system keeps the contract of a secret store
  (\<open>keyring_store.rs\<close>): a secret of any length can be read back, a write that fails half-way
  leaves the old secret in place, and the parts of different secrets never meet.
\<close>

section \<open>The key ring as a secret store\<close>

text \<open>
  What the store relies on: a read of the key ring fails or gives what is there, and a failed write or
  deletion changes nothing; the hash is printed in hexadecimal; a generation is made of the characters
  of URL-safe Base64 and is not that of a manifest that is stored.
\<close>

locale raw_ring =
  fixes R :: "'b raw_backend" and view :: "'b \<Rightarrow> str \<Rightarrow> str option"
  assumes reads: "raw_get R k b = Inr found \<Longrightarrow> found = view b k"
    and set_done: "raw_set R k v b = (Inr (), b') \<Longrightarrow> view b' = (view b)(k \<mapsto> v)"
    and set_failed: "raw_set R k v b = (Inl e, b') \<Longrightarrow> view b' = view b"
    and delete_done: "raw_delete R k b = (Inr (), b') \<Longrightarrow> view b' = (view b)(k := None)"
    and delete_failed: "raw_delete R k b = (Inl e, b') \<Longrightarrow> view b' = view b"
    and hex: "length (raw_sha256 R v) = 64" "list_all is_ascii_hexdigit (raw_sha256 R v)"
      "to_ascii_lowercase (raw_sha256 R v) = raw_sha256 R v"
    and generation: "raw_generation R b \<noteq> []" "list_all generation_char (raw_generation R b)"
    and fresh: "found_manifest (view b k) = Some m \<Longrightarrow> man_generation m \<noteq> raw_generation R b"

text \<open>A key ring whose reads do not fail, and any key ring with its reads answered from what is there.\<close>

locale steady_ring = raw_ring R view for R :: "'b raw_backend" and view :: "'b \<Rightarrow> str \<Rightarrow> str option" +
  assumes answers: "raw_get R k b = Inr (view b k)"

definition steady :: "'b raw_backend \<Rightarrow> ('b \<Rightarrow> str \<Rightarrow> str option) \<Rightarrow> 'b raw_backend" where
  "steady R view = R\<lparr>raw_get := \<lambda>k b. Inr (view b k)\<rparr>"

lemma steady_simps [simp]:
  "raw_get (steady R view) = (\<lambda>k b. Inr (view b k))" "raw_set (steady R view) = raw_set R"
  "raw_delete (steady R view) = raw_delete R" "raw_sha256 (steady R view) = raw_sha256 R"
  "raw_generation (steady R view) = raw_generation R"
  by (simp_all add: steady_def)

lemma steady_ring: "raw_ring R view \<Longrightarrow> steady_ring (steady R view) view"
  by (simp add: steady_ring_def steady_ring_axioms_def raw_ring_def)

text \<open>Names of parts are told apart, and from the names of secrets.\<close>

definition ring_names :: "str set" where
  "ring_names = {k. \<not> contains_str k '':chunk:''}"

definition part_of :: "str \<Rightarrow> str \<Rightarrow> bool" where
  "part_of k j = (\<exists>g i. list_all generation_char g \<and> j = chunk_account k g i)"

lemma first_separator:
  "x @ c # y = x' @ c # y' \<Longrightarrow> c \<notin> set x \<Longrightarrow> c \<notin> set x' \<Longrightarrow> x = x' \<and> y = y'"
proof (induction x arbitrary: x')
  case Nil
  then show ?case by (cases x') auto
next
  case (Cons a x)
  then show ?case by (cases x') auto
qed

lemma last_separator:
  assumes "x @ c # y = x' @ c # y'" "c \<notin> set y" "c \<notin> set y'"
  shows "x = x' \<and> y = y'"
  using first_separator [of "rev y" c "rev x" "rev y'" "rev x'"] arg_cong [OF assms(1), of rev] assms(2,3) by simp

lemma chunk_account_inj:
  assumes "chunk_account k g i = chunk_account k' g' i'" "list_all generation_char g" "list_all generation_char g'"
  shows "k = k' \<and> g = g' \<and> i = i'"
proof -
  have d: "CHR '':'' \<notin> set (decimal n)" for n using colon_free(2) decimal_digits by blast
  have split: "chunk_account k g i = ((k @ '':chunk'') @ CHR '':'' # g) @ CHR '':'' # decimal i" for k g i
    by (simp add: chunk_account_def)
  from last_separator [OF assms(1) [unfolded split] d d]
  have one: "(k @ '':chunk'') @ CHR '':'' # g = (k' @ '':chunk'') @ CHR '':'' # g'" and i: "decimal i = decimal i'"
    by simp_all
  from last_separator [OF one colon_free(1) [OF assms(2)] colon_free(1) [OF assms(3)]]
  have "k @ '':chunk'' = k' @ '':chunk''" "g = g'" by simp_all
  moreover have "i = i'" using arg_cong [OF i, of decimal_value] by simp
  ultimately show ?thesis by simp
qed

lemma name_not_part: "j \<in> ring_names \<Longrightarrow> \<not> part_of k j"
  by (auto simp: ring_names_def part_of_def chunk_account_def contains_str_iff_sublist sublist_append)

lemma part_of_one: "part_of k j \<Longrightarrow> part_of k' j \<Longrightarrow> k = k'"
  by (auto simp: part_of_def dest: chunk_account_inj)

lemma manifest_parts: "manifest_ok m \<Longrightarrow> j \<in> set (manifest_accounts k m) \<Longrightarrow> part_of k j"
  by (auto simp: manifest_accounts_def manifest_ok_def part_of_def)

lemma found_manifest_ok: "found_manifest v = Some m \<Longrightarrow> manifest_ok m"
  by (cases v) (auto simp: found_manifest_def intro: parsed_manifest_ok split: sum.splits)

lemma distinct_accounts:
  assumes "list_all generation_char (man_generation m)"
  shows "distinct (manifest_accounts k m)"
  using chunk_account_inj [OF _ assms assms] by (auto simp: manifest_accounts_def distinct_map inj_on_def)

lemma other_generation:
  assumes "manifest_ok m" "manifest_ok m'" "man_generation m \<noteq> man_generation m'"
  shows "set (manifest_accounts k m) \<inter> set (manifest_accounts k m') = {}"
  using assms by (auto simp: manifest_accounts_def manifest_ok_def dest: chunk_account_inj)

context steady_ring
begin

lemma set_frame: "raw_set R k v b = (x, b') \<Longrightarrow> j \<noteq> k \<Longrightarrow> view b' j = view b j"
  using set_done set_failed by (cases x) auto

lemma delete_frame: "raw_delete R k b = (x, b') \<Longrightarrow> j \<noteq> k \<Longrightarrow> view b' j = view b j"
  using delete_done delete_failed by (cases x) auto

lemma delete_each_frame: "j \<notin> set ks \<Longrightarrow> view (snd (delete_each R ks b)) j = view b j"
proof (induction ks arbitrary: b)
  case (Cons k ks)
  obtain x b1 where d: "raw_delete R k b = (x, b1)" by (metis surj_pair)
  obtain y b2 where e: "delete_each R ks b1 = (y, b2)" by (metis surj_pair)
  with Cons.IH [of b1] Cons.prems delete_frame [OF d] d show ?case by (cases x) auto
qed simp

lemma delete_previous_frame:
  "(\<And>m. previous = Some m \<Longrightarrow> j \<notin> set (manifest_accounts k m)) \<Longrightarrow>
     view (delete_previous R k previous b) j = view b j"
  by (cases previous) (simp_all add: delete_previous_def delete_manifest_chunks_def delete_each_frame)

lemma write_parts_frame:
  "write_parts R parts written b = (x, b') \<Longrightarrow> j \<notin> fst ` set parts \<Longrightarrow> j \<notin> set written \<Longrightarrow> view b' j = view b j"
proof (induction parts arbitrary: written b)
  case (Cons p parts)
  obtain k c where p: "p = (k, c)" by (metis surj_pair)
  obtain y b1 where s: "raw_set R k c b = (y, b1)" by (metis surj_pair)
  show ?case
  proof (cases y)
    case (Inl e)
    then show ?thesis using Cons.prems set_frame [OF s] by (auto simp: p s delete_each_frame)
  next
    case (Inr u)
    then show ?thesis using Cons.IH [of "written @ [k]" b1] Cons.prems set_frame [OF s] by (auto simp: p s)
  qed
qed simp

lemma write_parts_done:
  "write_parts R parts written b = (Inr (), b') \<Longrightarrow> distinct (map fst parts) \<Longrightarrow> view b' = view b ++ map_of parts"
proof (induction parts arbitrary: written b)
  case (Cons p parts)
  obtain k c where p: "p = (k, c)" by (metis surj_pair)
  obtain b1 where s: "raw_set R k c b = (Inr (), b1)" and rest: "write_parts R parts (written @ [k]) b1 = (Inr (), b')"
    using Cons.prems(1) by (auto simp: p split: prod.splits sum.splits)
  have "k \<notin> dom (map_of parts)" using Cons.prems(2) by (simp add: p dom_map_of_conv_image_fst)
  then have "map_of parts k = None" by blast
  with Cons.IH [OF rest] Cons.prems(2) set_done [OF s] show ?case
    by (auto simp: p map_add_def fun_eq_iff split: option.splits)
qed simp

lemma read_chunks_view:
  "list_all2 (\<lambda>k c. view b k = Some c) ks cs \<Longrightarrow> read_chunks R ks acc b = Inr (acc @ concat cs)"
  by (induction ks cs arbitrary: acc rule: list_all2_induct) (simp_all add: answers)

lemma read_chunks_cong:
  "(\<And>k. k \<in> set ks \<Longrightarrow> view b k = view b' k) \<Longrightarrow> read_chunks R ks acc b = read_chunks R ks acc b'"
proof (induction ks arbitrary: acc)
  case (Cons k ks)
  have "view b k = view b' k" using Cons.prems by simp
  moreover have "read_chunks R ks acc b = read_chunks R ks acc b'" for acc using Cons by simp
  ultimately show ?case by (simp add: answers)
qed simp

text \<open>A secret is read from its name and the parts its manifest names.\<close>

lemma get_cong:
  assumes "view b k = view b' k"
    and "\<And>m j. found_manifest (view b k) = Some m \<Longrightarrow> j \<in> set (manifest_accounts k m) \<Longrightarrow> view b j = view b' j"
  shows "keyring_get R k b = keyring_get R k b'"
proof (cases "view b k")
  case (Some v)
  show ?thesis
  proof (cases "parse_chunk_manifest v")
    case (Inr found)
    show ?thesis
    proof (cases found)
      case m: (Some m)
      with Inr Some have "found_manifest (view b k) = Some m" by (simp add: found_manifest_def)
      from read_chunks_cong [OF assms(2) [OF this]] m Inr Some assms(1) [symmetric] show ?thesis
        by (simp add: keyring_get_def answers)
    qed (use Inr Some assms(1) [symmetric] in \<open>simp add: keyring_get_def answers\<close>)
  qed (use Some assms(1) [symmetric] in \<open>simp add: keyring_get_def answers\<close>)
qed (use assms(1) [symmetric] in \<open>simp add: keyring_get_def answers\<close>)

text \<open>Only the name itself and its parts change.\<close>

lemma outside:
  assumes "\<And>j. view b' j = view b j \<or> j = k \<or> part_of k j"
    and "l \<in> ring_names" "k \<in> ring_names" "l \<noteq> k"
  shows "keyring_get R l b' = keyring_get R l b"
proof (rule get_cong)
  show "view b' l = view b l" using assms name_not_part by blast
  fix m j
  assume "found_manifest (view b' l) = Some m" "j \<in> set (manifest_accounts l m)"
  then have "part_of l j" using manifest_parts found_manifest_ok by blast
  then show "view b' j = view b j" using assms name_not_part part_of_one by blast
qed

definition new_manifest :: "str \<Rightarrow> 'b \<Rightarrow> secret_chunk_manifest" where
  "new_manifest secret b =
     \<lparr>man_generation = raw_generation R b, man_chunk_count = length (split_secret_chunks secret),
      man_sha256 = raw_sha256 R secret\<rparr>"

lemma chunks_nonempty: "split_secret_chunks secret \<noteq> []"
proof -
  have "chunk_loop cs chunk n \<noteq> []" for cs chunk n by (induction cs chunk n rule: chunk_loop.induct) auto
  then show ?thesis by (simp add: split_secret_chunks_def)
qed

lemma new_manifest_ok:
  "length (split_secret_chunks secret) \<le> KEYRING_CHUNK_MAX_COUNT \<Longrightarrow> manifest_ok (new_manifest secret b)"
  using chunks_nonempty [of secret] generation [of b] hex [of secret]
  by (simp add: manifest_ok_def new_manifest_def Suc_le_eq)

lemma new_parts:
  assumes "length (split_secret_chunks secret) \<le> KEYRING_CHUNK_MAX_COUNT"
  shows "j \<in> set (manifest_accounts k (new_manifest secret b)) \<Longrightarrow> part_of k j"
    and "found_manifest (view b k) = Some m \<Longrightarrow>
      set (manifest_accounts k m) \<inter> set (manifest_accounts k (new_manifest secret b)) = {}"
  using manifest_parts [OF new_manifest_ok [OF assms]]
    other_generation [OF found_manifest_ok [of "view b k" m] new_manifest_ok [OF assms, of b]] fresh [of b k m]
  by (auto simp: new_manifest_def)

lemma zip_names: "j \<notin> set xs \<Longrightarrow> j \<notin> fst ` set (zip xs ys)"
  by (metis imageE prod.collapse set_zip_leftD)

lemma set_changes:
  assumes "keyring_set R k secret b = (x, b')"
  shows "view b' j = view b j \<or> j = k \<or> part_of k j"
proof (rule ccontr)
  assume other: "\<not> (view b' j = view b j \<or> j = k \<or> part_of k j)"
  let ?previous = "found_manifest (view b k)"
  have old: "\<And>m. ?previous = Some m \<Longrightarrow> j \<notin> set (manifest_accounts k m)"
    using other manifest_parts found_manifest_ok by blast
  show False
  proof (cases "secret_utf16_units secret \<le> KEYRING_CHUNK_MAX_UTF16_UNITS")
    case True
    with assms other old show False
      using set_frame [of k secret b] delete_previous_frame [of ?previous j k]
      by (auto simp: keyring_set_def answers Let_def split: prod.splits sum.splits)
  next
    case False
    then have few: "length (split_secret_chunks secret) \<le> KEYRING_CHUNK_MAX_COUNT"
      using assms other by (auto simp: keyring_set_def answers Let_def split: if_splits)
    let ?accounts = "manifest_accounts k (new_manifest secret b)"
    have new: "j \<notin> set ?accounts" using other new_parts(1) [OF few] by blast
    obtain y b1 where w: "write_parts R (zip ?accounts (split_secret_chunks secret)) [] b = (y, b1)"
      by (metis surj_pair)
    have v1: "view b1 j = view b j"
      using write_parts_frame [OF w zip_names [OF new]] by simp
    obtain z b2 where s: "raw_set R k (encode_chunk_manifest (new_manifest secret b)) b1 = (z, b2)"
      by (metis surj_pair)
    have v2: "view b2 j = view b j" using set_frame [OF s] v1 other by simp
    show False
      using assms False few w s other v1 v2 delete_each_frame [OF new, of b2]
        delete_previous_frame [of ?previous j k b2, OF old]
      by (cases y; cases z) (auto simp: keyring_set_def answers Let_def new_manifest_def)
  qed
qed

lemma delete_changes:
  assumes "keyring_delete R k b = (x, b')"
  shows "view b' j = view b j \<or> j = k \<or> part_of k j"
proof (rule ccontr)
  assume other: "\<not> (view b' j = view b j \<or> j = k \<or> part_of k j)"
  have old: "\<And>m. found_manifest (view b k) = Some m \<Longrightarrow> j \<notin> set (manifest_accounts k m)"
    using other manifest_parts found_manifest_ok by blast
  obtain y b1 where d: "raw_delete R k b = (y, b1)" by (metis surj_pair)
  have "view b1 j = view b j" using delete_frame [OF d] other by simp
  moreover have "\<exists>ks. j \<notin> set ks \<and> b' = snd (delete_each R ks b1)"
  proof (cases "found_manifest (view b k)")
    case None
    with assms d have "b' = snd (delete_each R [] b1)" by (simp add: keyring_delete_def answers)
    then show ?thesis by (metis empty_iff list.set(1))
  next
    case (Some m)
    with assms d have "b' = snd (delete_each R (manifest_accounts k m) b1)"
      by (cases y) (auto simp: keyring_delete_def answers delete_manifest_chunks_def split: prod.splits)
    with old [OF Some] show ?thesis by blast
  qed
  ultimately show False using delete_each_frame [of j] other by metis
qed

text \<open>The values that come back: not blank, and not themselves like a manifest.\<close>

definition storable :: "str \<Rightarrow> bool" where
  "storable v = (trim v \<noteq> [] \<and> \<not> starts_with v KEYRING_CHUNK_MANIFEST_PREFIX)"

lemma set_get:
  assumes "storable secret" "k \<in> ring_names" "keyring_set R k secret b = (Inr (), b')"
  shows "keyring_get R k b' = Inr (Some secret)"
proof (cases "secret_utf16_units secret \<le> KEYRING_CHUNK_MAX_UTF16_UNITS")
  case True
  with assms(3) obtain b1 where s: "raw_set R k secret b = (Inr (), b1)"
    and b': "b' = delete_previous R k (found_manifest (view b k)) b1"
    by (auto simp: keyring_set_def answers Let_def split: prod.splits sum.splits)
  have "view b' k = Some secret"
    using set_done [OF s] delete_previous_frame [of "found_manifest (view b k)" k k b1] b'
      name_not_part [OF assms(2)] manifest_parts found_manifest_ok by fastforce
  moreover have "parse_chunk_manifest secret = Inr None"
    using assms(1) by (auto simp: storable_def parse_chunk_manifest_def strip_prefix_None_iff [symmetric] split: option.split)
  ultimately show ?thesis using assms(1) by (simp add: keyring_get_def answers storable_def)
next
  case False
  then have few: "length (split_secret_chunks secret) \<le> KEYRING_CHUNK_MAX_COUNT"
    using assms(3) by (auto simp: keyring_set_def answers Let_def split: if_splits)
  let ?m = "new_manifest secret b" and ?chunks = "split_secret_chunks secret"
  let ?accounts = "manifest_accounts k ?m"
  obtain b1 b2 where w: "write_parts R (zip ?accounts ?chunks) [] b = (Inr (), b1)"
    and s: "raw_set R k (encode_chunk_manifest ?m) b1 = (Inr (), b2)"
    and b': "b' = delete_previous R k (found_manifest (view b k)) b2"
    using assms(3) False few
    by (auto simp: keyring_set_def answers Let_def new_manifest_def split: prod.splits sum.splits)
  have gen: "list_all generation_char (man_generation ?m)"
    using new_manifest_ok [OF few] by (simp add: manifest_ok_def)
  have len: "length ?accounts = length ?chunks" by (simp add: manifest_accounts_def new_manifest_def)
  have old: "\<And>m. found_manifest (view b k) = Some m \<Longrightarrow> k \<notin> set (manifest_accounts k m)" "k \<notin> set ?accounts"
    using name_not_part [OF assms(2)] manifest_parts found_manifest_ok new_parts(1) [OF few] by blast+
  have keep: "view b' j = view b2 j" if "j \<in> set ?accounts \<or> j = k" for j
    using delete_previous_frame [of "found_manifest (view b k)" j k b2] new_parts(2) [OF few] old(1) that b' by blast
  have "view b' k = Some (encode_chunk_manifest ?m)" using keep [of k] set_done [OF s] by simp
  moreover have "list_all2 (\<lambda>j c. view b' j = Some c) ?accounts ?chunks"
  proof (rule list_all2_all_nthI [OF len])
    fix i assume i: "i < length ?accounts"
    let ?j = "?accounts ! i"
    have "view b' ?j = view b1 ?j"
      using keep [of ?j] set_done [OF s] old(2) nth_mem [OF i] by auto
    moreover have "map fst (zip ?accounts ?chunks) = ?accounts" using len by simp
    then have "view b1 = view b ++ map_of (zip ?accounts ?chunks)"
      using write_parts_done [OF w] distinct_accounts [OF gen] by simp
    ultimately show "view b' ?j = Some (?chunks ! i)"
      using map_of_zip_nth [OF len distinct_accounts [OF gen], of i] i len by (simp add: map_add_def)
  qed
  ultimately show ?thesis
    using read_chunks_view [of b' ?accounts ?chunks "[]"] parse_encoded_manifest [OF new_manifest_ok [OF few, of b]]
      concat_chunks [of secret]
    by (simp add: keyring_get_def answers) (simp add: new_manifest_def)
qed

lemma set_fails:
  assumes "k \<in> ring_names" "keyring_set R k secret b = (Inl e, b')"
  shows "keyring_get R k b' = keyring_get R k b"
proof (cases "secret_utf16_units secret \<le> KEYRING_CHUNK_MAX_UTF16_UNITS")
  case True
  with assms(2) have "raw_set R k secret b = (Inl e, b')"
    by (auto simp: keyring_set_def answers Let_def split: prod.splits sum.splits)
  then have "view b' = view b" by (rule set_failed)
  then show ?thesis using get_cong [of b' k b] by simp
next
  case False
  let ?m = "new_manifest secret b" and ?chunks = "split_secret_chunks secret"
  let ?accounts = "manifest_accounts k ?m"
  show ?thesis
  proof (cases "length ?chunks \<le> KEYRING_CHUNK_MAX_COUNT")
    case few: True
    obtain y b1 where w: "write_parts R (zip ?accounts ?chunks) [] b = (y, b1)" by (metis surj_pair)
    obtain z b2 where s: "raw_set R k (encode_chunk_manifest ?m) b1 = (z, b2)" by (metis surj_pair)
    have same: "view b' j = view b j" if j: "j \<notin> set ?accounts" for j
    proof -
      have v1: "view b1 j = view b j" using write_parts_frame [OF w zip_names [OF j]] by simp
      show ?thesis
        using assms(2) False few w s v1 set_failed [of k _ b1] delete_each_frame [OF j, of b2]
        by (cases y; cases z) (auto simp: keyring_set_def answers Let_def new_manifest_def)
    qed
    show ?thesis
    proof (rule get_cong)
      have "k \<notin> set ?accounts" using name_not_part [OF assms(1)] new_parts(1) [OF few] by blast
      then show vk: "view b' k = view b k" by (rule same)
      fix m j
      assume "found_manifest (view b' k) = Some m" "j \<in> set (manifest_accounts k m)"
      then show "view b' j = view b j" using same new_parts(2) [OF few, of b k m] vk by auto
    qed
  qed (use assms(2) False in \<open>simp add: keyring_set_def answers Let_def\<close>)
qed

lemma ring_delete_get:
  assumes "k \<in> ring_names" "keyring_delete R k b = (Inr (), b')"
  shows "keyring_get R k b' = Inr None"
proof -
  obtain y b1 where d: "raw_delete R k b = (y, b1)" by (metis surj_pair)
  have y: "y = Inr ()"
    using assms(2) d by (cases y; cases "found_manifest (view b k)") (auto simp: keyring_delete_def answers split: prod.splits)
  have "view b' k = None"
  proof (cases "found_manifest (view b k)")
    case None
    with assms(2) d y delete_done [of k b b1] show ?thesis by (auto simp: keyring_delete_def answers)
  next
    case (Some m)
    have "k \<notin> set (manifest_accounts k m)"
      using name_not_part [OF assms(1)] manifest_parts [OF found_manifest_ok [OF Some]] by blast
    from delete_each_frame [OF this, of b1] assms(2) d y Some delete_done [of k b b1] show ?thesis
      by (auto simp: keyring_delete_def answers delete_manifest_chunks_def split: prod.splits)
  qed
  then show ?thesis by (simp add: keyring_get_def answers)
qed

end

sublocale steady_ring \<subseteq> secrets: secret_store
  "keyring_get R" "keyring_set R" "keyring_delete R" ring_names storable "\<lambda>_. True"
proof (unfold_locales, goal_cases)
  case (1 s k v s')
  then show ?case using set_get by blast
next
  case (2 s k v e s')
  then show ?case using set_fails by blast
next
  case (3 s k j v x s')
  then show ?case using outside [of s' s k j] set_changes [OF 3(5)] by blast
next
  case (4 s k s')
  then show ?case using ring_delete_get by blast
next
  case (5 s k j x s')
  then show ?case using outside [of s' s k j] delete_changes [OF 5(5)] by blast
qed simp_all

section \<open>Any key ring\<close>

text \<open>What is kept under a name: what is read there when no read of the key ring fails.\<close>

definition kept_secret :: "'b raw_backend \<Rightarrow> ('b \<Rightarrow> str \<Rightarrow> str option) \<Rightarrow> str \<Rightarrow> 'b \<Rightarrow> auth_error + str option" where
  "kept_secret R view k b = keyring_get (steady R view) k b"

lemma delete_each_steady [simp]: "delete_each (steady R view) ks b = delete_each R ks b"
  by (induction ks arbitrary: b) (auto split: prod.splits)

lemma delete_manifest_steady [simp]: "delete_manifest_chunks (steady R view) k m b = delete_manifest_chunks R k m b"
  by (simp add: delete_manifest_chunks_def)

lemma delete_previous_steady [simp]: "delete_previous (steady R view) k previous b = delete_previous R k previous b"
  by (cases previous) (simp_all add: delete_previous_def)

lemma write_parts_steady [simp]: "write_parts (steady R view) parts written b = write_parts R parts written b"
  by (induction parts arbitrary: written b) (auto split: prod.splits sum.splits)

lemma read_chunks_steady:
  assumes "raw_ring R view"
  shows "read_chunks R ks acc b = read_chunks (steady R view) ks acc b
    \<or> (\<exists>j \<in> set ks. \<exists>e. raw_get R j b = Inl e \<and> read_chunks R ks acc b = Inl e)"
proof (induction ks arbitrary: acc)
  case (Cons k ks)
  show ?case
  proof (cases "raw_get R k b")
    case (Inr v)
    moreover have "view b k = v" using raw_ring.reads [OF assms Inr] by simp
    ultimately show ?thesis using Cons.IH by (cases v) auto
  qed simp
qed simp

text \<open>What is read is what is kept, or the error of a read.\<close>

lemma get_steady:
  assumes "raw_ring R view"
  shows "keyring_get R k b = kept_secret R view k b
    \<or> (\<exists>j e. raw_get R j b = Inl e \<and> keyring_get R k b = Inl e)"
proof (cases "raw_get R k b")
  case (Inl e)
  then show ?thesis by (auto simp: keyring_get_def)
next
  case (Inr found)
  note v = raw_ring.reads [OF assms Inr]
  show ?thesis
  proof (cases "\<exists>stored m. found = Some stored \<and> parse_chunk_manifest stored = Inr (Some m)")
    case True
    then obtain stored m where p: "found = Some stored" "parse_chunk_manifest stored = Inr (Some m)" by blast
    from read_chunks_steady [OF assms, of "manifest_accounts k m" "[]" b] show ?thesis
      using Inr p v [symmetric] by (auto simp: keyring_get_def kept_secret_def)
  next
    case False
    with Inr v [symmetric] show ?thesis
      by (cases found; cases "parse_chunk_manifest (the found)"; cases "projr (parse_chunk_manifest (the found))")
        (auto simp: keyring_get_def kept_secret_def)
  qed
qed

text \<open>A call whose first read fails changes nothing; any other does what it does when reads answer.\<close>

lemma set_steady:
  "raw_ring R view \<Longrightarrow> keyring_set R k secret b = keyring_set (steady R view) k secret b
     \<or> (\<exists>e. keyring_set R k secret b = (Inl e, b))"
  unfolding keyring_set_def steady_simps delete_previous_steady write_parts_steady delete_each_steady
  using raw_ring.reads [of R view k b] by (cases "raw_get R k b") auto

lemma delete_steady:
  "raw_ring R view \<Longrightarrow> keyring_delete R k b = keyring_delete (steady R view) k b
     \<or> (\<exists>e. keyring_delete R k b = (Inl e, b))"
  unfolding keyring_delete_def steady_simps delete_manifest_steady
  using raw_ring.reads [of R view k b] by (cases "raw_get R k b") auto

lemma set_keeps:
  assumes "raw_ring R view" "k \<in> ring_names" "keyring_set R k secret b = (x, b')"
  shows "x = Inr () \<Longrightarrow> trim secret \<noteq> [] \<Longrightarrow> \<not> starts_with secret KEYRING_CHUNK_MANIFEST_PREFIX \<Longrightarrow>
      kept_secret R view k b' = Inr (Some secret)"
    and "x = Inl e \<Longrightarrow> kept_secret R view k b' = kept_secret R view k b"
    and "j \<in> ring_names \<Longrightarrow> j \<noteq> k \<Longrightarrow> kept_secret R view j b' = kept_secret R view j b"
proof -
  note ring = steady_ring [OF assms(1)]
  from set_steady [OF assms(1), of k secret b] assms(3)
  have s: "keyring_set (steady R view) k secret b = (x, b') \<or> (b' = b \<and> (\<exists>e. x = Inl e))" by auto
  show "kept_secret R view k b' = Inr (Some secret)"
    if "x = Inr ()" "trim secret \<noteq> []" "\<not> starts_with secret KEYRING_CHUNK_MANIFEST_PREFIX"
    using that s steady_ring.set_get [OF ring _ assms(2), of secret b b']
    by (auto simp: kept_secret_def steady_ring.storable_def [OF ring])
  show "x = Inl e \<Longrightarrow> kept_secret R view k b' = kept_secret R view k b"
    using s steady_ring.set_fails [OF ring assms(2), of secret b e b'] by (auto simp: kept_secret_def)
  show "j \<in> ring_names \<Longrightarrow> j \<noteq> k \<Longrightarrow> kept_secret R view j b' = kept_secret R view j b"
    using s steady_ring.outside [OF ring, of b' b k j] steady_ring.set_changes [OF ring, of k secret b x b'] assms(2)
    unfolding kept_secret_def by blast
qed

lemma delete_keeps:
  assumes "raw_ring R view" "k \<in> ring_names" "keyring_delete R k b = (x, b')"
  shows "x = Inr () \<Longrightarrow> kept_secret R view k b' = Inr None"
    and "j \<in> ring_names \<Longrightarrow> j \<noteq> k \<Longrightarrow> kept_secret R view j b' = kept_secret R view j b"
proof -
  note ring = steady_ring [OF assms(1)]
  from delete_steady [OF assms(1), of k b] assms(3)
  have s: "keyring_delete (steady R view) k b = (x, b') \<or> (b' = b \<and> (\<exists>e. x = Inl e))" by auto
  show "x = Inr () \<Longrightarrow> kept_secret R view k b' = Inr None"
    using s steady_ring.ring_delete_get [OF ring assms(2), of b b'] by (auto simp: kept_secret_def)
  show "j \<in> ring_names \<Longrightarrow> j \<noteq> k \<Longrightarrow> kept_secret R view j b' = kept_secret R view j b"
    using s steady_ring.outside [OF ring, of b' b k j] steady_ring.delete_changes [OF ring, of k b x b'] assms(2)
    unfolding kept_secret_def by blast
qed

section \<open>Histories\<close>

text \<open>
  Calls with what they returned, in any order; between them the key ring may become readable or
  unreadable, with what it keeps unchanged.
\<close>

datatype ring_call = RingSet str str | RingDelete str

fun ring_target :: "ring_call \<Rightarrow> str" where
  "ring_target (RingSet k secret) = k"
| "ring_target (RingDelete k) = k"

fun ring_do :: "'b raw_backend \<Rightarrow> ring_call \<Rightarrow> 'b \<Rightarrow> (auth_error + unit) \<times> 'b" where
  "ring_do R (RingSet k secret) b = keyring_set R k secret b"
| "ring_do R (RingDelete k) b = keyring_delete R k b"

inductive ring_history ::
    "'b raw_backend \<Rightarrow> ('b \<Rightarrow> str \<Rightarrow> str option) \<Rightarrow> 'b \<Rightarrow> (ring_call \<times> (auth_error + unit)) list \<Rightarrow> 'b \<Rightarrow> bool"
  for R view b where
  begins: "ring_history R view b [] b"
| calls: "ring_history R view b h b1 \<Longrightarrow> ring_do R c b1 = (x, b2) \<Longrightarrow> ring_history R view b (h @ [(c, x)]) b2"
| stays: "ring_history R view b h b1 \<Longrightarrow> view b2 = view b1 \<Longrightarrow> ring_history R view b h b2"

text \<open>
  What a history says is kept under a name: what was there before it, a secret or none, or
  nothing that is known. A write that fails leaves what was there. A deletion that fails may
  have destroyed it, and a blank secret, or one that looks like a manifest, is not read back.
\<close>

datatype ring_content = AsBefore | Holds "str option" | NotKnown

fun content_after :: "str \<Rightarrow> ring_content \<Rightarrow> ring_call \<times> (auth_error + unit) \<Rightarrow> ring_content" where
  "content_after j known (RingSet k secret, Inr u) =
     (if j \<noteq> k then known
      else if trim secret = [] \<or> starts_with secret KEYRING_CHUNK_MANIFEST_PREFIX then NotKnown
      else Holds (Some secret))"
| "content_after j known (RingSet k secret, Inl e) = known"
| "content_after j known (RingDelete k, Inr u) = (if j \<noteq> k then known else Holds None)"
| "content_after j known (RingDelete k, Inl e) = (if j \<noteq> k then known else NotKnown)"

definition ring_content :: "str \<Rightarrow> (ring_call \<times> (auth_error + unit)) list \<Rightarrow> ring_content" where
  "ring_content j h = foldl (content_after j) AsBefore h"

text \<open>
  C6. The key ring keeps secrets whole. After any history of writes and deletions of any secrets,
  short or cut into parts, failed or not, at whatever write of whatever part, what is kept under
  a name is what the last call that changed it says: the secret that was stored, none after a
  deletion, what was there when nothing was done or the write failed. And what is read there is
  what is kept, unless a read of the key ring fails: then it is that error.
\<close>

theorem keyring_keeps_secrets_whole:
  assumes "raw_ring R view" "ring_history R view b h b'" "ring_target ` fst ` set h \<subseteq> ring_names" "j \<in> ring_names"
  shows "(case ring_content j h of
       AsBefore \<Rightarrow> kept_secret R view j b' = kept_secret R view j b
     | Holds v \<Rightarrow> kept_secret R view j b' = Inr v
     | NotKnown \<Rightarrow> True)
     \<and> (keyring_get R j b' = kept_secret R view j b' \<or> (\<exists>i e. raw_get R i b' = Inl e \<and> keyring_get R j b' = Inl e))"
proof -
  have "case ring_content j h of
       AsBefore \<Rightarrow> kept_secret R view j b' = kept_secret R view j b
     | Holds v \<Rightarrow> kept_secret R view j b' = Inr v
     | NotKnown \<Rightarrow> True"
    using assms(2,3)
  proof (induction rule: ring_history.induct)
    case (calls h b1 c x b2)
    then have k: "ring_target c \<in> ring_names" by simp
    show ?case
    proof (cases c)
      case (RingSet k secret)
      with calls k set_keeps [OF assms(1), of k secret b1 x b2] assms(4) show ?thesis
        by (cases x; cases "j = k") (auto simp: ring_content_def split: ring_content.splits)
    next
      case (RingDelete k)
      with calls k delete_keeps [OF assms(1), of k b1 x b2] assms(4) show ?thesis
        by (cases x) (auto simp: ring_content_def split: ring_content.splits)
    qed
  next
    case (stays h b1 b2)
    have "kept_secret R view j b2 = kept_secret R view j b1"
      unfolding kept_secret_def
      by (rule steady_ring.get_cong [OF steady_ring [OF assms(1)]]) (simp_all add: stays.hyps)
    with stays show ?case by (simp split: ring_content.splits)
  qed (simp add: ring_content_def)
  with get_steady [OF assms(1), of j b'] show ?thesis by blast
qed

text \<open>
  C30. A deletion that fails can destroy a secret. When the name itself cannot be deleted but the
  parts can, the caller gets the error of the key ring, and the secret that is still listed
  can no longer be read.
\<close>

theorem failed_deletion_destroys_secret:
  assumes "raw_ring R view" "k \<in> ring_names" "found_manifest (view b k) = Some m"
    and "raw_get R k b = Inr (view b k)" "\<And>j. raw_get R j b' = Inr (view b' j)"
    and "raw_delete R k b = (Inl e, b1)" "delete_manifest_chunks R k m b1 = (Inr (), b')"
  shows "keyring_delete R k b = (Inl e, b')
    \<and> keyring_get R k b' = Inl (auth_error_new CredentialCorrupted ''Credential chunk is missing.'')"
proof -
  note ring = steady_ring [OF assms(1)]
  have gone: "delete_each R ks b1 = (Inr (), b') \<Longrightarrow> j \<in> set ks \<Longrightarrow> view b' j = None" for ks j b1
  proof (induction ks arbitrary: b1)
    case (Cons i ks)
    obtain b2 where d: "raw_delete R i b1 = (Inr (), b2)" "delete_each R ks b2 = (Inr (), b')"
      using Cons.prems(1) by (auto split: prod.splits sum.splits)
    with Cons raw_ring.delete_done [OF assms(1) d(1)] steady_ring.delete_each_frame [OF ring, of j ks b2]
    show ?case by (cases "j \<in> set ks") auto
  qed simp
  have ok: "manifest_ok m" using found_manifest_ok assms(3) by blast
  then obtain i rest where accounts: "manifest_accounts k m = i # rest"
    by (cases "manifest_accounts k m") (auto simp: manifest_accounts_def manifest_ok_def)
  have "k \<notin> set (manifest_accounts k m)" using name_not_part [OF assms(2)] manifest_parts [OF ok] by blast
  from steady_ring.delete_each_frame [OF ring this, of b1] assms(7) raw_ring.delete_failed [OF assms(1,6)]
  have "view b' k = view b k" by (simp add: delete_manifest_chunks_def)
  moreover have "view b' i = None"
    using gone [of "manifest_accounts k m" b1 i] assms(7) accounts by (simp add: delete_manifest_chunks_def)
  moreover obtain v where "view b k = Some v" "parse_chunk_manifest v = Inr (Some m)"
    using assms(3) by (cases "view b k") (auto simp: found_manifest_def split: sum.splits)
  ultimately have "keyring_get R k b' = Inl (auth_error_new CredentialCorrupted ''Credential chunk is missing.'')"
    by (simp add: keyring_get_def assms(5) accounts)
  with assms(3,4,6,7) show ?thesis by (simp add: keyring_delete_def)
qed

section \<open>A key ring in memory\<close>

text \<open>
  \<open>MemoryRawBackend\<close>; the generation is longer than anything stored. The stuck variant
  refuses to delete some names.
\<close>

definition memory_raw_backend :: "memory_secrets raw_backend" where
  "memory_raw_backend =
     \<lparr>raw_get = (\<lambda>k b. Inr (map_of b k)), raw_set = (\<lambda>k v b. (Inr (), AList.update k v b)),
      raw_delete = (\<lambda>k b. (Inr (), AList.delete k b)),
      raw_sha256 = (\<lambda>_. replicate 64 (CHR ''0'')),
      raw_generation = (\<lambda>b. replicate (Suc (sum_list (map (\<lambda>(k, v). length v) b))) (CHR ''g''))\<rparr>"

definition stuck_backend :: "(str \<Rightarrow> bool) \<Rightarrow> memory_secrets raw_backend" where
  "stuck_backend stuck = memory_raw_backend
     \<lparr>raw_delete := (\<lambda>k b. if stuck k then (Inl (auth_error_new CredentialStore ''stuck''), b)
        else (Inr (), AList.delete k b))\<rparr>"

lemma hd_split_shorter: "length (hd (split_at c s)) \<le> length s"
  by (induction s) (auto split: list.split)

lemma generation_shorter:
  assumes "found_manifest (Some v) = Some m"
  shows "length (man_generation m) \<le> length v"
proof -
  have p: "parse_chunk_manifest v = Inr (Some m)"
    using assms by (auto simp: found_manifest_def split: sum.splits)
  then obtain r where r: "strip_prefix KEYRING_CHUNK_MANIFEST_PREFIX v = Some r"
    by (cases "strip_prefix KEYRING_CHUNK_MANIFEST_PREFIX v") (simp_all add: parse_chunk_manifest_def)
  with p have "man_generation m = hd (split_at (CHR '':'') r)"
    by (auto simp: parse_chunk_manifest_def Let_def split: if_splits)
  moreover have "length r \<le> length v" using r by (auto simp: strip_prefix_Some_iff)
  ultimately show ?thesis using hd_split_shorter [of "CHR '':''" r] by simp
qed

lemma longer_than_all: "map_of b k = Some v \<Longrightarrow> length v \<le> sum_list (map (\<lambda>(k, v). length v) b)"
  by (induction b) (auto split: if_splits)

interpretation stuck: steady_ring "stuck_backend stuck" map_of
proof
  fix b :: memory_secrets and k m
  assume m: "found_manifest (map_of b k) = Some m"
  then obtain v where v: "map_of b k = Some v" by (cases "map_of b k") (auto simp: found_manifest_def)
  with m generation_shorter longer_than_all have "length (man_generation m) \<le> sum_list (map (\<lambda>(k, v). length v) b)"
    using le_trans by metis
  then show "man_generation m \<noteq> raw_generation (stuck_backend stuck) b"
    by (auto simp: stuck_backend_def memory_raw_backend_def dest: arg_cong [of _ _ length])
qed (auto simp: stuck_backend_def memory_raw_backend_def AList.delete_conv' generation_char_def
    is_ascii_hexdigit_def is_ascii_digit_def is_ascii_alphanumeric_def is_ascii_lowercase_def
    to_ascii_lowercase_def is_ascii_uppercase_def list_all_iff split: if_splits)

lemma memory_backend_stuck: "memory_raw_backend = stuck_backend (\<lambda>_. False)"
  by (simp add: stuck_backend_def memory_raw_backend_def)

interpretation memory_ring: steady_ring memory_raw_backend map_of
  unfolding memory_backend_stuck by (rule stuck.steady_ring_axioms)

text \<open>\<open>MemoryRawBackend\<close> with names that cannot be read: a key ring whose reads fail.\<close>

definition denied_backend :: "(str \<Rightarrow> bool) \<Rightarrow> memory_secrets raw_backend" where
  "denied_backend denied = memory_raw_backend
     \<lparr>raw_get := (\<lambda>k b. if denied k then Inl (auth_error_new CredentialStoreLocked ''locked'') else Inr (map_of b k))\<rparr>"

interpretation denied: raw_ring "denied_backend denied" map_of
  using memory_ring.raw_ring_axioms by (auto simp: raw_ring_def denied_backend_def split: if_splits)

lemma memory_deletes: "\<exists>b'. delete_each memory_raw_backend ks b = (Inr (), b')"
  by (induction ks arbitrary: b) (auto simp: memory_raw_backend_def)

lemma memory_writes: "\<exists>b'. write_parts memory_raw_backend parts written b = (Inr (), b')"
  by (induction memory_raw_backend parts written b rule: write_parts.induct) (auto simp: memory_raw_backend_def)

lemma memory_set:
  assumes "length (split_secret_chunks secret) \<le> KEYRING_CHUNK_MAX_COUNT"
  shows "\<exists>b'. keyring_set memory_raw_backend k secret b = (Inr (), b')"
proof -
  have "raw_get memory_raw_backend k b = Inr (map_of b k)" "\<exists>c. raw_set memory_raw_backend k v c' = (Inr (), c)" for v c'
    by (simp_all add: memory_raw_backend_def)
  with assms memory_writes show ?thesis
    by (auto simp: keyring_set_def Let_def split: prod.splits sum.splits) (metis prod.inject sum.distinct(1))+
qed

lemma memory_delete: "\<exists>b'. keyring_delete memory_raw_backend k b = (Inr (), b')"
  using memory_deletes
  by (auto simp: keyring_delete_def delete_manifest_chunks_def memory_raw_backend_def split: option.splits prod.splits)

text \<open>A secret of 1500 units, which is cut in two.\<close>

definition long_secret :: str where
  "long_secret = replicate 1500 (CHR ''a'')"

lemma long_groups: "char_groups (replicate n (CHR ''a'')) = replicate n ''a''"
proof (induction n)
  case (Suc n)
  then show ?case by (cases n) (simp_all add: is_continuation_byte_def)
qed simp

lemma long_units: "secret_utf16_units long_secret = 1500"
  by (simp add: secret_utf16_units_def long_secret_def long_groups utf16_units_def sum_list_replicate)

lemma long_chunks: "1 < length (split_secret_chunks long_secret) \<and> length (split_secret_chunks long_secret) \<le> KEYRING_CHUNK_MAX_COUNT"
proof -
  obtain gss where g: "split_secret_chunks long_secret = map concat gss" "concat gss = char_groups long_secret"
    "list_all (\<lambda>g. units g \<le> KEYRING_CHUNK_MAX_UTF16_UNITS) gss"
    "(length gss - 1) * (KEYRING_CHUNK_MAX_UTF16_UNITS - 1) \<le> secret_utf16_units long_secret"
    by (rule secret_chunks)
  have "length gss \<noteq> 1"
  proof
    assume "length gss = 1"
    then obtain x where "gss = [x]" by (cases gss) auto
    with g(2,3) long_units show False
      by (simp add: units_def secret_utf16_units_def KEYRING_CHUNK_MAX_UTF16_UNITS_def)
  qed
  moreover have "gss \<noteq> []" using g(2) by (auto simp: long_secret_def long_groups)
  ultimately show ?thesis
    using g(1,4) by (cases gss) (auto simp: long_units KEYRING_CHUNK_MAX_UTF16_UNITS_def KEYRING_CHUNK_MAX_COUNT_def)
qed

text \<open>A long secret is stored; another is stored, replaced and deleted; the long one is read back.\<close>

theorem keyring_keeps_secrets_whole_witness:
  "\<exists>b'. ring_history memory_raw_backend map_of []
       [(RingSet ''k'' long_secret, Inr ()), (RingSet ''j'' ''old'', Inr ()), (RingSet ''j'' ''new'', Inr ()),
        (RingDelete ''j'', Inr ())] b'
     \<and> 1 < length (split_secret_chunks long_secret)
     \<and> keyring_get memory_raw_backend ''k'' b' = Inr (Some long_secret)
     \<and> keyring_get memory_raw_backend ''j'' b' = Inr None"
proof -
  let ?R = memory_raw_backend and ?h = "[(RingSet ''k'' long_secret, Inr ()), (RingSet ''j'' ''old'', Inr ()),
    (RingSet ''j'' ''new'', Inr ()), (RingDelete ''j'', Inr ())]"
  have short: "length (split_secret_chunks s) \<le> KEYRING_CHUNK_MAX_COUNT" if "s \<in> {''old'', ''new''}" for s
    using that by (auto simp: split_secret_chunks_def is_continuation_byte_def utf16_units_def
        KEYRING_CHUNK_MAX_UTF16_UNITS_def KEYRING_CHUNK_MAX_COUNT_def)
  obtain b1 where 1: "keyring_set ?R ''k'' long_secret [] = (Inr (), b1)" using memory_set long_chunks by blast
  obtain b2 where 2: "keyring_set ?R ''j'' ''old'' b1 = (Inr (), b2)" using memory_set short by blast
  obtain b3 where 3: "keyring_set ?R ''j'' ''new'' b2 = (Inr (), b3)" using memory_set short by blast
  obtain b4 where 4: "keyring_delete ?R ''j'' b3 = (Inr (), b4)" using memory_delete by blast
  have "ring_history ?R map_of [] (((([] @ [(RingSet ''k'' long_secret, Inr ())]) @ [(RingSet ''j'' ''old'', Inr ())])
      @ [(RingSet ''j'' ''new'', Inr ())]) @ [(RingDelete ''j'', Inr ())]) b4"
    using 1 2 3 4 by (metis (no_types) begins calls ring_do.simps)
  then have h: "ring_history ?R map_of [] ?h b4" by simp
  have names: "ring_target ` fst ` set ?h \<subseteq> ring_names" "''k'' \<in> ring_names" "''j'' \<in> ring_names"
    by (simp_all add: ring_names_def)
  have a: "long_secret = CHR ''a'' # replicate 1499 (CHR ''a'')"
    by (simp add: long_secret_def flip: replicate_Suc)
  have "list_all graphic long_secret" by (simp add: long_secret_def list_all_iff graphic_def)
  then have "trim long_secret = long_secret" by (intro trim_graphic) (auto simp: a list_all_iff)
  then have "trim long_secret \<noteq> []" by (simp add: a)
  moreover have "\<not> starts_with long_secret KEYRING_CHUNK_MANIFEST_PREFIX"
    unfolding a KEYRING_CHUNK_MANIFEST_PREFIX_def by simp
  ultimately have "ring_content ''k'' ?h = Holds (Some long_secret)" "ring_content ''j'' ?h = Holds None"
    by (simp_all add: ring_content_def)
  with keyring_keeps_secrets_whole [OF memory_ring.raw_ring_axioms h names(1,2)]
    keyring_keeps_secrets_whole [OF memory_ring.raw_ring_axioms h names(1,3)] h long_chunks
  show ?thesis by (auto simp: memory_ring.answers)
qed

definition sample_manifest :: secret_chunk_manifest where
  "sample_manifest = \<lparr>man_generation = ''g'', man_chunk_count = 1, man_sha256 = replicate 64 (CHR ''0'')\<rparr>"

lemma sample_manifest_ok: "manifest_ok sample_manifest"
  by (simp add: manifest_ok_def sample_manifest_def KEYRING_CHUNK_MAX_COUNT_def generation_char_def
      is_ascii_hexdigit_def is_ascii_digit_def is_ascii_alphanumeric_def is_ascii_lowercase_def
      to_ascii_lowercase_def is_ascii_uppercase_def list_all_iff)

theorem manifest_roundtrip_witness:
  "parse_chunk_manifest (encode_chunk_manifest sample_manifest) = Inr (Some sample_manifest)"
  using manifest_roundtrip [of sample_manifest] sample_manifest_ok by blast

definition sample_ring :: memory_secrets where
  "sample_ring = [(''k'', encode_chunk_manifest sample_manifest), (chunk_account ''k'' ''g'' 0, ''part'')]"

theorem failed_deletion_destroys_secret_witness:
  "\<exists>e b'. keyring_get (stuck_backend (\<lambda>k. k = ''k'')) ''k'' sample_ring = Inr (Some ''part'')
     \<and> keyring_delete (stuck_backend (\<lambda>k. k = ''k'')) ''k'' sample_ring = (Inl e, b')
     \<and> keyring_get (stuck_backend (\<lambda>k. k = ''k'')) ''k'' b'
        = Inl (auth_error_new CredentialCorrupted ''Credential chunk is missing.'')"
proof -
  let ?R = "stuck_backend (\<lambda>k. k = ''k'')"
  have found: "found_manifest (map_of sample_ring ''k'') = Some sample_manifest"
    by (simp add: found_manifest_def sample_ring_def parse_encoded_manifest [OF sample_manifest_ok])
  have accounts: "manifest_accounts ''k'' sample_manifest = [chunk_account ''k'' ''g'' 0]"
    by (simp add: manifest_accounts_def sample_manifest_def)
  have part: "chunk_account ''k'' ''g'' 0 \<noteq> ''k''" by (simp add: chunk_account_def)
  obtain e where d: "raw_delete ?R ''k'' sample_ring = (Inl e, sample_ring)"
    by (simp add: stuck_backend_def)
  obtain b' where c: "delete_manifest_chunks ?R ''k'' sample_manifest sample_ring = (Inr (), b')"
    using part by (simp add: delete_manifest_chunks_def accounts stuck_backend_def)
  have "keyring_get ?R ''k'' sample_ring = Inr (Some ''part'')"
    using part by (simp add: keyring_get_def stuck_backend_def memory_raw_backend_def sample_ring_def accounts
        parse_encoded_manifest [OF sample_manifest_ok]) (simp add: sample_manifest_def)
  moreover have "''k'' \<in> ring_names" by (simp add: ring_names_def)
  ultimately show ?thesis
    using failed_deletion_destroys_secret [OF stuck.raw_ring_axioms _ found stuck.answers stuck.answers d c] by blast
qed

end
