(* ===== verification/Vault.thy ===== *)
theory Vault
  imports Secrets Tools "HOL-Library.Countable"
begin

text \<open>
  The encrypted vault (\<open>encrypted_store.rs\<close>): its file format, and the state machine of locking,
  unlocking and changing it. Argon2, XChaCha20-Poly1305, the printer and parser of JSON, the
  random bytes and the disk are parameters; a file is a list of bytes.
\<close>

section \<open>The format\<close>

definition MAGIC :: str where
  "MAGIC = ''AFLXCRD1''"

definition FORMAT_VERSION :: "16 word" where
  "FORMAT_VERSION = 1"

definition SALT_LEN :: nat where
  "SALT_LEN = 16"

definition NONCE_LEN :: nat where
  "NONCE_LEN = 24"

text \<open>\<open>to_le_bytes\<close> and \<open>from_le_bytes\<close>.\<close>

fun le_bytes :: "nat \<Rightarrow> nat \<Rightarrow> str" where
  "le_bytes 0 w = []"
| "le_bytes (Suc n) w = char_of w # le_bytes n (w div 256)"

definition of_le_bytes :: "str \<Rightarrow> nat" where
  "of_le_bytes s = foldr (\<lambda>c n. of_char c + 256 * n) s 0"

definition le_u16 :: "16 word \<Rightarrow> str" where
  "le_u16 w = le_bytes 2 (unat w)"

definition le_u32 :: "u32 \<Rightarrow> str" where
  "le_u32 w = le_bytes 4 (unat w)"

definition of_le_u16 :: "str \<Rightarrow> 16 word" where
  "of_le_u16 s = word_of_nat (of_le_bytes s)"

definition of_le_u32 :: "str \<Rightarrow> u32" where
  "of_le_u32 s = word_of_nat (of_le_bytes s)"

record parsed_vault =
  pv_salt :: str
  pv_m_cost :: u32
  pv_t_cost :: u32
  pv_p_cost :: u32
  pv_nonce :: str
  pv_ciphertext :: str

definition byte_range :: "nat \<Rightarrow> nat \<Rightarrow> str \<Rightarrow> str" where
  "byte_range i j s = take (j - i) (drop i s)"

definition parse_vault :: "str \<Rightarrow> auth_error + parsed_vault" where
  "parse_vault b =
     (if length b < 8 + 2 + SALT_LEN + 12 + NONCE_LEN \<or> take 8 b \<noteq> MAGIC
      then Inl (auth_error_new CredentialCorrupted ''Encrypted credential vault header is invalid.'')
      else if of_le_u16 (byte_range 8 10 b) \<noteq> FORMAT_VERSION
      then Inl (auth_error_new CredentialCorrupted ''Encrypted credential vault version is unsupported.'')
      else Inr \<lparr>pv_salt = byte_range 10 26 b, pv_m_cost = of_le_u32 (byte_range 26 30 b),
                pv_t_cost = of_le_u32 (byte_range 30 34 b), pv_p_cost = of_le_u32 (byte_range 34 38 b),
                pv_nonce = byte_range 38 62 b, pv_ciphertext = drop 62 b\<rparr>)"

definition encode_vault :: "parsed_vault \<Rightarrow> str" where
  "encode_vault v =
     MAGIC @ le_u16 FORMAT_VERSION @ pv_salt v @ le_u32 (pv_m_cost v) @ le_u32 (pv_t_cost v)
       @ le_u32 (pv_p_cost v) @ pv_nonce v @ pv_ciphertext v"

section \<open>The store\<close>

record 'd vault_lib =
  vl_json :: json_lib
  vl_derive_key :: "str \<Rightarrow> str \<Rightarrow> u32 \<Rightarrow> u32 \<Rightarrow> u32 \<Rightarrow> auth_error + str"
  vl_encrypt :: "str \<Rightarrow> str \<Rightarrow> str \<Rightarrow> str option"
  vl_decrypt :: "str \<Rightarrow> str \<Rightarrow> str \<Rightarrow> str option"
  vl_random :: "nat \<Rightarrow> 'd \<Rightarrow> str"
  vl_read :: "'d \<Rightarrow> auth_error + str option"
  vl_write :: "str \<Rightarrow> 'd \<Rightarrow> (auth_error + unit) \<times> 'd"

definition M_COST :: u32 where "M_COST = 64 * 1024"
definition T_COST :: u32 where "T_COST = 3"
definition P_COST :: u32 where "P_COST = 1"

record vault_state =
  vs_key :: "str option"
  vs_salt :: "str option"
  vs_m_cost :: u32
  vs_t_cost :: u32
  vs_p_cost :: u32
  vs_values :: "(str \<times> json) list option"

definition vault_new :: vault_state where
  "vault_new = \<lparr>vs_key = None, vs_salt = None, vs_m_cost = M_COST, vs_t_cost = T_COST, vs_p_cost = P_COST,
     vs_values = None\<rparr>"

definition is_unlocked :: "vault_state \<Rightarrow> bool" where
  "is_unlocked st = (vs_key st \<noteq> None)"

definition vault_locked :: auth_error where
  "vault_locked = auth_error_new CredentialStoreLocked ''Encrypted credential vault is locked.''"

definition vault_corrupted :: auth_error where
  "vault_corrupted = auth_error_new CredentialCorrupted ''Encrypted credential vault is corrupted.''"

text \<open>The store is its state under the lock and the disk.\<close>

definition persist :: "'d vault_lib \<Rightarrow> vault_state \<Rightarrow> 'd \<Rightarrow> (auth_error + unit) \<times> 'd" where
  "persist V st d =
     (case (vs_key st, vs_salt st) of
        (Some key, Some salt) \<Rightarrow>
          (let plaintext = lib_print (vl_json V) (JObject (unwrap_or [] (vs_values st)));
               nonce = vl_random V NONCE_LEN d in
           case vl_encrypt V key nonce plaintext of
             None \<Rightarrow> (Inl (auth_error_new CredentialStore ''Encrypted credential vault could not be written.''), d)
           | Some ciphertext \<Rightarrow>
               vl_write V (encode_vault
                 \<lparr>pv_salt = salt, pv_m_cost = vs_m_cost st, pv_t_cost = vs_t_cost st, pv_p_cost = vs_p_cost st,
                  pv_nonce = nonce, pv_ciphertext = ciphertext\<rparr>) d)
      | _ \<Rightarrow> (Inl vault_locked, d))"

definition open_vault :: "'d vault_lib \<Rightarrow> str \<Rightarrow> str \<Rightarrow> auth_error + vault_state" where
  "open_vault V password b =
     res_bind (parse_vault b) (\<lambda>parsed.
     res_bind (vl_derive_key V password (pv_salt parsed) (pv_m_cost parsed) (pv_t_cost parsed) (pv_p_cost parsed)) (\<lambda>key.
     res_bind (ok_or (auth_error_new CredentialCorrupted ''Encrypted credential vault could not be unlocked.'')
         (vl_decrypt V key (pv_nonce parsed) (pv_ciphertext parsed))) (\<lambda>plaintext.
     res_bind (ok_or vault_corrupted (lib_parse (vl_json V) plaintext)) (\<lambda>values.
     res_bind (ok_or vault_corrupted (as_object values)) (\<lambda>obj.
       Inr \<lparr>vs_key = Some key, vs_salt = Some (pv_salt parsed), vs_m_cost = pv_m_cost parsed,
            vs_t_cost = pv_t_cost parsed, vs_p_cost = pv_p_cost parsed, vs_values = Some obj\<rparr>)))))"

definition unlock ::
    "'d vault_lib \<Rightarrow> str \<Rightarrow> vault_state \<times> 'd \<Rightarrow> (auth_error + unit) \<times> vault_state \<times> 'd" where
  "unlock V password = (\<lambda>(st, d).
     case vl_read V d of
       Inl e \<Rightarrow> (Inl e, st, d)
     | Inr (Some b) \<Rightarrow>
         (case open_vault V password b of
            Inl e \<Rightarrow> (Inl e, st, d)
          | Inr st' \<Rightarrow> (Inr (), st', d))
     | Inr None \<Rightarrow>
         (let salt = vl_random V SALT_LEN d in
          case vl_derive_key V password salt M_COST T_COST P_COST of
            Inl e \<Rightarrow> (Inl e, st, d)
          | Inr key \<Rightarrow>
              (let st' = \<lparr>vs_key = Some key, vs_salt = Some salt, vs_m_cost = M_COST, vs_t_cost = T_COST,
                          vs_p_cost = P_COST, vs_values = Some []\<rparr> in
               case persist V st' d of (x, d') \<Rightarrow> (x, st', d'))))"

definition lock_vault :: "vault_state \<Rightarrow> vault_state" where
  "lock_vault st = st\<lparr>vs_key := None, vs_salt := None, vs_values := None\<rparr>"

definition vault_get :: "str \<Rightarrow> vault_state \<times> 'd \<Rightarrow> auth_error + str option" where
  "vault_get key = (\<lambda>(st, d).
     if vs_key st = None then Inl vault_locked
     else Inr (Option.bind (Option.bind (vs_values st) (\<lambda>values. map_of values key)) as_str))"

definition vault_set ::
    "'d vault_lib \<Rightarrow> str \<Rightarrow> str \<Rightarrow> vault_state \<times> 'd \<Rightarrow> (auth_error + unit) \<times> vault_state \<times> 'd" where
  "vault_set V key value = (\<lambda>(st, d).
     if vs_key st = None then (Inl vault_locked, st, d)
     else
       (let st' = st\<lparr>vs_values := Some (json_insert key (JString value) (unwrap_or [] (vs_values st)))\<rparr> in
        case persist V st' d of (x, d') \<Rightarrow> (x, st', d')))"

definition vault_delete ::
    "'d vault_lib \<Rightarrow> str \<Rightarrow> vault_state \<times> 'd \<Rightarrow> (auth_error + unit) \<times> vault_state \<times> 'd" where
  "vault_delete V key = (\<lambda>(st, d).
     if vs_key st = None then (Inl vault_locked, st, d)
     else
       (let st' = st\<lparr>vs_values := map_option (json_remove key) (vs_values st)\<rparr> in
        case persist V st' d of (x, d') \<Rightarrow> (x, st', d')))"

section \<open>The format can be read back\<close>

lemma length_le_bytes [simp]: "length (le_bytes n w) = n"
  by (induction n arbitrary: w) simp_all

lemma of_le_bytes_le_bytes: "w < 256 ^ n \<Longrightarrow> of_le_bytes (le_bytes n w) = w"
  by (induction n arbitrary: w) (simp_all add: of_le_bytes_def div_less_iff_less_mult mult.commute)

lemma le_words:
  "length (le_u16 v) = 2" "length (le_u32 w) = 4" "of_le_u16 (le_u16 v) = v" "of_le_u32 (le_u32 w) = w"
proof -
  have "unat v < 2 ^ LENGTH(16)" "unat w < 2 ^ LENGTH(32)" by (rule unsigned_less)+
  then have "unat v < 256 ^ 2" "unat w < 256 ^ 4" by simp_all
  then show "length (le_u16 v) = 2" "length (le_u32 w) = 4" "of_le_u16 (le_u16 v) = v" "of_le_u32 (le_u32 w) = w"
    by (simp_all add: le_u16_def le_u32_def of_le_u16_def of_le_u32_def of_le_bytes_le_bytes)
qed

lemma byte_range_append:
  "length x = i \<Longrightarrow> length y = j - i \<Longrightarrow> byte_range i j (x @ y @ z) = y"
  by (simp add: byte_range_def)

lemma parse_encoded_vault:
  assumes "length (pv_salt v) = SALT_LEN" "length (pv_nonce v) = NONCE_LEN"
  shows "parse_vault (encode_vault v) = Inr v"
proof -
  let ?m = "le_u32 (pv_m_cost v)" and ?t = "le_u32 (pv_t_cost v)" and ?p = "le_u32 (pv_p_cost v)"
  let ?ver = "le_u16 FORMAT_VERSION" and ?salt = "pv_salt v" and ?nonce = "pv_nonce v" and ?c = "pv_ciphertext v"
  note len = assms le_words(1,2) SALT_LEN_def NONCE_LEN_def MAGIC_def
  have "byte_range 8 10 (MAGIC @ ?ver @ ?salt @ ?m @ ?t @ ?p @ ?nonce @ ?c) = ?ver"
    by (rule byte_range_append) (simp_all add: len)
  moreover have "byte_range 10 26 ((MAGIC @ ?ver) @ ?salt @ ?m @ ?t @ ?p @ ?nonce @ ?c) = ?salt"
    by (rule byte_range_append) (simp_all add: len)
  moreover have "byte_range 26 30 ((MAGIC @ ?ver @ ?salt) @ ?m @ ?t @ ?p @ ?nonce @ ?c) = ?m"
    by (rule byte_range_append) (simp_all add: len)
  moreover have "byte_range 30 34 ((MAGIC @ ?ver @ ?salt @ ?m) @ ?t @ ?p @ ?nonce @ ?c) = ?t"
    by (rule byte_range_append) (simp_all add: len)
  moreover have "byte_range 34 38 ((MAGIC @ ?ver @ ?salt @ ?m @ ?t) @ ?p @ ?nonce @ ?c) = ?p"
    by (rule byte_range_append) (simp_all add: len)
  moreover have "byte_range 38 62 ((MAGIC @ ?ver @ ?salt @ ?m @ ?t @ ?p) @ ?nonce @ ?c) = ?nonce"
    by (rule byte_range_append) (simp_all add: len)
  moreover have "drop 62 ((MAGIC @ ?ver @ ?salt @ ?m @ ?t @ ?p @ ?nonce) @ ?c) = ?c"
    by (simp add: len)
  moreover have "take 8 (MAGIC @ ?ver @ ?salt @ ?m @ ?t @ ?p @ ?nonce @ ?c) = MAGIC" by (simp add: len)
  moreover have "\<not> length (encode_vault v) < 8 + 2 + SALT_LEN + 12 + NONCE_LEN"
    by (simp add: encode_vault_def len)
  ultimately show ?thesis
    by (simp add: parse_vault_def encode_vault_def le_words(3,4))
qed

lemma le_bytes_of_le_bytes: "le_bytes (length s) (of_le_bytes s) = s"
proof (induction s)
  case (Cons c s)
  have "(of_char c + 256 * n) div 256 = (n :: nat)" for n by simp
  moreover have "char_of (of_char c + 256 * n) = c" for n :: nat
    using char_of_mod_256 [of "of_char c + 256 * n"] by simp
  ultimately show ?case using Cons by (simp add: of_le_bytes_def)
qed (simp add: of_le_bytes_def)

lemma of_le_bytes_bound: "of_le_bytes s < 256 ^ length s"
proof (induction s)
  case (Cons c s)
  have "(of_char c :: nat) < 256" by simp
  then have "of_char c + 256 * of_le_bytes s < 256 * Suc (of_le_bytes s)" by simp
  also have "256 * Suc (of_le_bytes s) \<le> 256 * 256 ^ length s" using Cons by (intro mult_le_mono) simp_all
  finally show ?case by (simp add: of_le_bytes_def)
qed (simp add: of_le_bytes_def)

lemma le_words_back:
  "length s = 2 \<Longrightarrow> le_u16 (of_le_u16 s) = s" "length s = 4 \<Longrightarrow> le_u32 (of_le_u32 s) = s"
  using of_le_bytes_bound [of s] le_bytes_of_le_bytes [of s]
  by (simp_all add: le_u16_def of_le_u16_def le_u32_def of_le_u32_def unsigned_of_nat take_bit_nat_eq_self)

lemma byte_range_split: "i \<le> j \<Longrightarrow> j \<le> length s \<Longrightarrow> drop i s = byte_range i j s @ drop j s"
  by (simp add: byte_range_def) (metis append_take_drop_id drop_drop le_add_diff_inverse2)

lemma length_byte_range [simp]: "j \<le> length s \<Longrightarrow> length (byte_range i j s) = j - i"
  by (simp add: byte_range_def)

lemma encode_parsed_vault:
  assumes "parse_vault b = Inr v"
  shows "encode_vault v = b \<and> length (pv_salt v) = SALT_LEN \<and> length (pv_nonce v) = NONCE_LEN"
proof -
  have h: "62 \<le> length b" "take 8 b = MAGIC" "of_le_u16 (byte_range 8 10 b) = FORMAT_VERSION"
    "v = \<lparr>pv_salt = byte_range 10 26 b, pv_m_cost = of_le_u32 (byte_range 26 30 b),
          pv_t_cost = of_le_u32 (byte_range 30 34 b), pv_p_cost = of_le_u32 (byte_range 34 38 b),
          pv_nonce = byte_range 38 62 b, pv_ciphertext = drop 62 b\<rparr>"
    using assms by (auto simp: parse_vault_def SALT_LEN_def NONCE_LEN_def split: if_splits)
  have "b = take 8 b @ drop 8 b" by simp
  also have "drop 8 b = byte_range 8 10 b @ drop 10 b" by (rule byte_range_split) (use h(1) in simp_all)
  also have "drop 10 b = byte_range 10 26 b @ drop 26 b" by (rule byte_range_split) (use h(1) in simp_all)
  also have "drop 26 b = byte_range 26 30 b @ drop 30 b" by (rule byte_range_split) (use h(1) in simp_all)
  also have "drop 30 b = byte_range 30 34 b @ drop 34 b" by (rule byte_range_split) (use h(1) in simp_all)
  also have "drop 34 b = byte_range 34 38 b @ drop 38 b" by (rule byte_range_split) (use h(1) in simp_all)
  also have "drop 38 b = byte_range 38 62 b @ drop 62 b" by (rule byte_range_split) (use h(1) in simp_all)
  finally have "b = take 8 b @ byte_range 8 10 b @ byte_range 10 26 b @ byte_range 26 30 b @ byte_range 30 34 b
      @ byte_range 34 38 b @ byte_range 38 62 b @ drop 62 b" .
  moreover have "le_u16 FORMAT_VERSION = byte_range 8 10 b" using le_words_back(1) [of "byte_range 8 10 b"] h(1,3) by simp
  ultimately show ?thesis using h by (simp add: encode_vault_def le_words_back SALT_LEN_def NONCE_LEN_def)
qed

text \<open>
  The format of the vault is exact. What is written is read back field by field, and
  the other way round, a file that is accepted at all is the very file its fields would be
  written as: no bytes are ignored and no field is normalised.
\<close>

theorem vault_format_is_exact:
  "(length (pv_salt v) = SALT_LEN \<and> length (pv_nonce v) = NONCE_LEN \<and> encode_vault v = b)
     = (parse_vault b = Inr v)"
  using parse_encoded_vault [of v] encode_parsed_vault [of b v] by auto

section \<open>Locking and unlocking\<close>

definition string_values :: "(str \<times> json) list \<Rightarrow> bool" where
  "string_values m = list_all (\<lambda>(k, v). as_str v \<noteq> None) m"

text \<open>
  An object as the program has it: its keys sorted and without repetition, as in a \<open>BTreeMap\<close>,
  and here its values strings.
\<close>

definition plain_object :: "(str \<times> json) list \<Rightarrow> bool" where
  "plain_object m = (string_values m \<and> sorted_keys m)"

text \<open>
  What the store relies on: decryption undoes encryption; an object that is parsed has sorted
  keys, and printing such an object and parsing it gives it again; a file that was written is
  read, and random bytes come in the number asked for.
\<close>

definition vault_lib_ok :: "'d vault_lib \<Rightarrow> bool" where
  "vault_lib_ok V =
     ((\<forall>key nonce p c. vl_encrypt V key nonce p = Some c \<longrightarrow> vl_decrypt V key nonce c = Some p)
      \<and> (\<forall>s m. lib_parse (vl_json V) s = Some (JObject m) \<longrightarrow> sorted_keys m)
      \<and> (\<forall>m. plain_object m \<longrightarrow> lib_parse (vl_json V) (lib_print (vl_json V) (JObject m)) = Some (JObject m))
      \<and> (\<forall>b d d'. vl_write V b d = (Inr (), d') \<longrightarrow> vl_read V d' = Inr (Some b))
      \<and> (\<forall>n d. length (vl_random V n d) = n))"

datatype vault_call = VaultSet str str | VaultDelete str

fun vault_do :: "'d vault_lib \<Rightarrow> vault_call \<Rightarrow> vault_state \<times> 'd \<Rightarrow> (auth_error + unit) \<times> vault_state \<times> 'd" where
  "vault_do V (VaultSet k v) s = vault_set V k v s"
| "vault_do V (VaultDelete k) s = vault_delete V k s"

text \<open>All calls in a row, as long as they succeed.\<close>

fun vault_run :: "'d vault_lib \<Rightarrow> vault_call list \<Rightarrow> vault_state \<times> 'd \<Rightarrow> (vault_state \<times> 'd) option" where
  "vault_run V [] s = Some s"
| "vault_run V (c # cs) s = (case vault_do V c s of (Inr _, s') \<Rightarrow> vault_run V cs s' | (Inl e, s') \<Rightarrow> None)"

text \<open>The state is open under a password, and the disk holds it.\<close>

definition unlocked_by :: "'d vault_lib \<Rightarrow> str \<Rightarrow> vault_state \<Rightarrow> bool" where
  "unlocked_by V password st =
     (\<exists>key salt values. vs_key st = Some key \<and> vs_salt st = Some salt \<and> vs_values st = Some values
        \<and> length salt = SALT_LEN \<and> plain_object values
        \<and> vl_derive_key V password salt (vs_m_cost st) (vs_t_cost st) (vs_p_cost st) = Inr key)"

definition on_disk :: "'d vault_lib \<Rightarrow> str \<Rightarrow> vault_state \<times> 'd \<Rightarrow> bool" where
  "on_disk V password = (\<lambda>(st, d). unlocked_by V password st \<and>
     (\<exists>b. vl_read V d = Inr (Some b) \<and> open_vault V password b = Inr st))"

lemma persisted_on_disk:
  assumes "vault_lib_ok V" "unlocked_by V password st" "persist V st d = (Inr (), d')"
  shows "on_disk V password (st, d')"
proof -
  obtain key salt vals where o: "vs_key st = Some key" "vs_salt st = Some salt" "vs_values st = Some vals"
    "length salt = SALT_LEN" "plain_object vals"
    "vl_derive_key V password salt (vs_m_cost st) (vs_t_cost st) (vs_p_cost st) = Inr key"
    using assms(2) by (auto simp: unlocked_by_def)
  let ?nonce = "vl_random V NONCE_LEN d" and ?plain = "lib_print (vl_json V) (JObject vals)"
  obtain c where c: "vl_encrypt V key ?nonce ?plain = Some c"
    using assms(3) o by (auto simp: persist_def Let_def split: option.splits)
  let ?file = "\<lparr>pv_salt = salt, pv_m_cost = vs_m_cost st, pv_t_cost = vs_t_cost st, pv_p_cost = vs_p_cost st,
    pv_nonce = ?nonce, pv_ciphertext = c\<rparr>"
  have w: "vl_write V (encode_vault ?file) d = (Inr (), d')"
    using assms(3) o c by (simp add: persist_def Let_def)
  have laws: "vl_decrypt V key ?nonce c = Some ?plain" "lib_parse (vl_json V) ?plain = Some (JObject vals)"
    "vl_read V d' = Inr (Some (encode_vault ?file))" "length ?nonce = NONCE_LEN"
    using assms(1) c o(5) w unfolding vault_lib_ok_def by blast+
  have "parse_vault (encode_vault ?file) = Inr ?file"
    using parse_encoded_vault [of ?file] o(4) laws(4) by simp
  then have "open_vault V password (encode_vault ?file) = Inr st"
    using o laws by (cases st) (simp add: open_vault_def)
  with assms(2) laws(3) show ?thesis by (auto simp: on_disk_def)
qed

lemma plain_object_insert: "plain_object m \<Longrightarrow> plain_object (json_insert k (JString v) m)"
proof -
  have "string_values m \<Longrightarrow> string_values (json_insert k (JString v) m)"
    by (induction k "JString v" m rule: json_insert.induct) (auto simp: string_values_def)
  then show "plain_object m \<Longrightarrow> plain_object (json_insert k (JString v) m)"
    by (simp add: plain_object_def sorted_json_insert)
qed

lemma sorted_json_remove: "sorted_keys m \<Longrightarrow> sorted_keys (json_remove k m)"
  by (induction m) (auto simp: sorted_keys_def json_remove_def)

lemma plain_object_remove: "plain_object m \<Longrightarrow> plain_object (json_remove k m)"
  by (simp add: plain_object_def sorted_json_remove) (auto simp: string_values_def json_remove_def list_all_iff)

lemma vault_do_on_disk:
  assumes "vault_lib_ok V" "on_disk V password s" "vault_do V c s = (Inr (), s')"
  shows "on_disk V password s'"
proof -
  obtain st d where s: "s = (st, d)" by (metis surj_pair)
  obtain key salt vals where o: "vs_key st = Some key" "vs_salt st = Some salt" "vs_values st = Some vals"
    "length salt = SALT_LEN" "plain_object vals"
    "vl_derive_key V password salt (vs_m_cost st) (vs_t_cost st) (vs_p_cost st) = Inr key"
    using assms(2) by (auto simp: on_disk_def unlocked_by_def s)
  have step: "\<exists>new d'. plain_object new \<and> persist V (st\<lparr>vs_values := Some new\<rparr>) d = (Inr (), d')
      \<and> s' = (st\<lparr>vs_values := Some new\<rparr>, d')"
  proof (cases c)
    case (VaultSet k v)
    with assms(3) o plain_object_insert [OF o(5), of k v] show ?thesis
      by (auto simp: vault_set_def s Let_def split: prod.splits)
  next
    case (VaultDelete k)
    with assms(3) o plain_object_remove [OF o(5), of k] show ?thesis
      by (auto simp: vault_delete_def s Let_def split: prod.splits)
  qed
  then obtain new d' where new: "plain_object new" "persist V (st\<lparr>vs_values := Some new\<rparr>) d = (Inr (), d')"
    "s' = (st\<lparr>vs_values := Some new\<rparr>, d')" by blast
  have "unlocked_by V password (st\<lparr>vs_values := Some new\<rparr>)" using o new(1) by (simp add: unlocked_by_def)
  from persisted_on_disk [OF assms(1) this new(2)] new(3) show ?thesis by simp
qed

lemma vault_run_on_disk:
  "vault_lib_ok V \<Longrightarrow> on_disk V password s \<Longrightarrow> vault_run V cs s = Some s' \<Longrightarrow> on_disk V password s'"
proof (induction cs arbitrary: s)
  case (Cons c cs)
  obtain s1 where "vault_do V c s = (Inr (), s1)" "vault_run V cs s1 = Some s'"
    using Cons.prems(3) by (auto split: prod.splits sum.splits)
  with Cons vault_do_on_disk show ?case by blast
qed simp

lemma open_vault_opened:
  assumes "vault_lib_ok V" "open_vault V password b = Inr st" "string_values (unwrap_or [] (vs_values st))"
  shows "unlocked_by V password st"
proof -
  have "sorted_keys m" if "lib_parse (vl_json V) s = Some (JObject m)" for s m
    using assms(1) that by (simp add: vault_lib_ok_def)
  moreover have "as_object v = Some m \<Longrightarrow> v = JObject m" for v m by (cases v) auto
  ultimately show ?thesis
    using assms(2,3) encode_parsed_vault [of b]
    by (auto simp: open_vault_def unlocked_by_def res_bind_Inr_iff plain_object_def)
qed

lemma unlocked_on_disk:
  assumes "vault_lib_ok V" "unlock V password (st0, d0) = (Inr (), st, d)"
    and "string_values (unwrap_or [] (vs_values st))"
  shows "on_disk V password (st, d)"
proof (cases "vl_read V d0")
  case (Inl e)
  with assms(2) show ?thesis by (simp add: unlock_def)
next
  case (Inr found)
  show ?thesis
  proof (cases found)
    case (Some b)
    with assms(2) Inr have "open_vault V password b = Inr st" "d = d0"
      by (auto simp: unlock_def split: sum.splits)
    with open_vault_opened [OF assms(1) this(1) assms(3)] Inr Some show ?thesis by (auto simp: on_disk_def)
  next
    case None
    let ?salt = "vl_random V SALT_LEN d0"
    obtain key where key: "vl_derive_key V password ?salt M_COST T_COST P_COST = Inr key"
      using assms(2) Inr None by (auto simp: unlock_def Let_def split: sum.splits)
    with assms(2) Inr None have st: "st = \<lparr>vs_key = Some key, vs_salt = Some ?salt, vs_m_cost = M_COST,
        vs_t_cost = T_COST, vs_p_cost = P_COST, vs_values = Some []\<rparr>" "persist V st d0 = (Inr (), d)"
      by (auto simp: unlock_def Let_def split: prod.splits)
    have "length ?salt = SALT_LEN" using assms(1) by (simp add: vault_lib_ok_def)
    then have "unlocked_by V password st" using key st(1) by (simp add: unlocked_by_def plain_object_def string_values_def sorted_keys_def)
    from persisted_on_disk [OF assms(1) this st(2)] show ?thesis .
  qed
qed

text \<open>
  C15. A vault survives being locked. After it was unlocked (and created, if there was no file) and
  then changed by calls that succeeded, locking it hides everything: reads and changes are
  refused and change nothing. Unlocking it again with the password gives back the same state,
  so every secret; and when a file cannot be unlocked, the state and the disk stay as they are.
\<close>

theorem vault_survives_locking:
  assumes "vault_lib_ok V" "unlock V password (st0, d0) = (Inr (), st1, d1)"
    and "string_values (unwrap_or [] (vs_values st1))" "vault_run V calls (st1, d1) = Some (st, d)"
  shows "unlock V password (lock_vault st, d) = (Inr (), st, d)
    \<and> vault_get k (lock_vault st, d) = Inl vault_locked
    \<and> vault_set V k v (lock_vault st, d) = (Inl vault_locked, lock_vault st, d)
    \<and> vault_delete V k (lock_vault st, d) = (Inl vault_locked, lock_vault st, d)
    \<and> (case unlock V other (lock_vault st, d) of (Inl e, s) \<Rightarrow> s = (lock_vault st, d) | (Inr _, s) \<Rightarrow> snd s = d)"
proof -
  have "on_disk V password (st, d)"
    using vault_run_on_disk [OF assms(1) unlocked_on_disk [OF assms(1-3)] assms(4)] .
  then obtain b where b: "vl_read V d = Inr (Some b)" "open_vault V password b = Inr st"
    by (auto simp: on_disk_def)
  moreover have "case unlock V other (lock_vault st, d) of (Inl e, s) \<Rightarrow> s = (lock_vault st, d) | (Inr _, s) \<Rightarrow> snd s = d"
    using b(1) by (cases "open_vault V other b") (simp_all add: unlock_def)
  ultimately show ?thesis
    by (simp add: unlock_def vault_get_def vault_set_def vault_delete_def lock_vault_def)
qed

text \<open>
  A write that failed is visible all the same. When the file cannot be written, \<open>set\<close> reports
  the error, but until the vault is locked the new value is what is read.
\<close>

theorem failed_vault_write_is_visible:
  assumes "vs_key st \<noteq> None" "vault_set V k v (st, d) = (Inl e, st', d')"
  shows "vault_get k (st', d') = Inr (Some v) \<and> vs_key st' \<noteq> None"
  using assms by (auto simp: vault_set_def vault_get_def Let_def split: prod.splits)

section \<open>A vault in memory\<close>

text \<open>The disk is one file, the cipher puts the key in front, and sorted JSON objects are numbered.\<close>

definition sample_vault :: "bool \<Rightarrow> str option vault_lib" where
  "sample_vault full =
     \<lparr>vl_json = \<lparr>lib_parse = (\<lambda>s. let m = map (apsnd JString) (from_nat (length s)) in
                    if sorted_keys m then Some (JObject m) else None),
                 lib_print = (\<lambda>v. replicate (to_nat (map (apsnd (\<lambda>x. unwrap_or [] (as_str x)))
                    (unwrap_or [] (as_object v)))) (CHR ''1'')),
                 lib_validator = (\<lambda>_. None)\<rparr>,
      vl_derive_key = (\<lambda>password salt m t p. Inr (password @ salt)),
      vl_encrypt = (\<lambda>key nonce p. Some (key @ p)), vl_decrypt = (\<lambda>key nonce c. strip_prefix key c),
      vl_random = (\<lambda>n d. replicate n (CHR ''r'')), vl_read = (\<lambda>d. Inr d),
      vl_write = (\<lambda>b d. if full then (Inl (auth_error_new CredentialStore ''full''), d) else (Inr (), Some b))\<rparr>"

lemma sample_vault_ok: "vault_lib_ok (sample_vault full)"
proof -
  have "map (\<lambda>x. apsnd JString (apsnd (\<lambda>x. unwrap_or [] (as_str x)) x)) m = m" if "string_values m" for m
    using that
  proof (induction m)
    case (Cons kv m)
    obtain k v where kv: "kv = (k, v)" by (metis surj_pair)
    with Cons show ?case by (cases v) (simp_all add: string_values_def)
  qed simp
  then show ?thesis
    by (auto simp: vault_lib_ok_def sample_vault_def plain_object_def Let_def comp_def split: if_splits)
qed

theorem vault_survives_locking_witness:
  "\<exists>st d. vault_run (sample_vault False) [VaultSet ''k'' ''v'']
       (snd (unlock (sample_vault False) ''pw'' (vault_new, None))) = Some (st, d)
     \<and> unlock (sample_vault False) ''pw'' (lock_vault st, d) = (Inr (), st, d)
     \<and> vault_get ''k'' (lock_vault st, d) = Inl vault_locked"
proof -
  obtain st1 d1 where u: "unlock (sample_vault False) ''pw'' (vault_new, None) = (Inr (), st1, d1)"
    and v: "vs_values st1 = Some []"
    by (auto simp: unlock_def sample_vault_def persist_def Let_def)
  obtain st d where r: "vault_run (sample_vault False) [VaultSet ''k'' ''v''] (st1, d1) = Some (st, d)"
    using u by (auto simp: unlock_def sample_vault_def persist_def vault_set_def Let_def)
  have "string_values (unwrap_or [] (vs_values st1))" by (simp add: v string_values_def)
  from vault_survives_locking [OF sample_vault_ok u this r] u r show ?thesis by auto
qed

theorem failed_vault_write_is_visible_witness:
  "\<exists>e s. vault_set (sample_vault True) ''k'' ''v'' (vault_new\<lparr>vs_key := Some [], vs_salt := Some []\<rparr>, None) = (Inl e, s)
     \<and> vault_get ''k'' s = Inr (Some ''v'')"
proof -
  let ?st = "vault_new\<lparr>vs_key := Some [], vs_salt := Some []\<rparr>"
  obtain e st' d' where s: "vault_set (sample_vault True) ''k'' ''v'' (?st, None) = (Inl e, st', d')"
    by (auto simp: vault_set_def sample_vault_def persist_def vault_new_def Let_def)
  from failed_vault_write_is_visible [OF _ s] s show ?thesis by (auto simp: vault_new_def)
qed

end
