(* ===== verification/Events_Json.thy ===== *)
theory Events_Json
  imports Core_Types
begin

text \<open>
  Run events as JSON (\<open>events_json.rs\<close> of \<open>aifluxon-api\<close>), as hosts in other languages receive
  them, with the messages as \<open>serde\<close> writes them (\<open>message.rs\<close> of \<open>aifluxon-core\<close>). An index
  into a value that is no object panics (\<open>None\<close>). \<open>Debug\<close> of a string is a parameter.
\<close>

section \<open>Messages\<close>

definition json_opt :: "('a \<Rightarrow> json) \<Rightarrow> 'a option \<Rightarrow> json" where
  "json_opt f x = (case x of None \<Rightarrow> JNull | Some y \<Rightarrow> f y)"

fun role_name :: "message_role \<Rightarrow> str" where
  "role_name RoleSystem = ''system''"
| "role_name RoleUser = ''user''"
| "role_name RoleAssistant = ''assistant''"
| "role_name RoleTool = ''tool''"

fun content_part_to_json :: "content_part \<Rightarrow> json" where
  "content_part_to_json (PartText t) = json_obj [(''text'', JString t)]"
| "content_part_to_json (PartImage i) = json_obj [(''image'',
     json_obj [(''artifact'', JString (artifact_str (img_artifact i))), (''mime_type'', JString (img_mime_type i))])]"

definition tool_call_to_json :: "uuid_lib \<Rightarrow> tool_call \<Rightarrow> json" where
  "tool_call_to_json U c =
     json_obj ([(''id'', JString (invocation_hyphenated U (call_id c))), (''name'', JString (call_name c)),
                (''arguments'', call_arguments c)]
       @ (case call_provider_call_id c of None \<Rightarrow> [] | Some i \<Rightarrow> [(''provider_call_id'', JString i)]))"

definition message_to_json :: "uuid_lib \<Rightarrow> message \<Rightarrow> json" where
  "message_to_json U m =
     json_obj [(''role'', JString (role_name (msg_role m))),
       (''content'', JArray (map content_part_to_json (msg_content m))),
       (''tool_calls'', JArray (map (tool_call_to_json U) (msg_tool_calls m))),
       (''tool_call_id'', json_opt (\<lambda>i. JString (invocation_hyphenated U i)) (msg_tool_call_id m)),
       (''provider_state'', json_opt id (msg_provider_state m))]"

section \<open>Events\<close>

fun run_state_name :: "run_state \<Rightarrow> str" where
  "run_state_name Running = ''running''"
| "run_state_name AwaitingOperation = ''awaiting_operation''"
| "run_state_name Completed = ''completed''"
| "run_state_name Failed = ''failed''"
| "run_state_name Cancelled = ''cancelled''"

fun effect_debug :: "tool_effect \<Rightarrow> str" where
  "effect_debug PureRead = ''PureRead''"
| "effect_debug FsRead = ''FsRead''"
| "effect_debug FsWrite = ''FsWrite''"
| "effect_debug ProcessSpawn = ''ProcessSpawn''"
| "effect_debug ProcessControl = ''ProcessControl''"
| "effect_debug Network = ''Network''"
| "effect_debug SettingsWrite = ''SettingsWrite''"
| "effect_debug ExternalSideEffect = ''ExternalSideEffect''"
| "effect_debug UnknownEffect = ''Unknown''"

fun operation_mode_name :: "operation_mode \<Rightarrow> str" where
  "operation_mode_name BlockingApproval = ''blocking_approval''"
| "operation_mode_name DeferredCommit = ''deferred_commit''"

definition pending_operation_to_json :: "uuid_lib \<Rightarrow> pending_operation \<Rightarrow> json" where
  "pending_operation_to_json U p =
     json_obj [(''id'', JString (operation_hyphenated U (op_id p))),
       (''run_id'', JString (run_hyphenated U (op_run_id p))),
       (''invocation_id'', json_opt (\<lambda>i. JString (invocation_hyphenated U i)) (op_invocation_id p)),
       (''effect'', JString (effect_debug (op_effect p))),
       (''mode'', JString (operation_mode_name (op_mode p))),
       (''summary'', JString (op_summary p)), (''payload'', op_payload p)]"

fun operation_state_debug :: "(str \<Rightarrow> str) \<Rightarrow> operation_state \<Rightarrow> str" where
  "operation_state_debug q OpPending = ''Pending''"
| "operation_state_debug q OpApproved = ''Approved''"
| "operation_state_debug q OpRejected = ''Rejected''"
| "operation_state_debug q OpCommitting = ''Committing''"
| "operation_state_debug q OpCommitted = ''Committed''"
| "operation_state_debug q (OpFailed m) = ''Failed { message: '' @ q m @ '' }''"
| "operation_state_debug q OpCancelled = ''Cancelled''"
| "operation_state_debug q OpExpired = ''Expired''"

definition operation_snapshot_to_json :: "uuid_lib \<Rightarrow> (str \<Rightarrow> str) \<Rightarrow> operation_snapshot \<Rightarrow> json option" where
  "operation_snapshot_to_json U q s =
     json_set ''state'' (JString (operation_state_debug q (snap_state s)))
       (pending_operation_to_json U (snap_operation s))"

fun event_to_json :: "uuid_lib \<Rightarrow> run_event \<Rightarrow> json" where
  "event_to_json U (EvRunStarted c) = json_obj [(''type'', JString ''run_started''),
     (''session_id'', json_opt (\<lambda>i. JString (session_hyphenated U i)) (ctx_session_id c)),
     (''parent_run_id'', json_opt (\<lambda>i. JString (run_hyphenated U i)) (ctx_parent_run_id c))]"
| "event_to_json U (EvStateChanged st) =
     json_obj [(''type'', JString ''state_changed''), (''state'', JString (run_state_name st))]"
| "event_to_json U (EvModelDelta d) = json_obj [(''type'', JString ''text_delta''), (''delta'', JString d)]"
| "event_to_json U (EvReasoningDelta d) =
     json_obj [(''type'', JString ''reasoning_delta''), (''delta'', JString d)]"
| "event_to_json U (EvToolStarted i n a) = json_obj [(''type'', JString ''tool_started''),
     (''invocation_id'', JString (invocation_hyphenated U i)), (''name'', JString n), (''arguments'', a)]"
| "event_to_json U (EvToolFinished i n r) = json_obj [(''type'', JString ''tool_finished''),
     (''invocation_id'', JString (invocation_hyphenated U i)), (''name'', JString n), (''result'', r)]"
| "event_to_json U (EvOperationRequested p) =
     json_obj [(''type'', JString ''operation_requested''), (''operation'', pending_operation_to_json U p)]"
| "event_to_json U (EvUsageUpdated u) = json_obj [(''type'', JString ''usage_updated''), (''usage'', u)]"
| "event_to_json U (EvArtifactProduced a) =
     json_obj [(''type'', JString ''artifact_produced''), (''artifact'', JString (artifact_str a))]"
| "event_to_json U (EvCompleted out) =
     json_obj [(''type'', JString ''completed''), (''output'', JArray (map (message_to_json U) out))]"
| "event_to_json U (EvFailed m) = json_obj [(''type'', JString ''failed''), (''message'', JString m)]"
| "event_to_json U EvCancelled = json_obj [(''type'', JString ''cancelled'')]"

definition envelope_to_json :: "uuid_lib \<Rightarrow> run_event_envelope \<Rightarrow> json option" where
  "envelope_to_json U e =
     Option.bind (json_set ''sequence'' (JNumber (PosInt (env_sequence e))) (event_to_json U (env_event e)))
       (json_set ''run_id'' (JString (run_hyphenated U (env_run_id e))))"

section \<open>What the JSON tells apart\<close>

text \<open>What the JSON leaves out, and \<open>null\<close> for a state that is not there.\<close>

definition forget_message :: "message \<Rightarrow> message" where
  "forget_message m = m\<lparr>msg_provider_state := opt_filter (\<lambda>v. v \<noteq> JNull) (msg_provider_state m)\<rparr>"

fun forget_event :: "run_event \<Rightarrow> run_event" where
  "forget_event (EvRunStarted c) = EvRunStarted (c\<lparr>ctx_run_id := RunId 0\<rparr>)"
| "forget_event (EvOperationRequested p) = EvOperationRequested (p\<lparr>op_deadline := None\<rparr>)"
| "forget_event (EvCompleted out) = EvCompleted (map forget_message out)"
| "forget_event e = e"

lemma json_obj_eq: "json_obj kvs = json_obj kvs' \<Longrightarrow> map_of (rev kvs) k = map_of (rev kvs') k"
  by (metis json_get_obj)

lemma hyphenated_inj [simp]:
  assumes "uuid_lib_ok U"
  shows "session_hyphenated U s = session_hyphenated U s' \<longleftrightarrow> s = s'"
    "run_hyphenated U r = run_hyphenated U r' \<longleftrightarrow> r = r'"
    "invocation_hyphenated U i = invocation_hyphenated U i' \<longleftrightarrow> i = i'"
    "operation_hyphenated U p = operation_hyphenated U p' \<longleftrightarrow> p = p'"
  using assms
  by ((cases s; cases s'; simp add: uuid_hyphenated_inj), (cases r; cases r'; simp add: uuid_hyphenated_inj),
      (cases i; cases i'; simp add: uuid_hyphenated_inj), (cases p; cases p'; simp add: uuid_hyphenated_inj))

lemma names_inj [simp]:
  "role_name r = role_name r' \<longleftrightarrow> r = r'" "run_state_name s = run_state_name s' \<longleftrightarrow> s = s'"
  "effect_debug e = effect_debug e' \<longleftrightarrow> e = e'" "operation_mode_name m = operation_mode_name m' \<longleftrightarrow> m = m'"
  "artifact_str a = artifact_str a' \<longleftrightarrow> a = a'"
  by ((cases r; cases r'; simp), (cases s; cases s'; simp), (cases e; cases e'; simp), (cases m; cases m'; simp),
      (cases a; cases a'; simp))

lemma json_opt_inj:
  assumes "\<And>x y. f x = f y \<longleftrightarrow> x = y" "\<And>x. f x \<noteq> JNull"
  shows "json_opt f x = json_opt f y \<longleftrightarrow> x = y"
  using assms(1) assms(2) assms(2) [symmetric] by (auto simp: json_opt_def split: option.split)

lemma json_opt_state:
  "json_opt id x = json_opt id y \<longleftrightarrow> opt_filter (\<lambda>v. v \<noteq> JNull) x = opt_filter (\<lambda>v. v \<noteq> JNull) y"
  by (auto simp: json_opt_def opt_filter_def split: option.split)

lemma map_eq_map:
  assumes "\<And>x y. f x = f y \<longleftrightarrow> g x = g y"
  shows "map f xs = map f ys \<longleftrightarrow> map g xs = map g ys"
proof (induction xs arbitrary: ys)
  case (Cons x xs)
  show ?case using Cons assms by (cases ys) auto
qed (cases ys; simp)

lemma content_part_fields:
  "json_get (content_part_to_json p) ''text'' = (case p of PartText t \<Rightarrow> Some (JString t) | _ \<Rightarrow> None)"
  "Option.bind (json_get (content_part_to_json p) ''image'') (\<lambda>i. json_get i ''artifact'')
     = (case p of PartImage i \<Rightarrow> Some (JString (artifact_str (img_artifact i))) | _ \<Rightarrow> None)"
  "Option.bind (json_get (content_part_to_json p) ''image'') (\<lambda>i. json_get i ''mime_type'')
     = (case p of PartImage i \<Rightarrow> Some (JString (img_mime_type i)) | _ \<Rightarrow> None)"
  by (cases p; simp)+

lemma content_part_inj: "content_part_to_json p = content_part_to_json p' \<longleftrightarrow> p = p'"
proof
  assume e: "content_part_to_json p = content_part_to_json p'"
  note f = content_part_fields [of p, unfolded e, unfolded content_part_fields [of p']]
  show "p = p'"
    using f(1) f(2) f(3) by (cases p; cases p') (simp_all del: content_part_to_json.simps)
qed simp

lemma tool_call_inj:
  assumes "uuid_lib_ok U"
  shows "tool_call_to_json U c = tool_call_to_json U c' \<longleftrightarrow> c = c'"
proof
  assume e: "tool_call_to_json U c = tool_call_to_json U c'"
  note field = json_obj_eq [OF e [unfolded tool_call_to_json_def]]
  from field [of "''id''"] field [of "''name''"] field [of "''arguments''"] field [of "''provider_call_id''"]
  show "c = c'" using assms by (auto intro!: tool_call.equality split: option.splits)
qed simp

lemma message_inj:
  assumes "uuid_lib_ok U"
  shows "message_to_json U m = message_to_json U m' \<longleftrightarrow> forget_message m = forget_message m'"
proof -
  note opt = json_opt_inj [of "\<lambda>i. JString (invocation_hyphenated U i)"]
  have fields: "forget_message m = forget_message m' \<longleftrightarrow> msg_role m = msg_role m' \<and> msg_content m = msg_content m'
      \<and> msg_tool_calls m = msg_tool_calls m' \<and> msg_tool_call_id m = msg_tool_call_id m'
      \<and> json_opt id (msg_provider_state m) = json_opt id (msg_provider_state m')"
    by (cases m; cases m') (simp add: forget_message_def json_opt_state)
  have lists: "map content_part_to_json x = map content_part_to_json y \<longleftrightarrow> x = y"
    "map (tool_call_to_json U) v = map (tool_call_to_json U) w \<longleftrightarrow> v = w" for x y v w
    using map_eq_map [of content_part_to_json id] map_eq_map [of "tool_call_to_json U" id]
    by (simp_all add: content_part_inj tool_call_inj assms)
  show ?thesis
  proof
    assume e: "message_to_json U m = message_to_json U m'"
    note field = json_obj_eq [OF e [unfolded message_to_json_def]]
    from field [of "''role''"] field [of "''content''"] field [of "''tool_calls''"] field [of "''tool_call_id''"]
      field [of "''provider_state''"]
    show "forget_message m = forget_message m'" by (simp add: fields lists opt assms)
  qed (simp add: fields message_to_json_def)
qed

lemma operation_inj:
  assumes "uuid_lib_ok U"
  shows "pending_operation_to_json U p = pending_operation_to_json U p'
    \<longleftrightarrow> p\<lparr>op_deadline := None\<rparr> = p'\<lparr>op_deadline := None\<rparr>"
proof
  note opt = json_opt_inj [of "\<lambda>i. JString (invocation_hyphenated U i)"]
  assume e: "pending_operation_to_json U p = pending_operation_to_json U p'"
  note field = json_obj_eq [OF e [unfolded pending_operation_to_json_def]]
  from field [of "''id''"] field [of "''run_id''"] field [of "''invocation_id''"] field [of "''effect''"]
    field [of "''mode''"] field [of "''summary''"] field [of "''payload''"]
  show "p\<lparr>op_deadline := None\<rparr> = p'\<lparr>op_deadline := None\<rparr>"
    by (cases p; cases p') (simp add: opt assms)
next
  assume "p\<lparr>op_deadline := None\<rparr> = p'\<lparr>op_deadline := None\<rparr>"
  moreover have "pending_operation_to_json U (p\<lparr>op_deadline := None\<rparr>) = pending_operation_to_json U p" for p
    by (simp add: pending_operation_to_json_def)
  ultimately show "pending_operation_to_json U p = pending_operation_to_json U p'" by metis
qed

fun event_type :: "run_event \<Rightarrow> str" where
  "event_type (EvRunStarted c) = ''run_started''"
| "event_type (EvStateChanged st) = ''state_changed''"
| "event_type (EvModelDelta d) = ''text_delta''"
| "event_type (EvReasoningDelta d) = ''reasoning_delta''"
| "event_type (EvToolStarted i n a) = ''tool_started''"
| "event_type (EvToolFinished i n r) = ''tool_finished''"
| "event_type (EvOperationRequested p) = ''operation_requested''"
| "event_type (EvUsageUpdated u) = ''usage_updated''"
| "event_type (EvArtifactProduced a) = ''artifact_produced''"
| "event_type (EvCompleted out) = ''completed''"
| "event_type (EvFailed m) = ''failed''"
| "event_type EvCancelled = ''cancelled''"

lemma event_type_field: "json_get (event_to_json U e) ''type'' = Some (JString (event_type e))"
  by (cases e) simp_all

lemma event_own_fields: "json_get (event_to_json U e) ''sequence'' = None" "json_get (event_to_json U e) ''run_id'' = None"
  by (cases e; simp)+

lemma event_is_object: "\<exists>m. event_to_json U e = JObject m"
  by (cases e) (simp_all add: json_obj_def)


lemma event_forgotten: "event_to_json U (forget_event e) = event_to_json U e"
proof -
  have "message_to_json U (forget_message m) = message_to_json U m" for m
    by (simp add: message_to_json_def forget_message_def) (simp add: opt_filter_def json_opt_def split: option.split)
  then have "message_to_json U \<circ> forget_message = message_to_json U" by (simp add: fun_eq_iff)
  then show ?thesis by (cases e) (simp_all add: pending_operation_to_json_def)
qed

lemma event_inj_fields:
  assumes "uuid_lib_ok U"
    and field: "\<And>k. json_get (event_to_json U e) k = json_get (event_to_json U e') k"
  shows "forget_event e = forget_event e'"
proof -
  have True: "event_type e = event_type e'"
    using field [of "''type''"] event_type_field [of U e] event_type_field [of U e'] by simp
  note opt = json_opt_inj [of "\<lambda>i. JString (session_hyphenated U i)"] json_opt_inj [of "\<lambda>i. JString (run_hyphenated U i)"]
  note outputs = map_eq_map [of "message_to_json U" forget_message, OF message_inj [OF assms(1)]]
  note f = field [of "''session_id''"] field [of "''parent_run_id''"] field [of "''state''"] field [of "''delta''"]
    field [of "''invocation_id''"] field [of "''name''"] field [of "''arguments''"] field [of "''result''"]
    field [of "''operation''"] field [of "''usage''"] field [of "''artifact''"] field [of "''output''"]
    field [of "''message''"]
  show ?thesis
    using True f by (cases e; cases e') (simp_all add: assms(1) opt outputs operation_inj run_context.equality)
qed

lemma event_inj:
  "uuid_lib_ok U \<Longrightarrow> event_to_json U e = event_to_json U e' \<longleftrightarrow> forget_event e = forget_event e'"
  using event_inj_fields event_forgotten by metis

lemma envelope_object:
  "\<exists>v. envelope_to_json U e = Some v \<and> (\<forall>k. json_get v k =
     (if k = ''run_id'' then Some (JString (run_hyphenated U (env_run_id e)))
      else if k = ''sequence'' then Some (JNumber (PosInt (env_sequence e)))
      else json_get (event_to_json U (env_event e)) k))"
proof -
  obtain m where "event_to_json U (env_event e) = JObject m" using event_is_object by blast
  then show ?thesis by (simp add: envelope_to_json_def)
qed

text \<open>
  C32. A host can tell events apart. Every event of a log has a JSON form, the number and the run
  of the envelope overwrite no field of the event, and two envelopes have the same form exactly
  when they agree in everything but what the format leaves out: the run named by
  \<open>run_started\<close> once more, the deadline of an operation, and whether a message has no provider
  state or \<open>null\<close>.
\<close>

theorem events_are_told_apart:
  assumes "uuid_lib_ok U"
  shows "envelope_to_json U e \<noteq> None \<and> json_get (event_to_json U (env_event e)) ''sequence'' = None
    \<and> json_get (event_to_json U (env_event e)) ''run_id'' = None
    \<and> (envelope_to_json U e = envelope_to_json U e'
        \<longleftrightarrow> env_sequence e = env_sequence e' \<and> env_run_id e = env_run_id e'
          \<and> forget_event (env_event e) = forget_event (env_event e'))"
proof -
  obtain v where v: "envelope_to_json U e = Some v" "\<And>k. json_get v k =
     (if k = ''run_id'' then Some (JString (run_hyphenated U (env_run_id e)))
      else if k = ''sequence'' then Some (JNumber (PosInt (env_sequence e)))
      else json_get (event_to_json U (env_event e)) k)" using envelope_object [of U e] by blast
  obtain v' where v': "envelope_to_json U e' = Some v'" "\<And>k. json_get v' k =
     (if k = ''run_id'' then Some (JString (run_hyphenated U (env_run_id e')))
      else if k = ''sequence'' then Some (JNumber (PosInt (env_sequence e')))
      else json_get (event_to_json U (env_event e')) k)" using envelope_object [of U e'] by blast
  have "env_sequence e = env_sequence e' \<and> env_run_id e = env_run_id e'
      \<and> forget_event (env_event e) = forget_event (env_event e')" if "v = v'"
  proof -
    have own: "json_get (event_to_json U (env_event e)) k = json_get (event_to_json U (env_event e')) k" for k
      using v(2) [of k] v'(2) [of k] that event_own_fields [of U] by (auto split: if_splits)
    obtain m m' where m: "event_to_json U (env_event e) = JObject m" "event_to_json U (env_event e') = JObject m'"
      using event_is_object by blast
    have "forget_event (env_event e) = forget_event (env_event e')" using event_inj_fields [OF assms own] .
    then show ?thesis using v(2) [of "''run_id''"] v'(2) [of "''run_id''"] v(2) [of "''sequence''"]
        v'(2) [of "''sequence''"] that assms by simp
  qed
  moreover have "v = v'" if "env_sequence e = env_sequence e'" "env_run_id e = env_run_id e'"
      "forget_event (env_event e) = forget_event (env_event e')"
    using that v(1) v'(1) event_inj [OF assms, of "env_event e" "env_event e'"] by (simp add: envelope_to_json_def)
  ultimately show ?thesis using v(1) v'(1) event_own_fields by auto
qed

theorem events_are_told_apart_witness:
  "let p = \<lparr>op_id = OperationId 3, op_run_id = RunId 1, op_invocation_id = None, op_effect = FsWrite,
       op_mode = BlockingApproval, op_summary = ''w'', op_payload = JNull, op_deadline = None\<rparr>;
     e = \<lambda>p. \<lparr>env_sequence = 4, env_run_id = RunId 1, env_event = EvOperationRequested p\<rparr>;
     U = sample_uuid_lib
   in envelope_to_json U (e p) \<noteq> envelope_to_json U (e (p\<lparr>op_mode := DeferredCommit\<rparr>))
     \<and> envelope_to_json U (e p) = envelope_to_json U (e (p\<lparr>op_deadline := Some 9\<rparr>))"
  unfolding Let_def
  using events_are_told_apart [OF sample_uuid_lib_ok] by simp

end
