(* ===== verification/Python_Bindings.thy ===== *)
theory Python_Bindings
  imports Host_Providers Events_Json
begin

text \<open>
  The Python bindings (\<open>bindings/python/src/lib.rs\<close>): what they make of the JSON and of the
  callbacks a Python host hands them, and the table of the runs an agent has started. Python,
  the runtime it blocks on and the parser of JSON with its messages are parameters. An exception
  is the kind and the message that are printed into it.
\<close>

section \<open>Errors\<close>

fun ae_kind_debug :: "aifluxon_error_kind \<Rightarrow> str" where
  "ae_kind_debug AeInvalidConfiguration = ''InvalidConfiguration''"
| "ae_kind_debug AeInvalidRequest = ''InvalidRequest''"
| "ae_kind_debug AeProvider = ''Provider''"
| "ae_kind_debug AeTool = ''Tool''"
| "ae_kind_debug AePolicyDenied = ''PolicyDenied''"
| "ae_kind_debug AeOperationPending = ''OperationPending''"
| "ae_kind_debug AeOperationRejected = ''OperationRejected''"
| "ae_kind_debug AeCancelled = ''Cancelled''"
| "ae_kind_debug AeBudgetExceeded = ''BudgetExceeded''"
| "ae_kind_debug AeStateConflict = ''StateConflict''"
| "ae_kind_debug AeRuntimeUnavailable = ''RuntimeUnavailable''"
| "ae_kind_debug AeFailed = ''Failed''"
| "ae_kind_debug AeInternal = ''Internal''"

fun auth_kind_str :: "auth_error_kind \<Rightarrow> str" where
  "auth_kind_str AuthConfiguration = ''Configuration''"
| "auth_kind_str AuthBrowser = ''Browser''"
| "auth_kind_str AuthCallbackBind = ''CallbackBind''"
| "auth_kind_str AuthCallbackTimeout = ''CallbackTimeout''"
| "auth_kind_str AuthCallbackProtocol = ''CallbackProtocol''"
| "auth_kind_str AuthStateMismatch = ''StateMismatch''"
| "auth_kind_str AuthTokenExchange = ''TokenExchange''"
| "auth_kind_str AuthTokenRefresh = ''TokenRefresh''"
| "auth_kind_str AuthenticationRequired = ''AuthenticationRequired''"
| "auth_kind_str AccountSelectionRequired = ''AccountSelectionRequired''"
| "auth_kind_str AccountNotFound = ''AccountNotFound''"
| "auth_kind_str CredentialStore = ''CredentialStore''"
| "auth_kind_str CredentialStoreUnavailable = ''CredentialStoreUnavailable''"
| "auth_kind_str CredentialStoreLocked = ''CredentialStoreLocked''"
| "auth_kind_str CredentialCorrupted = ''CredentialCorrupted''"
| "auth_kind_str UnsupportedPlatform = ''UnsupportedPlatform''"
| "auth_kind_str AuthCancelled = ''Cancelled''"
| "auth_kind_str AuthNetwork = ''Network''"

record py_error =
  py_kind :: str
  py_message :: str

definition native_error :: "aifluxon_error_kind \<Rightarrow> str \<Rightarrow> py_error" where
  "native_error kind message = \<lparr>py_kind = ae_kind_debug kind, py_message = message\<rparr>"

definition py_error_json :: "py_error \<Rightarrow> json" where
  "py_error_json e = json_obj [(''kind'', JString (py_kind e)), (''message'', JString (py_message e))]"

definition invalid_config :: "str \<Rightarrow> py_error" where
  "invalid_config = native_error AeInvalidConfiguration"

definition invalid_request :: "str \<Rightarrow> py_error" where
  "invalid_request = native_error AeInvalidRequest"

definition py_map_error :: "aifluxon_error \<Rightarrow> py_error" where
  "py_map_error e = native_error (ae_kind e) (ae_message e)"

definition py_map_auth_error :: "auth_error \<Rightarrow> py_error" where
  "py_map_auth_error e = \<lparr>py_kind = auth_kind_str (auth_kind e), py_message = auth_message e\<rparr>"

definition py_store_error :: "store_error \<Rightarrow> py_error" where
  "py_store_error e =
     native_error (case e of StConflict \<Rightarrow> AeStateConflict | StInvalidId \<Rightarrow> AeInvalidRequest | _ \<Rightarrow> AeInternal)
       (store_error_display e)"

section \<open>Descriptions of tools\<close>

text \<open>\<open>serde_json::from_str\<close>, with the message of its error.\<close>

type_synonym json_parser = "str \<Rightarrow> str + json"

fun effect_name :: "tool_effect \<Rightarrow> str" where
  "effect_name PureRead = ''pure_read''"
| "effect_name FsRead = ''fs_read''"
| "effect_name FsWrite = ''fs_write''"
| "effect_name ProcessSpawn = ''process_spawn''"
| "effect_name ProcessControl = ''process_control''"
| "effect_name Network = ''network''"
| "effect_name SettingsWrite = ''settings_write''"
| "effect_name ExternalSideEffect = ''external_side_effect''"
| "effect_name UnknownEffect = ''unknown''"

definition parse_effect :: "str option \<Rightarrow> py_error + tool_effect" where
  "parse_effect raw =
     (let n = unwrap_or ''unknown'' raw in
      if n = ''pure_read'' then Inr PureRead
      else if n = ''fs_read'' then Inr FsRead
      else if n = ''fs_write'' then Inr FsWrite
      else if n = ''process_spawn'' then Inr ProcessSpawn
      else if n = ''process_control'' then Inr ProcessControl
      else if n = ''network'' then Inr Network
      else if n = ''settings_write'' then Inr SettingsWrite
      else if n = ''external_side_effect'' then Inr ExternalSideEffect
      else if n = ''unknown'' then Inr UnknownEffect
      else Inl (invalid_config (''Unsupported tool effect `'' @ n @ ''`.'')))"

definition py_required_str :: "json \<Rightarrow> str \<Rightarrow> py_error + str" where
  "py_required_str v field =
     ok_or (invalid_config (''Missing `'' @ field @ ''`.''))
       (opt_filter (\<lambda>s. trim s \<noteq> []) (get_str v field))"

definition parse_descriptor :: "json_parser \<Rightarrow> str \<Rightarrow> py_error + tool_descriptor" where
  "parse_descriptor P raw =
     res_bind (map_err invalid_config (P raw)) (\<lambda>v.
     res_bind (py_required_str v ''name'') (\<lambda>name.
     res_bind (parse_effect (get_str v ''effect'')) (\<lambda>effect.
       Inr \<lparr>tool_name = name, tool_description = unwrap_or [] (get_str v ''description''),
         tool_input_schema = unwrap_or (json_obj [(''type'', JString ''object'')]) (json_get v ''input_schema''),
         tool_effect_of = effect,
         tool_required_capabilities = (case get_array v ''required_capabilities'' of
             None \<Rightarrow> [] | Some items \<Rightarrow> map CapabilityId (List.map_filter as_str items)),
         tool_parallel_safe = unwrap_or False (Option.bind (json_get v ''parallel_safe'') as_bool)\<rparr>)))"

section \<open>Policies and decisions\<close>

definition parse_policy_decision :: "json_parser \<Rightarrow> str \<Rightarrow> str + tool_decision" where
  "parse_policy_decision P raw =
     res_bind (P raw) (\<lambda>v.
       let decision = unwrap_or ''deny'' (get_str v ''decision'') in
       if decision = ''allow'' then Inr Allow
       else if decision = ''deny''
       then Inr (Deny (unwrap_or ''The tool policy denied this invocation.'' (get_str v ''reason'')))
       else if decision = ''require_approval''
       then Inr (RequireApproval
         \<lparr>draft_invocation_id = None, draft_effect = UnknownEffect,
          draft_mode = (if get_str v ''mode'' = Some ''deferred_commit'' then DeferredCommit else BlockingApproval),
          draft_summary = unwrap_or ''Tool invocation requires host approval.'' (get_str v ''summary''),
          draft_payload = unwrap_or JNull (json_get v ''payload''), draft_deadline = None\<rparr>)
       else Inl (''Unknown tool policy decision `'' @ decision @ ''`.''))"

text \<open>The callback gets a name, the arguments as text and an effect; it raises or returns a text.\<close>

definition python_policy ::
    "json_parser \<Rightarrow> (json \<Rightarrow> str) \<Rightarrow> (str \<Rightarrow> str \<Rightarrow> str \<Rightarrow> str + str) \<Rightarrow> tool_policy_input \<Rightarrow> tool_decision" where
  "python_policy P to_string callback i =
     (case res_bind (callback (tool_name (pin_descriptor i)) (to_string (inv_arguments (pin_invocation i)))
               (effect_name (tool_effect_of (pin_descriptor i)))) (parse_policy_decision P) of
        Inl message \<Rightarrow> Deny message
      | Inr decision \<Rightarrow> decision)"

definition agent_policy ::
    "json_parser \<Rightarrow> (json \<Rightarrow> str) \<Rightarrow> (str \<Rightarrow> str \<Rightarrow> str \<Rightarrow> str + str) option \<Rightarrow> tool_policy" where
  "agent_policy P to_string callback =
     (case callback of
        None \<Rightarrow> allow_all_policy
      | Some f \<Rightarrow> allow_all_policy\<lparr>pol_evaluate := python_policy P to_string f\<rparr>)"

definition parse_decision :: "json_parser \<Rightarrow> str \<Rightarrow> py_error + operation_decision" where
  "parse_decision P raw =
     res_bind (map_err invalid_request (P raw)) (\<lambda>v.
       let kind = unwrap_or ''approve'' (get_str v ''type'') in
       if kind = ''approve'' then Inr (Approve (json_get v ''data''))
       else if kind = ''reject'' then Inr (Reject (get_str v ''reason''))
       else Inl (invalid_request (''Unsupported operation decision `'' @ kind @ ''`.'')))"


section \<open>Requests\<close>

definition optional_feature_str :: "json \<Rightarrow> str \<Rightarrow> py_error + str option" where
  "optional_feature_str v field =
     (case json_get v field of
        None \<Rightarrow> Inr None
      | Some JNull \<Rightarrow> Inr None
      | Some (JString text) \<Rightarrow> Inr (if trim text = [] then None else Some (trim text))
      | Some (JNumber n) \<Rightarrow>
          if field = ''thinking_budget''
          then Inr (map_option (\<lambda>w. decimal (unat w)) (opt_filter (\<lambda>w. w > 0) (as_u64 (JNumber n))))
          else Inl (invalid_request (''Feature `'' @ field @ ''` must be a string.''))
      | _ \<Rightarrow> Inl (invalid_request (''Feature `'' @ field @ ''` must be a string.'')))"

definition parse_features :: "json_parser \<Rightarrow> str option \<Rightarrow> py_error + provider_feature_request" where
  "parse_features P raw0 =
     (case opt_filter (\<lambda>v. v \<noteq> [] \<and> v \<noteq> ''{}'') (map_option trim raw0) of
        None \<Rightarrow> Inr default_features
      | Some raw \<Rightarrow>
          res_bind (map_err invalid_request (P raw)) (\<lambda>v.
          res_bind (optional_feature_str v ''reasoning_effort'') (\<lambda>effort.
          res_bind (optional_feature_str v ''thinking_mode'') (\<lambda>mode.
          res_bind (optional_feature_str v ''thinking_budget'') (\<lambda>budget.
            Inr (default_features\<lparr>feat_reasoning_effort := effort, feat_thinking_mode := mode,
                   feat_thinking_budget := budget\<rparr>))))))"

definition content_part_string :: "json \<Rightarrow> nat \<Rightarrow> str \<Rightarrow> py_error + str" where
  "content_part_string v index field =
     ok_or (invalid_request (''Content part '' @ decimal index @ '' requires a non-empty `'' @ field @ ''`.''))
       (opt_filter (\<lambda>s. s \<noteq> []) (map_option trim (get_str v field)))"

definition parse_content_part :: "nat \<times> json \<Rightarrow> py_error + content_part" where
  "parse_content_part = (\<lambda>(index, part).
     res_bind (ok_or (invalid_request (''Content part '' @ decimal index @ '' has no `type`.''))
       (get_str part ''type'')) (\<lambda>kind.
     if kind = ''text''
     then ok_or (invalid_request (''Text content part '' @ decimal index @ '' requires `text`.''))
            (map_option PartText (get_str part ''text''))
     else if kind = ''image''
     then res_bind (content_part_string part index ''reference'') (\<lambda>reference.
          res_bind (content_part_string part index ''mime_type'') (\<lambda>raw.
          let mime_type = to_ascii_lowercase raw in
          if \<not> starts_with mime_type ''image/''
          then Inl (invalid_request (''Image content part '' @ decimal index @ '' requires an image MIME type.''))
          else Inr (PartImage \<lparr>img_artifact = ArtifactRef reference, img_mime_type = mime_type\<rparr>)))
     else Inl (invalid_request
            (''Unsupported content part type `'' @ kind @ ''` at index '' @ decimal index @ ''.''))))"

definition parse_content_parts :: "json_parser \<Rightarrow> str \<Rightarrow> py_error + content_part list" where
  "parse_content_parts P raw =
     res_bind (map_err invalid_request (P raw)) (\<lambda>v.
     res_bind (ok_or (invalid_request ''Multimodal content must be a non-empty JSON array.'')
       (opt_filter (\<lambda>parts. parts \<noteq> []) (as_array v))) (\<lambda>parts.
       collect_all parse_content_part (enumerate 0 parts)))"

section \<open>Tools written in Python\<close>

text \<open>An error of the bindings shows as its JSON in the failure of a tool.\<close>

definition parse_python_tool_result ::
    "json_parser \<Rightarrow> (json \<Rightarrow> str) \<Rightarrow> (py_error \<Rightarrow> str) \<Rightarrow> json \<Rightarrow> tool_execution_error + tool_result" where
  "parse_python_tool_result P to_string show_error v =
     (case json_get v ''$aifluxon_tool_result'' of
        None \<Rightarrow> Inr (result_from_value v)
      | Some envelope \<Rightarrow>
          (let content = unwrap_or JNull (json_get envelope ''content'') in
           res_bind (map_err (\<lambda>e. ExecFailed (show_error e)) (parse_content_parts P (to_string content))) (\<lambda>parts.
             Inr (result_with_content
               (unwrap_or (json_obj [(''content'', content)]) (json_get envelope ''value'')) parts))))"

definition python_tool_execute ::
    "json_parser \<Rightarrow> (json \<Rightarrow> str) \<Rightarrow> (py_error \<Rightarrow> str) \<Rightarrow> (str \<Rightarrow> str + str) \<Rightarrow> tool_invocation
       \<Rightarrow> tool_execution_error + tool_result" where
  "python_tool_execute P to_string show_error callback invocation =
     res_bind (map_err ExecFailed (callback (to_string (inv_arguments invocation)))) (\<lambda>text.
       parse_python_tool_result P to_string show_error
         (case P text of Inr v \<Rightarrow> v | Inl _ \<Rightarrow> json_obj [(''result'', JString text)]))"

section \<open>What Python is shown\<close>

definition snapshot_state_name :: "run_state \<Rightarrow> str" where
  "snapshot_state_name st = to_ascii_lowercase (run_state_debug st)"

fun collect_some :: "'a option list \<Rightarrow> 'a list option" where
  "collect_some [] = Some []"
| "collect_some (x # xs) = Option.bind x (\<lambda>y. map_option ((#) y) (collect_some xs))"

definition snapshot_to_json :: "uuid_lib \<Rightarrow> (str \<Rightarrow> str) \<Rightarrow> run_snapshot \<Rightarrow> json option" where
  "snapshot_to_json U q s =
     map_option (\<lambda>operations. json_obj
       [(''run_id'', JString (run_hyphenated U (ctx_run_id (rsn_context s)))),
        (''session_id'', json_opt (\<lambda>i. JString (session_hyphenated U i)) (ctx_session_id (rsn_context s))),
        (''state'', JString (snapshot_state_name (rsn_state s))),
        (''last_event_sequence'', JNumber (PosInt (rsn_last_event_sequence s))),
        (''pending_operations'', JArray operations)])
     (collect_some (map (operation_snapshot_to_json U q) (rsn_pending_operations s)))"

definition session_record_json :: "uuid_lib \<Rightarrow> session_record \<Rightarrow> json" where
  "session_record_json U r =
     json_obj [(''id'', JString (session_hyphenated U (ses_id r))), (''revision'', JNumber (PosInt (ses_revision r))),
       (''created_at'', JNumber (PosInt (ses_created_at r))), (''updated_at'', JNumber (PosInt (ses_updated_at r))),
       (''message_count'', json_nat (length (ses_messages r)))]"

definition session_summary_json :: "uuid_lib \<Rightarrow> session_summary \<Rightarrow> json" where
  "session_summary_json U r =
     json_obj [(''id'', JString (session_hyphenated U (sum_id r))), (''revision'', JNumber (PosInt (sum_revision r))),
       (''created_at'', JNumber (PosInt (sum_created_at r))), (''updated_at'', JNumber (PosInt (sum_updated_at r))),
       (''message_count'', json_nat (sum_message_count r))]"

fun auth_state_debug :: "codex_auth_state \<Rightarrow> str" where
  "auth_state_debug Authenticated = ''Authenticated''"
| "auth_state_debug RefreshRequired = ''RefreshRequired''"
| "auth_state_debug AuthExpired = ''Expired''"
| "auth_state_debug AuthMissing = ''Missing''"

definition account_json :: "codex_account \<Rightarrow> json" where
  "account_json a =
     json_obj [(''id'', JString (acc_id a)), (''email'', json_opt JString (acc_email a)),
       (''expires_at'', json_opt (\<lambda>n. JNumber (PosInt n)) (acc_expires_at a))]"

definition status_json :: "codex_auth_status \<Rightarrow> json" where
  "status_json st =
     json_obj [(''account'', account_json (sta_account st)), (''state'', JString (auth_state_debug (sta_state st)))]"

section \<open>The agent\<close>

record 'h native_agent =
  na_binding :: provider_binding
  na_limits :: run_limits
  na_runs :: "(str \<times> 'h) list"

text \<open>The provider an agent is made for: of an account, or from its description.\<close>

definition native_binding ::
    "uuid_lib \<Rightarrow> json_parser \<Rightarrow> str \<Rightarrow> codex_handle option
       \<Rightarrow> (py_error + provider_binding) \<times> host_provider provider_registry" where
  "native_binding U P spec oauth =
     (case oauth of
        Some h \<Rightarrow> apfst (map_err py_map_error) (handle_register h preg_new)
      | None \<Rightarrow>
          (case map_err invalid_config (P spec) of
             Inl e \<Rightarrow> (Inl e, preg_new)
           | Inr v \<Rightarrow> apfst (map_err py_map_error) (register_provider_from_json U v preg_new)))"

definition register_python_tool ::
    "json_parser \<Rightarrow> str \<Rightarrow> 'x \<Rightarrow> 'x tool_registry \<Rightarrow> (py_error + unit) \<times> 'x tool_registry" where
  "register_python_tool P raw callback R =
     (case parse_descriptor P raw of
        Inl e \<Rightarrow> (Inl e, R)
      | Inr d \<Rightarrow> apfst (map_err (\<lambda>e. invalid_config (tool_registry_error_display e))) (tool_register d callback R))"

text \<open>\<open>start_content\<close>; \<open>start\<close> is the API's, with the handle it returns.\<close>

definition start_content ::
    "uuid_lib \<Rightarrow> json_parser \<Rightarrow> (run_request \<Rightarrow> 'w \<Rightarrow> (aifluxon_error + run_id \<times> 'h) \<times> 'w)
       \<Rightarrow> content_part list \<Rightarrow> str option \<Rightarrow> str option \<Rightarrow> str option \<Rightarrow> 'h native_agent \<times> 'w
       \<Rightarrow> (py_error + str) \<times> 'h native_agent \<times> 'w" where
  "start_content U P start content session_id features_json system_prompt = (\<lambda>(A, w).
     case (case session_id of
             None \<Rightarrow> Inr None
           | Some raw \<Rightarrow> map_sum invalid_request Some (session_parse_or_stable_key U raw)) of
       Inl e \<Rightarrow> (Inl e, A, w)
     | Inr session \<Rightarrow>
     (case parse_features P features_json of
       Inl e \<Rightarrow> (Inl e, A, w)
     | Inr features \<Rightarrow>
     (case start (user_content_request_with_system (bind_provider_id (na_binding A)) (bind_model (na_binding A)) content
             session (na_limits A) features (opt_filter (\<lambda>v. v \<noteq> []) (map_option trim system_prompt))) w of
       (Inl e, w') \<Rightarrow> (Inl (py_map_error e), A, w')
     | (Inr (run, h), w') \<Rightarrow>
         (Inr (run_hyphenated U run), A\<lparr>na_runs := AList.update (run_hyphenated U run) h (na_runs A)\<rparr>, w'))))"

definition run_handle_of :: "str \<Rightarrow> 'h native_agent \<Rightarrow> py_error + 'h" where
  "run_handle_of run_id A = ok_or (invalid_request (''Unknown run `'' @ run_id @ ''`.'')) (map_of (na_runs A) run_id)"

text \<open>A login attempt is taken by the first call that waits for it or cancels it.\<close>

definition take_attempt :: "'a option \<Rightarrow> (py_error + 'a) \<times> 'a option" where
  "take_attempt attempt =
     (ok_or \<lparr>py_kind = ''Cancelled'', py_message = ''Codex login attempt is no longer active.''\<rparr> attempt, None)"

section \<open>What a Python host can rely on\<close>

lemma parse_effect_iff: "parse_effect raw = Inr e \<longleftrightarrow> unwrap_or ''unknown'' raw = effect_name e"
  by (cases e) (simp_all add: parse_effect_def Let_def)

lemma python_policy_allows:
  "python_policy P to_string callback i = Allow \<longleftrightarrow>
      (\<exists>raw v. callback (tool_name (pin_descriptor i)) (to_string (inv_arguments (pin_invocation i)))
            (effect_name (tool_effect_of (pin_descriptor i))) = Inr raw
        \<and> P raw = Inr v \<and> get_str v ''decision'' = Some ''allow'')"
  by (auto simp: python_policy_def parse_policy_decision_def Let_def res_bind_def unwrap_or_def
      split: sum.split option.splits if_splits)

text \<open>
  A policy in Python fails closed. A tool is allowed exactly when the callback returned an
  object that says \<open>allow\<close>; when it raises, or returns anything else that is not understood, the
  tool is denied and the reason is the error.
\<close>

theorem python_policy_fails_closed:
  "(python_policy P to_string callback i = Allow \<longleftrightarrow>
      (\<exists>raw v. callback (tool_name (pin_descriptor i)) (to_string (inv_arguments (pin_invocation i)))
            (effect_name (tool_effect_of (pin_descriptor i))) = Inr raw
        \<and> P raw = Inr v \<and> get_str v ''decision'' = Some ''allow''))
   \<and> (case callback (tool_name (pin_descriptor i)) (to_string (inv_arguments (pin_invocation i)))
            (effect_name (tool_effect_of (pin_descriptor i))) of
        Inl message \<Rightarrow> python_policy P to_string callback i = Deny message
      | Inr raw \<Rightarrow> (case parse_policy_decision P raw of
            Inl message \<Rightarrow> python_policy P to_string callback i = Deny message
          | Inr decision \<Rightarrow> python_policy P to_string callback i = decision))"
  by (rule conjI [OF python_policy_allows]) (simp add: python_policy_def split: sum.split)

text \<open>
  A decision that does not say what it is approves. The bindings read an answer without a
  \<open>type\<close>, or with a \<open>type\<close> that is no text, as an approval.
\<close>

theorem decision_without_type_approves:
  "parse_decision (\<lambda>_. Inr v) raw = Inr (Approve (json_get v ''data''))
     \<longleftrightarrow> get_str v ''type'' = None \<or> get_str v ''type'' = Some ''approve''"
  by (cases "get_str v ''type''") (auto simp: parse_decision_def Let_def)

text \<open>
  A snapshot and the events name the states of a run alike, but for a run that awaits an
  operation: \<open>awaitingoperation\<close> in a snapshot and \<open>awaiting_operation\<close> in an event.
\<close>

theorem snapshot_names_states_as_events_do:
  "snapshot_state_name st = run_state_name st \<longleftrightarrow> st \<noteq> AwaitingOperation"
  by (cases st; simp only:; code_simp)

text \<open>
  A run that was started is found by the identifier that was returned, and all other runs as
  before; when it was not started, the agent is unchanged.
\<close>

theorem started_run_is_found:
  assumes "start_content U P start content session_id features_json system_prompt (A, w) = (x, A', w')"
  shows "case x of
      Inl e \<Rightarrow> A' = A
    | Inr i \<Rightarrow> (\<exists>h. \<forall>j. run_handle_of j A' = (if j = i then Inr h else run_handle_of j A))"
  using assms by (auto simp: start_content_def run_handle_of_def split: sum.splits prod.splits option.splits)


theorem started_run_is_found_witness:
  "let A = \<lparr>na_binding = \<lparr>bind_provider_id = ProviderId ''p'', bind_model = ''m''\<rparr>, na_limits = default_limits,
       na_runs = []\<rparr>; i = run_hyphenated sample_uuid_lib (RunId 1)
   in \<exists>A'. start_content sample_uuid_lib (\<lambda>_. Inl ''none'') (\<lambda>_ w. (Inr (RunId 1, ()), w)) [PartText ''hi''] None None None (A, ())
        = (Inr i, A', ()) \<and> run_handle_of i A' = Inr ()"
proof -
  let ?A = "\<lparr>na_binding = \<lparr>bind_provider_id = ProviderId ''p'', bind_model = ''m''\<rparr>, na_limits = default_limits,
       na_runs = []\<rparr> :: unit native_agent" and ?i = "run_hyphenated sample_uuid_lib (RunId 1)"
  obtain A' where s: "start_content sample_uuid_lib (\<lambda>_. Inl ''none'') (\<lambda>_ w. (Inr (RunId 1, ()), w)) [PartText ''hi''] None None None (?A, ())
      = (Inr ?i, A', ())" by (simp add: start_content_def parse_features_def)
  from started_run_is_found [OF s] have "\<exists>h. run_handle_of ?i A' = Inr h" by auto
  with s show ?thesis by (auto simp: Let_def)
qed

end
