(* ===== verification/Spec2Isabelle.thy ===== *)
theory Spec2Isabelle
  imports Continuation Context Json_Store Openai_Provider Session_Runs Codex_Locks Keyring Vault Python_Bindings
begin

text \<open>
  A verification library for \<open>aifluxon\<close>, a runtime for agents that call language models and
  tools. The crates are under \<open>src/crates\<close>: \<open>aifluxon-core\<close> (data and interfaces),
  \<open>aifluxon-runtime\<close> (the run table, the agent loop, stores), \<open>aifluxon-providers\<close> (what is said to
  the services of model providers), \<open>aifluxon-auth\<close> (secrets and accounts) and \<open>aifluxon-api\<close> (the
  public facade); the Python bindings are \<open>src/bindings/python\<close>.

  \<^bold>\<open>How the parts work together.\<close> A host builds a facade (\<open>builder.rs\<close>) and starts a run
  (\<open>backend.rs\<close>): the session is loaded, the request becomes the request of a turn, the run is
  entered in the run table and a first checkpoint is saved. A task then runs the agent loop
  (\<open>coordinator.rs\<close>): a turn of the provider, the tool calls of the turn, and so on, while the
  answer is written to the event log of the run. A call goes through validation, policy, perhaps an
  operation that the host approves, the budget and the ledger. At the end the task persists the
  session and finishes the run; the host reads the log through a handle (\<open>run.rs\<close>). The provider
  builds a request in one of two protocols, streams the response through UTF-8, events and an
  assembler into a turn, and retries what it may; its bearer token comes from a store of accounts on
  top of a store of secrets.

  \<^bold>\<open>Theories.\<close> Names of definitions are those of the code; where a name is taken, it has a prefix of
  its component (\<open>tab_cancel\<close> for \<open>RunTable::cancel\<close>, \<open>vault_set\<close>, \<open>py_map_error\<close>).
  \<^item> Shared: \<open>Prelude\<close> (strings as lists of bytes, saturating arithmetic, \<open>Result\<close> as a sum),
    \<open>Json\<close> (\<open>serde_json::Value\<close>).
  \<^item> Core: \<open>Core_Ids\<close> (\<open>ids.rs\<close>, \<open>hash.rs\<close>, \<open>skill.rs\<close>, \<open>authority.rs\<close>), \<open>Core_Types\<close> (\<open>message.rs\<close>,
    \<open>tool.rs\<close>, \<open>operation.rs\<close>, \<open>provider.rs\<close>, \<open>run.rs\<close>, \<open>event.rs\<close>), \<open>Registries\<close> (providers and skills;
    the locale \<open>keyed_registry\<close>).
  \<^item> Runtime: \<open>Budget\<close>, \<open>Latch\<close> (\<open>terminal.rs\<close> and the cancellation token; locale \<open>once_latch\<close>),
    \<open>Operations\<close> (\<open>operations.rs\<close>), \<open>Run_Table\<close> (\<open>run_table.rs\<close>; locale \<open>cell_relation\<close>), \<open>Tools\<close>
    (\<open>tools/\<close>), \<open>Continuation\<close>, \<open>Context\<close>, \<open>Coordinator\<close> (\<open>coordinator.rs\<close>), \<open>Session_Stores\<close>
    (\<open>state.rs\<close>; locale \<open>session_store\<close>), \<open>Json_Store\<close> (\<open>json_store.rs\<close>).
  \<^item> Responses of providers: \<open>Utf8\<close>, \<open>Sse_Stream\<close>, \<open>Text_Delta\<close> (\<open>common/\<close>), \<open>Tool_Deltas\<close>
    (\<open>tool_deltas.rs\<close>), \<open>Sink_Actions\<close>, \<open>Thought_Stream\<close> (\<open>gemini\<close>), \<open>Think_Tags\<close> (\<open>kimi\<close>), \<open>Summary_Filter\<close>
    (\<open>qwen\<close>), \<open>Chat_Completions\<close>, \<open>Responses_Stream\<close>, \<open>Streaming\<close> (\<open>openai_compatible/\<close>).
  \<^item> Requests and turns: \<open>Responses_Body\<close>, \<open>Model_Families\<close> (\<open>strategy.rs\<close> and the modules of the
    families), \<open>Decorate\<close>, \<open>Reliability\<close>, \<open>Promises\<close> (\<open>openai_compatible/continuation.rs\<close>),
    \<open>Http_Retry\<close> (\<open>common/http.rs\<close>), \<open>Openai_Provider\<close> (\<open>openai_compatible/mod.rs\<close>: \<open>openai_next_turn\<close>).
  \<^item> Secrets and accounts: \<open>Secrets\<close> (\<open>error.rs\<close>, \<open>secret_store.rs\<close>, the operations of
    \<open>keyring_store.rs\<close>; locale \<open>secret_store\<close>), \<open>Keyring\<close> (that they keep the contract; locale
    \<open>raw_ring\<close> of the entries underneath, whose reads may fail, and \<open>steady_ring\<close>, whose reads do not), \<open>Vault\<close> (\<open>encrypted_store.rs\<close>), \<open>Codex_Store\<close>,
    \<open>Codex_Auth\<close> (\<open>codex/\<close>, \<open>credential.rs\<close>) and \<open>Codex_Locks\<close> (the locks of the accounts in
    \<open>codex/mod.rs\<close>).
  \<^item> Public API: \<open>Run_Handle\<close> (\<open>run.rs\<close>, \<open>result.rs\<close>, the forwarding of events), \<open>Prompts\<close> (\<open>prompt.rs\<close>),
    \<open>Facade\<close> (\<open>backend.rs\<close>, \<open>builder.rs\<close>), \<open>Session_Runs\<close> (theorems on runs of one session),
    \<open>Events_Json\<close> (\<open>events_json.rs\<close>), \<open>Host_Providers\<close> (\<open>controlled.rs\<close>, \<open>providers.rs\<close>, \<open>auth.rs\<close>,
    \<open>web_tools.rs\<close>), \<open>Python_Bindings\<close> (\<open>bindings/python/src/lib.rs\<close>).
  This theory holds the theorems that span providers, the agent loop, the log and policies in Python.

  \<^bold>\<open>State.\<close> A struct is a record and an enum a datatype. What a mutex guards is one value, and a call is
  the sections it runs under the lock; where calls interleave (\<open>Operations\<close>, \<open>Latch\<close>, \<open>Run_Table\<close>, \<open>Codex_Locks\<close>), the
  sections, the notifications after them and the looks of waiters are the steps of an inductive
  relation. The agent loop runs on a world that consists of the table and an arbitrary state, and
  everything it awaits is a function on that world, so that other threads may move the table
  meanwhile; the tasks of a parallel round are polled as \<open>join_all\<close> polls them, each running on through
  every await that is ready. A \<open>HashMap\<close> is an association list, and theorems hold for every order of it. Identifiers,
  sequence numbers and counters are words of their width with \<open>saturating_add\<close> where the code saturates;
  lengths and times are natural numbers.

  \<^bold>\<open>What the lemmas show.\<close>
  \<^item> Run table and operations: logs are well-formed and agree with the state in every interleaving, a
    terminal run is frozen, cancellation reaches exactly the tree of a run, operations move along their
    life cycle and no wake-up is lost, a reader of the log gets each event once.
  \<^item> Agent loop: a tool runs only with permission and at most once, every call of a round is answered,
    calls that are ready at once run in parallel as they do in sequence, and the loop ends when model
    rounds are limited.
  \<^item> Providers: chunks of a response do not matter, the turn that is returned is what the sink was
    shown, over retries; for Qwen and Kimi, whose filters cut the text, \<open>spelt\<close> says how far, so that
    the log of a run spells the turn but for Kimi's order of the reasoning and an answer of Qwen that is
    only a possible start of the summary tag; retries are bounded and silent; calls of a validated turn can be
    dispatched; secrets are removed from errors.
  \<^item> Sessions: no save is lost, a run continues what was persisted, a stale run fails, a completed run has
    been persisted.
  \<^item> Secrets and accounts: the key ring keeps what a history of writes and deletions, failed or not, says,
    also in pieces, and the vault gives back what was set after locking; of calls that refresh an
    account together one at a time asks the server, the others are served what it has fetched unless they
    force a refresh, and the tokens of another account are never stored; storing an account loses no
    other; a login takes the code of its own request only.
  \<^item> Hosts: the JSON of events tells them apart, a policy written in Python fails closed, so that no tool
    runs without consent, no error of a web tool contains its key.
  Some theorems state what the code does although it seems unintended: a failed deletion that destroys a
  secret, a logout that a refresh undoes, a refused launch that leaves a run behind, the family of a
  provider that follows its identifier rather than its kind.

  \<^bold>\<open>Bounds and fuel.\<close> Recursion is structural or has a measure, but for the agent loop, which need not end:
  \<open>registered_loop\<close> takes fuel, one unit for a turn, and a result that tells running out of fuel from
  waiting for ever. \<open>agent_loop_terminates\<close> shows that one unit more than the model rounds that are left
  is enough. HTTP requests and turns are tried at most three times, which their definitions count.

  \<^bold>\<open>Parameters.\<close> Code that is not in the repository is an argument: \<open>uuid_lib\<close>, \<open>json_lib\<close> (parser, printer,
  schema validator), \<open>provider_world\<close> (transport, credentials, clock), \<open>http_client\<close>, \<open>raw_backend\<close> (the key
  ring of the system, SHA-256), \<open>vault_lib\<close> (Argon2, the cipher, the file), \<open>codex_lib\<close> (base64,
  SHA-256, the codecs of the records), parsers of URLs. Hypotheses on them are documented
  behaviour: what is printed of a JSON object (in its canonical form) is parsed again, what is encrypted is decrypted
  under the same key, a read of the key ring fails or gives what is there. Each is
  instantiated in a witness.

  \<^bold>\<open>Not modelled.\<close> The calls of the operating system (sockets, the key ring, the creation and the permissions of
  files; a file is replaced as a whole), cryptography, the construction of HTTP clients and the parsing of
  \<open>Retry-After\<close> as a floating-point number or a date, because their code is not in the repository. The providers
  of web sessions (\<open>chatgpt_web.rs\<close>, \<open>deepseek_web.rs\<close>) only return an error. The accessors of newtypes, the
  implementations of \<open>Debug\<close> that redact, and the methods of the Python bindings and of \<open>auth.rs\<close> that pass a
  call on have no behaviour of their own. Poisoned locks are modelled where the code does not recover the
  data (the provider registry).
\<close>

section \<open>From the provider to the log of the run\<close>

text \<open>The deltas of a log: the text and the reasoning of the run so far.\<close>

fun event_text :: "run_event \<Rightarrow> str" where
  "event_text (EvModelDelta d) = d"
| "event_text _ = []"

fun event_reasoning :: "run_event \<Rightarrow> str" where
  "event_reasoning (EvReasoningDelta d) = d"
| "event_reasoning _ = []"

definition log_text :: "run_event_envelope list \<Rightarrow> str" where
  "log_text es = concat (map (\<lambda>e. event_text (env_event e)) es)"

definition log_reasoning :: "run_event_envelope list \<Rightarrow> str" where
  "log_reasoning es = concat (map (\<lambda>e. event_reasoning (env_event e)) es)"

definition moment_shows :: "'w moment list \<Rightarrow> sink_event list" where
  "moment_shows moments = List.map_filter (\<lambda>m. case m of Shows e \<Rightarrow> Some e | Meanwhile f \<Rightarrow> None) moments"

text \<open>What others do while the provider works: any steps of the table, but no deltas of this run.\<close>

definition bystander :: "run_id \<Rightarrow> 'w moment \<Rightarrow> bool" where
  "bystander run m =
     (case m of
        Shows e \<Rightarrow> True
      | Meanwhile f \<Rightarrow>
          (\<forall>v. tab_step\<^sup>*\<^sup>* (cw_table v) (cw_table (f v))
             \<and> map_option (\<lambda>r. (log_text (rr_events r), log_reasoning (rr_events r))) (tab_get (cw_table (f v)) run)
               = map_option (\<lambda>r. (log_text (rr_events r), log_reasoning (rr_events r))) (tab_get (cw_table v) run)))"

text \<open>The log has the given deltas, or the run has ended and it has a part of them.\<close>

definition log_has :: "run_id \<Rightarrow> str \<Rightarrow> str \<Rightarrow> run_table \<Rightarrow> bool" where
  "log_has run text reasoning t =
     (\<exists>r. tab_get t run = Some r \<and> tab_step\<^sup>*\<^sup>* tab_new t
        \<and> prefix (log_text (rr_events r)) text \<and> prefix (log_reasoning (rr_events r)) reasoning
        \<and> (is_terminal (rr_state r) \<or> log_text (rr_events r) = text \<and> log_reasoning (rr_events r) = reasoning))"

lemma sink_event_plain: "terminal_state (sink_run_event e) = None" "\<not> is_run_started (sink_run_event e)"
  by (cases e; simp)+

lemma sink_event_texts:
  "event_text (sink_run_event e) = text_of_event e" "event_reasoning (sink_run_event e) = reasoning_of_event e"
  by (cases e; simp)+

lemma sink_emit:
  assumes "tab_step\<^sup>*\<^sup>* tab_new t" "tab_get t run = Some r"
  shows "tab_step\<^sup>*\<^sup>* t (snd (emit U run (sink_run_event e) t))"
    and "\<exists>r'. tab_get (snd (emit U run (sink_run_event e) t)) run = Some r' \<and> rr_state r' = rr_state r
      \<and> (if is_terminal (rr_state r) then rr_events r' = rr_events r
         else \<exists>n. rr_events r' = rr_events r
           @ [\<lparr>env_sequence = n, env_run_id = run, env_event = sink_run_event e\<rparr>])"
proof -
  show "tab_step\<^sup>*\<^sup>* t (snd (emit U run (sink_run_event e) t))"
    using table_history_steps [of t U "[TabEmit run (sink_run_event e)]"] by (simp add: table_history_def)
  from tab_reachable_unpoisoned [OF assms(1)] have rec: "tab_record t run = Inr r" using assms(2) by simp
  from tab_reachable_ok [OF assms] have ok: "run_ok r" and id: "ctx_run_id (rr_context r) = run"
    by (simp_all add: fresh_ok_def)
  have emit: "snd (emit U run (sink_run_event e) t) =
      snd (waking (record_section run (emit_section (sink_run_event e)) t))"
    by (simp add: emit_def sink_event_plain)
  show "\<exists>r'. tab_get (snd (emit U run (sink_run_event e) t)) run = Some r' \<and> rr_state r' = rr_state r
      \<and> (if is_terminal (rr_state r) then rr_events r' = rr_events r
         else \<exists>n. rr_events r' = rr_events r
           @ [\<lparr>env_sequence = n, env_run_id = run, env_event = sink_run_event e\<rparr>])"
  proof (cases "is_terminal (rr_state r)")
    case True
    then show ?thesis using assms(2) by (simp add: emit record_section_def rec emit_section_def waking_def)
  next
    case False
    with ok have "log_ok (rr_context r) (rr_events r)" "terminal_state (env_event (last (rr_events r))) = None"
      by (simp_all add: run_ok_def)
    from append_event_open [OF this, of "sink_run_event e"] False id
    show ?thesis by (simp add: emit record_section_def rec emit_section_def waking_def)
  qed
qed

lemma log_has_shows:
  assumes "log_has run text reasoning (cw_table w)"
  shows "log_has run (text @ text_of_event e) (reasoning @ reasoning_of_event e)
    (cw_table (runtime_model_sink U run e w))"
proof -
  obtain r where r: "tab_get (cw_table w) run = Some r" "tab_step\<^sup>*\<^sup>* tab_new (cw_table w)"
    "prefix (log_text (rr_events r)) text" "prefix (log_reasoning (rr_events r)) reasoning"
    "is_terminal (rr_state r) \<or> log_text (rr_events r) = text \<and> log_reasoning (rr_events r) = reasoning"
    using assms by (auto simp: log_has_def)
  from sink_emit(2) [OF r(2,1), of U e] obtain r' where
    r': "tab_get (snd (emit U run (sink_run_event e) (cw_table w))) run = Some r'" "rr_state r' = rr_state r"
    "if is_terminal (rr_state r) then rr_events r' = rr_events r
     else \<exists>n. rr_events r' = rr_events r @ [\<lparr>env_sequence = n, env_run_id = run, env_event = sink_run_event e\<rparr>]"
    by blast
  have "tab_step\<^sup>*\<^sup>* tab_new (snd (emit U run (sink_run_event e) (cw_table w)))"
    using sink_emit(1) [OF r(2,1)] r(2) by (rule steps_trans [rotated])
  moreover have "prefix (log_text (rr_events r')) (text @ text_of_event e)
      \<and> prefix (log_reasoning (rr_events r')) (reasoning @ reasoning_of_event e)
      \<and> (is_terminal (rr_state r') \<or> log_text (rr_events r') = text @ text_of_event e
          \<and> log_reasoning (rr_events r') = reasoning @ reasoning_of_event e)"
    using r(3-5) r'(2,3)
    by (cases "is_terminal (rr_state r)") (auto simp: log_text_def log_reasoning_def sink_event_texts)
  ultimately show ?thesis using r'(1) by (auto simp: log_has_def runtime_model_sink_def)
qed

lemma log_has_meanwhile:
  assumes "log_has run text reasoning (cw_table w)" "bystander run (Meanwhile f)"
  shows "log_has run text reasoning (cw_table (f w))"
proof -
  obtain r where r: "tab_get (cw_table w) run = Some r" "tab_step\<^sup>*\<^sup>* tab_new (cw_table w)"
    "prefix (log_text (rr_events r)) text" "prefix (log_reasoning (rr_events r)) reasoning"
    "is_terminal (rr_state r) \<or> log_text (rr_events r) = text \<and> log_reasoning (rr_events r) = reasoning"
    using assms by (auto simp: log_has_def)
  from assms(2) have step: "tab_step\<^sup>*\<^sup>* (cw_table w) (cw_table (f w))"
    and same: "map_option (\<lambda>r. (log_text (rr_events r), log_reasoning (rr_events r))) (tab_get (cw_table (f w)) run)
      = Some (log_text (rr_events r), log_reasoning (rr_events r))"
    using r(1) by (auto simp: bystander_def)
  obtain r' where r': "tab_get (cw_table (f w)) run = Some r'" "run_grows r r'"
    using table_evolves_SomeD [OF tab_steps_evolve [OF step] r(1)] by blast
  have "is_terminal (rr_state r) \<Longrightarrow> is_terminal (rr_state r')"
    using tab_reachable_ok [OF r(2,1)] r'(2) by (simp add: run_grows_def fresh_ok_def)
  with r r'(1) same step show ?thesis by (auto simp: log_has_def intro: steps_trans)
qed

lemma log_has_moments:
  "log_has run text reasoning (cw_table w) \<Longrightarrow> list_all (bystander run) moments \<Longrightarrow>
     log_has run (text @ shown_text (moment_shows moments)) (reasoning @ shown_reasoning (moment_shows moments))
       (cw_table (fold (\<lambda>m. case m of Shows e \<Rightarrow> runtime_model_sink U run e | Meanwhile f \<Rightarrow> f) moments w))"
proof (induction moments arbitrary: w "text" reasoning)
  case (Cons m moments)
  show ?case
  proof (cases m)
    case (Shows e)
    from Cons.IH [OF log_has_shows [OF Cons.prems(1), of e U]] Cons.prems(2) show ?thesis
      by (simp add: Shows moment_shows_def List.map_filter_simps)
  next
    case (Meanwhile f)
    from Cons.IH [OF log_has_meanwhile [OF Cons.prems(1), of f]] Cons.prems(2) show ?thesis
      by (simp add: Meanwhile moment_shows_def List.map_filter_simps)
  qed
qed (simp add: moment_shows_def List.map_filter_simps)

text \<open>
  C3. The log of a run spells the answers of its provider. When the turns of a run come from the
  provider of an OpenAI-compatible API and one returns an answer, then whatever others do with
  the table meanwhile (as long as they emit no deltas of the run), after the turn the deltas of
  the log have grown by exactly the text and the reasoning that were shown, in order, unless the run was
  ended meanwhile: then they are a part of that. What was shown spells the answer, as \<open>spelt\<close>
  says by family: text and reasoning of the turn for all but two; for Kimi the text, and the
  reasoning up to the place of the thoughts cut out of the text; for Qwen the reasoning, and the
  text unless the deltas stop within a possible start of the summary tag.
\<close>

theorem log_spells_the_answer:
  assumes "openai_next_turn W config q = (shown, Inr turn)"
    and "fac_next_turn F p q w = (Some (Inr turn), moments)" "moment_shows moments = shown"
    and "list_all (bystander run) moments"
    and "tab_step\<^sup>*\<^sup>* tab_new (cw_table w)" "tab_get (cw_table w) run = Some r"
  shows "\<exists>r'. tab_get (cw_table (snd (provider_turn F run p q w))) run = Some r'
    \<and> fst (provider_turn F run p q w) = Some (Inr turn)
    \<and> spelt W config (shown_text shown) (shown_reasoning shown) turn
    \<and> prefix (log_text (rr_events r')) (log_text (rr_events r) @ shown_text shown)
    \<and> prefix (log_reasoning (rr_events r')) (log_reasoning (rr_events r) @ shown_reasoning shown)
    \<and> (is_terminal (rr_state r')
       \<or> log_text (rr_events r') = log_text (rr_events r) @ shown_text shown
         \<and> log_reasoning (rr_events r') = log_reasoning (rr_events r) @ shown_reasoning shown)"
proof -
  have "log_has run (log_text (rr_events r)) (log_reasoning (rr_events r)) (cw_table w)"
    using assms(5,6) by (simp add: log_has_def)
  from log_has_moments [OF this assms(4)] next_turn_spelt [OF assms(1)] assms(2,3)
  show ?thesis by (auto simp: provider_turn_def log_has_def)
qed


text \<open>A facade whose provider is the sample provider; somebody looks at the table in between.\<close>

definition sample_provider_facade :: "(unit, unit, memory_state) facade_env" where
  "sample_provider_facade = sample_memory_facade\<lparr>fac_next_turn := (\<lambda>_ q w.
     (Some (snd (openai_next_turn sample_provider_world custom_config q)),
      map Shows (fst (openai_next_turn sample_provider_world custom_config q)) @ [Meanwhile (\<lambda>v. v)]))\<rparr>"

theorem log_spells_the_answer_witness:
  "\<exists>r'. tab_get (cw_table (snd (provider_turn sample_provider_facade (RunId 1) () sample_turn_request
       sample_memory_world))) (RunId 1) = Some r'
     \<and> prefix (log_text (rr_events r')) ''ok''"
proof -
  let ?turn = "chat_finish sample_uuid_lib body_lib sample_chat"
  let ?moments = "[Shows (SinkText ''ok''), Meanwhile (\<lambda>v. v)]"
  have F: "fac_next_turn sample_provider_facade () sample_turn_request sample_memory_world
      = (Some (Inr ?turn), ?moments)" "moment_shows ?moments = [SinkText ''ok'']"
    "list_all (bystander (RunId 1)) ?moments"
    by (simp_all add: sample_provider_facade_def sample_next_turn moment_shows_def List.map_filter_simps
        bystander_def)
  have w: "tab_step\<^sup>*\<^sup>* tab_new (cw_table sample_memory_world)"
    "tab_get (cw_table sample_memory_world) (RunId 1) = Some (new_record (sample_context 1 None) default_limits 0)"
    using sample_tree_reachable sample_root by (simp_all add: sample_facade_simps)
  from log_spells_the_answer [OF sample_next_turn F w] show ?thesis
    by (auto simp: new_record_def log_text_def)
qed

section \<open>From a tool round to the wire\<close>

lemma answer_call_id:
  assumes "answers_call call m"
  shows "tool_message_call_id U m = Some (wire_call_id U call)"
  using assms
  by (cases "call_provider_call_id call")
    (auto simp: answers_call_def tool_message_call_id_def wire_call_id_def get_str_def
      split: option.splits if_splits)

lemma chat_answer:
  assumes "answers_call call m"
  shows "get_str (message_to_wire U L m) ''tool_call_id'' = Some (wire_call_id U call)"
  using assms answer_call_id [OF assms]
  by (simp add: answers_call_def message_to_wire_def Let_def get_str_def)

lemma call_wire_id: "get_str (call_to_wire U L m call) ''id'' = Some (wire_call_id U call)"
  by (simp add: call_to_wire_def put_object_def get_str_def split: option.split)

lemma responses_input_append:
  "fst (responses_input U L (xs @ ys) ids)
     = fst (responses_input U L xs ids) @ fst (responses_input U L ys (snd (responses_input U L xs ids)))"
  by (induction xs arbitrary: ids) (auto split: prod.split)

lemma responses_answers:
  "list_all2 answers_call calls ms \<Longrightarrow> list_all dispatchable calls \<Longrightarrow>
     map (\<lambda>item. get_str item ''call_id'') (fst (responses_input U L ms ids)) = map (\<lambda>c. Some (wire_call_id U c)) calls
     \<and> list_all (\<lambda>item. get_str item ''type'' = Some ''function_call_output'') (fst (responses_input U L ms ids))"
proof (induction calls ms arbitrary: ids rule: list_all2_induct)
  case (Cons call calls m ms)
  from Cons.hyps(1) Cons.prems have "resolve_function_call_id U m ids = wire_call_id U call"
    by (auto simp: answers_call_def dispatchable_def resolve_function_call_id_def wire_call_id_def get_str_def
        split: option.splits)
  with Cons show ?case
    by (auto simp: message_to_responses_items_def answers_call_def function_call_output_item_def get_str_def)
qed simp

text \<open>
  C14. A tool round reaches the provider with the identifiers it gave its calls. When the agent loop
  goes on after a turn with calls the provider has validated, then in the body of the next
  request, Chat Completions or Responses, the answers are the last messages, one per call and in
  order, each under the identifier the provider knows the call by; and in Chat Completions these
  are the identifiers under which the assistant's message before them lists the calls.
\<close>

theorem tool_answers_reach_the_wire:
  assumes "after_turn n E run request counts turn w = RoundAgain request' counts' w'"
    and "turn_terminal turn = TermToolCalls" "list_all dispatchable (turn_tool_calls turn)"
  shows "\<exists>answers items outputs. let ids = map (\<lambda>c. Some (wire_call_id U c)) (turn_tool_calls turn) in
      map (message_to_wire U L) (req_messages request') = map (message_to_wire U L) (req_messages request)
        @ message_to_wire U L (assistant_message turn) # answers
      \<and> map (\<lambda>m. get_str m ''tool_call_id'') answers = ids
      \<and> map (\<lambda>c. get_str (call_to_wire U L (assistant_message turn) c) ''id'') (turn_tool_calls turn) = ids
      \<and> fst (responses_input U L (req_messages request') Map.empty) = items @ outputs
      \<and> map (\<lambda>item. get_str item ''call_id'') outputs = ids
      \<and> list_all (\<lambda>item. get_str item ''type'' = Some ''function_call_output'') outputs"
proof -
  obtain results where q: "req_messages request' = (req_messages request @ [assistant_message turn]) @ results"
    and answers: "list_all2 answers_call (turn_tool_calls turn) results"
    using tool_round_answers [OF assms(1,2)] by auto
  have chat: "map (\<lambda>m. get_str (message_to_wire U L m) ''tool_call_id'') results
      = map (\<lambda>c. Some (wire_call_id U c)) (turn_tool_calls turn)"
    using answers by (induction rule: list_all2_induct) (simp_all add: chat_answer)
  let ?before = "responses_input U L (req_messages request @ [assistant_message turn]) Map.empty"
  let ?outputs = "fst (responses_input U L results (snd ?before))"
  have responses: "fst (responses_input U L (req_messages request') Map.empty) = fst ?before @ ?outputs"
    by (simp only: q responses_input_append)
  have wire: "map (message_to_wire U L) (req_messages request') = map (message_to_wire U L) (req_messages request)
      @ message_to_wire U L (assistant_message turn) # map (message_to_wire U L) results"
    by (simp add: q)
  have listed: "map (\<lambda>c. get_str (call_to_wire U L (assistant_message turn) c) ''id'') (turn_tool_calls turn)
      = map (\<lambda>c. Some (wire_call_id U c)) (turn_tool_calls turn)"
    by (simp only: call_wire_id)
  have chat': "map (\<lambda>m. get_str m ''tool_call_id'') (map (message_to_wire U L) results)
      = map (\<lambda>c. Some (wire_call_id U c)) (turn_tool_calls turn)"
    using chat by (simp only: list.map_comp comp_def)
  show ?thesis
    unfolding Let_def using wire chat' listed responses responses_answers [OF answers assms(3), of U L "snd ?before"]
    by blast
qed

definition sample_wire_call :: tool_call where
  "sample_wire_call = sample_call\<lparr>call_arguments := JObject [], call_provider_call_id := Some ''c1''\<rparr>"

theorem tool_answers_reach_the_wire_witness:
  "\<exists>q c w' answers. after_turn (Suc (Suc (Suc 0))) sample_env (RunId 1) sample_request
       (counts_for_limits default_limits) (sample_turn TermToolCalls [sample_wire_call]) sample_world
     = RoundAgain q c w'
   \<and> map (message_to_wire sample_uuid_lib body_lib) (req_messages q)
       = message_to_wire sample_uuid_lib body_lib (assistant_message (sample_turn TermToolCalls [sample_wire_call]))
           # answers
   \<and> map (\<lambda>m. get_str m ''tool_call_id'') answers = [Some ''c1'']"
proof -
  have "\<exists>q c w'. after_turn (Suc (Suc (Suc 0))) sample_env (RunId 1) sample_request
       (counts_for_limits default_limits) (sample_turn TermToolCalls [sample_wire_call]) sample_world
     = RoundAgain q c w'"
    by (simp add: sample_wire_call_def sample_loop_simps sample_coord_simps sample_table_simps)
  then obtain q c w' where at: "after_turn (Suc (Suc (Suc 0))) sample_env (RunId 1) sample_request
       (counts_for_limits default_limits) (sample_turn TermToolCalls [sample_wire_call]) sample_world
     = RoundAgain q c w'" by blast
  have turn: "turn_terminal (sample_turn TermToolCalls [sample_wire_call]) = TermToolCalls"
    "turn_tool_calls (sample_turn TermToolCalls [sample_wire_call]) = [sample_wire_call]"
    by (simp_all add: sample_turn_def)
  have call: "list_all dispatchable [sample_wire_call]" "wire_call_id U sample_wire_call = ''c1''" for U
    by (simp_all add: sample_wire_call_def sample_call_def dispatchable_def wire_call_id_def is_object_def
        trim_graphic graphic_def)
  from tool_answers_reach_the_wire [OF at turn(1), unfolded turn(2), OF call(1), of sample_uuid_lib body_lib] at
  show ?thesis by (auto simp: call Let_def sample_request_def)
qed

section \<open>From a policy in Python to the executor\<close>

text \<open>
  C19. A tool runs only with consent. In an agent whose policy is written in Python, a task reaches
  its executor in a step only if the callback was asked about this very tool and these very
  arguments and answered with an object that says \<open>allow\<close>, or if the host approved the operation
  the callback demanded; whatever the callback raises or returns besides, the tool does not run.
\<close>

theorem python_tool_needs_consent:
  assumes "env_policy E = agent_policy P to_string (Some callback)"
    and "task_step E run t w = (TaskRunning call i x approved, w')"
  shows "case approved of
      None \<Rightarrow> \<exists>registered raw v. tool_resolve (call_name call) (env_tools E) = Some registered
        \<and> callback (tool_name (rt_descriptor registered)) (to_string (inv_arguments i))
            (effect_name (tool_effect_of (rt_descriptor registered))) = Inr raw
        \<and> P raw = Inr v \<and> get_str v ''decision'' = Some ''allow''
    | Some (op, mode) \<Rightarrow> t = TaskWaiting call i x op mode
        \<and> (\<exists>d. look_in mode run op (tab_operations (cw_table w)) = Ready (Inr (Approve d)))"
  using running_has_permission [OF assms(2)] assms(1)
  by (cases approved) (auto simp: agent_policy_def python_policy_allows)

theorem python_tool_needs_consent_witness:
  "let answer = json_obj [(''decision'', JString ''allow'')];
     E = sample_env\<lparr>env_policy := agent_policy (\<lambda>_. Inr answer) (\<lambda>_. ''null'') (Some (\<lambda>_ _ _. Inr ''x''))\<rparr>
   in \<exists>i w'. task_step E (RunId 1) (TaskNew sample_call) sample_world = (TaskRunning sample_call i () None, w')
     \<and> get_str answer ''decision'' = Some ''allow''"
proof -
  let ?answer = "json_obj [(''decision'', JString ''allow'')]"
  let ?E = "sample_env\<lparr>env_policy := agent_policy (\<lambda>_. Inr ?answer) (\<lambda>_. ''null'') (Some (\<lambda>_ _ _. Inr ''x''))\<rparr>"
  have "\<exists>i w'. task_step ?E (RunId 1) (TaskNew sample_call) sample_world = (TaskRunning sample_call i () None, w')"
    by (simp add: sample_loop_simps sample_coord_simps sample_table_simps agent_policy_def python_policy_def
        parse_policy_decision_def get_str_def)
  then obtain i w' where t: "task_step ?E (RunId 1) (TaskNew sample_call) sample_world
      = (TaskRunning sample_call i () None, w')" by blast
  have "env_policy ?E = agent_policy (\<lambda>_. Inr ?answer) (\<lambda>_. ''null'') (Some (\<lambda>_ _ _. Inr ''x''))" by simp
  from python_tool_needs_consent [OF this t] t show ?thesis by (auto simp: Let_def)
qed

end
